(* ===== verification/Quyn_Prelude.thy ===== *)
theory Quyn_Prelude
  imports Main "HOL-Library.Word" "HOL-Library.List_Lexorder" "HOL-Library.AList"
begin

text \<open>
  Shared vocabulary of the development: the machine integers of the Rust code as words, the
  outcome of a Rust computation (value, error, panic, divergence), the two ways of sequencing
  such computations, Rust's saturating and checked arithmetic, big-endian byte strings,
  the parts of the standard library's strings the code uses, and \<open>BTreeMap\<close> as a sorted
  association list.

  Native integer arithmetic is modelled with the overflow checks of the profile the README
  builds with (\<open>cargo build\<close>, \<open>cargo run\<close>): an overflow is a panic. \<open>U256\<close> operators
  of the ruint crate wrap, and its \<open>saturating_*\<close> methods saturate.
\<close>

section \<open>Machine integers\<close>

type_synonym u8 = "8 word"
type_synonym u16 = "16 word"
type_synonym u32 = "32 word"
type_synonym u64 = "64 word"
type_synonym u128 = "128 word"
type_synonym u256 = "256 word"

type_synonym bytes = "u8 list"

text \<open>\<open>Address\<close> is \<open>[u8; 20]\<close> and \<open>B256\<close> is \<open>[u8; 32]\<close>: a word read big-endian.\<close>

type_synonym address = "160 word"
type_synonym b256 = "256 word"

named_theorems quyn_simps \<open>unfolding rules of the model's small combinators\<close>

section \<open>Outcomes and actions\<close>

text \<open>
  The outcome of running a piece of Rust: a value, an \<open>Err\<close> of the function's \<open>Result\<close>,
  a panic, or no outcome at all (a loop that never ends).
\<close>

datatype ('e, 'a) outcome = Ok 'a | Err 'e | Panic | Diverge

fun obind :: "('e, 'a) outcome \<Rightarrow> ('a \<Rightarrow> ('e, 'b) outcome) \<Rightarrow> ('e, 'b) outcome" where
  "obind (Ok x) f = f x"
| "obind (Err e) f = Err e"
| "obind Panic f = Panic"
| "obind Diverge f = Diverge"

text \<open>\<open>r.map_err(g)\<close>\<close>

fun map_err :: "('e \<Rightarrow> 'f) \<Rightarrow> ('e, 'a) outcome \<Rightarrow> ('f, 'a) outcome" where
  "map_err g (Ok x) = Ok x"
| "map_err g (Err e) = Err (g e)"
| "map_err g Panic = Panic"
| "map_err g Diverge = Diverge"

fun of_sum :: "('e \<Rightarrow> 'f) \<Rightarrow> 'e + 'a \<Rightarrow> ('f, 'a) outcome" where
  "of_sum g (Inl e) = Err (g e)"
| "of_sum g (Inr x) = Ok x"

text \<open>A loop defined by a partial function: \<open>None\<close> is a loop that does not return.\<close>

fun of_loop :: "('e, 'a) outcome option \<Rightarrow> ('e, 'a) outcome" where
  "of_loop None = Diverge"
| "of_loop (Some r) = r"

text \<open>
  An action runs on a mutable resource (a database, a pool): it returns its outcome and the
  resource as the run left it, also when it failed half-way.
\<close>

type_synonym ('s, 'e, 'a) act = "'s \<Rightarrow> ('e, 'a) outcome \<times> 's"

definition aret :: "'a \<Rightarrow> ('s, 'e, 'a) act" where
  "aret x s = (Ok x, s)"

definition afail :: "'e \<Rightarrow> ('s, 'e, 'a) act" where
  "afail e s = (Err e, s)"

definition alift :: "('e, 'a) outcome \<Rightarrow> ('s, 'e, 'a) act" where
  "alift r s = (r, s)"

definition aread :: "('s \<Rightarrow> ('e, 'a) outcome) \<Rightarrow> ('s, 'e, 'a) act" where
  "aread f s = (f s, s)"

definition abind :: "('s, 'e, 'a) act \<Rightarrow> ('a \<Rightarrow> ('s, 'e, 'b) act) \<Rightarrow> ('s, 'e, 'b) act" where
  "abind m f s = (case m s of
       (Ok x, s') \<Rightarrow> f x s'
     | (Err e, s') \<Rightarrow> (Err e, s')
     | (Panic, s') \<Rightarrow> (Panic, s')
     | (Diverge, s') \<Rightarrow> (Diverge, s'))"

definition athen :: "('s, 'e, 'a) act \<Rightarrow> ('s, 'e, 'b) act \<Rightarrow> ('s, 'e, 'b) act" where
  "athen m n = abind m (\<lambda>_. n)"

text \<open>Run the body for every element, stopping at the first failure.\<close>

fun afor :: "'x list \<Rightarrow> ('x \<Rightarrow> ('s, 'e, unit) act) \<Rightarrow> ('s, 'e, unit) act" where
  "afor [] f s = (Ok (), s)"
| "afor (x # xs) f s = abind (f x) (\<lambda>_. afor xs f) s"

lemmas act_simps [quyn_simps] =
  aret_def afail_def alift_def aread_def athen_def

lemma abind_Ok [simp]: "m s = (Ok x, s') \<Longrightarrow> abind m f s = f x s'"
  by (simp add: abind_def)

lemma abind_Err [simp]: "m s = (Err e, s') \<Longrightarrow> abind m f s = (Err e, s')"
  by (simp add: abind_def)

lemma abind_Panic [simp]: "m s = (Panic, s') \<Longrightarrow> abind m f s = (Panic, s')"
  by (simp add: abind_def)

lemma abind_Diverge [simp]: "m s = (Diverge, s') \<Longrightarrow> abind m f s = (Diverge, s')"
  by (simp add: abind_def)

lemma abind_aret [simp]: "abind (aret x) f s = f x s"
  by (simp add: aret_def)

lemma abind_afail [simp]: "abind (afail e) f s = (Err e, s)"
  by (simp add: afail_def)

lemma abind_aread: "abind (aread g) f s = (case g s of
     Ok x \<Rightarrow> f x s | Err e \<Rightarrow> (Err e, s) | Panic \<Rightarrow> (Panic, s) | Diverge \<Rightarrow> (Diverge, s))"
  by (simp add: abind_def aread_def split: outcome.splits)

lemma abind_alift: "abind (alift g) f s = (case g of
     Ok x \<Rightarrow> f x s | Err e \<Rightarrow> (Err e, s) | Panic \<Rightarrow> (Panic, s) | Diverge \<Rightarrow> (Diverge, s))"
  by (simp add: abind_def alift_def split: outcome.splits)

lemma abind_eq_Ok:
  "abind m f s = (Ok y, s'') \<longleftrightarrow> (\<exists>x s'. m s = (Ok x, s') \<and> f x s' = (Ok y, s''))"
  by (auto simp: abind_def split: prod.splits outcome.splits)

lemma obind_eq_Ok: "obind r f = Ok y \<longleftrightarrow> (\<exists>x. r = Ok x \<and> f x = Ok y)"
  by (cases r) auto

lemma obind_eq_Panic: "obind r f = Panic \<longleftrightarrow> r = Panic \<or> (\<exists>x. r = Ok x \<and> f x = Panic)"
  by (cases r) auto

lemma obind_assoc: "obind (obind r f) g = obind r (\<lambda>x. obind (f x) g)"
  by (cases r) auto

lemma of_sum_eq_Ok: "of_sum g r = Ok x \<longleftrightarrow> r = Inr x"
  by (cases r) auto

lemma map_err_eq_Ok [simp]: "map_err g r = Ok x \<longleftrightarrow> r = Ok x"
  by (cases r) auto

section \<open>Rust arithmetic\<close>

definition sat_add :: "'a::len word \<Rightarrow> 'a word \<Rightarrow> 'a word" where
  "sat_add a b = (if unat a + unat b < 2 ^ LENGTH('a) then a + b else - 1)"

definition sat_sub :: "'a::len word \<Rightarrow> 'a word \<Rightarrow> 'a word" where
  "sat_sub a b = (if b \<le> a then a - b else 0)"

definition sat_mul :: "'a::len word \<Rightarrow> 'a word \<Rightarrow> 'a word" where
  "sat_mul a b = (if unat a * unat b < 2 ^ LENGTH('a) then a * b else - 1)"

text \<open>The operators \<open>+\<close>, \<open>-\<close>, \<open>*\<close> on native integers: overflow panics.\<close>

definition chk_add :: "'a::len word \<Rightarrow> 'a word \<Rightarrow> ('e, 'a word) outcome" where
  "chk_add a b = (if unat a + unat b < 2 ^ LENGTH('a) then Ok (a + b) else Panic)"

definition chk_sub :: "'a::len word \<Rightarrow> 'a word \<Rightarrow> ('e, 'a word) outcome" where
  "chk_sub a b = (if b \<le> a then Ok (a - b) else Panic)"

definition chk_mul :: "'a::len word \<Rightarrow> 'a word \<Rightarrow> ('e, 'a word) outcome" where
  "chk_mul a b = (if unat a * unat b < 2 ^ LENGTH('a) then Ok (a * b) else Panic)"

text \<open>\<open>x.to::<u128>()\<close> of a \<open>U256\<close> panics when the value does not fit.\<close>

definition to_u128 :: "u256 \<Rightarrow> ('e, u128) outcome" where
  "to_u128 x = (if unat x < 2 ^ 128 then Ok (ucast x) else Panic)"

lemma unat_less: "unat (w :: 'a::len word) < 2 ^ LENGTH('a)"
  by (rule unsigned_less)

lemma unat_max: "unat (- 1 :: 'a::len word) = 2 ^ LENGTH('a) - 1"
  by (simp add: unsigned_minus_1_eq_mask mask_eq_exp_minus_1)

lemma unat_sat_add:
  "unat (sat_add a b :: 'a::len word) = min (unat a + unat b) (2 ^ LENGTH('a) - 1)"
  by (auto simp: sat_add_def unat_word_ariths unat_max)

lemma unat_sat_sub: "unat (sat_sub a b) = unat a - unat b"
  by (simp add: sat_sub_def unat_sub word_le_nat_alt)

lemma unat_sat_mul:
  "unat (sat_mul a b :: 'a::len word) = min (unat a * unat b) (2 ^ LENGTH('a) - 1)"
  by (auto simp: sat_mul_def unat_word_ariths unat_max)

lemma sat_add_0 [simp]: "sat_add 0 b = b" "sat_add a 0 = a"
  by (simp_all add: sat_add_def)

lemma chk_add_Ok: "chk_add a b = Ok c \<Longrightarrow> unat c = unat a + unat b"
  by (auto simp: chk_add_def unat_word_ariths split: if_splits)

lemma to_u128_Ok: "to_u128 x = Ok y \<Longrightarrow> unat y = unat x \<and> unat x < 2 ^ 128"
  by (auto simp: to_u128_def unsigned_ucast_eq take_bit_nat_eq_self split: if_splits)

lemma to_u128_small: "unat x < 2 ^ 128 \<Longrightarrow> to_u128 x = Ok (ucast x)"
  by (simp add: to_u128_def)

section \<open>Big-endian bytes\<close>

primrec be_nat :: "nat \<Rightarrow> nat \<Rightarrow> bytes" where
  "be_nat 0 x = []"
| "be_nat (Suc n) x = be_nat n (x div 256) @ [of_nat (x mod 256)]"

definition nat_of_be :: "bytes \<Rightarrow> nat" where
  "nat_of_be bs = foldl (\<lambda>acc b. acc * 256 + unat b) 0 bs"

text \<open>\<open>to_be_bytes\<close> of the four widths, and \<open>as_slice\<close> of \<open>Address\<close> and \<open>B256\<close>.\<close>

definition u32_be :: "u32 \<Rightarrow> bytes" where "u32_be x = be_nat 4 (unat x)"
definition u64_be :: "u64 \<Rightarrow> bytes" where "u64_be x = be_nat 8 (unat x)"
definition u256_be :: "u256 \<Rightarrow> bytes" where "u256_be x = be_nat 32 (unat x)"
definition address_bytes :: "address \<Rightarrow> bytes" where "address_bytes x = be_nat 20 (unat x)"
definition b256_bytes :: "b256 \<Rightarrow> bytes" where "b256_bytes x = be_nat 32 (unat x)"

text \<open>\<open>from_be_bytes\<close> and \<open>from_slice\<close>, at the length the caller has checked.\<close>

definition of_be :: "bytes \<Rightarrow> 'a::len word" where
  "of_be bs = of_nat (nat_of_be bs)"

text \<open>\<open>Address::from_slice\<close> and \<open>B256::from_slice\<close> panic at any other length.\<close>

definition address_from_slice :: "bytes \<Rightarrow> ('e, address) outcome" where
  "address_from_slice bs = (if length bs = 20 then Ok (of_be bs) else Panic)"

definition b256_from_slice :: "bytes \<Rightarrow> ('e, b256) outcome" where
  "b256_from_slice bs = (if length bs = 32 then Ok (of_be bs) else Panic)"

text \<open>
  The idiom \<open>let mut buf = [0u8; n]; let len = v.len().min(n);
  buf[n - len..].copy_from_slice(&v)\<close>: left-pads a short value, and panics on a longer one,
  because the slice then has \<open>n\<close> bytes and \<open>v\<close> more.
\<close>

definition left_pad :: "nat \<Rightarrow> bytes \<Rightarrow> ('e, bytes) outcome" where
  "left_pad n v = (if length v \<le> n then Ok (replicate (n - length v) 0 @ v) else Panic)"

lemma length_be_nat [simp]: "length (be_nat n x) = n"
  by (induction n arbitrary: x) auto

lemma nat_of_be_Nil [simp]: "nat_of_be [] = 0"
  by (simp add: nat_of_be_def)

lemma nat_of_be_snoc [simp]: "nat_of_be (bs @ [b]) = nat_of_be bs * 256 + unat b"
  by (simp add: nat_of_be_def)

lemma nat_of_be_be_nat: "nat_of_be (be_nat n x) = x mod 256 ^ n"
proof (induction n arbitrary: x)
  case 0
  then show ?case by simp
next
  case (Suc n)
  have "nat_of_be (be_nat (Suc n) x) = (x div 256) mod 256 ^ n * 256 + x mod 256"
    by (simp add: Suc.IH unat_of_nat)
  also have "\<dots> = x mod 256 ^ Suc n"
    by (simp add: mod_mult2_eq mult.commute)
  finally show ?case .
qed

lemma be_nat_0 [simp]: "be_nat n 0 = replicate n 0"
  by (induction n) (auto simp: replicate_append_same)

lemma be_nat_small: "x < 256 \<Longrightarrow> be_nat (Suc n) x = replicate n 0 @ [of_nat x]"
  by simp

lemma nat_of_be_less: "nat_of_be bs < 256 ^ length bs"
proof (induction bs rule: rev_induct)
  case Nil
  then show ?case by simp
next
  case (snoc b bs)
  have "unat b < 256" using unat_less [of b] by simp
  with snoc show ?case by simp
qed

lemma be_nat_nat_of_be: "be_nat (length bs) (nat_of_be bs) = bs"
proof (induction bs rule: rev_induct)
  case Nil
  then show ?case by simp
next
  case (snoc b bs)
  have "unat b < 256" using unat_less [of b] by simp
  with snoc show ?case by simp
qed

lemma be_nat_inj:
  assumes "be_nat n x = be_nat n y" and "x < 256 ^ n" and "y < 256 ^ n"
  shows "x = y"
  by (metis assms mod_less nat_of_be_be_nat)

lemma nat_of_be_replicate_0 [simp]: "nat_of_be (replicate k 0 @ bs) = nat_of_be bs"
proof (induction bs rule: rev_induct)
  case Nil
  have "nat_of_be (replicate k 0) = 0"
    by (induction k) (simp_all add: nat_of_be_def)
  then show ?case by simp
next
  case (snoc b bs)
  then show ?case by (simp flip: append_assoc)
qed

lemma length_word_bytes [simp]:
  "length (u32_be a) = 4" "length (u64_be b) = 8" "length (u256_be c) = 32"
  "length (address_bytes d) = 20" "length (b256_bytes e) = 32"
  by (simp_all add: u32_be_def u64_be_def u256_be_def address_bytes_def b256_bytes_def)

lemma of_be_word_bytes [simp]:
  "of_be (u32_be a) = a" "of_be (u64_be b) = b" "of_be (u256_be c) = c"
  "of_be (address_bytes d) = d" "of_be (b256_bytes e) = e"
  using unat_less [of a] unat_less [of b]
    unat_less [of c] unat_less [of d]
    unat_less [of e]
  by (simp_all add: of_be_def u32_be_def u64_be_def u256_be_def address_bytes_def b256_bytes_def
      nat_of_be_be_nat)

lemma word_bytes_inject [simp]:
  "u32_be a = u32_be a' \<longleftrightarrow> a = a'" "u64_be b = u64_be b' \<longleftrightarrow> b = b'"
  "u256_be c = u256_be c' \<longleftrightarrow> c = c'" "address_bytes d = address_bytes d' \<longleftrightarrow> d = d'"
  "b256_bytes e = b256_bytes e' \<longleftrightarrow> e = e'"
  by (metis of_be_word_bytes(1), metis of_be_word_bytes(2), metis of_be_word_bytes(3),
      metis of_be_word_bytes(4), metis of_be_word_bytes(5))

lemma b256_bytes_small: "unat x < 256 \<Longrightarrow> b256_bytes x = replicate 31 0 @ [of_nat (unat x)]"
  using be_nat_small [of "unat x" 31] by (simp add: b256_bytes_def)

lemma from_slice_bytes [simp]:
  "address_from_slice (address_bytes a) = Ok a" "b256_from_slice (b256_bytes h) = Ok h"
  by (simp_all add: address_from_slice_def b256_from_slice_def)

lemma left_pad_self: "length v = n \<Longrightarrow> left_pad n v = Ok v"
  by (simp add: left_pad_def)

lemma left_pad_Ok: "left_pad n v = Ok w \<Longrightarrow> length w = n \<and> nat_of_be w = nat_of_be v"
  by (auto simp: left_pad_def split: if_splits)

section \<open>Strings\<close>

text \<open>A Rust string is its UTF-8 bytes; \<open>char\<close> is a byte.\<close>

definition ascii :: "string \<Rightarrow> bytes" where
  "ascii s = map (\<lambda>c. of_nat (of_char c)) s"

lemma ascii_append [simp]: "ascii (s @ t) = ascii s @ ascii t"
  by (simp add: ascii_def)

lemma ascii_inject [simp]: "ascii s = ascii t \<longleftrightarrow> s = t"
proof -
  have "c = d" if "(of_nat (of_char c) :: u8) = of_nat (of_char d)" for c d
  proof -
    from that have "unat (of_nat (of_char c) :: u8) = unat (of_nat (of_char d) :: u8)"
      by simp
    then show ?thesis by (simp add: unat_of_nat)
  qed
  then show ?thesis
    unfolding ascii_def by (intro inj_map_eq_map injI)
qed

lemma length_ascii [simp]: "length (ascii s) = length s"
  by (simp add: ascii_def)

text \<open>\<open>format!("{}", n)\<close> and \<open>format!("{:x}", n)\<close>\<close>

definition digit_char :: "nat \<Rightarrow> char" where
  "digit_char d = char_of (if d < 10 then 48 + d else 87 + d)"

function radix_string :: "nat \<Rightarrow> nat \<Rightarrow> string" where
  "radix_string r n =
     (if r < 2 \<or> n < r then [digit_char n] else radix_string r (n div r) @ [digit_char (n mod r)])"
  by pat_completeness auto
termination
  by (relation "measure snd") auto

declare radix_string.simps [simp del]

definition dec :: "nat \<Rightarrow> string" where "dec n = radix_string 10 n"
definition lower_hex :: "nat \<Rightarrow> string" where "lower_hex n = radix_string 16 n"

text \<open>\<open>strip_prefix(p).unwrap_or(s)\<close> removes one prefix, \<open>trim_start_matches(p)\<close> all of them.\<close>

definition starts_with :: "string \<Rightarrow> string \<Rightarrow> bool" where
  "starts_with p s \<longleftrightarrow> take (length p) s = p"

definition strip_prefix_or :: "string \<Rightarrow> string \<Rightarrow> string" where
  "strip_prefix_or p s = (if starts_with p s then drop (length p) s else s)"

function trim_start_matches :: "string \<Rightarrow> string \<Rightarrow> string" where
  "trim_start_matches p s =
     (if p \<noteq> [] \<and> s \<noteq> [] \<and> starts_with p s then trim_start_matches p (drop (length p) s) else s)"
  by pat_completeness auto
termination
  by (relation "measure (\<lambda>(p, s). length s)") auto

declare trim_start_matches.simps [simp del]

lemma trim_start_matches_id: "\<not> starts_with p s \<Longrightarrow> trim_start_matches p s = s"
  by (subst trim_start_matches.simps) simp

section \<open>BTreeMap\<close>

text \<open>A \<open>BTreeMap\<close> is its entries in key order.\<close>

fun bt_insert :: "'k::linorder \<Rightarrow> 'v \<Rightarrow> ('k \<times> 'v) list \<Rightarrow> ('k \<times> 'v) list" where
  "bt_insert k v [] = [(k, v)]"
| "bt_insert k v ((k', v') # m) =
     (if k < k' then (k, v) # (k', v') # m
      else if k = k' then (k, v) # m
      else (k', v') # bt_insert k v m)"

definition bt_remove :: "'k \<Rightarrow> ('k \<times> 'v) list \<Rightarrow> ('k \<times> 'v) list" where
  "bt_remove k m = filter (\<lambda>e. fst e \<noteq> k) m"

definition bt_sorted :: "('k::linorder \<times> 'v) list \<Rightarrow> bool" where
  "bt_sorted m \<longleftrightarrow> sorted_wrt (<) (map fst m)"

lemma map_of_bt_insert [simp]: "map_of (bt_insert k v m) = (map_of m)(k \<mapsto> v)"
  by (induction k v m rule: bt_insert.induct) auto

lemma set_bt_insert_keys: "fst ` set (bt_insert k v m) = insert k (fst ` set m)"
  by (induction k v m rule: bt_insert.induct) auto

lemma bt_sorted_insert [simp]: "bt_sorted m \<Longrightarrow> bt_sorted (bt_insert k v m)"
  unfolding bt_sorted_def
proof (induction k v m rule: bt_insert.induct)
  case (1 k v)
  then show ?case by simp
next
  case (2 k v k' v' m)
  then show ?case
    using set_bt_insert_keys [of k v m] by (auto simp: not_less)
qed

lemma map_of_bt_remove [simp]: "map_of (bt_remove k m) = (map_of m)(k := None)"
  by (induction m) (auto simp: bt_remove_def)

lemma bt_sorted_remove [simp]: "bt_sorted m \<Longrightarrow> bt_sorted (bt_remove k m)"
  unfolding bt_sorted_def bt_remove_def by (induction m) auto

lemma bt_sorted_distinct: "bt_sorted m \<Longrightarrow> distinct (map fst m)"
  unfolding bt_sorted_def by (simp add: strict_sorted_iff)

lemma bt_sorted_Nil [simp]: "bt_sorted []"
  by (simp add: bt_sorted_def)

lemma length_bt_insert:
  "bt_sorted m \<Longrightarrow>
     length (bt_insert k v m) = (if map_of m k = None then Suc (length m) else length m)"
  unfolding bt_sorted_def
proof (induction k v m rule: bt_insert.induct)
  case (1 k v)
  then show ?case by simp
next
  case (2 k v k' v' m)
  have "map_of m k = None" if "k < k'"
    using 2(2) that by (force simp: map_of_eq_None_iff)
  with 2 show ?case by auto
qed

end
