(* ===== verification/Quyn_Extern.thy ===== *)
theory Quyn_Extern
  imports Quyn_Prelude
begin

text \<open>
  The code that is not in this repository, as parameters of the model: the RocksDB store
  (\<open>kv\<close>), and the crates keccak / sha2 / hex / rlp / secp256k1 / ruint (\<open>ext\<close>). What the
  program relies on is stated as locales (\<open>kv_store\<close>, \<open>hex_crate\<close>, \<open>rlp_crate\<close>),
  each a documented behaviour of the crate; the functions of the model take the
  records as arguments and are total whatever they contain, so error results of the crates are
  branches of the model. A sorted in-memory store and reference crates interpret the
  locales, and are the concrete parameters of the witnesses.
\<close>

section \<open>RocksDB\<close>

text \<open>
  \<open>kv_get\<close> is \<open>DB::get\<close>, \<open>kv_put\<close> is \<open>DB::put\<close> (with the store it leaves, also when it
  fails), \<open>kv_iter\<close> is \<open>DB::iterator(IteratorMode::From(p, Forward))\<close>. An error is
  carried as the string its \<open>to_string\<close> gives.
\<close>

record 'd kv =
  kv_get :: "'d \<Rightarrow> bytes \<Rightarrow> string + bytes option"
  kv_put :: "'d \<Rightarrow> bytes \<Rightarrow> bytes \<Rightarrow> (string + unit) \<times> 'd"
  kv_iter :: "'d \<Rightarrow> bytes \<Rightarrow> (string + bytes \<times> bytes) list"

text \<open>
  A store in working order: \<open>contents\<close> is the map it holds, reads see it, writes update it,
  and iteration from a key walks the keys from there on in bytewise order.
\<close>

locale kv_store =
  fixes K :: "'d kv" and contents :: "'d \<Rightarrow> bytes \<rightharpoonup> bytes"
  assumes get_contents: "kv_get K d k = Inr (contents d k)"
    and put_succeeds: "fst (kv_put K d k v) = Inr ()"
    and put_contents: "contents (snd (kv_put K d k v)) = (contents d)(k \<mapsto> v)"
    and finite_contents: "finite (dom (contents d))"
    and iter_contents: "kv_iter K d p =
      map (\<lambda>k. Inr (k, the (contents d k))) (sorted_list_of_set {k \<in> dom (contents d). p \<le> k})"
begin

lemma put_eq: "kv_put K d k v = (Inr (), snd (kv_put K d k v))"
  using put_succeeds [of d k v] by (cases "kv_put K d k v") auto

end

text \<open>An in-memory store, its entries in no particular order.\<close>

type_synonym mem_db = "(bytes \<times> bytes) list"

definition mem_kv :: "mem_db kv" where
  "mem_kv = \<lparr>
     kv_get = (\<lambda>d k. Inr (map_of d k)),
     kv_put = (\<lambda>d k v. (Inr (), AList.update k v d)),
     kv_iter = (\<lambda>d p. map (\<lambda>k. Inr (k, the (map_of d k)))
       (sort (remdups (filter (\<lambda>k. p \<le> k) (map fst d)))))\<rparr>"

interpretation mem: kv_store mem_kv map_of
proof
  show "kv_iter mem_kv d p = map (\<lambda>k. Inr (k, the (map_of d k)))
      (sorted_list_of_set {k \<in> dom (map_of d). p \<le> k})" for d p
  proof -
    have "{k \<in> dom (map_of d). p \<le> k} = set (filter (\<lambda>k. p \<le> k) (map fst d))"
      by (auto simp: dom_map_of_conv_image_fst)
    then show ?thesis
      by (simp only: sorted_list_of_set_sort_remdups) (simp add: mem_kv_def)
  qed
qed (simp_all add: mem_kv_def update_conv' finite_dom_map_of)

section \<open>Crates\<close>

text \<open>One \<open>append\<close> to an \<open>RlpStream\<close>.\<close>

datatype rlp_item = RlpU64 u64 | RlpBytes bytes | RlpEmpty

text \<open>The byte string the rlp crate writes for it: integers are minimal big-endian.\<close>

definition strip_zeros :: "bytes \<Rightarrow> bytes" where
  "strip_zeros bs = dropWhile (\<lambda>b. b = 0) bs"

fun rlp_item_data :: "rlp_item \<Rightarrow> bytes" where
  "rlp_item_data (RlpU64 n) = strip_zeros (u64_be n)"
| "rlp_item_data (RlpBytes b) = b"
| "rlp_item_data RlpEmpty = []"

record ext =
  keccak256 :: "bytes \<Rightarrow> b256"
  sha256 :: "bytes \<Rightarrow> b256"
  hex_encode :: "bytes \<Rightarrow> string"
  hex_decode :: "string \<Rightarrow> string + bytes"
  debug_address :: "address \<Rightarrow> string"
  debug_b256 :: "b256 \<Rightarrow> string"
  u256_from_str_radix :: "string \<Rightarrow> nat \<Rightarrow> string + u256"
  rlp_stream_out :: "rlp_item list \<Rightarrow> bytes"
  rlp_is_list :: "bytes \<Rightarrow> bool"
  rlp_item_count :: "bytes \<Rightarrow> string + nat"
  rlp_at :: "bytes \<Rightarrow> nat \<Rightarrow> string + bytes"
  rlp_data :: "bytes \<Rightarrow> string + bytes"
  rlp_val_u64 :: "bytes \<Rightarrow> nat \<Rightarrow> string + u64"
  secp_recovery_id :: "int \<Rightarrow> nat option"
  secp_from_compact :: "bytes \<Rightarrow> nat \<Rightarrow> bytes option"
  secp_recover :: "bytes \<Rightarrow> bytes \<Rightarrow> bytes option"

text \<open>The hex crate: two lower-case digits a byte, and decoding inverts encoding.\<close>

definition hex_digits :: "bytes \<Rightarrow> string" where
  "hex_digits b = concat (map (\<lambda>x. [digit_char (unat x div 16), digit_char (unat x mod 16)]) b)"

locale hex_crate =
  fixes X :: ext
  assumes hex_roundtrip: "hex_decode X (hex_encode X b) = Inr b"
    and hex_encode_digits: "hex_encode X b = hex_digits b"
begin

lemma hex_length: "length (hex_encode X b) = 2 * length b"
  by (simp add: hex_encode_digits hex_digits_def length_concat comp_def sum_list_triv)

lemma hex_inject [simp]: "hex_encode X a = hex_encode X b \<longleftrightarrow> a = b"
  by (metis hex_roundtrip sum.inject(2))

end

text \<open>ruint: reading the digits \<open>format!("{:x}")\<close> prints gives the number back.\<close>

locale radix_crate =
  fixes X :: ext
  assumes from_lower_hex: "n < 2 ^ 256 \<Longrightarrow> u256_from_str_radix X (lower_hex n) 16 = Inr (of_nat n)"

text \<open>
  The rlp crate: the encoding of a list of strings starts with a byte from \<open>0xc0\<close> on and determines
  the strings; reading item
  \<open>i\<close> of an encoded list gives the string written there, and reading it as \<open>u64\<close> gives
  the integer written there.
\<close>

locale rlp_crate =
  fixes X :: ext
  assumes rlp_out_inject:
      "rlp_stream_out X xs = rlp_stream_out X ys \<longleftrightarrow> map rlp_item_data xs = map rlp_item_data ys"
    and rlp_out_head: "\<exists>h t. rlp_stream_out X xs = h # t \<and> 0xc0 \<le> h"
    and rlp_out_list: "rlp_is_list X (rlp_stream_out X xs)"
    and rlp_out_count: "rlp_item_count X (rlp_stream_out X xs) = Inr (length xs)"
    and rlp_out_at: "i < length xs \<Longrightarrow>
      \<exists>raw. rlp_at X (rlp_stream_out X xs) i = Inr raw \<and> rlp_data X raw = Inr (rlp_item_data (xs ! i))"
    and rlp_out_u64: "i < length xs \<Longrightarrow> xs ! i = RlpU64 n \<Longrightarrow>
      rlp_val_u64 X (rlp_stream_out X xs) i = Inr n"

lemma nat_of_be_strip_zeros [simp]: "nat_of_be (strip_zeros bs) = nat_of_be bs"
proof -
  have "bs = replicate (length (takeWhile (\<lambda>b. b = 0) bs)) 0 @ strip_zeros bs"
    unfolding strip_zeros_def
    by (metis (mono_tags, lifting) replicate_eqI set_takeWhileD takeWhile_dropWhile_id)
  then show ?thesis by (metis nat_of_be_replicate_0)
qed

lemma length_strip_zeros: "length (strip_zeros bs) \<le> length bs"
  by (simp add: strip_zeros_def length_dropWhile_le)

lemma strip_zeros_inject: "length a = length b \<Longrightarrow> strip_zeros a = strip_zeros b \<Longrightarrow> a = b"
  by (metis be_nat_nat_of_be nat_of_be_strip_zeros)

subsection \<open>Reference crates\<close>

text \<open>
  Concrete functions that satisfy the locales: nibble-wise hex; lists of strings written
  behind a byte \<open>0xc0\<close>, with a mark before each byte and one after each string; hashes that are checksums; a
  \<open>recover\<close> that accepts every signature and takes it for the public key. They stand for the crates in witnesses only.
\<close>

definition ref_digit :: "char \<Rightarrow> nat option" where
  "ref_digit c = (let n = of_char c in
     if 48 \<le> n \<and> n < 58 then Some (n - 48)
     else if 97 \<le> n \<and> n < 103 then Some (n - 87)
     else if 65 \<le> n \<and> n < 71 then Some (n - 55) else None)"

fun ref_hex_decode :: "string \<Rightarrow> string + bytes" where
  "ref_hex_decode [] = Inr []"
| "ref_hex_decode [c] = Inl ''Odd number of digits''"
| "ref_hex_decode (c # d # s) = (case (ref_digit c, ref_digit d, ref_hex_decode s) of
      (Some x, Some y, Inr b) \<Rightarrow> Inr (of_nat (16 * x + y) # b)
    | (_, _, Inl e) \<Rightarrow> Inl e
    | _ \<Rightarrow> Inl ''Invalid character'')"

lemma ref_digit_digit_char: "d < 16 \<Longrightarrow> ref_digit (digit_char d) = Some d"
  by (auto simp: ref_digit_def digit_char_def Let_def)

lemma ref_hex_roundtrip: "ref_hex_decode (hex_digits b) = Inr b"
proof (induction b)
  case Nil
  then show ?case by (simp add: hex_digits_def)
next
  case (Cons x b)
  have "unat x < 256" using unat_less [of x] by simp
  then have "ref_digit (digit_char (unat x div 16)) = Some (unat x div 16)"
    and "ref_digit (digit_char (unat x mod 16)) = Some (unat x mod 16)"
    by (simp_all add: ref_digit_digit_char less_mult_imp_div_less)
  with Cons show ?case by (simp add: hex_digits_def)
qed

fun ref_hex_value :: "nat \<Rightarrow> string \<Rightarrow> nat option" where
  "ref_hex_value acc [] = Some acc"
| "ref_hex_value acc (c # s) =
     (case ref_digit c of None \<Rightarrow> None | Some d \<Rightarrow> ref_hex_value (16 * acc + d) s)"

definition ref_from_str_radix :: "string \<Rightarrow> nat \<Rightarrow> string + u256" where
  "ref_from_str_radix s r = (if s = [] then Inr 0 else
     case ref_hex_value 0 s of None \<Rightarrow> Inl ''invalid digit''
     | Some n \<Rightarrow> if n < 2 ^ 256 then Inr (of_nat n) else Inl ''overflow'')"


definition ref_rlp_item :: "bytes \<Rightarrow> bytes" where
  "ref_rlp_item bs = concat (map (\<lambda>b. [1, b]) bs) @ [0]"

fun ref_rlp_split :: "bytes \<Rightarrow> bytes \<Rightarrow> bytes list" where
  "ref_rlp_split acc [] = []"
| "ref_rlp_split acc [c] = [acc]"
| "ref_rlp_split acc (c # b # bs) =
     (if c = 0 then acc # ref_rlp_split [] (b # bs) else ref_rlp_split (acc @ [b]) bs)"

lemma ref_rlp_split_item:
  "ref_rlp_split acc (ref_rlp_item bs @ rest) = (acc @ bs) # ref_rlp_split [] rest"
proof (induction bs arbitrary: acc)
  case Nil
  then show ?case by (cases rest) (auto simp: ref_rlp_item_def)
next
  case (Cons b bs)
  then show ?case by (simp add: ref_rlp_item_def)
qed

lemma ref_rlp_split_concat: "ref_rlp_split [] (concat (map ref_rlp_item xs)) = xs"
  by (induction xs) (auto simp: ref_rlp_split_item)

definition ref_ext :: ext where
  "ref_ext = \<lparr>
     keccak256 = (\<lambda>b. of_nat (sum_list (map unat b))),
     sha256 = (\<lambda>b. of_nat (length b)),
     hex_encode = hex_digits,
     hex_decode = ref_hex_decode,
     debug_address = (\<lambda>a. ''0x'' @ hex_digits (address_bytes a)),
     debug_b256 = (\<lambda>h. ''0x'' @ hex_digits (b256_bytes h)),
     u256_from_str_radix = ref_from_str_radix,
     rlp_stream_out = (\<lambda>xs. 0xc0 # concat (map (ref_rlp_item \<circ> rlp_item_data) xs)),
     rlp_is_list = (\<lambda>bs. bs \<noteq> [] \<and> 0xc0 \<le> hd bs),
     rlp_item_count = (\<lambda>bs. Inr (length (ref_rlp_split [] (tl bs)))),
     rlp_at = (\<lambda>bs i. let xs = ref_rlp_split [] (tl bs) in
       if i < length xs then Inr (xs ! i) else Inl ''RlpIsTooShort''),
     rlp_data = Inr,
     rlp_val_u64 = (\<lambda>bs i. let xs = ref_rlp_split [] (tl bs) in
       if i < length xs then Inr (of_be (xs ! i)) else Inl ''RlpIsTooShort''),
     secp_recovery_id = (\<lambda>i. if 0 \<le> i \<and> i < 4 then Some (nat i) else None),
     secp_from_compact = (\<lambda>c i. Some c),
     secp_recover = (\<lambda>m c. Some (4 # c))\<rparr>"

interpretation ref_hex: hex_crate ref_ext
proof
  show "hex_decode ref_ext (hex_encode ref_ext b) = Inr b" for b
    by (simp add: ref_ext_def ref_hex_roundtrip)
  show "hex_encode ref_ext b = hex_digits b" for b
    by (simp add: ref_ext_def)
qed

lemma ref_hex_value_append:
  "ref_hex_value acc (s @ t) =
     (case ref_hex_value acc s of None \<Rightarrow> None | Some v \<Rightarrow> ref_hex_value v t)"
  by (induction acc s rule: ref_hex_value.induct) (auto split: option.splits)

lemma ref_hex_value_lower_hex: "ref_hex_value 0 (radix_string 16 n) = Some n"
proof (induction n rule: less_induct)
  case (less n)
  show ?case
  proof (cases "n < 16")
    case True
    then show ?thesis by (subst radix_string.simps) (simp add: ref_digit_digit_char)
  next
    case False
    with less.IH [of "n div 16"] show ?thesis
      by (subst radix_string.simps) (simp add: ref_hex_value_append ref_digit_digit_char)
  qed
qed

lemma radix_string_nonempty: "radix_string r n \<noteq> []"
  by (subst radix_string.simps) simp

interpretation ref_radix: radix_crate ref_ext
  by unfold_locales
    (simp add: ref_ext_def ref_from_str_radix_def lower_hex_def ref_hex_value_lower_hex
      radix_string_nonempty)

lemma ref_rlp_out_split:
  "ref_rlp_split [] (tl (rlp_stream_out ref_ext xs)) = map rlp_item_data xs"
  using ref_rlp_split_concat [of "map rlp_item_data xs"] by (simp add: ref_ext_def)

interpretation ref_rlp: rlp_crate ref_ext
proof
  show "rlp_stream_out ref_ext xs = rlp_stream_out ref_ext ys
      \<longleftrightarrow> map rlp_item_data xs = map rlp_item_data ys" for xs ys
  proof
    assume "rlp_stream_out ref_ext xs = rlp_stream_out ref_ext ys"
    then show "map rlp_item_data xs = map rlp_item_data ys"
      by (metis ref_rlp_out_split)
  next
    assume "map rlp_item_data xs = map rlp_item_data ys"
    then show "rlp_stream_out ref_ext xs = rlp_stream_out ref_ext ys"
      by (simp add: ref_ext_def flip: map_map)
  qed
  show "\<exists>h t. rlp_stream_out ref_ext xs = h # t \<and> 0xc0 \<le> h" for xs
    by (simp add: ref_ext_def)
  show "rlp_is_list ref_ext (rlp_stream_out ref_ext xs)" for xs
    by (simp add: ref_ext_def)
  show "rlp_item_count ref_ext (rlp_stream_out ref_ext xs) = Inr (length xs)" for xs
    using ref_rlp_out_split [of xs] by (simp add: ref_ext_def)
  show "\<exists>raw. rlp_at ref_ext (rlp_stream_out ref_ext xs) i = Inr raw \<and>
      rlp_data ref_ext raw = Inr (rlp_item_data (xs ! i))" if "i < length xs" for i xs
    using that ref_rlp_out_split [of xs] by (simp add: ref_ext_def)
  show "rlp_val_u64 ref_ext (rlp_stream_out ref_ext xs) i = Inr n"
    if "i < length xs" and "xs ! i = RlpU64 n" for i xs n
  proof -
    have "of_be (strip_zeros (u64_be n)) = n"
      using of_be_word_bytes(2) [of n] by (simp add: of_be_def)
    with that show ?thesis
      using ref_rlp_out_split [of xs] by (simp add: ref_ext_def)
  qed
qed

section \<open>Hexadecimal numerals\<close>

lemma digit_char_not_x: "d < 16 \<Longrightarrow> digit_char d \<noteq> CHR ''x'' \<and> digit_char d \<noteq> CHR ''X''"
proof -
  assume "d < 16"
  then have "ref_digit (digit_char d) = Some d" by (rule ref_digit_digit_char)
  then show ?thesis by (auto simp: ref_digit_def)
qed

lemma radix_string_digits: "c \<in> set (radix_string 16 n) \<Longrightarrow> \<exists>d < 16. c = digit_char d"
proof (induction n rule: less_induct)
  case (less n)
  show ?case
  proof (cases "n < 16")
    case True
    with less.prems have "c = digit_char n"
      by (subst (asm) radix_string.simps) simp
    with True show ?thesis by blast
  next
    case False
    with less.prems have "c \<in> set (radix_string 16 (n div 16)) \<or> c = digit_char (n mod 16)"
      by (subst (asm) radix_string.simps) auto
    moreover have "n div 16 < n" and "n mod 16 < 16"
      using False by simp_all
    ultimately show ?thesis using less.IH by blast
  qed
qed

lemma starts_with_set: "starts_with p s \<Longrightarrow> set p \<subseteq> set s"
  by (metis set_take_subset starts_with_def)

lemma lower_hex_no_prefix:
  "\<not> starts_with ''0x'' (lower_hex n)" "\<not> starts_with ''0X'' (lower_hex n)"
proof -
  have no: "CHR ''x'' \<notin> set (lower_hex n) \<and> CHR ''X'' \<notin> set (lower_hex n)"
    using radix_string_digits [of _ n] digit_char_not_x unfolding lower_hex_def by metis
  then show "\<not> starts_with ''0x'' (lower_hex n)" "\<not> starts_with ''0X'' (lower_hex n)"
    using starts_with_set [of "''0x''" "lower_hex n"] starts_with_set [of "''0X''" "lower_hex n"]
    by auto
qed

lemma hex_digits_no_x: "CHR ''x'' \<notin> set (hex_digits b)"
proof -
  have "CHR ''x'' \<noteq> digit_char (unat x div 16) \<and> CHR ''x'' \<noteq> digit_char (unat x mod 16)" for x :: u8
    using digit_char_not_x [of "unat x div 16"] digit_char_not_x [of "unat x mod 16"] unat_less [of x]
    by (auto simp: less_mult_imp_div_less dest: not_sym)
  then show ?thesis by (auto simp: hex_digits_def)
qed

lemma hex_digits_no_prefix: "\<not> starts_with ''0x'' (hex_digits b)"
  using starts_with_set [of "''0x''" "hex_digits b"] hex_digits_no_x [of b] by auto

lemma trim_hex_prefix: "trim_start_matches ''0x'' (''0x'' @ lower_hex n) = lower_hex n"
  by (subst trim_start_matches.simps)
    (simp add: starts_with_def trim_start_matches_id [OF lower_hex_no_prefix(1)])

lemma strip_hex_prefix: "strip_prefix_or ''0x'' (''0x'' @ s) = s"
  by (simp add: strip_prefix_or_def starts_with_def)

end
