(* ===== verification/Quyn_Transaction.thy ===== *)
theory Quyn_Transaction
  imports Quyn_Extern
begin

text \<open>
  core/src/error.rs and core/src/transaction.rs: the error type of the core, unsigned and
  signed transactions, the EIP-155 signing payload and hash, the transaction hash, sender
  recovery and the legacy RLP encoding. Lemmas: what the payloads commit to (injectivity),
  and that the two conventions for \<open>v\<close> (0/1 and 27/28) are interchangeable.
\<close>

section \<open>Errors\<close>

datatype core_error =
    InvalidBlock string
  | InvalidTransaction string
  | ChainValidation string
  | DoubleSign address u64 b256 b256
  | Storage string
  | MempoolError string
  | IoError string
  | Serialization string

text \<open>\<open>CoreError::to_string\<close>, from the \<open>#[error]\<close> attributes.\<close>

fun core_error_string :: "ext \<Rightarrow> core_error \<Rightarrow> string" where
  "core_error_string X (InvalidBlock s) = ''Invalid block: '' @ s"
| "core_error_string X (InvalidTransaction s) = ''Invalid transaction: '' @ s"
| "core_error_string X (ChainValidation s) = ''Chain validation failed: '' @ s"
| "core_error_string X (DoubleSign v h f s) =
     ''double-sign: validator '' @ debug_address X v @ '' at height '' @ dec (unat h)"
| "core_error_string X (Storage s) = ''Storage error: '' @ s"
| "core_error_string X (MempoolError s) = ''Mempool error: '' @ s"
| "core_error_string X (IoError s) = ''IO error: '' @ s"
| "core_error_string X (Serialization s) = ''Serialization error: '' @ s"

type_synonym 'a core_result = "(core_error, 'a) outcome"

section \<open>Transactions\<close>

text \<open>\<open>u256_to_rlp_bytes\<close>: from the first non-zero byte on, nothing for zero.\<close>

definition u256_to_rlp_bytes :: "u256 \<Rightarrow> bytes" where
  "u256_to_rlp_bytes u = strip_zeros (u256_be u)"

record transaction =
  t_nonce :: u64
  t_gas_price :: u256
  t_gas_limit :: u64
  t_to :: "address option"
  t_value :: u256
  t_data :: bytes
  t_chain_id :: u64

definition to_bytes :: "address option \<Rightarrow> bytes" where
  "to_bytes a = (case a of None \<Rightarrow> [] | Some x \<Rightarrow> address_bytes x)"

definition signing_items :: "transaction \<Rightarrow> rlp_item list" where
  "signing_items t =
     [RlpU64 (t_nonce t),
      RlpBytes (u256_to_rlp_bytes (t_gas_price t)),
      RlpU64 (t_gas_limit t),
      RlpBytes (to_bytes (t_to t)),
      RlpBytes (u256_to_rlp_bytes (t_value t)),
      RlpBytes (t_data t),
      RlpU64 (t_chain_id t),
      RlpEmpty,
      RlpEmpty]"

definition signing_hash :: "ext \<Rightarrow> transaction \<Rightarrow> b256" where
  "signing_hash X t = keccak256 X (rlp_stream_out X (signing_items t))"

text \<open>
  \<open>recover_sender\<close>. The public key is 65 bytes, the address the last 20 bytes of the
  hash of its last 64. (\<open>Message::from_digest_slice\<close> accepts every 32-byte digest.)
\<close>

definition recover_sender :: "ext \<Rightarrow> transaction \<Rightarrow> b256 \<Rightarrow> b256 \<Rightarrow> u8 \<Rightarrow> address option" where
  "recover_sender X t r s v =
     (let msg = b256_bytes (signing_hash X t);
          rid_val = (if 27 \<le> v then uint (v - 27) else uint v)
      in case secp_recovery_id X rid_val of None \<Rightarrow> None
       | Some rid \<Rightarrow> (case secp_from_compact X (b256_bytes r @ b256_bytes s) rid of None \<Rightarrow> None
       | Some sig \<Rightarrow> (case secp_recover X msg sig of None \<Rightarrow> None
       | Some pk \<Rightarrow> Some (of_be (drop 12 (b256_bytes (keccak256 X (take 64 (drop 1 pk)))))))))"

record signed_transaction =
  st_tx :: transaction
  st_r :: b256
  st_s :: b256
  st_v :: u8
  st_hash_override :: "b256 option"

definition v_for_hash :: "u8 \<Rightarrow> u64" where
  "v_for_hash v = (if 27 \<le> v then ucast v else 27 + ucast v)"

definition signed_items :: "transaction \<Rightarrow> u64 \<Rightarrow> b256 \<Rightarrow> b256 \<Rightarrow> rlp_item list" where
  "signed_items t v r s =
     [RlpU64 (t_nonce t),
      RlpBytes (u256_to_rlp_bytes (t_gas_price t)),
      RlpU64 (t_gas_limit t),
      RlpBytes (to_bytes (t_to t)),
      RlpBytes (u256_to_rlp_bytes (t_value t)),
      RlpBytes (t_data t),
      RlpU64 v,
      RlpBytes (b256_bytes r),
      RlpBytes (b256_bytes s)]"

definition tx_hash :: "ext \<Rightarrow> signed_transaction \<Rightarrow> b256" where
  "tx_hash X st = (case st_hash_override st of
       Some h \<Rightarrow> h
     | None \<Rightarrow> keccak256 X (rlp_stream_out X
         (signed_items (st_tx st) (v_for_hash (st_v st)) (st_r st) (st_s st))))"

definition sender :: "ext \<Rightarrow> signed_transaction \<Rightarrow> address core_result" where
  "sender X st = (case recover_sender X (st_tx st) (st_r st) (st_s st) (st_v st) of
       Some a \<Rightarrow> Ok a
     | None \<Rightarrow> Err (InvalidTransaction ''Invalid signature''))"

text \<open>The accessors of \<open>SignedTransaction\<close>.\<close>

definition chain_id :: "signed_transaction \<Rightarrow> u64" where "chain_id st = t_chain_id (st_tx st)"
definition nonce :: "signed_transaction \<Rightarrow> u64" where "nonce st = t_nonce (st_tx st)"
definition gas_price :: "signed_transaction \<Rightarrow> u256" where "gas_price st = t_gas_price (st_tx st)"
definition gas_limit :: "signed_transaction \<Rightarrow> u64" where "gas_limit st = t_gas_limit (st_tx st)"
definition to_addr :: "signed_transaction \<Rightarrow> address option" where "to_addr st = t_to (st_tx st)"
definition tx_value :: "signed_transaction \<Rightarrow> u256" where "tx_value st = t_value (st_tx st)"
definition tx_data :: "signed_transaction \<Rightarrow> bytes" where "tx_data st = t_data (st_tx st)"

lemmas accessor_defs =
  chain_id_def nonce_def gas_price_def gas_limit_def to_addr_def tx_value_def tx_data_def

text \<open>
  \<open>to_legacy_rlp\<close>: \<open>35 + 2 * chain_id + recid\<close> in native \<open>u64\<close> arithmetic.
\<close>

definition v_eip155 :: "u64 \<Rightarrow> u8 \<Rightarrow> ('e, u64) outcome" where
  "v_eip155 cid v =
     obind (chk_mul 2 cid) (\<lambda>d.
     obind (chk_add 35 d) (\<lambda>e.
     chk_add e (ucast (if 27 \<le> v then v - 27 else v))))"

definition to_legacy_rlp :: "ext \<Rightarrow> signed_transaction \<Rightarrow> ('e, bytes) outcome" where
  "to_legacy_rlp X st =
     obind (v_eip155 (t_chain_id (st_tx st)) (st_v st)) (\<lambda>v.
     Ok (rlp_stream_out X (signed_items (st_tx st) v (st_r st) (st_s st))))"

section \<open>What the payloads commit to\<close>

lemma u256_to_rlp_bytes_inject [simp]:
  "u256_to_rlp_bytes a = u256_to_rlp_bytes b \<longleftrightarrow> a = b"
  by (auto simp: u256_to_rlp_bytes_def dest: strip_zeros_inject [rotated])

lemma length_u256_to_rlp_bytes: "length (u256_to_rlp_bytes a) \<le> 32"
  using length_strip_zeros [of "u256_be a"] by (simp add: u256_to_rlp_bytes_def)

lemma rlp_u64_inject [simp]: "strip_zeros (u64_be a) = strip_zeros (u64_be b) \<longleftrightarrow> a = b"
  by (auto dest: strip_zeros_inject [rotated])

lemma to_bytes_inject [simp]: "to_bytes a = to_bytes b \<longleftrightarrow> a = b"
proof -
  have "address_bytes x \<noteq> []" for x
    using length_word_bytes(4) [of x] by (metis list.size(3) zero_neq_numeral)
  then have "address_bytes x \<noteq> []" "[] \<noteq> address_bytes x" for x
    by metis+
  then show ?thesis by (simp add: to_bytes_def split: option.splits)
qed

lemma signing_items_inject:
  "map rlp_item_data (signing_items t) = map rlp_item_data (signing_items t') \<longleftrightarrow> t = t'"
  by (auto simp: signing_items_def intro: transaction.equality)

lemma signed_items_inject:
  "map rlp_item_data (signed_items t v r s) = map rlp_item_data (signed_items t' v' r' s') \<longleftrightarrow>
     t\<lparr>t_chain_id := 0\<rparr> = t'\<lparr>t_chain_id := 0\<rparr> \<and> v = v' \<and> r = r' \<and> s = s'"
  by (cases t; cases t') (auto simp: signed_items_def)

lemma signing_items_ne_signed_items:
  "map rlp_item_data (signing_items t) \<noteq> map rlp_item_data (signed_items t' v r s)"
proof -
  have "b256_bytes s \<noteq> []"
    using length_word_bytes(5) [of s] by (metis list.size(3) zero_neq_numeral)
  then show ?thesis by (auto simp: signing_items_def signed_items_def)
qed

section \<open>The two conventions for v\<close>

lemma v_shift:
  assumes "v < (27 :: u8)"
  shows "27 \<le> v + 27" and "unat (v + 27) = unat v + 27"
proof -
  from assms have "unat v < 27" by (simp add: word_less_nat_alt)
  then show "unat (v + 27) = unat v + 27" by (simp add: unat_word_ariths)
  then show "27 \<le> v + 27" by (simp add: word_le_nat_alt)
qed

lemma recover_sender_v_shift:
  assumes "v < 27"
  shows "recover_sender X t r s (v + 27) = recover_sender X t r s v"
  using assms v_shift [OF assms] by (simp add: recover_sender_def not_le [symmetric])

lemma v_for_hash_shift:
  assumes "v < 27"
  shows "v_for_hash (v + 27) = v_for_hash v"
proof -
  have "(ucast (v + 27) :: u64) = ucast v + 27"
  proof (rule word_unat_eq_iff [THEN iffD2])
    have "unat v < 27" using assms by (simp add: word_less_nat_alt)
    then show "unat (ucast (v + 27) :: u64) = unat (ucast v + 27 :: u64)"
      using v_shift [OF assms] by (simp add: unsigned_ucast_eq unat_word_ariths take_bit_nat_eq_self)
  qed
  moreover have "\<not> 27 \<le> v" using assms by simp
  ultimately show ?thesis using v_shift(1) [OF assms] by (simp add: v_for_hash_def add.commute)
qed

lemma v_eip155_Ok:
  assumes "unat cid < 2 ^ 62" and "v \<in> {0, 1, 27, 28}"
  shows "v_eip155 cid v = Ok (35 + 2 * cid + ucast (if 27 \<le> v then v - 27 else v))"
    and "unat (35 + 2 * cid + ucast (if 27 \<le> v then v - 27 else v) :: u64)
       = 35 + 2 * unat cid + unat (if 27 \<le> v then v - 27 else v)"
  using assms by (auto simp: v_eip155_def chk_add_def chk_mul_def unat_word_ariths)

end
