(* ===== verification/Quyn_Block.thy ===== *)
theory Quyn_Block
  imports Quyn_Transaction
begin

text \<open>
  core/src/block.rs: headers, bodies, blocks, their hashes, the self-check of a block and the
  construction of a new one. The lemmas say what a block hash and a transactions root commit
  to: the byte string that is hashed, and when two headers have the same one.
\<close>

record block_header =
  h_parent_hash :: b256
  h_state_root :: b256
  h_transactions_root :: b256
  h_receipts_root :: b256
  h_timestamp :: u64
  h_number :: u64
  h_validator :: address
  h_signature :: bytes
  h_extra_data :: bytes
  h_gas_limit :: u64
  h_base_fee_per_gas :: u256

text \<open>The bytes the hasher is updated with, in the order of the updates.\<close>

definition header_preimage :: "block_header \<Rightarrow> bytes" where
  "header_preimage h =
     b256_bytes (h_parent_hash h) @
     b256_bytes (h_state_root h) @
     b256_bytes (h_transactions_root h) @
     b256_bytes (h_receipts_root h) @
     u64_be (h_timestamp h) @
     u64_be (h_number h) @
     address_bytes (h_validator h) @
     h_signature h @
     h_extra_data h @
     u64_be (h_gas_limit h) @
     u256_be (h_base_fee_per_gas h)"

definition header_hash :: "ext \<Rightarrow> block_header \<Rightarrow> b256" where
  "header_hash X h = sha256 X (header_preimage h)"

definition header_signing_hash :: "ext \<Rightarrow> block_header \<Rightarrow> b256" where
  "header_signing_hash X h = header_hash X (h\<lparr>h_signature := []\<rparr>)"

type_synonym block_body = "signed_transaction list"

definition transactions_root :: "ext \<Rightarrow> block_body \<Rightarrow> b256" where
  "transactions_root X txs =
     (if txs = [] then 0 else sha256 X (concat (map (\<lambda>tx. b256_bytes (tx_hash X tx)) txs)))"

record block =
  b_header :: block_header
  b_body :: block_body

definition block_hash :: "ext \<Rightarrow> block \<Rightarrow> b256" where
  "block_hash X b = header_hash X (b_header b)"

definition validate_self :: "ext \<Rightarrow> block \<Rightarrow> unit core_result" where
  "validate_self X b =
     (let computed = transactions_root X (b_body b)
      in if computed \<noteq> h_transactions_root (b_header b)
         then Err (InvalidBlock (''transactions_root mismatch: got '' @ debug_b256 X computed @
                '', expected '' @ debug_b256 X (h_transactions_root (b_header b))))
         else Ok ())"

text \<open>
  \<open>Block::new\<close>. The clock is an argument: the seconds since the epoch, or the message of
  the error when the clock is before the epoch.
\<close>

definition new_block ::
  "ext \<Rightarrow> string + u64 \<Rightarrow> b256 \<Rightarrow> u64 \<Rightarrow> b256 \<Rightarrow> b256 \<Rightarrow> signed_transaction list \<Rightarrow> address \<Rightarrow>
    bytes \<Rightarrow> u64 \<Rightarrow> u256 \<Rightarrow> block core_result" where
  "new_block X clock parent_hash number state_root receipts_root transactions validator signature
     gas_lim base_fee =
     (let root = transactions_root X transactions
      in obind (of_sum InvalidBlock clock) (\<lambda>timestamp.
         let block = \<lparr>b_header = \<lparr>
               h_parent_hash = parent_hash, h_state_root = state_root, h_transactions_root = root,
               h_receipts_root = receipts_root, h_timestamp = timestamp, h_number = number,
               h_validator = validator, h_signature = signature, h_extra_data = [],
               h_gas_limit = gas_lim, h_base_fee_per_gas = base_fee\<rparr>,
             b_body = transactions\<rparr>
         in obind (validate_self X block) (\<lambda>_. Ok block)))"

section \<open>What the hashes commit to\<close>

lemma length_header_preimage:
  "length (header_preimage h) = 204 + length (h_signature h) + length (h_extra_data h)"
  by (simp add: header_preimage_def)

text \<open>The two variable-length fields are written without their lengths.\<close>

lemma header_preimage_inject:
  "header_preimage h = header_preimage h' \<longleftrightarrow>
     h\<lparr>h_signature := [], h_extra_data := []\<rparr> = h'\<lparr>h_signature := [], h_extra_data := []\<rparr> \<and>
     h_signature h @ h_extra_data h = h_signature h' @ h_extra_data h'"
proof
  assume eq: "header_preimage h = header_preimage h'"
  then have len: "length (h_signature h @ h_extra_data h) = length (h_signature h' @ h_extra_data h')"
    by (metis (no_types, lifting) add_left_cancel length_append length_header_preimage add.assoc)
  from eq have "(h_signature h @ h_extra_data h) @ u64_be (h_gas_limit h) @ u256_be (h_base_fee_per_gas h)
      = (h_signature h' @ h_extra_data h') @ u64_be (h_gas_limit h') @ u256_be (h_base_fee_per_gas h')"
    by (simp add: header_preimage_def)
  with len have "h_signature h @ h_extra_data h = h_signature h' @ h_extra_data h'"
    and "h_gas_limit h = h_gas_limit h'" and "h_base_fee_per_gas h = h_base_fee_per_gas h'"
    by (auto simp del: append_assoc simp: append_eq_append_conv)
  with eq show "h\<lparr>h_signature := [], h_extra_data := []\<rparr> = h'\<lparr>h_signature := [], h_extra_data := []\<rparr> \<and>
     h_signature h @ h_extra_data h = h_signature h' @ h_extra_data h'"
    by (cases h; cases h') (simp add: header_preimage_def)
next
  assume "h\<lparr>h_signature := [], h_extra_data := []\<rparr> = h'\<lparr>h_signature := [], h_extra_data := []\<rparr> \<and>
     h_signature h @ h_extra_data h = h_signature h' @ h_extra_data h'"
  then show "header_preimage h = header_preimage h'"
    by (cases h; cases h') (simp add: header_preimage_def flip: append_assoc)
qed

lemma concat_hashes_inject:
  "concat (map b256_bytes hs) = concat (map b256_bytes hs') \<longleftrightarrow> hs = hs'"
proof
  show "concat (map b256_bytes hs) = concat (map b256_bytes hs') \<Longrightarrow> hs = hs'"
  proof (induction hs arbitrary: hs')
    case Nil
    then have "length (concat (map b256_bytes hs')) = 0" by simp
    then show ?case by (cases hs') simp_all
  next
    case (Cons h hs)
    then show ?case
    proof (cases hs')
      case Nil
      with Cons.prems have "length (b256_bytes h @ concat (map b256_bytes hs)) = 0" by simp
      then show ?thesis by simp
    next
      case (Cons g gs)
      with Cons.prems Cons.IH [of gs] show ?thesis by simp
    qed
  qed
qed simp

lemma validate_self_Ok:
  "validate_self X b = Ok () \<longleftrightarrow> h_transactions_root (b_header b) = transactions_root X (b_body b)"
  by (auto simp: validate_self_def Let_def)

lemma validate_self_cases:
  "validate_self X b = Ok () \<or> (\<exists>m. validate_self X b = Err (InvalidBlock m))"
  by (auto simp: validate_self_def Let_def)

end
