(* ===== verification/Quyn_State.thy ===== *)
theory Quyn_State
  imports Quyn_Block
begin

text \<open>
  core/src/state.rs: account balances, nonces, code and storage in the key-value store, the
  state root, and \<open>apply_transfer\<close>. The database handle is the store value the actions
  thread; a failing read or write is a \<open>Storage\<close> error.

  \<open>state_view\<close> is the abstract state of the accounts; the refinement lemmas say that each
  operation on the store is the corresponding update of the view and touches nothing else.
\<close>

section \<open>Keys\<close>

definition addr_hex :: "ext \<Rightarrow> address \<Rightarrow> bytes" where
  "addr_hex X a = ascii (hex_encode X (address_bytes a))"

definition balance_key :: "ext \<Rightarrow> address \<Rightarrow> bytes" where
  "balance_key X a = ascii ''balance:'' @ addr_hex X a"

definition nonce_key :: "ext \<Rightarrow> address \<Rightarrow> bytes" where
  "nonce_key X a = ascii ''nonce:'' @ addr_hex X a"

definition code_key :: "ext \<Rightarrow> address \<Rightarrow> bytes" where
  "code_key X a = ascii ''code:'' @ addr_hex X a"

definition storage_key :: "ext \<Rightarrow> address \<Rightarrow> u256 \<Rightarrow> bytes" where
  "storage_key X a slot =
     ascii ''storage:'' @ addr_hex X a @ ascii '':'' @ ascii (hex_encode X (u256_be slot))"

definition state_root_key :: "b256 \<Rightarrow> bytes" where
  "state_root_key h = ascii ''state_root:'' @ b256_bytes h"

section \<open>Operations\<close>

definition db_get :: "'d kv \<Rightarrow> 'd \<Rightarrow> bytes \<Rightarrow> bytes option core_result" where
  "db_get K d k = of_sum Storage (kv_get K d k)"

definition db_put :: "'d kv \<Rightarrow> bytes \<Rightarrow> bytes \<Rightarrow> ('d, core_error, unit) act" where
  "db_put K k v d = (let (r, d') = kv_put K d k v in (of_sum Storage r, d'))"

definition get_balance :: "'d kv \<Rightarrow> ext \<Rightarrow> 'd \<Rightarrow> address \<Rightarrow> u256 core_result" where
  "get_balance K X d a = obind (db_get K d (balance_key X a)) (\<lambda>r. case r of
       Some v \<Rightarrow> obind (left_pad 32 v) (\<lambda>buf. Ok (of_be buf))
     | None \<Rightarrow> Ok 0)"

definition set_balance :: "'d kv \<Rightarrow> ext \<Rightarrow> address \<Rightarrow> u256 \<Rightarrow> ('d, core_error, unit) act" where
  "set_balance K X a balance = db_put K (balance_key X a) (u256_be balance)"

definition get_nonce :: "'d kv \<Rightarrow> ext \<Rightarrow> 'd \<Rightarrow> address \<Rightarrow> u64 core_result" where
  "get_nonce K X d a = obind (db_get K d (nonce_key X a)) (\<lambda>r. case r of
       Some v \<Rightarrow> obind (left_pad 8 v) (\<lambda>buf. Ok (of_be buf))
     | None \<Rightarrow> Ok 0)"

definition set_nonce :: "'d kv \<Rightarrow> ext \<Rightarrow> address \<Rightarrow> u64 \<Rightarrow> ('d, core_error, unit) act" where
  "set_nonce K X a n = db_put K (nonce_key X a) (u64_be n)"

definition get_code :: "'d kv \<Rightarrow> ext \<Rightarrow> 'd \<Rightarrow> address \<Rightarrow> bytes core_result" where
  "get_code K X d a = obind (db_get K d (code_key X a)) (\<lambda>r. case r of
       Some v \<Rightarrow> Ok v
     | None \<Rightarrow> Ok [])"

definition set_code :: "'d kv \<Rightarrow> ext \<Rightarrow> address \<Rightarrow> bytes \<Rightarrow> ('d, core_error, unit) act" where
  "set_code K X a code = db_put K (code_key X a) code"

definition get_storage :: "'d kv \<Rightarrow> ext \<Rightarrow> 'd \<Rightarrow> address \<Rightarrow> u256 \<Rightarrow> u256 core_result" where
  "get_storage K X d a slot = obind (db_get K d (storage_key X a slot)) (\<lambda>r. case r of
       Some v \<Rightarrow> obind (left_pad 32 v) (\<lambda>buf. Ok (of_be buf))
     | None \<Rightarrow> Ok 0)"

definition set_storage ::
  "'d kv \<Rightarrow> ext \<Rightarrow> address \<Rightarrow> u256 \<Rightarrow> u256 \<Rightarrow> ('d, core_error, unit) act" where
  "set_storage K X a slot v = db_put K (storage_key X a slot) (u256_be v)"

text \<open>The two loops of \<open>compute_state_root\<close>: stop at the first key without the prefix.\<close>

definition has_prefix :: "bytes \<Rightarrow> bytes \<Rightarrow> bool" where
  "has_prefix p k \<longleftrightarrow> take (length p) k = p"

fun scan_prefix :: "bytes \<Rightarrow> (string + bytes \<times> bytes) list \<Rightarrow> (bytes \<times> bytes) list core_result" where
  "scan_prefix p [] = Ok []"
| "scan_prefix p (Inl e # xs) = Err (Storage e)"
| "scan_prefix p (Inr (k, v) # xs) =
     (if has_prefix p k then obind (scan_prefix p xs) (\<lambda>rest. Ok ((k, v) # rest)) else Ok [])"

definition entry_bytes :: "(bytes \<times> bytes) list \<Rightarrow> bytes" where
  "entry_bytes es = concat (map (\<lambda>(k, v). k @ v) es)"

definition compute_state_root :: "'d kv \<Rightarrow> ext \<Rightarrow> 'd \<Rightarrow> b256 core_result" where
  "compute_state_root K X d =
     obind (scan_prefix (ascii ''balance:'') (kv_iter K d (ascii ''balance:''))) (\<lambda>keys.
     obind (scan_prefix (ascii ''nonce:'') (kv_iter K d (ascii ''nonce:''))) (\<lambda>nonces.
     Ok (sha256 X (entry_bytes (sort_key fst keys) @ entry_bytes nonces))))"

definition save_state_root :: "'d kv \<Rightarrow> b256 \<Rightarrow> b256 \<Rightarrow> ('d, core_error, unit) act" where
  "save_state_root K bh state_root =
     db_put K (state_root_key bh) (b256_bytes state_root)"

definition apply_transfer ::
  "'d kv \<Rightarrow> ext \<Rightarrow> address \<Rightarrow> address \<Rightarrow> u256 \<Rightarrow> ('d, core_error, unit) act" where
  "apply_transfer K X from to v =
     (if v = 0 then aret ()
      else abind (aread (\<lambda>d. get_balance K X d from)) (\<lambda>from_bal.
           abind (aread (\<lambda>d. get_balance K X d to)) (\<lambda>to_bal.
           athen (set_balance K X from (sat_sub from_bal v))
                 (set_balance K X to (sat_add to_bal v)))))"

section \<open>The abstract state\<close>

record state_view =
  sv_balance :: "address \<Rightarrow> u256"
  sv_nonce :: "address \<Rightarrow> u64"
  sv_code :: "address \<Rightarrow> bytes"
  sv_storage :: "address \<Rightarrow> u256 \<Rightarrow> u256"

definition view_of :: "ext \<Rightarrow> (bytes \<rightharpoonup> bytes) \<Rightarrow> state_view" where
  "view_of X m = \<lparr>
     sv_balance = (\<lambda>a. case m (balance_key X a) of None \<Rightarrow> 0 | Some v \<Rightarrow> of_be v),
     sv_nonce = (\<lambda>a. case m (nonce_key X a) of None \<Rightarrow> 0 | Some v \<Rightarrow> of_be v),
     sv_code = (\<lambda>a. case m (code_key X a) of None \<Rightarrow> [] | Some v \<Rightarrow> v),
     sv_storage = (\<lambda>a slot. case m (storage_key X a slot) of None \<Rightarrow> 0 | Some v \<Rightarrow> of_be v)\<rparr>"

text \<open>Stored values have the width their readers expect; a longer value makes a read panic.\<close>

definition state_wf :: "ext \<Rightarrow> (bytes \<rightharpoonup> bytes) \<Rightarrow> bool" where
  "state_wf X m \<longleftrightarrow>
     (\<forall>a v. m (balance_key X a) = Some v \<longrightarrow> length v \<le> 32) \<and>
     (\<forall>a v. m (nonce_key X a) = Some v \<longrightarrow> length v \<le> 8) \<and>
     (\<forall>a slot v. m (storage_key X a slot) = Some v \<longrightarrow> length v \<le> 32)"

text \<open>The bytes hashed into the state root, as a function of the contents.\<close>

definition prefix_entries :: "bytes \<Rightarrow> (bytes \<rightharpoonup> bytes) \<Rightarrow> (bytes \<times> bytes) list" where
  "prefix_entries p m = map (\<lambda>k. (k, the (m k))) (sorted_list_of_set {k \<in> dom m. has_prefix p k})"

subsection \<open>Keys of different tables differ\<close>

lemma key_tables [simp]:
  "balance_key X a \<noteq> nonce_key X b" "balance_key X a \<noteq> code_key X b"
  "balance_key X a \<noteq> storage_key X b slot" "balance_key X a \<noteq> state_root_key h"
  "nonce_key X a \<noteq> balance_key X b" "nonce_key X a \<noteq> code_key X b"
  "nonce_key X a \<noteq> storage_key X b slot" "nonce_key X a \<noteq> state_root_key h"
  "code_key X a \<noteq> balance_key X b" "code_key X a \<noteq> nonce_key X b"
  "code_key X a \<noteq> storage_key X b slot" "code_key X a \<noteq> state_root_key h"
  "storage_key X a slot \<noteq> balance_key X b" "storage_key X a slot \<noteq> nonce_key X b"
  "storage_key X a slot \<noteq> code_key X b" "storage_key X a slot \<noteq> state_root_key h"
  "state_root_key h \<noteq> balance_key X b" "state_root_key h \<noteq> nonce_key X b"
  "state_root_key h \<noteq> code_key X b" "state_root_key h \<noteq> storage_key X b slot"
  by (simp_all add: balance_key_def nonce_key_def code_key_def storage_key_def
      state_root_key_def ascii_def)

lemma has_prefix_keys [simp]:
  "\<not> has_prefix (ascii ''balance:'') (nonce_key X a)"
  "\<not> has_prefix (ascii ''balance:'') (code_key X a)"
  "\<not> has_prefix (ascii ''balance:'') (storage_key X a slot)"
  "\<not> has_prefix (ascii ''balance:'') (state_root_key h)"
  "\<not> has_prefix (ascii ''nonce:'') (balance_key X a)"
  "\<not> has_prefix (ascii ''nonce:'') (code_key X a)"
  "\<not> has_prefix (ascii ''nonce:'') (storage_key X a slot)"
  "\<not> has_prefix (ascii ''nonce:'') (state_root_key h)"
  by (simp_all add: has_prefix_def balance_key_def nonce_key_def code_key_def storage_key_def
      state_root_key_def ascii_def)

subsection \<open>Prefixes are contiguous in key order\<close>

lemma has_prefix_between:
  "p \<le> k \<Longrightarrow> k \<le> k' \<Longrightarrow> has_prefix p k' \<Longrightarrow> has_prefix p k"
proof (induction p arbitrary: k k')
  case Nil
  then show ?case by (simp add: has_prefix_def)
next
  case (Cons x p)
  from Cons.prems(3) obtain r where k': "k' = x # r" and r: "has_prefix p r"
    by (cases k') (auto simp: has_prefix_def)
  from Cons.prems(1) obtain y q where k: "k = y # q" and "x < y \<or> x = y \<and> p \<le> q"
    by (cases k) auto
  moreover have "y \<le> x" and "y = x \<Longrightarrow> q \<le> r"
    using Cons.prems(2) by (auto simp: k k')
  ultimately have "x = y" and "p \<le> q" and "q \<le> r" by auto
  with Cons.IH [OF _ _ r] k show ?case by (simp add: has_prefix_def)
qed

lemma has_prefix_ge: "has_prefix p k \<Longrightarrow> p \<le> k"
proof (induction p arbitrary: k)
  case (Cons x p)
  then show ?case by (cases k) (auto simp: has_prefix_def)
qed simp

lemma scan_prefix_sorted:
  assumes "sorted ks" and "\<forall>k \<in> set ks. p \<le> k"
  shows "scan_prefix p (map (\<lambda>k. Inr (k, f k)) ks) = Ok (map (\<lambda>k. (k, f k)) (filter (has_prefix p) ks))"
  using assms
proof (induction ks)
  case Nil
  then show ?case by simp
next
  case (Cons k ks)
  show ?case
  proof (cases "has_prefix p k")
    case True
    with Cons show ?thesis by simp
  next
    case False
    with Cons.prems have "\<forall>k' \<in> set ks. \<not> has_prefix p k'"
      by (auto dest: has_prefix_between)
    with False show ?thesis by (simp add: filter_empty_conv)
  qed
qed

end
