(* ===== verification/Quyn_StateLaws.thy ===== *)
theory Quyn_StateLaws
  imports Quyn_State
begin

text \<open>
  The laws of the state database over a working store: each operation refines an update of
  \<open>state_view\<close>, reads of untouched components do not change, the state root is a function of
  the balance and nonce tables only, and \<open>apply_transfer\<close> is the abstract transfer.
\<close>

text \<open>The entries of the two hashed tables have the widths the setters write.\<close>

definition exact_widths :: "ext \<Rightarrow> (bytes \<rightharpoonup> bytes) \<Rightarrow> bool" where
  "exact_widths X m \<longleftrightarrow>
     (\<forall>k v. m k = Some v \<and> has_prefix (ascii ''balance:'') k \<longrightarrow>
        (\<exists>a. k = balance_key X a) \<and> length v = 32) \<and>
     (\<forall>k v. m k = Some v \<and> has_prefix (ascii ''nonce:'') k \<longrightarrow>
        (\<exists>a. k = nonce_key X a) \<and> length v = 8)"

definition root_preimage :: "(bytes \<rightharpoonup> bytes) \<Rightarrow> bytes" where
  "root_preimage m = entry_bytes (prefix_entries (ascii ''balance:'') m) @
     entry_bytes (prefix_entries (ascii ''nonce:'') m)"

lemma map_of_map_keys:
  "map_of (map (\<lambda>k. (k, f k)) ks) k = (if k \<in> set ks then Some (f k) else None)"
  by (induction ks) auto

lemma code_key_prefix [simp]:
  "\<not> has_prefix (ascii ''balance:'') (code_key X a)" "\<not> has_prefix (ascii ''nonce:'') (code_key X a)"
  by simp_all

text \<open>
  Parsing the hashed bytes back: an entry of either table starts with its own first byte, and
  its key and value have fixed lengths.
\<close>

lemma entry_bytes_simps [simp]:
  "entry_bytes [] = []" "entry_bytes ((k, v) # es) = k @ v @ entry_bytes es"
  by (simp_all add: entry_bytes_def)

lemma entry_bytes_inject1:
  assumes "\<forall>(k, v) \<in> set es. length k = m \<and> length v = n" and "0 < m"
    and "\<forall>(k, v) \<in> set fs. length k = m \<and> length v = n"
    and "entry_bytes es = entry_bytes fs"
  shows "es = fs"
  using assms(1,3,4)
proof (induction es arbitrary: fs)
  case Nil
  then show ?case using assms(2) by (cases fs) auto
next
  case (Cons e es)
  obtain k v where e: "e = (k, v)" by (cases e)
  with Cons.prems assms(2) obtain k' v' fs' where fs: "fs = (k', v') # fs'"
    by (cases fs) auto
  with e Cons.prems have "k = k'" and "v = v'" and "entry_bytes es = entry_bytes fs'"
    by simp_all
  with e fs Cons.prems Cons.IH [of fs'] show ?case by simp
qed

lemma entry_bytes_inject:
  assumes "\<forall>(k, v) \<in> set bs. has_prefix (ascii ''balance:'') k \<and> length k = 48 \<and> length v = 32"
    and "\<forall>(k, v) \<in> set ns. has_prefix (ascii ''nonce:'') k \<and> length k = 46 \<and> length v = 8"
    and "\<forall>(k, v) \<in> set bs'. has_prefix (ascii ''balance:'') k \<and> length k = 48 \<and> length v = 32"
    and "\<forall>(k, v) \<in> set ns'. has_prefix (ascii ''nonce:'') k \<and> length k = 46 \<and> length v = 8"
    and "entry_bytes bs @ entry_bytes ns = entry_bytes bs' @ entry_bytes ns'"
  shows "bs = bs' \<and> ns = ns'"
proof -
  have hd_b: "k \<noteq> [] \<and> hd k = 98" if "has_prefix (ascii ''balance:'') k" for k
    using that by (cases k) (auto simp: has_prefix_def ascii_def)
  have hd_n: "k \<noteq> [] \<and> hd k = 110" if "has_prefix (ascii ''nonce:'') k" for k
    using that by (cases k) (auto simp: has_prefix_def ascii_def)
  have no: "entry_bytes ((k, v) # bs) @ r \<noteq> entry_bytes ns"
    if "has_prefix (ascii ''balance:'') k"
      and "\<forall>(k, v) \<in> set ns. has_prefix (ascii ''nonce:'') k \<and> length k = 46 \<and> length v = 8"
    for k v r bs ns
  proof
    assume eq: "entry_bytes ((k, v) # bs) @ r = entry_bytes ns"
    have "hd (entry_bytes ((k, v) # bs) @ r) = 98"
      using hd_b [OF that(1)] by simp
    moreover have "entry_bytes ns \<noteq> []"
      using eq hd_b [OF that(1)] by (metis Nil_is_append_conv entry_bytes_simps(2))
    then have "hd (entry_bytes ns) = 110"
      using that(2) hd_n by (cases ns) auto
    ultimately show False using eq by simp
  qed
  show ?thesis using assms
  proof (induction bs arbitrary: bs')
    case Nil
    then show ?case
    proof (cases bs')
      case (Cons e es)
      obtain k v where "e = (k, v)" by (cases e)
      with Nil Cons no [of k ns v es "entry_bytes ns'"] show ?thesis
        by simp
    next
      case b: Nil
      with Nil entry_bytes_inject1 [of ns 46 8 ns'] show ?thesis
        by auto
    qed
  next
    case (Cons e es)
    obtain k v where e: "e = (k, v)" by (cases e)
    show ?case
    proof (cases bs')
      case Nil
      with Cons.prems e no [of k ns' v es "entry_bytes ns"] show ?thesis
        by simp
    next
      case b: (Cons e' es')
      obtain k' v' where e': "e' = (k', v')" by (cases e')
      with e b Cons.prems have "k = k'" and "v = v'"
        and "entry_bytes es @ entry_bytes ns = entry_bytes es' @ entry_bytes ns'"
        by simp_all
      with Cons.IH [of es'] Cons.prems e e' b show ?thesis by simp
    qed
  qed
qed

locale state_store = kv_store K contents + hex_crate X
  for K :: "'d kv" and contents :: "'d \<Rightarrow> bytes \<rightharpoonup> bytes" and X :: ext
begin

lemma db_get_eq [simp]: "db_get K d k = Ok (contents d k)"
  by (simp add: db_get_def get_contents)

lemma db_put_eq [simp]: "db_put K k v d = (Ok (), snd (kv_put K d k v))"
  using put_eq [of d k v] by (auto simp: db_put_def split: prod.splits)

lemma keys_inject [simp]:
  "balance_key X a = balance_key X b \<longleftrightarrow> a = b" "nonce_key X a = nonce_key X b \<longleftrightarrow> a = b"
  "code_key X a = code_key X b \<longleftrightarrow> a = b"
  "storage_key X a s = storage_key X b t \<longleftrightarrow> a = b \<and> s = t"
proof -
  show "storage_key X a s = storage_key X b t \<longleftrightarrow> a = b \<and> s = t"
    by (auto simp: storage_key_def addr_hex_def hex_length append_eq_append_conv)
qed (simp_all add: balance_key_def nonce_key_def code_key_def addr_hex_def)

lemma state_root_key_inject [simp]: "state_root_key g = state_root_key h \<longleftrightarrow> g = h"
  by (simp add: state_root_key_def)

subsection \<open>Reads\<close>

lemma get_balance_view:
  "state_wf X (contents d) \<Longrightarrow> get_balance K X d a = Ok (sv_balance (view_of X (contents d)) a)"
  by (auto simp: get_balance_def view_of_def state_wf_def left_pad_def of_be_def split: option.splits)

lemma get_nonce_view:
  "state_wf X (contents d) \<Longrightarrow> get_nonce K X d a = Ok (sv_nonce (view_of X (contents d)) a)"
  by (auto simp: get_nonce_def view_of_def state_wf_def left_pad_def of_be_def split: option.splits)

lemma get_code_view: "get_code K X d a = Ok (sv_code (view_of X (contents d)) a)"
  by (auto simp: get_code_def view_of_def split: option.splits)

lemma get_storage_view:
  "state_wf X (contents d) \<Longrightarrow>
     get_storage K X d a slot = Ok (sv_storage (view_of X (contents d)) a slot)"
  by (auto simp: get_storage_def view_of_def state_wf_def left_pad_def of_be_def split: option.splits)

subsection \<open>Writes\<close>

lemma set_balance_Ok: "fst (set_balance K X a v d) = Ok ()"
  by (simp add: set_balance_def)

lemma set_balance_contents:
  "contents (snd (set_balance K X a v d)) = (contents d)(balance_key X a \<mapsto> u256_be v)"
  by (simp add: set_balance_def put_contents)

lemma set_nonce_contents:
  "contents (snd (set_nonce K X a n d)) = (contents d)(nonce_key X a \<mapsto> u64_be n)"
  by (simp add: set_nonce_def put_contents)

lemma set_code_contents:
  "contents (snd (set_code K X a c d)) = (contents d)(code_key X a \<mapsto> c)"
  by (simp add: set_code_def put_contents)

lemma set_storage_contents:
  "contents (snd (set_storage K X a s v d)) = (contents d)(storage_key X a s \<mapsto> u256_be v)"
  by (simp add: set_storage_def put_contents)

lemma save_state_root_contents:
  "contents (snd (save_state_root K h r d)) = (contents d)(state_root_key h \<mapsto> b256_bytes r)"
  by (simp add: save_state_root_def put_contents)

lemma writes_Ok:
  "fst (set_nonce K X a n d) = Ok ()" "fst (set_code K X a c d) = Ok ()"
  "fst (set_storage K X a s v d) = Ok ()" "fst (save_state_root K h r d) = Ok ()"
  by (simp_all add: set_nonce_def set_code_def set_storage_def save_state_root_def)

lemmas write_contents =
  set_balance_contents set_nonce_contents set_code_contents set_storage_contents
  save_state_root_contents

lemma set_balance_view:
  "view_of X (contents (snd (set_balance K X a v d))) =
     (view_of X (contents d))\<lparr>sv_balance := (sv_balance (view_of X (contents d)))(a := v)\<rparr>"
  by (auto simp: view_of_def set_balance_contents fun_eq_iff split: option.splits)

lemma set_nonce_view:
  "view_of X (contents (snd (set_nonce K X a n d))) =
     (view_of X (contents d))\<lparr>sv_nonce := (sv_nonce (view_of X (contents d)))(a := n)\<rparr>"
  by (auto simp: view_of_def set_nonce_contents fun_eq_iff split: option.splits)

lemma set_code_view:
  "view_of X (contents (snd (set_code K X a c d))) =
     (view_of X (contents d))\<lparr>sv_code := (sv_code (view_of X (contents d)))(a := c)\<rparr>"
  by (auto simp: view_of_def set_code_contents fun_eq_iff split: option.splits)

lemma set_storage_view:
  "view_of X (contents (snd (set_storage K X a s v d))) =
     (view_of X (contents d))\<lparr>sv_storage := (sv_storage (view_of X (contents d)))
        (a := (sv_storage (view_of X (contents d)) a)(s := v))\<rparr>"
  by (auto simp: view_of_def set_storage_contents fun_eq_iff split: option.splits)

lemma save_state_root_view:
  "view_of X (contents (snd (save_state_root K h r d))) = view_of X (contents d)"
  by (auto simp: view_of_def save_state_root_contents fun_eq_iff split: option.splits)

lemma state_wf_writes:
  assumes "state_wf X (contents d)"
  shows "state_wf X (contents (snd (set_balance K X a v d)))"
    and "state_wf X (contents (snd (set_nonce K X a n d)))"
    and "state_wf X (contents (snd (set_code K X a c d)))"
    and "state_wf X (contents (snd (set_storage K X a s w d)))"
    and "state_wf X (contents (snd (save_state_root K h r d)))"
  using assms unfolding state_wf_def write_contents by (auto split: if_splits)

subsection \<open>The state root\<close>

lemma iter_scan:
  "scan_prefix p (kv_iter K d p) = Ok (prefix_entries p (contents d))"
proof -
  let ?S = "{k \<in> dom (contents d). p \<le> k}"
  have fin: "finite ?S" using finite_contents by simp
  have "filter (has_prefix p) (sorted_list_of_set ?S)
      = sorted_list_of_set {k \<in> dom (contents d). has_prefix p k}"
  proof (rule sorted_distinct_set_unique)
    show "set (filter (has_prefix p) (sorted_list_of_set ?S)) =
        set (sorted_list_of_set {k \<in> dom (contents d). has_prefix p k})"
      using fin finite_contents by (auto intro: has_prefix_ge)
    show "sorted (filter (has_prefix p) (sorted_list_of_set ?S))"
      by (rule sorted_wrt_filter) simp
    show "distinct (filter (has_prefix p) (sorted_list_of_set ?S))"
      by (rule distinct_filter) simp
  qed simp_all
  moreover have "scan_prefix p (map (\<lambda>k. Inr (k, the (contents d k))) (sorted_list_of_set ?S)) =
      Ok (map (\<lambda>k. (k, the (contents d k))) (filter (has_prefix p) (sorted_list_of_set ?S)))"
    using fin by (intro scan_prefix_sorted) simp_all
  ultimately show ?thesis
    by (simp only: iter_contents prefix_entries_def)
qed

lemma sort_prefix_entries: "sort_key fst (prefix_entries p m) = prefix_entries p m"
  by (rule sort_key_id_if_sorted) (simp add: prefix_entries_def comp_def)

lemma compute_state_root_eq:
  "compute_state_root K X d = Ok (sha256 X
     (entry_bytes (prefix_entries (ascii ''balance:'') (contents d)) @
      entry_bytes (prefix_entries (ascii ''nonce:'') (contents d))))"
  by (simp add: compute_state_root_def iter_scan sort_prefix_entries)

lemma prefix_entries_other:
  assumes "\<not> has_prefix p k"
  shows "prefix_entries p (m(k \<mapsto> v)) = prefix_entries p m"
proof -
  have "{j \<in> dom (m(k \<mapsto> v)). has_prefix p j} = {j \<in> dom m. has_prefix p j}"
    using assms by auto
  moreover have "j \<noteq> k" if "j \<in> set (sorted_list_of_set {j \<in> dom m. has_prefix p j})" for j
    using that assms sorted_list_of_set.set_sorted_key_list_of_set [of "{j \<in> dom m. has_prefix p j}"]
    by (cases "finite {j \<in> dom m. has_prefix p j}") auto
  ultimately show ?thesis
    by (simp add: prefix_entries_def)
qed

lemma ex_action: "fst p = Ok () \<Longrightarrow> P (snd p) \<Longrightarrow> \<exists>d'. p = (Ok (), d') \<and> P d'"
  by (cases p) auto

lemma refines_view:
  assumes "state_wf X (contents d)"
  shows "get_balance K X d a = Ok (sv_balance (view_of X (contents d)) a)
    \<and> get_nonce K X d a = Ok (sv_nonce (view_of X (contents d)) a)
    \<and> get_code K X d a = Ok (sv_code (view_of X (contents d)) a)
    \<and> get_storage K X d a slot = Ok (sv_storage (view_of X (contents d)) a slot)
    \<and> (\<exists>d'. set_balance K X a v d = (Ok (), d') \<and> state_wf X (contents d') \<and>
         view_of X (contents d') = (view_of X (contents d))\<lparr>sv_balance :=
           (sv_balance (view_of X (contents d)))(a := v)\<rparr>)
    \<and> (\<exists>d'. set_nonce K X a n d = (Ok (), d') \<and> state_wf X (contents d') \<and>
         view_of X (contents d') = (view_of X (contents d))\<lparr>sv_nonce :=
           (sv_nonce (view_of X (contents d)))(a := n)\<rparr>)
    \<and> (\<exists>d'. set_code K X a c d = (Ok (), d') \<and> state_wf X (contents d') \<and>
         view_of X (contents d') = (view_of X (contents d))\<lparr>sv_code :=
           (sv_code (view_of X (contents d)))(a := c)\<rparr>)
    \<and> (\<exists>d'. set_storage K X a slot v d = (Ok (), d') \<and> state_wf X (contents d') \<and>
         view_of X (contents d') = (view_of X (contents d))\<lparr>sv_storage :=
           (sv_storage (view_of X (contents d)))(a := (sv_storage (view_of X (contents d)) a)(slot := v))\<rparr>)
    \<and> (\<exists>d'. save_state_root K h r d = (Ok (), d') \<and> state_wf X (contents d') \<and>
         view_of X (contents d') = view_of X (contents d))"
  using assms
  by (intro conjI ex_action)
    (simp_all add: get_balance_view get_nonce_view get_code_view get_storage_view set_balance_Ok
      writes_Ok state_wf_writes set_balance_view set_nonce_view set_code_view set_storage_view
      save_state_root_view)

subsection \<open>What the state root commits to\<close>

lemma root_frame:
  "\<exists>root. compute_state_root K X d = Ok root
    \<and> compute_state_root K X (snd (set_code K X a c d)) = Ok root
    \<and> compute_state_root K X (snd (set_storage K X a slot v d)) = Ok root
    \<and> compute_state_root K X (snd (save_state_root K h r d)) = Ok root"
  by (simp add: compute_state_root_eq write_contents prefix_entries_other)

lemma compute_root_preimage:
  "compute_state_root K X d = Ok (sha256 X (root_preimage (contents d)))"
  by (simp add: compute_state_root_eq root_preimage_def)

lemma exact_entries:
  assumes "exact_widths X (contents d)"
  shows "\<forall>(k, v) \<in> set (prefix_entries (ascii ''balance:'') (contents d)).
      has_prefix (ascii ''balance:'') k \<and> length k = 48 \<and> length v = 32"
    and "\<forall>(k, v) \<in> set (prefix_entries (ascii ''nonce:'') (contents d)).
      has_prefix (ascii ''nonce:'') k \<and> length k = 46 \<and> length v = 8"
proof -
  have fin: "finite {k \<in> dom (contents d). has_prefix p k}" for p
    using finite_contents by simp
  have len: "length (addr_hex X a) = 40" for a
    by (simp add: addr_hex_def hex_length)
  show "\<forall>(k, v) \<in> set (prefix_entries (ascii ''balance:'') (contents d)).
      has_prefix (ascii ''balance:'') k \<and> length k = 48 \<and> length v = 32"
    using assms fin len by (fastforce simp: prefix_entries_def exact_widths_def balance_key_def)
  show "\<forall>(k, v) \<in> set (prefix_entries (ascii ''nonce:'') (contents d)).
      has_prefix (ascii ''nonce:'') k \<and> length k = 46 \<and> length v = 8"
    using assms fin len by (fastforce simp: prefix_entries_def exact_widths_def nonce_key_def)
qed

lemma root_commits:
  assumes "exact_widths X (contents d)" and "exact_widths X (contents d')"
    and "root_preimage (contents d) = root_preimage (contents d')"
  shows "compute_state_root K X d = Ok (sha256 X (root_preimage (contents d)))
    \<and> sv_balance (view_of X (contents d)) = sv_balance (view_of X (contents d'))
    \<and> sv_nonce (view_of X (contents d)) = sv_nonce (view_of X (contents d'))"
proof -
  have eqs: "prefix_entries (ascii ''balance:'') (contents d) = prefix_entries (ascii ''balance:'') (contents d')
      \<and> prefix_entries (ascii ''nonce:'') (contents d) = prefix_entries (ascii ''nonce:'') (contents d')"
    using entry_bytes_inject [OF exact_entries [OF assms(1)] exact_entries [OF assms(2)]] assms(3)
    by (simp add: root_preimage_def)
  have get: "contents e k = map_of (prefix_entries p (contents e)) k" if "has_prefix p k" for e p k
    using that finite_contents [of e] by (auto simp: prefix_entries_def map_of_map_keys)
  have "contents d (balance_key X a) = contents d' (balance_key X a)" for a
    using eqs get [of "ascii ''balance:''" "balance_key X a"] by (simp add: has_prefix_def balance_key_def)
  moreover have "contents d (nonce_key X a) = contents d' (nonce_key X a)" for a
    using eqs get [of "ascii ''nonce:''" "nonce_key X a"] by (simp add: has_prefix_def nonce_key_def)
  ultimately show ?thesis
    by (simp add: view_of_def compute_root_preimage)
qed

subsection \<open>Transfers\<close>

lemma apply_transfer_Ok:
  assumes "state_wf X (contents d)"
  shows "fst (apply_transfer K X from to v d) = Ok ()"
  using assms
  by (simp add: apply_transfer_def aret_def abind_aread get_balance_view athen_def
      set_balance_def)

lemma apply_transfer_view:
  assumes "state_wf X (contents d)"
  shows "view_of X (contents (snd (apply_transfer K X from to v d))) =
    (let bal = sv_balance (view_of X (contents d))
     in (view_of X (contents d))\<lparr>sv_balance :=
          bal(from := sat_sub (bal from) v, to := sat_add (bal to) v)\<rparr>)"
proof (cases "v = 0")
  case True
  then show ?thesis
    by (simp add: apply_transfer_def aret_def sat_sub_def Let_def)
next
  case False
  let ?bal = "sv_balance (view_of X (contents d))"
  have "snd (apply_transfer K X from to v d)
      = snd (set_balance K X to (sat_add (?bal to) v)
          (snd (set_balance K X from (sat_sub (?bal from) v) d)))"
    using False assms
    by (simp add: apply_transfer_def abind_aread get_balance_view athen_def
        set_balance_def)
  then show ?thesis
    by (simp add: set_balance_view Let_def)
qed

end

text \<open>The sum of all balances, over the finite type of addresses.\<close>

definition total_balance :: "(address \<Rightarrow> u256) \<Rightarrow> nat" where
  "total_balance bal = (\<Sum>a\<in>UNIV. unat (bal a))"

lemma total_balance_upd:
  "total_balance (bal(a := x)) + unat (bal a) = total_balance bal + unat x"
proof -
  have fin: "finite (UNIV :: address set)" by simp
  have "total_balance (bal(a := x)) = unat x + (\<Sum>b\<in>UNIV - {a}. unat (bal b))"
    unfolding total_balance_def by (subst sum.remove [OF fin, of a]) auto
  moreover have "total_balance bal = unat (bal a) + (\<Sum>b\<in>UNIV - {a}. unat (bal b))"
    unfolding total_balance_def by (rule sum.remove [OF fin]) auto
  ultimately show ?thesis by simp
qed

lemma total_balance_transfer:
  assumes "from \<noteq> to" and "v \<le> bal from" and "unat (bal to) + unat v < 2 ^ 256"
  shows "total_balance (bal(from := sat_sub (bal from) v, to := sat_add (bal to) v))
    = total_balance bal"
proof -
  let ?b = "bal(from := sat_sub (bal from) v)"
  have "unat v \<le> unat (bal from)" using assms(2) by (simp add: word_le_nat_alt)
  moreover have "unat (sat_sub (bal from) v) = unat (bal from) - unat v"
    and "unat (sat_add (bal to) v) = unat (bal to) + unat v"
    using assms(3) by (simp_all add: unat_sat_sub unat_sat_add)
  moreover have "total_balance ?b + unat (bal from) = total_balance bal + unat (sat_sub (bal from) v)"
    by (rule total_balance_upd)
  moreover have "total_balance (?b(to := sat_add (bal to) v)) + unat (?b to)
      = total_balance ?b + unat (sat_add (bal to) v)"
    by (rule total_balance_upd)
  ultimately show ?thesis using assms(1) by simp
qed

interpretation mem_state: state_store mem_kv map_of ref_ext
  by unfold_locales


section \<open>Properties\<close>

lemma mem_state_wf [simp]: "state_wf ref_ext Map.empty"
  by (simp add: state_wf_def)

text \<open>C3: StateDB refines the abstract account state: over a working store with values of the
  stored widths, every getter returns the component of the view, every setter succeeds, keeps
  the widths, updates exactly its component of the view at exactly its address (and slot), and
  saving a block's state root changes no account.\<close>

theorem statedb_refines_view:
  assumes "state_store K contents X" and "state_wf X (contents d)"
  shows "get_balance K X d a = Ok (sv_balance (view_of X (contents d)) a)
    \<and> get_nonce K X d a = Ok (sv_nonce (view_of X (contents d)) a)
    \<and> get_code K X d a = Ok (sv_code (view_of X (contents d)) a)
    \<and> get_storage K X d a slot = Ok (sv_storage (view_of X (contents d)) a slot)
    \<and> (\<exists>d'. set_balance K X a v d = (Ok (), d') \<and> state_wf X (contents d') \<and>
         view_of X (contents d') = (view_of X (contents d))\<lparr>sv_balance :=
           (sv_balance (view_of X (contents d)))(a := v)\<rparr>)
    \<and> (\<exists>d'. set_nonce K X a n d = (Ok (), d') \<and> state_wf X (contents d') \<and>
         view_of X (contents d') = (view_of X (contents d))\<lparr>sv_nonce :=
           (sv_nonce (view_of X (contents d)))(a := n)\<rparr>)
    \<and> (\<exists>d'. set_code K X a c d = (Ok (), d') \<and> state_wf X (contents d') \<and>
         view_of X (contents d') = (view_of X (contents d))\<lparr>sv_code :=
           (sv_code (view_of X (contents d)))(a := c)\<rparr>)
    \<and> (\<exists>d'. set_storage K X a slot v d = (Ok (), d') \<and> state_wf X (contents d') \<and>
         view_of X (contents d') = (view_of X (contents d))\<lparr>sv_storage :=
           (sv_storage (view_of X (contents d)))(a := (sv_storage (view_of X (contents d)) a)(slot := v))\<rparr>)
    \<and> (\<exists>d'. save_state_root K h r d = (Ok (), d') \<and> state_wf X (contents d') \<and>
         view_of X (contents d') = view_of X (contents d))"
  by (rule state_store.refines_view [OF assms])

theorem statedb_refines_view_witness:
  "get_balance mem_kv ref_ext [] 7 = Ok 0 \<and>
   (\<exists>d'. set_balance mem_kv ref_ext 7 100 [] = (Ok (), d') \<and>
      sv_balance (view_of ref_ext (map_of d')) 7 = 100 \<and>
      sv_nonce (view_of ref_ext (map_of d')) 7 = 0)"
proof -
  have wf: "state_wf ref_ext (map_of [])" by simp
  note R = statedb_refines_view [OF mem_state.state_store_axioms wf,
      where a = 7 and slot = 0 and v = 100 and n = 0 and c = "[]" and h = 0 and r = 0]
  have "sv_balance (view_of ref_ext (map_of [])) 7 = 0" "sv_nonce (view_of ref_ext (map_of [])) 7 = 0"
    by (simp_all add: view_of_def)
  with R show ?thesis by auto
qed

text \<open>The state root is the hash of the balance and nonce tables only: it is computed
  successfully on a working store, and writing contract code, contract storage or a block's
  saved state root leaves it as it was.\<close>

theorem state_root_accounts_only:
  assumes "state_store K contents X"
  shows "\<exists>root. compute_state_root K X d = Ok root
    \<and> compute_state_root K X (snd (set_code K X a c d)) = Ok root
    \<and> compute_state_root K X (snd (set_storage K X a slot v d)) = Ok root
    \<and> compute_state_root K X (snd (save_state_root K h r d)) = Ok root"
  by (rule state_store.root_frame [OF assms])

theorem state_root_accounts_only_witness:
  "\<exists>root. compute_state_root mem_kv ref_ext [] = Ok root \<and>
     compute_state_root mem_kv ref_ext (snd (set_storage mem_kv ref_ext 1 2 3 [])) = Ok root"
  using state_root_accounts_only [OF mem_state.state_store_axioms, where d = "[]" and a = 1
      and slot = 2 and v = 3] by blast

text \<open>The state root preimage commits to the accounts: if two databases whose balance
  and nonce entries have the stored widths are hashed from the same bytes, they agree on every
  balance and on every nonce.\<close>

theorem state_root_commits:
  assumes "state_store K contents X" and "exact_widths X (contents d)" and "exact_widths X (contents d')"
    and "root_preimage (contents d) = root_preimage (contents d')"
  shows "compute_state_root K X d = Ok (sha256 X (root_preimage (contents d)))
    \<and> sv_balance (view_of X (contents d)) = sv_balance (view_of X (contents d'))
    \<and> sv_nonce (view_of X (contents d)) = sv_nonce (view_of X (contents d'))"
  by (rule state_store.root_commits [OF assms])

theorem state_root_commits_witness:
  "sv_balance (view_of ref_ext (map_of [])) =
     sv_balance (view_of ref_ext (map_of (snd (set_code mem_kv ref_ext 1 [2] []))))"
proof -
  have "exact_widths ref_ext (map_of [])" by (simp add: exact_widths_def)
  moreover have "exact_widths ref_ext (map_of (snd (set_code mem_kv ref_ext 1 [2] [])))"
    by (simp add: mem_state.set_code_contents exact_widths_def code_key_prefix)
  moreover have "root_preimage (map_of []) = root_preimage (map_of (snd (set_code mem_kv ref_ext 1 [2] [])))"
    by (simp add: mem_state.set_code_contents root_preimage_def mem_state.prefix_entries_other)
  ultimately show ?thesis
    using state_root_commits [OF mem_state.state_store_axioms, where d = "[]"
        and d' = "snd (set_code mem_kv ref_ext 1 [2] [])"] by blast
qed

text \<open>C4: a transfer between two accounts is the abstract transfer and conserves the supply:
  with enough balance at the sender and room at the recipient it succeeds, moves exactly the
  value, changes no other account and no nonce, code or storage, and the sum of all balances
  stays the same.\<close>

theorem transfer_conserves:
  assumes "state_store K contents X" and "state_wf X (contents d)"
    and "sv_balance (view_of X (contents d)) = bal"
    and "from \<noteq> to" and "v \<le> bal from" and "unat (bal to) + unat v < 2 ^ 256"
  shows "\<exists>d'. apply_transfer K X from to v d = (Ok (), d') \<and>
    view_of X (contents d') = (view_of X (contents d))\<lparr>sv_balance :=
      bal(from := bal from - v, to := bal to + v)\<rparr> \<and>
    total_balance (bal(from := bal from - v, to := bal to + v)) = total_balance bal"
proof -
  have "sat_sub (bal from) v = bal from - v" and "sat_add (bal to) v = bal to + v"
    using assms(5,6) by (simp_all add: sat_sub_def sat_add_def)
  with total_balance_transfer [OF assms(4), of v bal] assms(5,6) assms(3)
    state_store.apply_transfer_Ok [OF assms(1,2), of "from" to v]
    state_store.apply_transfer_view [OF assms(1,2), of "from" to v]
  show ?thesis
    by (cases "apply_transfer K X from to v d") (auto simp: Let_def)
qed

theorem transfer_conserves_witness:
  "\<exists>d'. apply_transfer mem_kv ref_ext 1 2 5 (snd (set_balance mem_kv ref_ext 1 9 [])) = (Ok (), d') \<and>
     sv_balance (view_of ref_ext (map_of d')) 1 = 4 \<and> sv_balance (view_of ref_ext (map_of d')) 2 = 5"
proof -
  let ?d = "snd (set_balance mem_kv ref_ext 1 9 [])"
  have wf: "state_wf ref_ext (map_of ?d)"
    by (rule mem_state.state_wf_writes(1)) simp
  have bal: "sv_balance (view_of ref_ext (map_of ?d)) = (\<lambda>_. 0)(1 := 9)"
    by (simp add: mem_state.set_balance_view) (simp add: view_of_def)
  show ?thesis
    using transfer_conserves [OF mem_state.state_store_axioms wf bal, of 1 2 5] by auto
qed

text \<open>A transfer of an account to itself creates money: the recipient's balance is read
  before the sender's is written, so the account ends with its old balance plus the value, and
  the total supply grows by the value.\<close>

theorem self_transfer_mints:
  assumes "state_store K contents X" and "state_wf X (contents d)"
    and "sv_balance (view_of X (contents d)) = bal"
    and "unat (bal a) + unat v < 2 ^ 256"
  shows "\<exists>d'. apply_transfer K X a a v d = (Ok (), d') \<and>
    sv_balance (view_of X (contents d')) = bal(a := bal a + v) \<and>
    total_balance (bal(a := bal a + v)) = total_balance bal + unat v"
proof -
  have "sat_add (bal a) v = bal a + v" and un: "unat (bal a + v) = unat (bal a) + unat v"
    using assms(4) by (simp_all add: sat_add_def unat_word_ariths)
  with total_balance_upd [of bal a "bal a + v"] assms(3)
    state_store.apply_transfer_Ok [OF assms(1,2), of a a v]
    state_store.apply_transfer_view [OF assms(1,2), of a a v]
  show ?thesis
    by (cases "apply_transfer K X a a v d") (auto simp: Let_def)
qed

theorem self_transfer_mints_witness:
  "\<exists>d'. apply_transfer mem_kv ref_ext 3 3 10 [] = (Ok (), d') \<and>
     sv_balance (view_of ref_ext (map_of d')) 3 = 10"
proof -
  have wf: "state_wf ref_ext (map_of [])" by simp
  have bal: "sv_balance (view_of ref_ext (map_of [])) = (\<lambda>_. 0)"
    by (simp add: view_of_def)
  show ?thesis
    using self_transfer_mints [OF mem_state.state_store_axioms wf bal, of 10 3] by auto
qed

end
