(* ===== verification/Quyn_Validation.thy ===== *)
theory Quyn_Validation
  imports Quyn_StateLaws
begin

text \<open>
  core/src/types.rs and core/src/validation.rs: the chain constants, and the checks on headers,
  transactions and blocks. Each check is characterised by exactly the conditions under which
  it accepts.
\<close>

section \<open>Constants\<close>

definition BLOCK_TIME_SECS :: u64 where "BLOCK_TIME_SECS = 3"
definition MAX_TPS :: u64 where "MAX_TPS = 50000"
definition TOTAL_SUPPLY :: nat where "TOTAL_SUPPLY = 1000000000 * 10 ^ 18"
definition CHAIN_ID_MAINNET :: u64 where "CHAIN_ID_MAINNET = 7777"
definition CHAIN_ID_TESTNET :: u64 where "CHAIN_ID_TESTNET = 7779"

section \<open>Headers\<close>

definition validate_block_header ::
  "ext \<Rightarrow> block_header \<Rightarrow> block_header option \<Rightarrow> u64 \<Rightarrow> unit core_result" where
  "validate_block_header X h parent current_timestamp = (case parent of
     Some p \<Rightarrow>
       if h_parent_hash h \<noteq> header_hash X p then Err (InvalidBlock ''parent_hash mismatch'')
       else obind (chk_add (h_number p) 1) (\<lambda>next.
         if h_number h \<noteq> next then Err (InvalidBlock ''block number not parent+1'')
         else if h_timestamp h \<le> h_timestamp p
           then Err (InvalidBlock ''timestamp not strictly after parent'')
         else obind (chk_add current_timestamp BLOCK_TIME_SECS) (\<lambda>limit.
           if limit < h_timestamp h
             then Err (InvalidBlock ''timestamp too far in future (max 1x block time)'')
             else Ok ()))
   | None \<Rightarrow>
       if h_number h \<noteq> 0 then Err (InvalidBlock ''genesis must have number 0'') else Ok ())"

section \<open>Transactions\<close>

definition invalid_tx :: "ext \<Rightarrow> core_error \<Rightarrow> core_error" where
  "invalid_tx X e = InvalidTransaction (core_error_string X e)"

definition validate_tx_basic :: "ext \<Rightarrow> signed_transaction \<Rightarrow> u64 \<Rightarrow> unit core_result" where
  "validate_tx_basic X tx cid =
     (if chain_id tx \<noteq> cid
      then Err (InvalidTransaction (''chain_id mismatch: expected '' @ dec (unat cid) @ '', got '' @
             dec (unat (chain_id tx))))
      else obind (map_err (invalid_tx X) (sender X tx)) (\<lambda>_. Ok ()))"

definition tx_cost :: "signed_transaction \<Rightarrow> u256" where
  "tx_cost tx = sat_add (tx_value tx) (sat_mul (gas_price tx) (ucast (gas_limit tx)))"

definition validate_tx_against_state ::
  "'d kv \<Rightarrow> ext \<Rightarrow> signed_transaction \<Rightarrow> 'd \<Rightarrow> unit core_result" where
  "validate_tx_against_state K X tx d =
     obind (sender X tx) (\<lambda>s.
     obind (get_balance K X d s) (\<lambda>balance.
     obind (get_nonce K X d s) (\<lambda>n.
     let cost = tx_cost tx
     in if balance < cost
        then Err (InvalidTransaction (''insufficient balance: have '' @ dec (unat balance) @
               '', need '' @ dec (unat cost)))
        else if nonce tx \<noteq> n
        then Err (InvalidTransaction (''invalid nonce: expected '' @ dec (unat n) @ '', got '' @
               dec (unat (nonce tx))))
        else Ok ())))"

section \<open>Blocks\<close>

text \<open>The loop of \<open>validate_block\<close> over the transactions, with the set of senders seen.\<close>

fun check_senders :: "ext \<Rightarrow> address set \<Rightarrow> signed_transaction list \<Rightarrow> unit core_result" where
  "check_senders X seen [] = Ok ()"
| "check_senders X seen (tx # txs) =
     obind (map_err (invalid_tx X) (sender X tx)) (\<lambda>s.
     if s \<in> seen
     then Err (InvalidBlock ''duplicate sender in block (nonce ordering required)'')
     else check_senders X (insert s seen) txs)"

definition validate_block :: "ext \<Rightarrow> block \<Rightarrow> unit core_result" where
  "validate_block X b = obind (validate_self X b) (\<lambda>_. check_senders X {} (b_body b))"

section \<open>Characterisations\<close>

lemma chk_add_one_eq:
  "obind (chk_add a 1) f = Ok y \<longleftrightarrow> unat a + 1 < 2 ^ LENGTH('a) \<and> f (a + 1) = Ok y"
  for a :: "'a::len word"
  by (cases "LENGTH('a) = 1") (auto simp: chk_add_def)

lemma sender_cases:
  obtains a where "sender X tx = Ok a" | "sender X tx = Err (InvalidTransaction ''Invalid signature'')"
  by (cases "recover_sender X (st_tx tx) (st_r tx) (st_s tx) (st_v tx)") (auto simp: sender_def)

lemma check_senders_iff:
  "check_senders X seen txs = Ok () \<longleftrightarrow>
     (\<exists>ss. map (sender X) txs = map Ok ss \<and> distinct ss \<and> set ss \<inter> seen = {})"
proof (induction txs arbitrary: seen)
  case Nil
  then show ?case by simp
next
  case (Cons tx txs)
  show ?case
  proof (cases rule: sender_cases [of X tx])
    case (1 a)
    let ?P = "\<lambda>seen txs ss. map (sender X) txs = map Ok ss \<and> distinct ss \<and> set ss \<inter> seen = {}"
    have "(\<exists>ss. ?P seen (tx # txs) ss) \<longleftrightarrow> a \<notin> seen \<and> (\<exists>ss. ?P (insert a seen) txs ss)"
    proof
      assume "\<exists>ss. ?P seen (tx # txs) ss"
      with 1 show "a \<notin> seen \<and> (\<exists>ss. ?P (insert a seen) txs ss)"
        by (auto simp: Cons_eq_map_conv)
    next
      assume "a \<notin> seen \<and> (\<exists>ss. ?P (insert a seen) txs ss)"
      then obtain ss where "a \<notin> seen" and "?P (insert a seen) txs ss" by blast
      with 1 have "?P seen (tx # txs) (a # ss)" by auto
      then show "\<exists>ss. ?P seen (tx # txs) ss" by blast
    qed
    with 1 Cons.IH show ?thesis by simp
  next
    case 2
    then show ?thesis by (auto simp: Cons_eq_map_conv)
  qed
qed

lemma check_senders_err:
  "check_senders X seen txs = Ok () \<or>
     (\<exists>e. check_senders X seen txs = Err e \<and>
        e \<in> {InvalidBlock ''duplicate sender in block (nonce ordering required)'',
             InvalidTransaction ''Invalid transaction: Invalid signature''})"
proof (induction txs arbitrary: seen)
  case (Cons tx txs)
  then show ?case
    by (cases rule: sender_cases [of X tx]) (auto simp: invalid_tx_def)
qed simp

lemma validate_block_no_panic:
  "validate_block X b = Ok () \<or> (\<exists>e. validate_block X b = Err e)"
  using validate_self_cases [of X b] check_senders_err [of X "{}" "b_body b"]
  by (auto simp: validate_block_def)

lemma validate_tx_basic_iff:
  "validate_tx_basic X tx cid = Ok () \<longleftrightarrow> chain_id tx = cid \<and> (\<exists>a. sender X tx = Ok a)"
  by (cases rule: sender_cases [of X tx]) (auto simp: validate_tx_basic_def)

lemma unat_tx_cost:
  "unat (tx_cost tx) =
     min (unat (tx_value tx) + unat (gas_price tx) * unat (gas_limit tx)) (2 ^ 256 - 1)"
proof -
  have "unat (gas_limit tx) < 2 ^ 64" using unat_less [of "gas_limit tx"] by simp
  then have "unat (ucast (gas_limit tx) :: u256) = unat (gas_limit tx)"
    by (simp add: unsigned_ucast_eq take_bit_nat_eq_self)
  then show ?thesis by (auto simp: tx_cost_def unat_sat_add unat_sat_mul min_def)
qed

lemma header_ok_iff:
  "validate_block_header X h (Some p) now = Ok () \<longleftrightarrow>
     h_parent_hash h = header_hash X p \<and>
     unat (h_number h) = unat (h_number p) + 1 \<and>
     unat (h_timestamp p) < unat (h_timestamp h) \<and>
     unat now + 3 < 2 ^ 64 \<and>
     unat (h_timestamp h) \<le> unat now + 3"
proof -
  have num: "unat (h_number p) + 1 < 2 ^ 64 \<and> h_number h = h_number p + 1 \<longleftrightarrow>
      unat (h_number h) = unat (h_number p) + 1"
    using unat_less [of "h_number h"]
    by (auto simp: word_unat_eq_iff unat_word_ariths)
  have lim: "unat now + 3 < 2 ^ 64 \<Longrightarrow> unat (now + 3) = unat now + 3"
    by (simp add: unat_word_ariths)
  show ?thesis
    using num lim
    by (auto simp: validate_block_header_def BLOCK_TIME_SECS_def chk_add_def word_less_nat_alt
        word_le_nat_alt split: if_splits)
qed

section \<open>Properties\<close>

text \<open>C5: a header is accepted against its parent exactly when it names the parent's hash, its
  number is the parent's plus one (without overflow), its timestamp is strictly after the
  parent's and at most one block time after the current time.\<close>

theorem header_accepted_iff:
  "validate_block_header X h (Some p) now = Ok () \<longleftrightarrow>
     h_parent_hash h = header_hash X p \<and>
     unat (h_number h) = unat (h_number p) + 1 \<and>
     unat (h_timestamp p) < unat (h_timestamp h) \<and>
     unat now + 3 < 2 ^ 64 \<and>
     unat (h_timestamp h) \<le> unat now + 3"
  by (rule header_ok_iff)

text \<open>C6: a block passes the structural validation exactly when its header carries the root of
  its transactions, every transaction's signature recovers to a sender, and no two transactions
  have the same sender; the check never panics.\<close>

theorem block_accepted_iff:
  "(validate_block X b = Ok () \<longleftrightarrow>
     h_transactions_root (b_header b) = transactions_root X (b_body b) \<and>
     (\<exists>senders. map (sender X) (b_body b) = map Ok senders \<and> distinct senders)) \<and>
   validate_block X b \<noteq> Panic \<and> validate_block X b \<noteq> Diverge"
  using check_senders_iff [of X "{}" "b_body b"] validate_self_cases [of X b]
    validate_block_no_panic [of X b] unfolding validate_self_Ok [of X b, symmetric]
  by (auto simp: validate_block_def)

text \<open>C11: a transaction that passes the check against the state can pay: its sender recovers,
  its nonce is the account's nonce, and the balance covers value plus gas price times gas limit
  over the naturals, unless that sum exceeds what a U256 holds and the balance is the largest
  U256, where the saturated cost hides the difference.\<close>

theorem validated_tx_is_funded:
  assumes "state_store K contents X" and "state_wf X (contents d)"
    and "validate_tx_against_state K X tx d = Ok ()"
  shows "\<exists>s. sender X tx = Ok s \<and> nonce tx = sv_nonce (view_of X (contents d)) s \<and>
    (unat (tx_value tx) + unat (gas_price tx) * unat (gas_limit tx)
       \<le> unat (sv_balance (view_of X (contents d)) s) \<or>
     sv_balance (view_of X (contents d)) s = - 1 \<and>
       2 ^ 256 \<le> unat (tx_value tx) + unat (gas_price tx) * unat (gas_limit tx))"
proof -
  obtain s where s: "sender X tx = Ok s"
    using assms(3) by (auto simp: validate_tx_against_state_def obind_eq_Ok)
  let ?b = "sv_balance (view_of X (contents d)) s"
  from assms(3) s have cost: "\<not> ?b < tx_cost tx" and n: "nonce tx = sv_nonce (view_of X (contents d)) s"
    by (auto simp: validate_tx_against_state_def Let_def
        state_store.get_balance_view [OF assms(1,2)] state_store.get_nonce_view [OF assms(1,2)]
        split: if_splits)
  let ?c = "unat (tx_value tx) + unat (gas_price tx) * unat (gas_limit tx)"
  from cost have le: "min ?c (2 ^ 256 - 1) \<le> unat ?b"
    by (simp add: word_less_nat_alt unat_tx_cost not_less min_le_iff_disj)
  have "?c \<le> unat ?b \<or> ?b = - 1 \<and> 2 ^ 256 \<le> ?c"
  proof (cases "?c < 2 ^ 256")
    case True
    with le show ?thesis by (simp add: min_def)
  next
    case False
    with le have "2 ^ 256 - 1 \<le> unat ?b" by (simp add: min_def split: if_splits)
    then have "unat ?b = 2 ^ 256 - 1" using unat_less [of ?b] by simp
    then have "?b = - 1" by (simp add: word_unat_eq_iff unat_max)
    with False show ?thesis by simp
  qed
  with s n show ?thesis by blast
qed

text \<open>A signed transaction of account 3 (\<open>r = 1\<close>, \<open>s = 2\<close>) for the witnesses.\<close>

definition example_tx :: "u64 \<Rightarrow> u256 \<Rightarrow> u256 \<Rightarrow> signed_transaction" where
  "example_tx n price v = \<lparr>
     st_tx = \<lparr>t_nonce = n, t_gas_price = price, t_gas_limit = 21000, t_to = Some 5,
       t_value = v, t_data = [], t_chain_id = 7779\<rparr>,
     st_r = 1, st_s = 2, st_v = 27, st_hash_override = None\<rparr>"

lemma example_tx_sender [simp]: "sender ref_ext (example_tx n price v) = Ok 3"
proof -
  have "(of_be (drop 12 (b256_bytes 3)) :: address) = 3"
    using nat_of_be_replicate_0 [of 19 "[]"] by (simp add: b256_bytes_small of_be_def)
  moreover have "sum_list (map unat (b256_bytes 1 @ b256_bytes 2)) = 3"
    by (simp add: b256_bytes_small sum_list_replicate)
  ultimately show ?thesis
    by (simp add: sender_def recover_sender_def example_tx_def ref_ext_def)
qed

theorem validated_tx_is_funded_witness:
  "\<exists>d. validate_tx_against_state mem_kv ref_ext (example_tx 0 1 5) d = Ok () \<and>
     5 + 21000 \<le> unat (sv_balance (view_of ref_ext (map_of d)) 3)"
proof -
  let ?d = "snd (set_balance mem_kv ref_ext 3 30000 [])"
  have wf: "state_wf ref_ext (map_of ?d)"
    by (rule mem_state.state_wf_writes(1)) simp
  have bal: "sv_balance (view_of ref_ext (map_of ?d)) = (\<lambda>_. 0)(3 := 30000)"
    and non: "sv_nonce (view_of ref_ext (map_of ?d)) = (\<lambda>_. 0)"
    by (simp_all add: mem_state.set_balance_view) (simp_all add: view_of_def)
  have "tx_cost (example_tx 0 1 5) = 21005"
    by (simp add: tx_cost_def example_tx_def accessor_defs sat_add_def sat_mul_def)
  then have ok: "validate_tx_against_state mem_kv ref_ext (example_tx 0 1 5) ?d = Ok ()"
    by (simp add: validate_tx_against_state_def mem_state.get_balance_view [OF wf]
        mem_state.get_nonce_view [OF wf] bal non Let_def) (simp add: nonce_def example_tx_def)
  show ?thesis
    using ok validated_tx_is_funded [OF mem_state.state_store_axioms wf ok] bal by auto
qed

end
