(* ===== verification/Quyn_Genesis.thy ===== *)
theory Quyn_Genesis
  imports Quyn_Validation
begin

text \<open>
  core/src/genesis.rs: the genesis configuration, parsing of addresses and balances, the
  allocations written to the state, the default mainnet allocation, and the split of gas fees
  between burn and proposer. A \<open>HashMap\<close> of allocations is the list of its entries in the
  order an iteration yields them.
\<close>

section \<open>Definitions\<close>

definition DECIMALS :: nat where "DECIMALS = 18"
definition ONE_QYN :: nat where "ONE_QYN = 10 ^ 18"

record genesis_config =
  g_chain_id :: u64
  g_network_name :: string
  g_timestamp :: u64
  g_gas_limit :: u64
  g_alloc :: "(string \<times> string) list"
  g_validators :: "string list"

definition parse_address :: "ext \<Rightarrow> string \<Rightarrow> address core_result" where
  "parse_address X s =
     obind (of_sum Serialization (hex_decode X (strip_prefix_or ''0x'' s))) (\<lambda>bs.
     if length bs \<noteq> 20 then Err (Serialization ''address must be 20 bytes'')
     else Ok (of_be bs))"

definition parse_u256 :: "ext \<Rightarrow> string \<Rightarrow> u256 core_result" where
  "parse_u256 X s =
     of_sum (\<lambda>_. Serialization ''invalid hex balance'')
       (u256_from_str_radix X (trim_start_matches ''0X'' (trim_start_matches ''0x'' s)) 16)"

definition apply_genesis_alloc ::
  "'d kv \<Rightarrow> ext \<Rightarrow> (string \<times> string) list \<Rightarrow> ('d, core_error, unit) act" where
  "apply_genesis_alloc K X alloc = afor alloc (\<lambda>(a_hex, balance_str).
     abind (alift (parse_address X a_hex)) (\<lambda>a.
     abind (alift (parse_u256 X balance_str)) (\<lambda>balance.
     athen (set_balance K X a balance) (set_nonce K X a 0))))"

definition default_mainnet_alloc :: "(string \<times> string) list" where
  "default_mainnet_alloc = (let one = 10 ^ 18 :: nat in
     [(''0x0000000000000000000000000000000000000001'', ''0x'' @ lower_hex (400000000 * one)),
      (''0x0000000000000000000000000000000000000002'', ''0x'' @ lower_hex (200000000 * one)),
      (''0x0000000000000000000000000000000000000003'', ''0x'' @ lower_hex (200000000 * one)),
      (''0x0000000000000000000000000000000000000004'', ''0x'' @ lower_hex (100000000 * one)),
      (''0x0000000000000000000000000000000000000005'', ''0x'' @ lower_hex (100000000 * one))])"

definition split_fees :: "u256 \<Rightarrow> u256 \<times> u256" where
  "split_fees total_gas_fee =
     (let half = total_gas_fee div 2; proposer = sat_sub total_gas_fee half
      in (half, proposer))"

section \<open>Parsing\<close>

context radix_crate
begin

lemma parse_u256_lower_hex:
  "n < 2 ^ 256 \<Longrightarrow> parse_u256 X (''0x'' @ lower_hex n) = Ok (of_nat n)"
  using from_lower_hex [of n]
  by (simp add: parse_u256_def trim_hex_prefix trim_start_matches_id [OF lower_hex_no_prefix(2)]
      del: append_Cons)

end

context hex_crate
begin

lemma parse_address_hex:
  "parse_address X (''0x'' @ hex_digits (address_bytes a)) = Ok a"
  using hex_roundtrip [of "address_bytes a"]
  by (simp add: parse_address_def strip_hex_prefix hex_encode_digits del: append_Cons)

end

text \<open>Genesis over a working store and faithful parsers.\<close>

locale genesis_store = state_store K contents X + radix_crate X
  for K :: "'d kv" and contents :: "'d \<Rightarrow> bytes \<rightharpoonup> bytes" and X :: ext
begin

text \<open>Entry by entry, the parsed balance is written and the nonce reset.\<close>

lemma apply_genesis_view:
  assumes "state_wf X (contents d)"
    and "map (\<lambda>(s, t). (parse_address X s, parse_u256 X t)) alloc = map (\<lambda>(a, b). (Ok a, Ok b)) pairs"
  shows "\<exists>d'. apply_genesis_alloc K X alloc d = (Ok (), d') \<and> state_wf X (contents d') \<and>
    view_of X (contents d') = (view_of X (contents d))\<lparr>
      sv_balance := foldl (\<lambda>bal (a, b). bal(a := b)) (sv_balance (view_of X (contents d))) pairs,
      sv_nonce := foldl (\<lambda>non (a, b). non(a := 0)) (sv_nonce (view_of X (contents d))) pairs\<rparr>"
  using assms
proof (induction alloc arbitrary: d pairs)
  case Nil
  then show ?case by (simp add: apply_genesis_alloc_def)
next
  case (Cons e alloc)
  obtain s t where e: "e = (s, t)" by (cases e)
  with Cons.prems(2) obtain a b ps where p: "pairs = (a, b) # ps"
    and parse: "parse_address X s = Ok a" "parse_u256 X t = Ok b"
    and rest: "map (\<lambda>(s, t). (parse_address X s, parse_u256 X t)) alloc = map (\<lambda>(a, b). (Ok a, Ok b)) ps"
    by (cases pairs) auto
  let ?d1 = "snd (set_balance K X a b d)"
  let ?d2 = "snd (set_nonce K X a 0 ?d1)"
  have wf: "state_wf X (contents ?d2)"
    using Cons.prems(1) state_wf_writes by blast
  have "set_balance K X a b d = (Ok (), ?d1)" and "set_nonce K X a 0 ?d1 = (Ok (), ?d2)"
    by (simp_all add: set_balance_def set_nonce_def)
  then have "apply_genesis_alloc K X (e # alloc) d = apply_genesis_alloc K X alloc ?d2"
    by (simp add: apply_genesis_alloc_def e parse abind_alift athen_def)
  with Cons.IH [OF wf rest] show ?case
    by (simp add: p set_nonce_view set_balance_view)
qed

end

interpretation mem_genesis: genesis_store mem_kv map_of ref_ext
  by unfold_locales

section \<open>Properties\<close>

text \<open>The gas fees are split exactly: the burned half is the total divided by two rounded
  down, the proposer gets the rest, nothing is lost or created, and the proposer's share
  exceeds the burn by at most one unit.\<close>

theorem split_fees_exact:
  "case split_fees t of (burn, proposer) \<Rightarrow>
     unat burn = unat t div 2 \<and> unat burn + unat proposer = unat t \<and>
     unat burn \<le> unat proposer \<and> unat proposer \<le> unat burn + 1"
proof -
  have "unat (t div 2) = unat t div 2"
    by (simp add: unat_div)
  then show ?thesis
    by (simp add: split_fees_def Let_def unat_sat_sub) arith
qed

lemma default_addresses:
  "hex_digits (address_bytes 1) = ''0000000000000000000000000000000000000001''"
  "hex_digits (address_bytes 2) = ''0000000000000000000000000000000000000002''"
  "hex_digits (address_bytes 3) = ''0000000000000000000000000000000000000003''"
  "hex_digits (address_bytes 4) = ''0000000000000000000000000000000000000004''"
  "hex_digits (address_bytes 5) = ''0000000000000000000000000000000000000005''"
  by code_simp+

lemma total_balance_0 [simp]: "total_balance (\<lambda>_. 0) = 0"
  by (simp add: total_balance_def)

lemma total_balance_new: "bal a = 0 \<Longrightarrow> total_balance (bal(a := x)) = total_balance bal + unat x"
  using total_balance_upd [of bal a x] by simp

text \<open>The default mainnet allocation is 40/20/20/10/10 percent of the total supply: applied
  to an empty state it succeeds, gives the five accounts these shares with nonce 0 and every
  other account nothing, and the balances add up to exactly one billion QYN.\<close>

theorem default_alloc_is_total_supply:
  assumes "genesis_store K contents X" and "contents d = Map.empty"
  shows "\<exists>d'. apply_genesis_alloc K X default_mainnet_alloc d = (Ok (), d') \<and>
    (\<forall>a. unat (sv_balance (view_of X (contents d')) a) =
       (if a = 1 then TOTAL_SUPPLY * 40 div 100
        else if a = 2 \<or> a = 3 then TOTAL_SUPPLY * 20 div 100
        else if a = 4 \<or> a = 5 then TOTAL_SUPPLY * 10 div 100 else 0)) \<and>
    (\<forall>a. sv_nonce (view_of X (contents d')) a = 0) \<and>
    total_balance (sv_balance (view_of X (contents d'))) = TOTAL_SUPPLY"
proof -
  let ?one = "10 ^ 18 :: nat"
  let ?pairs = "[(1, of_nat (400000000 * ?one)), (2, of_nat (200000000 * ?one)),
    (3, of_nat (200000000 * ?one)), (4, of_nat (100000000 * ?one)), (5, of_nat (100000000 * ?one))]
    :: (address \<times> u256) list"
  have hex: "parse_address X (''0x'' @ hex_digits (address_bytes a)) = Ok a" for a
    using assms(1) genesis_store.axioms(1) state_store.axioms(2) hex_crate.parse_address_hex by blast
  have u: "n < 2 ^ 256 \<Longrightarrow> parse_u256 X (''0x'' @ lower_hex n) = Ok (of_nat n)" for n
    using assms(1) genesis_store.axioms(2) radix_crate.parse_u256_lower_hex by blast
  have "map (\<lambda>(s, t). (parse_address X s, parse_u256 X t)) default_mainnet_alloc
      = map (\<lambda>(a, b). (Ok a, Ok b)) ?pairs"
    using hex [of 1] hex [of 2] hex [of 3] hex [of 4] hex [of 5]
      u [of "400000000 * ?one"] u [of "200000000 * ?one"] u [of "100000000 * ?one"]
    by (simp add: default_mainnet_alloc_def Let_def default_addresses)
  moreover have "state_wf X (contents d)"
    using assms(2) by (simp add: state_wf_def)
  ultimately obtain d' where ok: "apply_genesis_alloc K X default_mainnet_alloc d = (Ok (), d')"
    and view: "view_of X (contents d') = (view_of X (contents d))\<lparr>
      sv_balance := foldl (\<lambda>bal (a, b). bal(a := b)) (sv_balance (view_of X (contents d))) ?pairs,
      sv_nonce := foldl (\<lambda>non (a, b). non(a := 0)) (sv_nonce (view_of X (contents d))) ?pairs\<rparr>"
    using genesis_store.apply_genesis_view [OF assms(1)] by blast
  have "sv_balance (view_of X (contents d)) = (\<lambda>_. 0)" "sv_nonce (view_of X (contents d)) = (\<lambda>_. 0)"
    using assms(2) by (simp_all add: view_of_def)
  with view have bal: "sv_balance (view_of X (contents d')) = (\<lambda>_. 0)
      (1 := 400000000000000000000000000, 2 := 200000000000000000000000000,
       3 := 200000000000000000000000000, 4 := 100000000000000000000000000,
       5 := 100000000000000000000000000)"
    and non: "sv_nonce (view_of X (contents d')) = (\<lambda>_. 0)"
    by (simp_all add: fun_eq_iff)
  show ?thesis
    by (intro exI [of _ d'] conjI ok)
      (simp_all add: bal non total_balance_new TOTAL_SUPPLY_def)
qed

theorem default_alloc_is_total_supply_witness:
  "\<exists>d'. apply_genesis_alloc mem_kv ref_ext default_mainnet_alloc [] = (Ok (), d') \<and>
    total_balance (sv_balance (view_of ref_ext (map_of d'))) = 10 ^ 27"
  using default_alloc_is_total_supply [OF mem_genesis.genesis_store_axioms, where d = "[]"]
  by (auto simp: TOTAL_SUPPLY_def)


end
