(* ===== verification/Quyn_Chain.thy ===== *)
theory Quyn_Chain
  imports Quyn_Genesis
begin

text \<open>
  core/src/chain.rs, the storage half: block headers and bodies by hash, the number index, the
  record of who signed what at which height, children for fork choice, head and finalized
  checkpoint, validator-set bytes and the receipt index, all in one key-value store. The
  bincode crate is the parameter \<open>C\<close>.
\<close>

section \<open>Serialization\<close>

record codec =
  ser_header :: "block_header \<Rightarrow> string + bytes"
  de_header :: "bytes \<Rightarrow> string + block_header"
  ser_body :: "block_body \<Rightarrow> string + bytes"
  de_body :: "bytes \<Rightarrow> string + block_body"

text \<open>
  bincode: serializing the derived types succeeds, and deserializing gives headers back. A body
  comes back when every transaction carries its hash: the field \<open>hash_override\<close> is skipped by
  serde when it is \<open>None\<close>, and a format that does not describe itself cannot see that on reading.
\<close>

definition encodable :: "block_body \<Rightarrow> bool" where
  "encodable txs \<longleftrightarrow> list_all (\<lambda>t. st_hash_override t \<noteq> None) txs"

locale bincode_crate =
  fixes C :: codec
  assumes header_roundtrip: "\<exists>bs. ser_header C h = Inr bs \<and> de_header C bs = Inr h"
    and body_roundtrip: "\<exists>bs. ser_body C b = Inr bs \<and> (encodable b \<longrightarrow> de_body C bs = Inr b)"

section \<open>Keys\<close>

datatype chain_key =
    BlockHeaderKey b256
  | BlockBodyKey b256
  | BlockNumberKey u64
  | TxReceiptKey b256
  | SignedBlockKey address u64
  | SlashEvidenceKey address u64
  | ChildrenKey b256
  | HeadKey
  | FinalizedHeightKey
  | FinalizedHashKey
  | ValidatorSetKey

fun chain_key_bytes :: "ext \<Rightarrow> chain_key \<Rightarrow> bytes" where
  "chain_key_bytes X (BlockHeaderKey h) = ascii ''block_header:'' @ b256_bytes h"
| "chain_key_bytes X (BlockBodyKey h) = ascii ''block_body:'' @ b256_bytes h"
| "chain_key_bytes X (BlockNumberKey n) = ascii ''block_number:'' @ u64_be n"
| "chain_key_bytes X (TxReceiptKey h) = ascii ''tx_receipt:'' @ b256_bytes h"
| "chain_key_bytes X (SignedBlockKey v n) =
     ascii ''signed_block:'' @ addr_hex X v @ ascii '':'' @ u64_be n"
| "chain_key_bytes X (SlashEvidenceKey v n) =
     ascii ''slash_evidence:'' @ addr_hex X v @ ascii '':'' @ u64_be n"
| "chain_key_bytes X (ChildrenKey h) = ascii ''children:'' @ b256_bytes h"
| "chain_key_bytes X HeadKey = ascii ''head_hash''"
| "chain_key_bytes X FinalizedHeightKey = ascii ''finalized_height''"
| "chain_key_bytes X FinalizedHashKey = ascii ''finalized_hash''"
| "chain_key_bytes X ValidatorSetKey = ascii ''validator_set''"

declare chain_key_bytes.simps [simp del]

definition FINALITY_DEPTH :: u64 where "FINALITY_DEPTH = 100"

definition chain_get :: "'d kv \<Rightarrow> ext \<Rightarrow> 'd \<Rightarrow> chain_key \<Rightarrow> bytes option core_result" where
  "chain_get K X d k = db_get K d (chain_key_bytes X k)"

definition chain_put :: "'d kv \<Rightarrow> ext \<Rightarrow> chain_key \<Rightarrow> bytes \<Rightarrow> ('d, core_error, unit) act" where
  "chain_put K X k v = db_put K (chain_key_bytes X k) v"

text \<open>\<open>(v.len() == 32).then(|| B256::from_slice(&v))\<close>\<close>

definition as_hash :: "bytes option \<Rightarrow> b256 option" where
  "as_hash r = (case r of Some v \<Rightarrow> if length v = 32 then Some (of_be v) else None | None \<Rightarrow> None)"

definition as_u64 :: "bytes option \<Rightarrow> u64 option" where
  "as_u64 r = (case r of Some v \<Rightarrow> if length v = 8 then Some (of_be v) else None | None \<Rightarrow> None)"

section \<open>Operations\<close>

definition get_signed_block :: "'d kv \<Rightarrow> ext \<Rightarrow> 'd \<Rightarrow> address \<Rightarrow> u64 \<Rightarrow> b256 option core_result" where
  "get_signed_block K X d validator height =
     obind (chain_get K X d (SignedBlockKey validator height)) (\<lambda>r. Ok (as_hash r))"

definition put_slash_evidence ::
  "'d kv \<Rightarrow> ext \<Rightarrow> address \<Rightarrow> u64 \<Rightarrow> bytes \<Rightarrow> ('d, core_error, unit) act" where
  "put_slash_evidence K X validator block_number evidence_bytes =
     chain_put K X (SlashEvidenceKey validator block_number) evidence_bytes"

definition put_block :: "'d kv \<Rightarrow> ext \<Rightarrow> codec \<Rightarrow> block \<Rightarrow> ('d, core_error, unit) act" where
  "put_block K X C b =
     (let hash = block_hash X b; h = b_header b in
      abind (alift (of_sum Serialization (ser_header C h))) (\<lambda>header_bytes.
      abind (alift (of_sum Serialization (ser_body C (b_body b)))) (\<lambda>body_bytes.
      athen (chain_put K X (BlockHeaderKey hash) header_bytes) (
      athen (chain_put K X (BlockBodyKey hash) body_bytes) (
      athen (chain_put K X (BlockNumberKey (h_number h)) (b256_bytes hash)) (
      athen (chain_put K X (SignedBlockKey (h_validator h) (h_number h)) (b256_bytes hash)) (
      abind (aread (\<lambda>d. chain_get K X d (ChildrenKey (h_parent_hash h)))) (\<lambda>existing.
      chain_put K X (ChildrenKey (h_parent_hash h))
        ((case existing of None \<Rightarrow> [] | Some v \<Rightarrow> v) @ b256_bytes hash)))))))))"

text \<open>\<open>slice::chunks\<close>: the last chunk may be shorter.\<close>

function chunks :: "nat \<Rightarrow> 'a list \<Rightarrow> 'a list list" where
  "chunks n xs = (if n = 0 \<or> xs = [] then [] else take n xs # chunks n (drop n xs))"
  by pat_completeness auto
termination
  by (relation "measure (\<lambda>(n, xs). length xs)") auto

declare chunks.simps [simp del]

definition decode_hashes :: "bytes \<Rightarrow> b256 list" where
  "decode_hashes v = map of_be (filter (\<lambda>c. length c = 32) (chunks 32 v))"

definition get_children :: "'d kv \<Rightarrow> ext \<Rightarrow> 'd \<Rightarrow> b256 \<Rightarrow> b256 list core_result" where
  "get_children K X d parent_hash =
     obind (chain_get K X d (ChildrenKey parent_hash)) (\<lambda>r. case r of
       Some v \<Rightarrow> Ok (decode_hashes v)
     | None \<Rightarrow> Ok [])"

definition get_finalized_height :: "'d kv \<Rightarrow> ext \<Rightarrow> 'd \<Rightarrow> u64 option core_result" where
  "get_finalized_height K X d =
     obind (chain_get K X d FinalizedHeightKey) (\<lambda>r. Ok (as_u64 r))"

definition get_finalized_hash :: "'d kv \<Rightarrow> ext \<Rightarrow> 'd \<Rightarrow> b256 option core_result" where
  "get_finalized_hash K X d =
     obind (chain_get K X d FinalizedHashKey) (\<lambda>r. Ok (as_hash r))"

definition get_validator_set_bytes :: "'d kv \<Rightarrow> ext \<Rightarrow> 'd \<Rightarrow> bytes option core_result" where
  "get_validator_set_bytes K X d = chain_get K X d ValidatorSetKey"

definition put_validator_set_bytes :: "'d kv \<Rightarrow> ext \<Rightarrow> bytes \<Rightarrow> ('d, core_error, unit) act" where
  "put_validator_set_bytes K X bs = chain_put K X ValidatorSetKey bs"

definition get_block :: "'d kv \<Rightarrow> ext \<Rightarrow> codec \<Rightarrow> 'd \<Rightarrow> b256 \<Rightarrow> block option core_result" where
  "get_block K X C d hash =
     obind (chain_get K X d (BlockHeaderKey hash)) (\<lambda>header_bytes.
     obind (chain_get K X d (BlockBodyKey hash)) (\<lambda>body_bytes.
     case (header_bytes, body_bytes) of
       (Some h, Some b) \<Rightarrow>
         obind (of_sum Serialization (de_header C h)) (\<lambda>header.
         obind (of_sum Serialization (de_body C b)) (\<lambda>body.
         Ok (Some \<lparr>b_header = header, b_body = body\<rparr>)))
     | _ \<Rightarrow> Ok None))"

definition get_block_by_number :: "'d kv \<Rightarrow> ext \<Rightarrow> codec \<Rightarrow> 'd \<Rightarrow> u64 \<Rightarrow> block option core_result" where
  "get_block_by_number K X C d number =
     obind (chain_get K X d (BlockNumberKey number)) (\<lambda>r. case as_hash r of
       Some hash \<Rightarrow> get_block K X C d hash
     | None \<Rightarrow> Ok None)"

definition set_head :: "'d kv \<Rightarrow> ext \<Rightarrow> b256 \<Rightarrow> ('d, core_error, unit) act" where
  "set_head K X hash = chain_put K X HeadKey (b256_bytes hash)"

definition get_head :: "'d kv \<Rightarrow> ext \<Rightarrow> 'd \<Rightarrow> b256 option core_result" where
  "get_head K X d = obind (chain_get K X d HeadKey) (\<lambda>r. Ok (as_hash r))"

text \<open>The loop of \<open>update_finalized\<close>: \<open>n\<close> iterations are left.\<close>

fun finalize_walk ::
  "'d kv \<Rightarrow> ext \<Rightarrow> codec \<Rightarrow> u64 \<Rightarrow> nat \<Rightarrow> b256 \<Rightarrow> ('d, core_error, unit) act" where
  "finalize_walk K X C finalized_number 0 current = aret ()"
| "finalize_walk K X C finalized_number (Suc n) current =
     abind (aread (\<lambda>d. get_block K X C d current)) (\<lambda>r. case r of
       None \<Rightarrow> afail (ChainValidation ''block not found'')
     | Some b \<Rightarrow>
         if h_number (b_header b) = finalized_number
         then athen (chain_put K X FinalizedHeightKey (u64_be finalized_number))
                    (chain_put K X FinalizedHashKey (b256_bytes current))
         else finalize_walk K X C finalized_number n (h_parent_hash (b_header b)))"

definition update_finalized :: "'d kv \<Rightarrow> ext \<Rightarrow> codec \<Rightarrow> b256 \<Rightarrow> ('d, core_error, unit) act" where
  "update_finalized K X C head_hash =
     abind (aread (\<lambda>d. get_block K X C d head_hash)) (\<lambda>r. case r of
       None \<Rightarrow> aret ()
     | Some block \<Rightarrow>
         (let number = h_number (b_header block)
          in if number < FINALITY_DEPTH then aret ()
             else finalize_walk K X C (number - FINALITY_DEPTH) (Suc (unat FINALITY_DEPTH)) head_hash))"

definition put_tx_receipt_index ::
  "'d kv \<Rightarrow> ext \<Rightarrow> b256 \<Rightarrow> b256 \<Rightarrow> u64 \<Rightarrow> u32 \<Rightarrow> u64 \<Rightarrow> ('d, core_error, unit) act" where
  "put_tx_receipt_index K X txh bh block_number index gas_used =
     chain_put K X (TxReceiptKey txh)
       (b256_bytes bh @ u64_be block_number @ u32_be index @ u64_be gas_used)"

definition get_tx_receipt_index ::
  "'d kv \<Rightarrow> ext \<Rightarrow> 'd \<Rightarrow> b256 \<Rightarrow> (b256 \<times> u64 \<times> u32 \<times> u64) option core_result" where
  "get_tx_receipt_index K X d txh =
     obind (chain_get K X d (TxReceiptKey txh)) (\<lambda>r. case r of
       Some v \<Rightarrow>
         if 32 + 8 + 4 \<le> length v
         then Ok (Some (of_be (take 32 v), of_be (take 8 (drop 32 v)), of_be (take 4 (drop 40 v)),
                if 52 \<le> length v then of_be (take 8 (drop 44 v)) else 21000))
         else Ok None
     | None \<Rightarrow> Ok None)"

section \<open>The abstract chain\<close>

record chain_view =
  cv_block :: "b256 \<Rightarrow> block option"
  cv_number :: "u64 \<Rightarrow> b256 option"
  cv_signed :: "address \<Rightarrow> u64 \<Rightarrow> b256 option"
  cv_children :: "b256 \<Rightarrow> b256 list"
  cv_head :: "b256 option"
  cv_finalized :: "u64 option \<times> b256 option"
  cv_receipt :: "b256 \<Rightarrow> bytes option"
  cv_evidence :: "address \<Rightarrow> u64 \<Rightarrow> bytes option"
  cv_validators :: "bytes option"

definition decode_block :: "codec \<Rightarrow> bytes option \<Rightarrow> bytes option \<Rightarrow> block option" where
  "decode_block C hb bb = (case (hb, bb) of
       (Some h, Some b) \<Rightarrow> (case (de_header C h, de_body C b) of
           (Inr header, Inr body) \<Rightarrow> Some \<lparr>b_header = header, b_body = body\<rparr>
         | _ \<Rightarrow> None)
     | _ \<Rightarrow> None)"

definition chain_view_of :: "ext \<Rightarrow> codec \<Rightarrow> (bytes \<rightharpoonup> bytes) \<Rightarrow> chain_view" where
  "chain_view_of X C m = (let g = (\<lambda>k. m (chain_key_bytes X k)) in \<lparr>
     cv_block = (\<lambda>h. decode_block C (g (BlockHeaderKey h)) (g (BlockBodyKey h))),
     cv_number = (\<lambda>n. as_hash (g (BlockNumberKey n))),
     cv_signed = (\<lambda>v n. as_hash (g (SignedBlockKey v n))),
     cv_children = (\<lambda>h. case g (ChildrenKey h) of None \<Rightarrow> [] | Some v \<Rightarrow> decode_hashes v),
     cv_head = as_hash (g HeadKey),
     cv_finalized = (as_u64 (g FinalizedHeightKey), as_hash (g FinalizedHashKey)),
     cv_receipt = (\<lambda>h. g (TxReceiptKey h)),
     cv_evidence = (\<lambda>v n. g (SlashEvidenceKey v n)),
     cv_validators = g ValidatorSetKey\<rparr>)"

text \<open>
  Stored headers and bodies deserialize, a header is stored under its own hash, and lists of
  children are whole hashes.
\<close>

definition chain_wf :: "ext \<Rightarrow> codec \<Rightarrow> (bytes \<rightharpoonup> bytes) \<Rightarrow> bool" where
  "chain_wf X C m \<longleftrightarrow>
     (\<forall>h bs. m (chain_key_bytes X (BlockHeaderKey h)) = Some bs \<longrightarrow>
        (\<exists>hdr. de_header C bs = Inr hdr \<and> header_hash X hdr = h)) \<and>
     (\<forall>h bs. m (chain_key_bytes X (BlockBodyKey h)) = Some bs \<longrightarrow> (\<exists>b. de_body C bs = Inr b)) \<and>
     (\<forall>h bs. m (chain_key_bytes X (ChildrenKey h)) = Some bs \<longrightarrow> 32 dvd length bs)"

end
