(* ===== verification/Quyn_ChainLaws.thy ===== *)
theory Quyn_ChainLaws
  imports Quyn_Chain
begin

text \<open>
  The laws of the chain database over a working store and a faithful codec: the keys of
  different tables and entries differ, every read is a component of \<open>chain_view\<close>, every
  write updates exactly its components, and the well-formedness of the stored blocks is kept.
\<close>

section \<open>Lists of hashes\<close>

lemma chunks_snoc:
  "n dvd length v \<Longrightarrow> length w = n \<Longrightarrow> 0 < n \<Longrightarrow> chunks n (v @ w) = chunks n v @ [w]"
proof (induction n v rule: chunks.induct)
  case (1 n v)
  show ?case
  proof (cases "v = []")
    case True
    with 1 show ?thesis by (auto simp: chunks.simps [of n w] chunks.simps [of n "[]"])
  next
    case False
    with 1 have "n \<le> length v" by (simp add: dvd_imp_le)
    with 1 False show ?thesis
      by (simp add: chunks.simps [of n "v @ w"] chunks.simps [of n v] dvd_minus_self)
  qed
qed

lemma decode_hashes_Nil [simp]: "decode_hashes [] = []"
  by (simp add: decode_hashes_def chunks.simps)

lemma decode_hashes_snoc:
  "32 dvd length v \<Longrightarrow> decode_hashes (v @ b256_bytes h) = decode_hashes v @ [h]"
  by (simp add: decode_hashes_def chunks_snoc)

lemma as_hash_simps [simp]:
  "as_hash None = None" "as_hash (Some (b256_bytes h)) = Some h"
  by (simp_all add: as_hash_def)

lemma as_u64_simps [simp]: "as_u64 None = None" "as_u64 (Some (u64_be n)) = Some n"
  by (simp_all add: as_u64_def)

section \<open>The abstract writes\<close>

text \<open>What \<open>put_block\<close> does to the chain.\<close>

definition view_put_block :: "ext \<Rightarrow> block \<Rightarrow> chain_view \<Rightarrow> chain_view" where
  "view_put_block X b v = (let h = block_hash X b; n = h_number (b_header b);
       s = h_validator (b_header b); p = h_parent_hash (b_header b)
     in v\<lparr>cv_block := (cv_block v)(h \<mapsto> b),
          cv_number := (cv_number v)(n \<mapsto> h),
          cv_signed := (cv_signed v)(s := (cv_signed v s)(n \<mapsto> h)),
          cv_children := (cv_children v)(p := cv_children v p @ [h])\<rparr>)"

text \<open>The block \<open>n\<close> parents above \<open>h\<close>, and chains whose numbers go down by one to 0.\<close>

fun ancestor :: "chain_view \<Rightarrow> nat \<Rightarrow> b256 \<Rightarrow> b256 option" where
  "ancestor v 0 h = (if cv_block v h = None then None else Some h)"
| "ancestor v (Suc n) h =
     (case cv_block v h of None \<Rightarrow> None | Some b \<Rightarrow> ancestor v n (h_parent_hash (b_header b)))"

definition linked :: "chain_view \<Rightarrow> bool" where
  "linked v \<longleftrightarrow> (\<forall>h b. cv_block v h = Some b \<and> h_number (b_header b) \<noteq> 0 \<longrightarrow>
     (\<exists>p. cv_block v (h_parent_hash (b_header b)) = Some p \<and>
        unat (h_number (b_header b)) = Suc (unat (h_number (b_header p)))))"

lemma ancestor_linked:
  assumes "linked v" and "cv_block v h = Some b" and "n \<le> unat (h_number (b_header b))"
  shows "\<exists>a c. ancestor v n h = Some a \<and> cv_block v a = Some c \<and>
    unat (h_number (b_header c)) = unat (h_number (b_header b)) - n"
  using assms(2,3)
proof (induction n arbitrary: h b)
  case 0
  then show ?case by simp
next
  case (Suc n)
  then have "h_number (b_header b) \<noteq> 0" by auto
  with assms(1) Suc.prems obtain p where p: "cv_block v (h_parent_hash (b_header b)) = Some p"
    and num: "unat (h_number (b_header b)) = Suc (unat (h_number (b_header p)))"
    unfolding linked_def by blast
  with Suc.IH [OF p] Suc.prems show ?case by auto
qed

section \<open>The chain store\<close>

lemma block_hash_body [simp]: "block_hash X (b\<lparr>b_body := txs\<rparr>) = block_hash X b"
  by (simp add: block_hash_def)

locale chain_store = state_store K contents X + bincode_crate C
  for K :: "'d kv" and contents :: "'d \<Rightarrow> bytes \<rightharpoonup> bytes" and X :: ext and C :: codec
begin

lemma chain_key_inject [simp]: "chain_key_bytes X k = chain_key_bytes X k' \<longleftrightarrow> k = k'"
proof -
  have len: "length (addr_hex X a) = 40" for a
    by (simp add: addr_hex_def hex_length)
  have "addr_hex X a = addr_hex X b \<longleftrightarrow> a = b" for a b
    by (simp add: addr_hex_def)
  then show ?thesis
    by (cases k; cases k') (simp_all add: chain_key_bytes.simps ascii_def len append_eq_append_conv)
qed

lemma chain_get_eq [simp]: "chain_get K X d k = Ok (contents d (chain_key_bytes X k))"
  by (simp add: chain_get_def)

lemma chain_put_eq [simp]:
  "chain_put K X k v d = (Ok (), snd (kv_put K d (chain_key_bytes X k) v))"
  by (simp add: chain_put_def)

subsection \<open>The codec\<close>

definition header_code :: "block_header \<Rightarrow> bytes" where
  "header_code h = projr (ser_header C h)"

definition body_code :: "block_body \<Rightarrow> bytes" where
  "body_code b = projr (ser_body C b)"

lemma codec_simps [simp]:
  "ser_header C h = Inr (header_code h)" "de_header C (header_code h) = Inr h"
  "ser_body C b = Inr (body_code b)" "encodable b \<Longrightarrow> de_body C (body_code b) = Inr b"
  using header_roundtrip [of h] body_roundtrip [of b]
  by (auto simp: header_code_def body_code_def)

subsection \<open>Reads\<close>

lemma view_simps:
  "cv_number (chain_view_of X C m) n = as_hash (m (chain_key_bytes X (BlockNumberKey n)))"
  "cv_signed (chain_view_of X C m) v n = as_hash (m (chain_key_bytes X (SignedBlockKey v n)))"
  "cv_head (chain_view_of X C m) = as_hash (m (chain_key_bytes X HeadKey))"
  "cv_validators (chain_view_of X C m) = m (chain_key_bytes X ValidatorSetKey)"
  by (simp_all add: chain_view_of_def)

lemma get_block_view:
  assumes "chain_wf X C (contents d)"
  shows "get_block K X C d h = Ok (cv_block (chain_view_of X C (contents d)) h)"
proof (cases "contents d (chain_key_bytes X (BlockHeaderKey h))")
  case None
  then show ?thesis
    by (simp add: get_block_def chain_view_of_def decode_block_def split: option.splits)
next
  case (Some hb)
  then obtain hdr where "de_header C hb = Inr hdr"
    using assms unfolding chain_wf_def by blast
  moreover have "\<exists>b. de_body C bs = Inr b" if "contents d (chain_key_bytes X (BlockBodyKey h)) = Some bs" for bs
    using that assms unfolding chain_wf_def by blast
  ultimately show ?thesis using Some
    by (force simp: get_block_def chain_view_of_def decode_block_def split: option.splits)
qed

lemma get_block_by_number_view:
  assumes "chain_wf X C (contents d)"
  shows "get_block_by_number K X C d n =
    Ok (case cv_number (chain_view_of X C (contents d)) n of
          None \<Rightarrow> None | Some h \<Rightarrow> cv_block (chain_view_of X C (contents d)) h)"
  using assms
  by (simp add: get_block_by_number_def view_simps get_block_view split: option.splits)

lemma reads_view:
  "get_signed_block K X d v n = Ok (cv_signed (chain_view_of X C (contents d)) v n)"
  "get_children K X d h = Ok (cv_children (chain_view_of X C (contents d)) h)"
  "get_finalized_height K X d = Ok (fst (cv_finalized (chain_view_of X C (contents d))))"
  "get_finalized_hash K X d = Ok (snd (cv_finalized (chain_view_of X C (contents d))))"
  "get_validator_set_bytes K X d = Ok (cv_validators (chain_view_of X C (contents d)))"
  "get_head K X d = Ok (cv_head (chain_view_of X C (contents d)))"
  by (auto simp: get_signed_block_def get_children_def get_finalized_height_def
      get_finalized_hash_def get_validator_set_bytes_def get_head_def chain_view_of_def
      split: option.splits)

text \<open>A stored block is stored under its own hash.\<close>

lemma view_block_hash:
  assumes "chain_wf X C m" and "cv_block (chain_view_of X C m) h = Some b"
  shows "block_hash X b = h"
proof -
  from assms(2) obtain bs where "m (chain_key_bytes X (BlockHeaderKey h)) = Some bs"
    and "de_header C bs = Inr (b_header b)"
    by (auto simp: chain_view_of_def decode_block_def split: option.splits sum.splits)
  with assms(1) show ?thesis
    unfolding chain_wf_def block_hash_def by fastforce
qed

lemma wf_children:
  "chain_wf X C m \<Longrightarrow> 32 dvd length (case m (chain_key_bytes X (ChildrenKey h)) of None \<Rightarrow> [] | Some v \<Rightarrow> v)"
  by (auto simp: chain_wf_def split: option.splits)

subsection \<open>Writes\<close>

lemma chain_put_contents:
  "contents (snd (kv_put K d (chain_key_bytes X k) v)) = (contents d)(chain_key_bytes X k \<mapsto> v)"
  by (simp add: put_contents)

definition block_entries :: "block \<Rightarrow> bytes \<Rightarrow> (bytes \<rightharpoonup> bytes) \<Rightarrow> (bytes \<rightharpoonup> bytes)" where
  "block_entries b ch m = m(
     chain_key_bytes X (BlockHeaderKey (block_hash X b)) \<mapsto> header_code (b_header b),
     chain_key_bytes X (BlockBodyKey (block_hash X b)) \<mapsto> body_code (b_body b),
     chain_key_bytes X (BlockNumberKey (h_number (b_header b))) \<mapsto> b256_bytes (block_hash X b),
     chain_key_bytes X (SignedBlockKey (h_validator (b_header b)) (h_number (b_header b)))
       \<mapsto> b256_bytes (block_hash X b),
     chain_key_bytes X (ChildrenKey (h_parent_hash (b_header b))) \<mapsto> ch @ b256_bytes (block_hash X b))"

lemma put_block_contents:
  "\<exists>d'. put_block K X C b d = (Ok (), d') \<and> contents d' = block_entries b
     (case contents d (chain_key_bytes X (ChildrenKey (h_parent_hash (b_header b)))) of
        None \<Rightarrow> [] | Some v \<Rightarrow> v) (contents d)"
  by (simp add: put_block_def Let_def abind_alift abind_aread athen_def put_contents block_entries_def)

text \<open>A block comes back with the transactions \<open>txs\<close> that bincode reads from the stored body.\<close>

lemma block_entries_view:
  assumes "de_body C (body_code (b_body b)) = Inr txs" and "32 dvd length ch"
    and "cv_children (chain_view_of X C m) (h_parent_hash (b_header b)) = decode_hashes ch"
  shows "chain_view_of X C (block_entries b ch m) =
    view_put_block X (b\<lparr>b_body := txs\<rparr>) (chain_view_of X C m)"
proof -
  have "b\<lparr>b_body := txs\<rparr> = \<lparr>b_header = b_header b, b_body = txs\<rparr>" by (cases b) simp
  then show ?thesis
    using assms
    by (auto simp: view_put_block_def chain_view_of_def block_entries_def decode_block_def decode_hashes_snoc fun_eq_iff Let_def
        cong: option.case_cong)
qed

lemma block_entries_wf:
  assumes "de_body C (body_code (b_body b)) = Inr txs" and "chain_wf X C m" and "32 dvd length ch"
  shows "chain_wf X C (block_entries b ch m)"
  using assms
  by (auto simp: chain_wf_def block_entries_def block_hash_def split: if_splits)

lemma put_block_reads:
  assumes "chain_wf X C (contents d)" and "de_body C (body_code (b_body b)) = Inr txs"
    and "chain_view_of X C (contents d) = v"
  shows "\<exists>d'. put_block K X C b d = (Ok (), d') \<and> chain_wf X C (contents d') \<and>
    chain_view_of X C (contents d') = view_put_block X (b\<lparr>b_body := txs\<rparr>) v"
proof -
  let ?ch = "case contents d (chain_key_bytes X (ChildrenKey (h_parent_hash (b_header b)))) of
        None \<Rightarrow> [] | Some v \<Rightarrow> v"
  have "32 dvd length ?ch" using wf_children [OF assms(1)] .
  moreover have "cv_children (chain_view_of X C (contents d)) (h_parent_hash (b_header b)) = decode_hashes ?ch"
    by (simp add: chain_view_of_def split: option.splits)
  ultimately show ?thesis
    using put_block_contents [of b d] block_entries_view [OF assms(2), of ?ch "contents d"]
      block_entries_wf [OF assms(2,1), of ?ch] assms(3)
    by (auto simp: view_put_block_def Let_def)
qed

lemma put_block_refines:
  assumes "chain_wf X C (contents d)" and "encodable (b_body b)" and "chain_view_of X C (contents d) = v"
  shows "\<exists>d'. put_block K X C b d = (Ok (), d') \<and> chain_wf X C (contents d') \<and>
    chain_view_of X C (contents d') = view_put_block X b v"
  using put_block_reads [OF assms(1) _ assms(3), of b "b_body b"] assms(2) by simp

text \<open>A body that bincode cannot read back hides its block.\<close>

lemma block_entries_hidden:
  assumes "de_body C (body_code (b_body b)) = Inl e" and "32 dvd length ch"
    and "cv_children (chain_view_of X C m) (h_parent_hash (b_header b)) = decode_hashes ch"
  shows "chain_view_of X C (block_entries b ch m) =
    (view_put_block X b (chain_view_of X C m))\<lparr>cv_block := (cv_block (chain_view_of X C m))(block_hash X b := None)\<rparr>"
  using assms
  by (auto simp: view_put_block_def chain_view_of_def block_entries_def decode_block_def decode_hashes_snoc fun_eq_iff Let_def
      cong: option.case_cong)

text \<open>The writes of one entry.\<close>

lemma wf_other_key:
  assumes "chain_wf X C m" and "\<forall>h. k \<noteq> BlockHeaderKey h \<and> k \<noteq> BlockBodyKey h \<and> k \<noteq> ChildrenKey h"
  shows "chain_wf X C (m(chain_key_bytes X k \<mapsto> w))"
proof -
  have ne: "BlockHeaderKey h \<noteq> k" "BlockBodyKey h \<noteq> k" "ChildrenKey h \<noteq> k" for h
    using assms(2) by metis+
  show ?thesis using assms(1) unfolding chain_wf_def by (simp add: ne)
qed

lemma put_view:
  "chain_view_of X C (m(chain_key_bytes X HeadKey \<mapsto> b256_bytes h)) =
     (chain_view_of X C m)\<lparr>cv_head := Some h\<rparr>"
  "chain_view_of X C (m(chain_key_bytes X FinalizedHeightKey \<mapsto> u64_be n,
        chain_key_bytes X FinalizedHashKey \<mapsto> b256_bytes h)) =
     (chain_view_of X C m)\<lparr>cv_finalized := (Some n, Some h)\<rparr>"
  "chain_view_of X C (m(chain_key_bytes X ValidatorSetKey \<mapsto> w)) =
     (chain_view_of X C m)\<lparr>cv_validators := Some w\<rparr>"
  "chain_view_of X C (m(chain_key_bytes X (TxReceiptKey t) \<mapsto> w)) =
     (chain_view_of X C m)\<lparr>cv_receipt := (cv_receipt (chain_view_of X C m))(t \<mapsto> w)\<rparr>"
  "chain_view_of X C (m(chain_key_bytes X (SlashEvidenceKey a n) \<mapsto> w)) =
     (chain_view_of X C m)\<lparr>cv_evidence := (cv_evidence (chain_view_of X C m))
        (a := (cv_evidence (chain_view_of X C m) a)(n \<mapsto> w))\<rparr>"
  by (auto simp: chain_view_of_def fun_eq_iff)

lemma set_head_refines:
  assumes "chain_wf X C (contents d)"
  shows "\<exists>d'. set_head K X h d = (Ok (), d') \<and> chain_wf X C (contents d') \<and>
    chain_view_of X C (contents d') = (chain_view_of X C (contents d))\<lparr>cv_head := Some h\<rparr>"
  using wf_other_key [OF assms, of HeadKey] by (simp add: set_head_def put_contents put_view)

subsection \<open>Finality\<close>

lemma finalize_walk_refines:
  assumes "chain_wf X C (contents d)" and v: "v = chain_view_of X C (contents d)" and "linked v"
    and "cv_block v h = Some b" and "unat (h_number (b_header b)) = unat fin + k" and "k < n"
    and "ancestor v k h = Some a"
  shows "\<exists>d'. finalize_walk K X C fin n h d = (Ok (), d') \<and> chain_wf X C (contents d') \<and>
    chain_view_of X C (contents d') = v\<lparr>cv_finalized := (Some fin, Some a)\<rparr>"
  using assms(4-7)
proof (induction n arbitrary: h b k)
  case 0
  then show ?case by simp
next
  case (Suc n)
  have get: "get_block K X C d h = Ok (Some b)"
    using get_block_view [OF assms(1)] Suc.prems(1) v by simp
  show ?case
  proof (cases k)
    case 0
    with Suc.prems have "h_number (b_header b) = fin" and "a = h"
      by (simp_all add: word_unat_eq_iff)
    then show ?thesis
      using wf_other_key [OF wf_other_key [OF assms(1), of FinalizedHeightKey], of FinalizedHashKey] v
      by (simp add: abind_aread get athen_def put_contents put_view)
  next
    case k: (Suc j)
    with Suc.prems have ne: "h_number (b_header b) \<noteq> 0" "h_number (b_header b) \<noteq> fin"
      by auto
    with assms(3) Suc.prems obtain p where p: "cv_block v (h_parent_hash (b_header b)) = Some p"
      and num: "unat (h_number (b_header b)) = Suc (unat (h_number (b_header p)))"
      unfolding linked_def by blast
    with Suc.IH [OF p, of j] Suc.prems k ne show ?thesis
      by (simp add: abind_aread get)
  qed
qed

lemma update_finalized_refines:
  assumes "chain_wf X C (contents d)" and v: "v = chain_view_of X C (contents d)" and "linked v"
  shows "\<exists>d'. update_finalized K X C h d = (Ok (), d') \<and> chain_wf X C (contents d') \<and>
    chain_view_of X C (contents d') = (case cv_block v h of
        None \<Rightarrow> v
      | Some b \<Rightarrow> if unat (h_number (b_header b)) < 100 then v
          else v\<lparr>cv_finalized := (Some (h_number (b_header b) - 100), ancestor v 100 h)\<rparr>)"
proof (cases "cv_block v h")
  case None
  then show ?thesis
    using get_block_view [OF assms(1), of h] assms(1) v
    by (simp add: update_finalized_def abind_aread aret_def)
next
  case (Some b)
  have get: "get_block K X C d h = Ok (Some b)"
    using get_block_view [OF assms(1)] Some v by simp
  let ?n = "h_number (b_header b)"
  show ?thesis
  proof (cases "unat ?n < 100")
    case True
    then show ?thesis
      using assms(1) Some v
      by (simp add: update_finalized_def abind_aread get aret_def FINALITY_DEPTH_def word_less_nat_alt)
  next
    case False
    then have le: "100 \<le> ?n" by (simp add: word_le_nat_alt)
    then have num: "unat ?n = unat (?n - 100) + 100"
      using False by (simp add: unat_sub)
    from ancestor_linked [OF assms(3) Some, of 100] False obtain a where a: "ancestor v 100 h = Some a"
      by auto
    from finalize_walk_refines [OF assms(1-3) Some num, of 101 a] a False Some show ?thesis
      by (simp add: update_finalized_def abind_aread get FINALITY_DEPTH_def word_less_nat_alt)
  qed
qed

subsection \<open>Receipts\<close>

lemma receipt_roundtrip:
  "\<exists>d'. put_tx_receipt_index K X t bh n i g d = (Ok (), d') \<and>
     get_tx_receipt_index K X d' u =
       (if u = t then Ok (Some (bh, n, i, g)) else get_tx_receipt_index K X d u)"
  by (simp add: put_tx_receipt_index_def get_tx_receipt_index_def put_contents)

end

section \<open>A reference codec\<close>

text \<open>
  Headers as the list of their fields, bodies as the list of their transactions' fields, in the
  self-delimiting list encoding of the reference RLP. It stands for bincode in witnesses.
\<close>

definition ref_list :: "bytes list \<Rightarrow> bytes" where
  "ref_list xs = concat (map ref_rlp_item xs)"

definition ref_ser_header :: "block_header \<Rightarrow> bytes" where
  "ref_ser_header h = ref_list
     [b256_bytes (h_parent_hash h), b256_bytes (h_state_root h), b256_bytes (h_transactions_root h),
      b256_bytes (h_receipts_root h), u64_be (h_timestamp h), u64_be (h_number h),
      address_bytes (h_validator h), h_signature h, h_extra_data h, u64_be (h_gas_limit h),
      u256_be (h_base_fee_per_gas h)]"

definition ref_de_header :: "bytes \<Rightarrow> string + block_header" where
  "ref_de_header bs = (let xs = ref_rlp_split [] bs in
     if length xs = 11 then Inr \<lparr>
       h_parent_hash = of_be (xs ! 0), h_state_root = of_be (xs ! 1),
       h_transactions_root = of_be (xs ! 2), h_receipts_root = of_be (xs ! 3),
       h_timestamp = of_be (xs ! 4), h_number = of_be (xs ! 5), h_validator = of_be (xs ! 6),
       h_signature = xs ! 7, h_extra_data = xs ! 8, h_gas_limit = of_be (xs ! 9),
       h_base_fee_per_gas = of_be (xs ! 10)\<rparr>
     else Inl ''unexpected end of input'')"

definition hash_bytes :: "b256 option \<Rightarrow> bytes" where
  "hash_bytes r = (case r of None \<Rightarrow> [] | Some h \<Rightarrow> b256_bytes h)"

definition ref_ser_tx :: "signed_transaction \<Rightarrow> bytes" where
  "ref_ser_tx st = (let t = st_tx st in ref_list
     [u64_be (t_nonce t), u256_be (t_gas_price t), u64_be (t_gas_limit t), to_bytes (t_to t),
      u256_be (t_value t), t_data t, u64_be (t_chain_id t), b256_bytes (st_r st),
      b256_bytes (st_s st), [st_v st], hash_bytes (st_hash_override st)])"

definition ref_de_tx :: "bytes \<Rightarrow> signed_transaction" where
  "ref_de_tx bs = (let xs = ref_rlp_split [] bs in \<lparr>
     st_tx = \<lparr>t_nonce = of_be (xs ! 0), t_gas_price = of_be (xs ! 1), t_gas_limit = of_be (xs ! 2),
       t_to = (if xs ! 3 = [] then None else Some (of_be (xs ! 3))), t_value = of_be (xs ! 4),
       t_data = xs ! 5, t_chain_id = of_be (xs ! 6)\<rparr>,
     st_r = of_be (xs ! 7), st_s = of_be (xs ! 8), st_v = hd (xs ! 9),
     st_hash_override = (if xs ! 10 = [] then None else Some (of_be (xs ! 10)))\<rparr>)"

definition ref_codec :: codec where
  "ref_codec = \<lparr>
     ser_header = (\<lambda>h. Inr (ref_ser_header h)), de_header = ref_de_header,
     ser_body = (\<lambda>b. Inr (ref_list (map ref_ser_tx b))),
     de_body = (\<lambda>bs. let txs = map ref_de_tx (ref_rlp_split [] bs) in
       if encodable txs then Inr txs else Inl ''io error: unexpected end of file'')\<rparr>"

lemma ref_split_list [simp]: "ref_rlp_split [] (ref_list xs) = xs"
  by (simp add: ref_list_def ref_rlp_split_concat)

lemma ref_header_roundtrip: "ref_de_header (ref_ser_header h) = Inr h"
  by (simp add: ref_de_header_def ref_ser_header_def)

lemma word_bytes_nonempty [simp]: "address_bytes a \<noteq> []" "b256_bytes h \<noteq> []"
  using length_word_bytes(4) [of a] length_word_bytes(5) [of h]
  by (metis list.size(3) zero_neq_numeral)+

lemma ref_tx_roundtrip: "ref_de_tx (ref_ser_tx st) = st"
  by (simp add: ref_de_tx_def ref_ser_tx_def Let_def to_bytes_def hash_bytes_def split: option.splits)

interpretation mem_chain: chain_store mem_kv map_of ref_ext ref_codec
proof
  show "\<exists>bs. ser_header ref_codec h = Inr bs \<and> de_header ref_codec bs = Inr h" for h
    by (simp add: ref_codec_def ref_header_roundtrip)
  show "\<exists>bs. ser_body ref_codec b = Inr bs \<and> (encodable b \<longrightarrow> de_body ref_codec bs = Inr b)" for b
    by (simp add: ref_codec_def comp_def ref_tx_roundtrip)
qed

lemma chain_wf_empty [simp]: "chain_wf X C Map.empty"
  by (simp add: chain_wf_def)

text \<open>The view of an empty store, and a block for the witnesses: \<open>n\<close> bytes of extra data
  make its hash \<open>204 + n\<close> with the reference hash.\<close>

definition empty_view :: chain_view where
  "empty_view = \<lparr>cv_block = \<lambda>_. None, cv_number = \<lambda>_. None, cv_signed = \<lambda>_ _. None,
     cv_children = \<lambda>_. [], cv_head = None, cv_finalized = (None, None), cv_receipt = \<lambda>_. None,
     cv_evidence = \<lambda>_ _. None, cv_validators = None\<rparr>"

lemma view_empty [simp]: "chain_view_of X C Map.empty = empty_view"
  by (simp add: chain_view_of_def empty_view_def decode_block_def)

definition example_block :: "b256 \<Rightarrow> u64 \<Rightarrow> u64 \<Rightarrow> address \<Rightarrow> nat \<Rightarrow> block" where
  "example_block parent number ts validator n = \<lparr>b_header = \<lparr>
     h_parent_hash = parent, h_state_root = 0, h_transactions_root = 0, h_receipts_root = 0,
     h_timestamp = ts, h_number = number, h_validator = validator, h_signature = [],
     h_extra_data = replicate n 0, h_gas_limit = 30000000, h_base_fee_per_gas = 0\<rparr>,
     b_body = []\<rparr>"

lemma example_block_fields [simp]:
  "h_parent_hash (b_header (example_block p k ts a n)) = p"
  "h_number (b_header (example_block p k ts a n)) = k"
  "h_timestamp (b_header (example_block p k ts a n)) = ts"
  "h_validator (b_header (example_block p k ts a n)) = a"
  "h_state_root (b_header (example_block p k ts a n)) = 0"
  by (simp_all add: example_block_def)

lemma example_block_encodable [simp]: "encodable (b_body (example_block p k ts a n))"
  by (simp add: example_block_def encodable_def)

lemma example_block_hash [simp]: "block_hash ref_ext (example_block p k ts a n) = of_nat (204 + n)"
  by (simp add: block_hash_def header_hash_def length_header_preimage ref_ext_def example_block_def)

lemma example_block_valid [simp]: "validate_block X (example_block p k ts a n) = Ok ()"
  by (simp add: validate_block_def validate_self_def example_block_def transactions_root_def)

section \<open>Properties\<close>

text \<open>C28: \<open>put_block\<close> refines the abstract chain: over a working store whose entries are well
  formed storing a block whose transactions carry
  their hashes succeeds, keeps the entries well formed, and adds the block under its hash, points
  its number at it, records that its validator signed it at that height, appends it to its
  parent's children, and changes nothing else; reading any hash afterwards gives the view.\<close>

theorem put_block_refines_view:
  assumes "chain_store K contents X C" and "chain_wf X C (contents d)" and "encodable (b_body b)"
    and "chain_view_of X C (contents d) = v"
  shows "\<exists>d'. put_block K X C b d = (Ok (), d') \<and> chain_wf X C (contents d') \<and>
    chain_view_of X C (contents d') = view_put_block X b v \<and>
    get_block K X C d' h = Ok (if h = block_hash X b then Some b else cv_block v h) \<and>
    get_children K X d' h = Ok (cv_children v h @
      (if h = h_parent_hash (b_header b) then [block_hash X b] else []))"
proof -
  from chain_store.put_block_refines [OF assms] obtain d' where
    d: "put_block K X C b d = (Ok (), d')" "chain_wf X C (contents d')"
      "chain_view_of X C (contents d') = view_put_block X b v" by blast
  from chain_store.get_block_view [OF assms(1) d(2)] chain_store.reads_view(2) [OF assms(1)] d
  show ?thesis by (auto simp: view_put_block_def Let_def)
qed

theorem put_block_refines_view_witness:
  "\<exists>d'. put_block mem_kv ref_ext ref_codec (example_block 9 1 10 7 0) [] = (Ok (), d') \<and>
     get_block mem_kv ref_ext ref_codec d' 204 = Ok (Some (example_block 9 1 10 7 0)) \<and>
     get_children mem_kv ref_ext d' 9 = Ok [204]"
proof -
  have v: "chain_wf ref_ext ref_codec (map_of [])"
    "chain_view_of ref_ext ref_codec (map_of []) = empty_view" by simp_all
  note P = put_block_refines_view [OF mem_chain.chain_store_axioms v(1) example_block_encodable [of 9 1 10 7 0] v(2)]
  from P [where h = 204] P [where h = 9] show ?thesis
    by (auto simp: empty_view_def)
qed

text \<open>Storing a block again is not idempotent: the second \<open>put_block\<close> leaves every block, number
  and signing record as it was, but its parent then lists it twice among its children.\<close>

theorem put_block_twice_duplicates:
  assumes "chain_store K contents X C" and "chain_wf X C (contents d)" and "encodable (b_body b)"
    and "chain_view_of X C (contents d) = v"
  shows "\<exists>d'. athen (put_block K X C b) (put_block K X C b) d = (Ok (), d') \<and>
    (let v1 = view_put_block X b v; p = h_parent_hash (b_header b) in
     chain_view_of X C (contents d') =
       v1\<lparr>cv_children := (cv_children v1)(p := cv_children v p @ [block_hash X b, block_hash X b])\<rparr>)"
proof -
  from chain_store.put_block_refines [OF assms] obtain d1 where
    d1: "put_block K X C b d = (Ok (), d1)" "chain_wf X C (contents d1)"
      "chain_view_of X C (contents d1) = view_put_block X b v" by blast
  from chain_store.put_block_refines [OF assms(1) d1(2) assms(3) d1(3)] d1(1) show ?thesis
    by (auto simp: athen_def view_put_block_def Let_def)
qed

theorem put_block_twice_duplicates_witness:
  "\<exists>d'. athen (put_block mem_kv ref_ext ref_codec (example_block 9 1 10 7 0))
       (put_block mem_kv ref_ext ref_codec (example_block 9 1 10 7 0)) [] = (Ok (), d') \<and>
     cv_children (chain_view_of ref_ext ref_codec (map_of d')) 9 = [204, 204]"
proof -
  have v: "chain_wf ref_ext ref_codec (map_of [])"
    "chain_view_of ref_ext ref_codec (map_of []) = empty_view" by simp_all
  from put_block_twice_duplicates [OF mem_chain.chain_store_axioms v(1) example_block_encodable [of 9 1 10 7 0] v(2)]
  show ?thesis by (auto simp: empty_view_def Let_def)
qed

text \<open>The finalized checkpoint is the hundredth ancestor of the head: on a chain whose
  stored blocks link to parents numbered one less, updating it from a stored block of number at
  least 100 succeeds and records that number minus 100 and the ancestor a hundred parents up,
  which is stored with exactly that number; below 100, or for an unknown hash, nothing changes.\<close>

theorem update_finalized_checkpoint:
  assumes "chain_store K contents X C" and "chain_wf X C (contents d)"
    and "v = chain_view_of X C (contents d)" and "linked v"
  shows "\<exists>d'. update_finalized K X C h d = (Ok (), d') \<and>
    chain_view_of X C (contents d') = (case cv_block v h of
        None \<Rightarrow> v
      | Some b \<Rightarrow> if unat (h_number (b_header b)) < 100 then v
          else v\<lparr>cv_finalized := (Some (h_number (b_header b) - 100), ancestor v 100 h)\<rparr>) \<and>
    (\<forall>b. cv_block v h = Some b \<and> 100 \<le> unat (h_number (b_header b)) \<longrightarrow>
      (\<exists>a c. ancestor v 100 h = Some a \<and> cv_block v a = Some c \<and>
         unat (h_number (b_header c)) = unat (h_number (b_header b)) - 100))"
  using chain_store.update_finalized_refines [OF assms] ancestor_linked [OF assms(4), of h _ 100]
  by blast

theorem update_finalized_checkpoint_witness:
  "\<exists>d'. update_finalized mem_kv ref_ext ref_codec 5 [] = (Ok (), d') \<and>
     cv_finalized (chain_view_of ref_ext ref_codec (map_of d')) = (None, None)"
proof -
  have v: "chain_wf ref_ext ref_codec (map_of [])"
    "empty_view = chain_view_of ref_ext ref_codec (map_of [])" "linked empty_view"
    by (simp_all add: linked_def empty_view_def)
  from update_finalized_checkpoint [OF mem_chain.chain_store_axioms v, of 5]
  show ?thesis by (auto simp: empty_view_def)
qed

text \<open>The receipt index round-trips: after \<open>put_tx_receipt_index\<close> the entry of that
  transaction reads back as written and all others are unchanged; an entry of the older format
  without the gas used (44 to 51 bytes) reads back with gas 21000, and a shorter one as absent.\<close>

theorem receipt_index_roundtrip:
  assumes "chain_store K contents X C"
  shows "(\<exists>d'. put_tx_receipt_index K X t bh n i g d = (Ok (), d') \<and>
     get_tx_receipt_index K X d' u =
       (if u = t then Ok (Some (bh, n, i, g)) else get_tx_receipt_index K X d u)) \<and>
   (contents d (chain_key_bytes X (TxReceiptKey u)) = Some (b256_bytes bh @ u64_be n @ u32_be i @ junk) \<longrightarrow>
     length junk < 8 \<longrightarrow> get_tx_receipt_index K X d u = Ok (Some (bh, n, i, 21000))) \<and>
   (contents d (chain_key_bytes X (TxReceiptKey u)) = Some junk \<longrightarrow> length junk < 44 \<longrightarrow>
     get_tx_receipt_index K X d u = Ok None)"
proof -
  have "get_tx_receipt_index K X d u = Ok (Some (bh, n, i, 21000))"
    if "contents d (chain_key_bytes X (TxReceiptKey u)) = Some (b256_bytes bh @ u64_be n @ u32_be i @ junk)"
      and "length junk < 8"
    using that chain_store.chain_get_eq [OF assms, of d "TxReceiptKey u"]
    by (simp add: get_tx_receipt_index_def)
  moreover have "get_tx_receipt_index K X d u = Ok None"
    if "contents d (chain_key_bytes X (TxReceiptKey u)) = Some junk" and "length junk < 44"
    using that chain_store.chain_get_eq [OF assms, of d "TxReceiptKey u"]
    by (simp add: get_tx_receipt_index_def)
  ultimately show ?thesis using chain_store.receipt_roundtrip [OF assms] by blast
qed

theorem receipt_index_roundtrip_witness:
  "\<exists>d'. put_tx_receipt_index mem_kv ref_ext 1 2 5 3 21000 [] = (Ok (), d') \<and>
     get_tx_receipt_index mem_kv ref_ext d' 1 = Ok (Some (2, 5, 3, 21000))"
  using receipt_index_roundtrip [OF mem_chain.chain_store_axioms, of 1 2 5 3 21000 "[]" 1] by auto

end
