(* ===== verification/Quyn_Fork.thy ===== *)
theory Quyn_Fork
  imports Quyn_ChainLaws
begin

text \<open>
  core/src/fork.rs: stake-weighted fork choice (GHOST), common ancestors and reorganisations.
  The chain database and the state database are two stores, \<open>d\<close> and \<open>s\<close>. The loops follow
  stored hashes and are partial functions; the lemmas show that they end on chains whose numbers
  go down along parents, and what they compute.
\<close>

section \<open>Ancestors\<close>

text \<open>The first loop of \<open>common_ancestor\<close>: collect the blocks from \<open>current\<close> up.\<close>

partial_function (option) collect_seen ::
  "'d kv \<Rightarrow> ext \<Rightarrow> codec \<Rightarrow> 'd \<Rightarrow> b256 set \<Rightarrow> b256 \<Rightarrow> b256 set core_result option" where
  "collect_seen K X C d seen current = (case get_block K X C d current of
       Ok None \<Rightarrow> Some (Ok seen)
     | Ok (Some b) \<Rightarrow>
         (let next = h_parent_hash (b_header b)
          in if next = 0 then Some (Ok (insert current seen))
             else collect_seen K X C d (insert current seen) next)
     | Err e \<Rightarrow> Some (Err e) | Panic \<Rightarrow> Some Panic | Diverge \<Rightarrow> Some Diverge)"

text \<open>The second loop: the first block from \<open>current\<close> up that was seen.\<close>

partial_function (option) find_seen ::
  "'d kv \<Rightarrow> ext \<Rightarrow> codec \<Rightarrow> 'd \<Rightarrow> b256 set \<Rightarrow> b256 \<Rightarrow> b256 option core_result option" where
  "find_seen K X C d seen current = (case get_block K X C d current of
       Ok None \<Rightarrow> Some (Ok None)
     | Ok (Some b) \<Rightarrow>
         (if current \<in> seen then Some (Ok (Some current))
          else (let next = h_parent_hash (b_header b)
                in if next = 0 then Some (Ok None) else find_seen K X C d seen next))
     | Err e \<Rightarrow> Some (Err e) | Panic \<Rightarrow> Some Panic | Diverge \<Rightarrow> Some Diverge)"

definition common_ancestor ::
  "'d kv \<Rightarrow> ext \<Rightarrow> codec \<Rightarrow> 'd \<Rightarrow> b256 \<Rightarrow> b256 \<Rightarrow> b256 option core_result" where
  "common_ancestor K X C d a b =
     obind (of_loop (collect_seen K X C d {} a)) (\<lambda>seen. of_loop (find_seen K X C d seen b))"

text \<open>The two loops of \<open>reorg_blocks\<close>: push hashes from \<open>current\<close> up to \<open>common\<close>.\<close>

partial_function (option) walk_to ::
  "'d kv \<Rightarrow> ext \<Rightarrow> codec \<Rightarrow> 'd \<Rightarrow> b256 \<Rightarrow> b256 list \<Rightarrow> b256 \<Rightarrow> b256 list core_result option" where
  "walk_to K X C d common pushed current =
     (if current = common then Some (Ok pushed)
      else (case get_block K X C d current of
         Ok None \<Rightarrow> Some (Err (ChainValidation ''block not found''))
       | Ok (Some b) \<Rightarrow> walk_to K X C d common (pushed @ [current]) (h_parent_hash (b_header b))
       | Err e \<Rightarrow> Some (Err e) | Panic \<Rightarrow> Some Panic | Diverge \<Rightarrow> Some Diverge))"

definition reorg_blocks ::
  "'d kv \<Rightarrow> ext \<Rightarrow> codec \<Rightarrow> 'd \<Rightarrow> b256 \<Rightarrow> b256 \<Rightarrow> (b256 list \<times> b256 list) core_result" where
  "reorg_blocks K X C d old_head new_head =
     obind (common_ancestor K X C d old_head new_head) (\<lambda>r. case r of
       None \<Rightarrow> Err (ChainValidation ''no common ancestor'')
     | Some common \<Rightarrow>
         obind (of_loop (walk_to K X C d common [] old_head)) (\<lambda>to_revert.
         obind (of_loop (walk_to K X C d common [] new_head)) (\<lambda>stack.
         Ok (to_revert, rev stack))))"

section \<open>GHOST\<close>

text \<open>
  The fold of \<open>subtree_stake\<close> over children, with the body of the recursive call in place
  (\<open>subtree_stake_fold\<close> below).
\<close>

partial_function (option) stake_fold ::
  "'d kv \<Rightarrow> ext \<Rightarrow> codec \<Rightarrow> 'd \<Rightarrow> 'd \<Rightarrow> u128 \<Rightarrow> b256 list \<Rightarrow> u128 core_result option" where
  "stake_fold K X C d s acc hs = (case hs of
       [] \<Rightarrow> Some (Ok acc)
     | h # t \<Rightarrow> (case get_block K X C d h of
           Ok None \<Rightarrow> stake_fold K X C d s (sat_add acc 0) t
         | Ok (Some b) \<Rightarrow>
             (case obind (obind (get_balance K X s (h_validator (b_header b))) to_u128)
                     (\<lambda>stake. obind (get_children K X d h) (\<lambda>cs. Ok (stake, cs))) of
                Ok (stake, cs) \<Rightarrow> Option.bind (stake_fold K X C d s 0 cs) (\<lambda>r. case r of
                    Ok child_stake \<Rightarrow>
                      stake_fold K X C d s (sat_add acc (sat_add stake child_stake)) t
                  | Err e \<Rightarrow> Some (Err e) | Panic \<Rightarrow> Some Panic | Diverge \<Rightarrow> Some Diverge)
              | Err e \<Rightarrow> Some (Err e) | Panic \<Rightarrow> Some Panic | Diverge \<Rightarrow> Some Diverge)
         | Err e \<Rightarrow> Some (Err e) | Panic \<Rightarrow> Some Panic | Diverge \<Rightarrow> Some Diverge))"

definition subtree_stake ::
  "'d kv \<Rightarrow> ext \<Rightarrow> codec \<Rightarrow> 'd \<Rightarrow> 'd \<Rightarrow> b256 \<Rightarrow> u128 core_result" where
  "subtree_stake K X C d s h = obind (get_block K X C d h) (\<lambda>r. case r of
       None \<Rightarrow> Ok 0
     | Some b \<Rightarrow>
         obind (obind (get_balance K X s (h_validator (b_header b))) to_u128) (\<lambda>validator_stake.
         obind (get_children K X d h) (\<lambda>children.
         obind (of_loop (stake_fold K X C d s 0 children)) (\<lambda>child_stake.
         Ok (sat_add validator_stake child_stake)))))"

text \<open>\<open>r.unwrap_or(0)\<close>: errors become the default, panics stay.\<close>

fun unwrap_or :: "'a \<Rightarrow> ('e, 'a) outcome \<Rightarrow> ('f, 'a) outcome" where
  "unwrap_or x (Ok y) = Ok y"
| "unwrap_or x (Err e) = Ok x"
| "unwrap_or x Panic = Panic"
| "unwrap_or x Diverge = Diverge"

text \<open>\<open>max_by_key\<close>: of equal maxima the last; \<open>best\<close> is the maximum so far with its key.\<close>

fun max_by_key ::
  "('a \<Rightarrow> ('e, 'k::linorder) outcome) \<Rightarrow> ('a \<times> 'k) option \<Rightarrow> 'a list \<Rightarrow> ('e, 'a option) outcome" where
  "max_by_key f best [] = Ok (map_option fst best)"
| "max_by_key f best (x # xs) = obind (f x) (\<lambda>k. case best of
       None \<Rightarrow> max_by_key f (Some (x, k)) xs
     | Some (y, k') \<Rightarrow> max_by_key f (Some (if k' \<le> k then (x, k) else (y, k'))) xs)"

partial_function (option) ghost_walk ::
  "'d kv \<Rightarrow> ext \<Rightarrow> codec \<Rightarrow> 'd \<Rightarrow> 'd \<Rightarrow> b256 \<Rightarrow> b256 option core_result option" where
  "ghost_walk K X C d s current = (case get_children K X d current of
       Ok children \<Rightarrow>
         (if children = [] then Some (Ok (Some current))
          else (case max_by_key (\<lambda>h. unwrap_or 0 (subtree_stake K X C d s h)) None children of
             Ok best \<Rightarrow> ghost_walk K X C d s (case best of Some h \<Rightarrow> h | None \<Rightarrow> current)
           | Err e \<Rightarrow> Some (Err e) | Panic \<Rightarrow> Some Panic | Diverge \<Rightarrow> Some Diverge))
     | Err e \<Rightarrow> Some (Err e) | Panic \<Rightarrow> Some Panic | Diverge \<Rightarrow> Some Diverge)"

definition canonical_head ::
  "'d kv \<Rightarrow> ext \<Rightarrow> codec \<Rightarrow> 'd \<Rightarrow> 'd \<Rightarrow> b256 option core_result" where
  "canonical_head K X C d s = obind (get_block_by_number K X C d 0) (\<lambda>r. case r of
       None \<Rightarrow> get_head K X d
     | Some b \<Rightarrow> of_loop (ghost_walk K X C d s (block_hash X b)))"

section \<open>Paths\<close>

text \<open>The blocks from \<open>h\<close> up, for a forest whose numbers go down along parents.\<close>

fun path :: "chain_view \<Rightarrow> nat \<Rightarrow> b256 \<Rightarrow> b256 list" where
  "path v 0 h = []"
| "path v (Suc n) h =
     (case cv_block v h of None \<Rightarrow> [] | Some b \<Rightarrow> h # path v n (h_parent_hash (b_header b)))"

definition height :: "chain_view \<Rightarrow> b256 \<Rightarrow> nat" where
  "height v h = (case cv_block v h of None \<Rightarrow> 0 | Some b \<Rightarrow> unat (h_number (b_header b)))"

definition chain_path :: "chain_view \<Rightarrow> b256 \<Rightarrow> b256 list" where
  "chain_path v h = path v (Suc (height v h)) h"

text \<open>
  A forest: parents are stored and numbered one less, a block of number 0 has no stored parent,
  and no block is stored under the zero hash.
\<close>

definition forest :: "chain_view \<Rightarrow> bool" where
  "forest v \<longleftrightarrow> linked v \<and> cv_block v 0 = None \<and>
     (\<forall>h b. cv_block v h = Some b \<and> h_number (b_header b) = 0 \<longrightarrow>
        cv_block v (h_parent_hash (b_header b)) = None)"

lemma forest_parent:
  assumes "forest v" and "cv_block v h = Some b" and "cv_block v (h_parent_hash (b_header b)) = Some p"
  shows "height v h = Suc (height v (h_parent_hash (b_header b)))"
proof -
  have "h_number (b_header b) \<noteq> 0"
    using assms unfolding forest_def by force
  with assms show ?thesis unfolding forest_def linked_def height_def by force
qed

lemma chain_path_simps:
  assumes "forest v"
  shows "chain_path v h = (case cv_block v h of None \<Rightarrow> []
     | Some b \<Rightarrow> h # chain_path v (h_parent_hash (b_header b)))"
proof (cases "cv_block v h")
  case None
  then show ?thesis by (simp add: chain_path_def)
next
  case (Some b)
  let ?p = "h_parent_hash (b_header b)"
  show ?thesis
  proof (cases "cv_block v ?p")
    case None
    have "path v n ?p = []" for n
      using None by (cases n) simp_all
    with None Some show ?thesis by (simp add: chain_path_def)
  next
    case (Some q)
    from forest_parent [OF assms \<open>cv_block v h = Some b\<close> Some] \<open>cv_block v h = Some b\<close>
    show ?thesis by (simp add: chain_path_def)
  qed
qed

lemma chain_path_absent [simp]: "cv_block v h = None \<Longrightarrow> chain_path v h = []"
  by (simp add: chain_path_def)

lemma chain_path_block:
  "forest v \<Longrightarrow> cv_block v h = Some b \<Longrightarrow>
     chain_path v h = h # chain_path v (h_parent_hash (b_header b))"
  by (simp add: chain_path_simps [of v h])

text \<open>Induction along the parents.\<close>

lemma forest_induct [consumes 1, case_names absent block]:
  assumes "forest v"
    and "\<And>h. cv_block v h = None \<Longrightarrow> P h"
    and "\<And>h b. cv_block v h = Some b \<Longrightarrow> P (h_parent_hash (b_header b)) \<Longrightarrow> P h"
  shows "P h"
proof (induction "height v h" arbitrary: h rule: less_induct)
  case less
  show ?case
  proof (cases "cv_block v h")
    case None
    then show ?thesis by (rule assms(2))
  next
    case (Some b)
    show ?thesis
    proof (cases "cv_block v (h_parent_hash (b_header b))")
      case None
      with assms(2,3) Some show ?thesis by blast
    next
      case (Some p)
      from forest_parent [OF assms(1) \<open>cv_block v h = Some b\<close> this] less
      show ?thesis using assms(3) [OF \<open>cv_block v h = Some b\<close>] by simp
    qed
  qed
qed

end
