(* ===== verification/Quyn_ForkLaws.thy ===== *)
theory Quyn_ForkLaws
  imports Quyn_Fork
begin

text \<open>
  What the fork-choice code computes on a forest: common ancestors are found and are the
  nearest, reorganisations split the two paths at their meeting point, subtree stakes are the
  saturated sums of the balances, and the canonical head is the end of a greedy walk. All of it
  includes termination of the loops.
\<close>

section \<open>Paths\<close>

lemma chain_path_suffix:
  assumes "forest v" and "c \<in> set (chain_path v h)"
  shows "chain_path v h = takeWhile (\<lambda>x. x \<noteq> c) (chain_path v h) @ chain_path v c"
  using assms
proof (induction h rule: forest_induct)
  case (absent h)
  then show ?case by simp
next
  case (block h b)
  then show ?case
    by (cases "c = h") (auto simp: chain_path_block [OF assms(1)])
qed

lemma chain_path_stored:
  assumes "forest v" and "c \<in> set (chain_path v h)"
  shows "cv_block v c \<noteq> None"
  using assms
proof (induction h rule: forest_induct)
  case (absent h)
  then show ?case by simp
next
  case (block h b)
  then show ?case
    by (cases "c = h") (auto simp: chain_path_block [OF assms(1)])
qed

lemma chain_path_hd: "forest v \<Longrightarrow> cv_block v c \<noteq> None \<Longrightarrow> c \<in> set (chain_path v c)"
  by (auto simp: chain_path_block)

lemma chain_path_trans:
  assumes "forest v" and "c \<in> set (chain_path v h)"
  shows "set (chain_path v c) \<subseteq> set (chain_path v h)"
  using chain_path_suffix [OF assms] by (metis Un_upper2 set_append)

lemma chain_path_le:
  assumes "forest v" and "c \<in> set (chain_path v h)"
  shows "height v c \<le> height v h \<and> (height v c = height v h \<longrightarrow> c = h)"
  using assms
proof (induction h rule: forest_induct)
  case (absent h)
  then show ?case by simp
next
  case (block h b)
  let ?p = "h_parent_hash (b_header b)"
  show ?case
  proof (cases "c = h")
    case False
    with block have c: "c \<in> set (chain_path v ?p)"
      by (simp add: chain_path_block [OF assms(1)])
    then obtain p where "cv_block v ?p = Some p"
      using assms(1) by (cases "cv_block v ?p") auto
    from forest_parent [OF assms(1) block(1) this] block(2) c show ?thesis
      using assms(1) by auto
  qed simp
qed

lemma find_Some_takeWhile:
  "find P xs = Some c \<Longrightarrow> P c \<and> c \<in> set xs \<and> (\<forall>y \<in> set (takeWhile (\<lambda>x. x \<noteq> c) xs). \<not> P y)"
  by (induction xs) (auto split: if_splits)

definition common_spec :: "chain_view \<Rightarrow> b256 \<Rightarrow> b256 \<Rightarrow> b256 option" where
  "common_spec v a b = find (\<lambda>x. x \<in> set (chain_path v a)) (chain_path v b)"

text \<open>The common ancestor found is above all others.\<close>

lemma common_spec_nearest:
  assumes "forest v" and "common_spec v a b = Some c"
    and "e \<in> set (chain_path v a)" and "e \<in> set (chain_path v b)"
  shows "e \<in> set (chain_path v c) \<and> height v e \<le> height v c"
proof -
  from find_Some_takeWhile [OF assms(2) [unfolded common_spec_def]]
  have c: "c \<in> set (chain_path v b)"
    and no: "\<forall>y \<in> set (takeWhile (\<lambda>x. x \<noteq> c) (chain_path v b)). y \<notin> set (chain_path v a)"
    by auto
  from chain_path_suffix [OF assms(1) c] no assms(3,4) have "e \<in> set (chain_path v c)"
    by (metis Un_iff set_append)
  with chain_path_le [OF assms(1)] show ?thesis by blast
qed

lemma common_spec_in:
  "common_spec v a b = Some c \<Longrightarrow> c \<in> set (chain_path v a) \<and> c \<in> set (chain_path v b)"
  unfolding common_spec_def by (drule find_Some_takeWhile) simp

lemma reorg_split:
  assumes "forest v" and "common_spec v a b = Some c"
  shows "\<exists>old new. takeWhile (\<lambda>x. x \<noteq> c) (chain_path v a) = old \<and>
     takeWhile (\<lambda>x. x \<noteq> c) (chain_path v b) = new \<and>
     chain_path v a = old @ chain_path v c \<and> chain_path v b = new @ chain_path v c \<and>
     set old \<inter> set new = {} \<and> c \<notin> set old \<union> set new"
proof -
  have c: "c \<in> set (chain_path v a)" "c \<in> set (chain_path v b)"
    using common_spec_in [OF assms(2)] by auto
  have "set (takeWhile (\<lambda>x. x \<noteq> c) (chain_path v a)) \<inter> set (takeWhile (\<lambda>x. x \<noteq> c) (chain_path v b)) = {}"
    using find_Some_takeWhile [OF assms(2) [unfolded common_spec_def]]
    by (meson disjoint_iff set_takeWhileD)
  with chain_path_suffix [OF assms(1) c(1)] chain_path_suffix [OF assms(1) c(2)] show ?thesis
    by (auto dest: set_takeWhileD)
qed

section \<open>The walks\<close>

context chain_store
begin

lemma get_block_abs:
  "chain_wf X C (contents d) \<Longrightarrow> v = chain_view_of X C (contents d) \<Longrightarrow>
     get_block K X C d h = Ok (cv_block v h)"
  by (simp add: get_block_view)

lemma collect_seen_path:
  assumes "chain_wf X C (contents d)" and "v = chain_view_of X C (contents d)" and "forest v"
  shows "collect_seen K X C d seen h = Some (Ok (seen \<union> set (chain_path v h)))"
  using assms(3)
proof (induction h arbitrary: seen rule: forest_induct)
  case (absent h)
  then show ?case by (subst collect_seen.simps) (simp add: get_block_abs [OF assms(1,2)])
next
  case (block h b)
  have "chain_path v 0 = []" using assms(3) by (simp add: forest_def)
  with block show ?case
    by (subst collect_seen.simps) (auto simp: get_block_abs [OF assms(1,2)] chain_path_block [OF assms(3)] Let_def)
qed

lemma find_seen_path:
  assumes "chain_wf X C (contents d)" and "v = chain_view_of X C (contents d)" and "forest v"
  shows "find_seen K X C d seen h = Some (Ok (find (\<lambda>x. x \<in> seen) (chain_path v h)))"
  using assms(3)
proof (induction h rule: forest_induct)
  case (absent h)
  then show ?case by (subst find_seen.simps) (simp add: get_block_abs [OF assms(1,2)])
next
  case (block h b)
  have "chain_path v 0 = []" using assms(3) by (simp add: forest_def)
  with block show ?case
    by (subst find_seen.simps) (auto simp: get_block_abs [OF assms(1,2)] chain_path_block [OF assms(3)] Let_def)
qed

lemma common_ancestor_spec:
  assumes "chain_wf X C (contents d)" and "v = chain_view_of X C (contents d)" and "forest v"
  shows "common_ancestor K X C d a b = Ok (common_spec v a b)"
  by (simp add: common_ancestor_def collect_seen_path [OF assms] find_seen_path [OF assms]
      common_spec_def)

lemma walk_to_path:
  assumes "chain_wf X C (contents d)" and "v = chain_view_of X C (contents d)" and "forest v"
    and "c \<in> set (chain_path v h)"
  shows "walk_to K X C d c pushed h = Some (Ok (pushed @ takeWhile (\<lambda>x. x \<noteq> c) (chain_path v h)))"
  using assms(3,4)
proof (induction h arbitrary: pushed rule: forest_induct)
  case (absent h)
  then show ?case by simp
next
  case (block h b)
  then show ?case
    by (subst walk_to.simps) (auto simp: get_block_abs [OF assms(1,2)] chain_path_block [OF assms(3)])
qed

lemma reorg_blocks_spec:
  assumes "chain_wf X C (contents d)" and "v = chain_view_of X C (contents d)" and "forest v"
  shows "reorg_blocks K X C d a b = (case common_spec v a b of
      None \<Rightarrow> Err (ChainValidation ''no common ancestor'')
    | Some c \<Rightarrow> Ok (takeWhile (\<lambda>x. x \<noteq> c) (chain_path v a),
        rev (takeWhile (\<lambda>x. x \<noteq> c) (chain_path v b))))"
  using walk_to_path [OF assms] common_spec_in [of v a b]
  by (auto simp: reorg_blocks_def common_ancestor_spec [OF assms] split: option.splits)

end

section \<open>Subtree weights\<close>

text \<open>Listed children are stored and name their parent.\<close>

definition children_ok :: "chain_view \<Rightarrow> bool" where
  "children_ok v \<longleftrightarrow> (\<forall>p. \<forall>h \<in> set (cv_children v p).
     \<exists>b. cv_block v h = Some b \<and> h_parent_hash (b_header b) = p)"

text \<open>
  The stake in the subtree of \<open>h\<close>, over the naturals; \<open>n\<close> levels are enough when it is
  \<open>2^64\<close> minus the number of \<open>h\<close>, because numbers grow along children.
\<close>

fun weight :: "chain_view \<Rightarrow> (address \<Rightarrow> u256) \<Rightarrow> nat \<Rightarrow> b256 \<Rightarrow> nat" where
  "weight v bal 0 h = 0"
| "weight v bal (Suc n) h = (case cv_block v h of None \<Rightarrow> 0
     | Some b \<Rightarrow> unat (bal (h_validator (b_header b)))
         + sum_list (map (weight v bal n) (cv_children v h)))"

definition subtree_weight :: "chain_view \<Rightarrow> (address \<Rightarrow> u256) \<Rightarrow> b256 \<Rightarrow> nat" where
  "subtree_weight v bal h = weight v bal (2 ^ 64 - height v h) h"

text \<open>Stakes are \<open>u128\<close> and saturate.\<close>

definition capped :: "nat \<Rightarrow> nat" where
  "capped n = min n (2 ^ 128 - 1)"

lemma height_less: "height v h < 2 ^ 64"
  using unat_less [where 'a = 64] by (auto simp: height_def split: option.splits)

lemma child_height:
  assumes "forest v" and "children_ok v" and "cv_block v h = Some b" and "c \<in> set (cv_children v h)"
  shows "height v c = Suc (height v h) \<and> cv_block v c \<noteq> None"
proof -
  from assms(2,4) obtain e where e: "cv_block v c = Some e" "h_parent_hash (b_header e) = h"
    unfolding children_ok_def by blast
  with forest_parent [OF assms(1) e(1)] assms(3) show ?thesis by simp
qed

lemma subtree_weight_rec:
  assumes "forest v" and "children_ok v"
  shows "subtree_weight v bal h = (case cv_block v h of None \<Rightarrow> 0
     | Some b \<Rightarrow> unat (bal (h_validator (b_header b)))
         + sum_list (map (subtree_weight v bal) (cv_children v h)))"
proof -
  have "2 ^ 64 - height v h = Suc (2 ^ 64 - Suc (height v h))"
    using height_less [of v h] by simp
  then have "subtree_weight v bal h = weight v bal (Suc (2 ^ 64 - Suc (height v h))) h"
    by (simp only: subtree_weight_def)
  moreover have "map (weight v bal (2 ^ 64 - Suc (height v h))) (cv_children v h)
      = map (subtree_weight v bal) (cv_children v h)" if "cv_block v h = Some b" for b
    using child_height [OF assms that] by (simp add: subtree_weight_def)
  ultimately show ?thesis by (simp split: option.splits cong: map_cong)
qed

text \<open>Induction from the children up.\<close>

lemma children_induct [consumes 3, case_names block]:
  assumes "forest v" and "children_ok v" and "cv_block v h \<noteq> None"
    and "\<And>h b. cv_block v h = Some b \<Longrightarrow> (\<And>c. c \<in> set (cv_children v h) \<Longrightarrow> P c) \<Longrightarrow> P h"
  shows "P h"
  using assms(3)
proof (induction "2 ^ 64 - height v h" arbitrary: h rule: less_induct)
  case less
  then obtain b where b: "cv_block v h = Some b" by blast
  show ?case
  proof (rule assms(4) [OF b])
    fix c assume c: "c \<in> set (cv_children v h)"
    with child_height [OF assms(1,2) b] have "height v c = Suc (height v h)" "cv_block v c \<noteq> None"
      by auto
    with less.hyps [of c] height_less [of v h] show "P c" by simp
  qed
qed

lemma unat_sat_add_capped: "unat (sat_add a b :: u128) = capped (unat a + unat b)"
  by (simp add: unat_sat_add capped_def)

lemma capped_add [simp]: "capped (a + capped b) = capped (a + b)" "capped (capped a + b) = capped (a + b)"
  by (auto simp: capped_def min_def)

lemma max_by_key_spec:
  assumes "\<forall>x \<in> set xs. f x = Ok (g x)"
  shows "\<exists>m. max_by_key f (Some (y, g y)) xs = Ok (Some m) \<and> m \<in> insert y (set xs) \<and>
    (\<forall>x \<in> insert y (set xs). g x \<le> g m)"
  using assms
proof (induction xs arbitrary: y)
  case (Cons x xs)
  from Cons.prems Cons.IH [of x] Cons.IH [of y] show ?case
    by (auto simp: not_le)
qed simp

lemma max_by_key_max:
  assumes "\<forall>x \<in> set xs. f x = Ok (g x)" and "xs \<noteq> []"
  shows "\<exists>m. max_by_key f None xs = Ok (Some m) \<and> m \<in> set xs \<and> (\<forall>x \<in> set xs. g x \<le> g m)"
  using assms max_by_key_spec [of "tl xs" f g "hd xs"] by (cases xs) auto

text \<open>A greedy walk: at each block the heaviest child, until there is none.\<close>

inductive greedy :: "chain_view \<Rightarrow> (b256 \<Rightarrow> nat) \<Rightarrow> b256 \<Rightarrow> b256 \<Rightarrow> bool" for v w where
  leaf: "cv_children v h = [] \<Longrightarrow> greedy v w h h"
| step: "c \<in> set (cv_children v h) \<Longrightarrow> \<forall>c' \<in> set (cv_children v h). w c' \<le> w c \<Longrightarrow>
    greedy v w c l \<Longrightarrow> greedy v w h l"

section \<open>Fork choice\<close>

context chain_store
begin

lemma get_children_abs:
  "v = chain_view_of X C (contents d) \<Longrightarrow> get_children K X d h = Ok (cv_children v h)"
  by (simp add: reads_view)

lemma stake_fold_list:
  assumes "chain_wf X C (contents d)" and "v = chain_view_of X C (contents d)" and "forest v"
    and "children_ok v" and "state_wf X (contents s)"
    and "bal = sv_balance (view_of X (contents s))" and "\<forall>a. unat (bal a) < 2 ^ 128"
    and "\<forall>h \<in> set hs. cv_block v h \<noteq> None \<longrightarrow> (\<exists>w. stake_fold K X C d s 0 (cv_children v h) = Some (Ok w)
      \<and> unat w = capped (sum_list (map (subtree_weight v bal) (cv_children v h))))"
  shows "\<exists>w. stake_fold K X C d s acc hs = Some (Ok w) \<and>
    unat w = capped (unat acc + sum_list (map (subtree_weight v bal) hs))"
  using assms(8)
proof (induction hs arbitrary: acc)
  case Nil
  have "unat acc < 2 ^ 128" using unat_less [of acc] by simp
  then show ?case by (subst stake_fold.simps) (simp add: capped_def)
next
  case (Cons h hs)
  note get = get_block_abs [OF assms(1,2)] and cs = get_children_abs [OF assms(2)]
    and bal = get_balance_view [OF assms(5), folded assms(6)]
    and rec = subtree_weight_rec [OF assms(3,4)]
  show ?case
  proof (cases "cv_block v h")
    case None
    with Cons.IH [of acc] Cons.prems show ?thesis
      by (subst stake_fold.simps) (simp add: get rec [of bal h])
  next
    case (Some b)
    with Cons.prems obtain w where w: "stake_fold K X C d s 0 (cv_children v h) = Some (Ok w)"
        "unat w = capped (sum_list (map (subtree_weight v bal) (cv_children v h)))"
      by auto
    let ?x = "bal (h_validator (b_header b))"
    let ?st = "ucast ?x :: u128"
    have x: "to_u128 ?x = Ok ?st" and ux: "unat ?st = unat ?x"
      using assms(7) by (simp_all add: to_u128_small unsigned_ucast_eq take_bit_nat_eq_self)
    have "stake_fold K X C d s acc (h # hs)
        = stake_fold K X C d s (sat_add acc (sat_add ?st w)) hs"
      by (subst stake_fold.simps) (simp add: get cs bal Some x w)
    moreover have "unat (sat_add acc (sat_add ?st w)) = capped (unat acc + subtree_weight v bal h)"
      by (simp add: unat_sat_add_capped ux w rec [of bal h] Some)
    ultimately show ?thesis
      using Cons.IH [of "sat_add acc (sat_add ?st w)"] Cons.prems by (simp add: add.assoc)
  qed
qed

lemma stake_fold_weight:
  assumes "chain_wf X C (contents d)" and "v = chain_view_of X C (contents d)" and "forest v"
    and "children_ok v" and "state_wf X (contents s)"
    and "bal = sv_balance (view_of X (contents s))" and "\<forall>a. unat (bal a) < 2 ^ 128"
    and "cv_block v h \<noteq> None"
  shows "\<exists>w. stake_fold K X C d s 0 (cv_children v h) = Some (Ok w) \<and>
    unat w = capped (sum_list (map (subtree_weight v bal) (cv_children v h)))"
  using assms(3,4,8)
proof (induction h rule: children_induct)
  case (block h b)
  with stake_fold_list [OF assms(1-7), of "cv_children v h" 0] show ?case by simp
qed

lemma subtree_stake_weight:
  assumes "chain_wf X C (contents d)" and "v = chain_view_of X C (contents d)" and "forest v"
    and "children_ok v" and "state_wf X (contents s)"
    and "bal = sv_balance (view_of X (contents s))" and "\<forall>a. unat (bal a) < 2 ^ 128"
  shows "\<exists>w. subtree_stake K X C d s h = Ok w \<and> unat w = capped (subtree_weight v bal h)"
proof (cases "cv_block v h")
  case None
  then show ?thesis
    by (simp add: subtree_stake_def get_block_abs [OF assms(1,2)] subtree_weight_rec [OF assms(3,4)]
        capped_def)
next
  case (Some b)
  then obtain w where w: "stake_fold K X C d s 0 (cv_children v h) = Some (Ok w)"
      "unat w = capped (sum_list (map (subtree_weight v bal) (cv_children v h)))"
    using stake_fold_weight [OF assms, of h] by auto
  let ?x = "bal (h_validator (b_header b))"
  have x: "to_u128 ?x = Ok (ucast ?x)" and ux: "unat (ucast ?x :: u128) = unat ?x"
    using assms(7) by (simp_all add: to_u128_small unsigned_ucast_eq take_bit_nat_eq_self)
  show ?thesis
    by (simp add: x ux subtree_stake_def get_block_abs [OF assms(1,2)] get_children_abs [OF assms(2)]
        get_balance_view [OF assms(5), folded assms(6)] Some w unat_sat_add_capped
        subtree_weight_rec [OF assms(3,4), of bal h])
qed

lemma ghost_walk_greedy:
  assumes "chain_wf X C (contents d)" and "v = chain_view_of X C (contents d)" and "forest v"
    and "children_ok v" and "state_wf X (contents s)"
    and "bal = sv_balance (view_of X (contents s))" and "\<forall>a. unat (bal a) < 2 ^ 128"
    and "cv_block v h \<noteq> None"
  shows "\<exists>l. ghost_walk K X C d s h = Some (Ok (Some l)) \<and>
    greedy v (\<lambda>x. capped (subtree_weight v bal x)) h l"
  using assms(3,4,8)
proof (induction h rule: children_induct)
  case (block h b)
  note cs = get_children_abs [OF assms(2)]
  show ?case
  proof (cases "cv_children v h = []")
    case True
    then show ?thesis by (subst ghost_walk.simps) (simp add: cs greedy.leaf)
  next
    case False
    let ?f = "\<lambda>h. unwrap_or 0 (subtree_stake K X C d s h) :: u128 core_result"
    define g where "g h = (SOME w. subtree_stake K X C d s h = Ok w)" for h
    have g: "subtree_stake K X C d s h = Ok (g h) \<and> unat (g h) = capped (subtree_weight v bal h)" for h
      using subtree_stake_weight [OF assms(1-7), of h] by (auto simp: g_def)
    then have "\<forall>x \<in> set (cv_children v h). ?f x = Ok (g x)" by simp
    from max_by_key_max [OF this False] obtain m where
      m: "max_by_key ?f None (cv_children v h) = Ok (Some m)" "m \<in> set (cv_children v h)"
        "\<forall>x \<in> set (cv_children v h). g x \<le> g m" by blast
    from block(2) [OF m(2)] obtain l where l: "ghost_walk K X C d s m = Some (Ok (Some l))"
        "greedy v (\<lambda>x. capped (subtree_weight v bal x)) m l" by blast
    have "\<forall>x \<in> set (cv_children v h).
        capped (subtree_weight v bal x) \<le> capped (subtree_weight v bal m)"
    proof (rule ballI)
      fix x assume "x \<in> set (cv_children v h)"
      with m(3) have "unat (g x) \<le> unat (g m)" by (simp add: word_le_nat_alt)
      with g [of x] g [of m] show "capped (subtree_weight v bal x) \<le> capped (subtree_weight v bal m)"
        by simp
    qed
    then have "greedy v (\<lambda>x. capped (subtree_weight v bal x)) h l"
      by (rule greedy.step [OF m(2) _ l(2)])
    moreover have "ghost_walk K X C d s h = Some (Ok (Some l))"
      using False by (subst ghost_walk.simps) (simp add: cs m l)
    ultimately show ?thesis by blast
  qed
qed

lemma canonical_head_greedy:
  assumes "chain_wf X C (contents d)" and "v = chain_view_of X C (contents d)" and "forest v"
    and "children_ok v" and "state_wf X (contents s)"
    and "bal = sv_balance (view_of X (contents s))" and "\<forall>a. unat (bal a) < 2 ^ 128"
    and "cv_number v 0 = Some g" and "cv_block v g \<noteq> None"
  shows "\<exists>l. canonical_head K X C d s = Ok (Some l) \<and>
    greedy v (\<lambda>x. capped (subtree_weight v bal x)) g l"
proof -
  from assms(9) obtain b where b: "cv_block v g = Some b" by blast
  with view_block_hash [OF assms(1), of g b] assms(2) have "block_hash X b = g" by simp
  with b get_block_by_number_view [OF assms(1), of 0] assms(2,8)
    ghost_walk_greedy [OF assms(1-7,9)] show ?thesis
    by (auto simp: canonical_head_def)
qed

end

section \<open>Properties\<close>

text \<open>
  A forest for the witnesses: a genesis block 204 with two children, 205 by validator 7 and
  206 by validator 8.
\<close>

abbreviation example_genesis :: block where "example_genesis \<equiv> example_block 0 0 10 6 0"
abbreviation example_left :: block where "example_left \<equiv> example_block 204 1 20 7 1"
abbreviation example_right :: block where "example_right \<equiv> example_block 204 1 20 8 2"

definition example_view :: chain_view where
  "example_view = view_put_block ref_ext example_right
     (view_put_block ref_ext example_left (view_put_block ref_ext example_genesis empty_view))"

lemma example_store:
  "\<exists>d. chain_wf ref_ext ref_codec (map_of d) \<and> example_view = chain_view_of ref_ext ref_codec (map_of d)"
proof -
  have "\<exists>d'. chain_wf ref_ext ref_codec (map_of d') \<and>
      chain_view_of ref_ext ref_codec (map_of d') = view_put_block ref_ext b v"
    if "chain_wf ref_ext ref_codec (map_of d)" "encodable (b_body b)"
      "chain_view_of ref_ext ref_codec (map_of d) = v" for b v d
    using mem_chain.put_block_refines [OF that] by blast
  then have step: "\<exists>d. chain_wf ref_ext ref_codec (map_of d) \<and> chain_view_of ref_ext ref_codec (map_of d) = v \<Longrightarrow>
      encodable (b_body b) \<Longrightarrow> \<exists>d. chain_wf ref_ext ref_codec (map_of d) \<and>
        chain_view_of ref_ext ref_codec (map_of d) = view_put_block ref_ext b v" for v b
    by blast
  have "\<exists>d. chain_wf ref_ext ref_codec (map_of d) \<and> chain_view_of ref_ext ref_codec (map_of d) = empty_view"
    by (rule exI [of _ "[]"]) simp
  from step [OF step [OF step [OF this]], of example_genesis example_left example_right] show ?thesis
    unfolding example_view_def by (metis example_block_encodable)
qed

lemma example_view_simps [simp]:
  "cv_block example_view = [204 \<mapsto> example_genesis, 205 \<mapsto> example_left, 206 \<mapsto> example_right]"
  "cv_children example_view = (\<lambda>_. [])(0 := [204], 204 := [205, 206])"
  "cv_number example_view = [0 \<mapsto> 204, 1 \<mapsto> 206]"
  by (simp_all add: example_view_def view_put_block_def empty_view_def fun_eq_iff)

lemma example_forest: "forest example_view" "children_ok example_view"
  by (auto simp: forest_def linked_def children_ok_def)

text \<open>C38: the common ancestor is the nearest one: over a stored forest the search terminates; it
  returns nothing exactly when the two paths to the root are disjoint, and otherwise a block on
  both paths such that every block on both paths is among its ancestors and no higher.\<close>

theorem common_ancestor_nearest:
  assumes "chain_store K contents X C" and "chain_wf X C (contents d)"
    and "v = chain_view_of X C (contents d)" and "forest v"
  shows "(common_ancestor K X C d a b = Ok None \<and> set (chain_path v a) \<inter> set (chain_path v b) = {}) \<or>
    (\<exists>c. common_ancestor K X C d a b = Ok (Some c) \<and>
       c \<in> set (chain_path v a) \<and> c \<in> set (chain_path v b) \<and>
       (\<forall>e. e \<in> set (chain_path v a) \<and> e \<in> set (chain_path v b) \<longrightarrow>
          e \<in> set (chain_path v c) \<and> height v e \<le> height v c))"
proof (cases "common_spec v a b")
  case None
  then have "set (chain_path v a) \<inter> set (chain_path v b) = {}"
    by (auto simp: common_spec_def find_None_iff)
  with None chain_store.common_ancestor_spec [OF assms] show ?thesis by simp
next
  case (Some c)
  with common_spec_in [OF Some] common_spec_nearest [OF assms(4) Some]
    chain_store.common_ancestor_spec [OF assms] show ?thesis by auto
qed

theorem common_ancestor_nearest_witness:
  "\<exists>d. common_ancestor mem_kv ref_ext ref_codec d 205 206 = Ok (Some 204)"
proof -
  obtain d where d: "chain_wf ref_ext ref_codec (map_of d)"
    "example_view = chain_view_of ref_ext ref_codec (map_of d)"
    using example_store by blast
  have "chain_path example_view 205 = [205, 204]" "chain_path example_view 206 = [206, 204]"
    by (simp_all add: chain_path_block [OF example_forest(1)])
  with common_ancestor_nearest [OF mem_chain.chain_store_axioms d example_forest(1), of 205 206]
  show ?thesis by fastforce
qed

text \<open>A reorganisation splits the two paths at their meeting point: on a stored forest it
  fails with ``no common ancestor'' exactly when the paths are disjoint, and otherwise the
  blocks to revert, from the old head down, and the blocks to apply, upwards to the new head,
  are disjoint, and both paths continue with the same blocks below them.\<close>

theorem reorg_blocks_split_paths:
  assumes "chain_store K contents X C" and "chain_wf X C (contents d)"
    and "v = chain_view_of X C (contents d)" and "forest v"
  shows "case reorg_blocks K X C d a b of
      Ok (revert, apply_blocks) \<Rightarrow> \<exists>common.
        chain_path v a = revert @ common \<and> chain_path v b = rev apply_blocks @ common \<and>
        common \<noteq> [] \<and> set revert \<inter> set apply_blocks = {}
    | Err e \<Rightarrow> e = ChainValidation ''no common ancestor'' \<and>
        set (chain_path v a) \<inter> set (chain_path v b) = {}
    | Panic \<Rightarrow> False | Diverge \<Rightarrow> False"
proof (cases "common_spec v a b")
  case None
  then have "set (chain_path v a) \<inter> set (chain_path v b) = {}"
    by (auto simp: common_spec_def find_None_iff)
  with None chain_store.reorg_blocks_spec [OF assms, of a b] show ?thesis by simp
next
  case (Some c)
  have "cv_block v c \<noteq> None"
    using chain_path_stored [OF assms(4)] common_spec_in [OF Some] by blast
  then have "chain_path v c \<noteq> []"
    using chain_path_hd [OF assms(4), of c] by force
  with reorg_split [OF assms(4) Some] chain_store.reorg_blocks_spec [OF assms, of a b] Some
  show ?thesis by auto
qed

theorem reorg_blocks_split_paths_witness:
  "\<exists>d. reorg_blocks mem_kv ref_ext ref_codec d 205 206 = Ok ([205], [206])"
proof -
  obtain d where d: "chain_wf ref_ext ref_codec (map_of d)"
    "example_view = chain_view_of ref_ext ref_codec (map_of d)"
    using example_store by blast
  have p: "chain_path example_view 205 = [205, 204]" "chain_path example_view 206 = [206, 204]"
    by (simp_all add: chain_path_block [OF example_forest(1)])
  from reorg_blocks_split_paths [OF mem_chain.chain_store_axioms d example_forest(1), of 205 206] p
  have "reorg_blocks mem_kv ref_ext ref_codec d 205 206 = Ok ([205], [206])"
    by (auto split: outcome.splits simp: Cons_eq_append_conv)
  then show ?thesis by blast
qed

text \<open>C37: the canonical head is the end of a greedy heaviest-subtree walk: over a stored forest
  whose children lists are faithful, with balances below 2^128, fork choice terminates without
  panic, and from the block of number 0 it moves at each step to a child whose subtree holds at
  least as much validator stake (summed, capped at the largest u128) as any sibling's, until a
  block without children.\<close>

theorem canonical_head_is_greedy:
  assumes "chain_store K contents X C" and "chain_wf X C (contents d)"
    and "v = chain_view_of X C (contents d)" and "forest v"
    and "children_ok v" and "state_wf X (contents s)"
    and "bal = sv_balance (view_of X (contents s))" and "\<forall>a. unat (bal a) < 2 ^ 128"
    and "cv_number v 0 = Some g" and "cv_block v g \<noteq> None"
  shows "\<exists>l. canonical_head K X C d s = Ok (Some l) \<and>
    greedy v (\<lambda>x. capped (subtree_weight v bal x)) g l"
  by (rule chain_store.canonical_head_greedy [OF assms])

lemma greedy_leaf: "cv_children v h = [] \<Longrightarrow> greedy v w h l \<longleftrightarrow> l = h"
  by (subst greedy.simps) auto

lemma greedy_node:
  "cv_children v h \<noteq> [] \<Longrightarrow> greedy v w h l \<longleftrightarrow>
     (\<exists>c \<in> set (cv_children v h). (\<forall>c' \<in> set (cv_children v h). w c' \<le> w c) \<and> greedy v w c l)"
  by (subst greedy.simps) auto

theorem canonical_head_is_greedy_witness:
  "\<exists>d s. canonical_head mem_kv ref_ext ref_codec d s = Ok (Some 206)"
proof -
  obtain d where d: "chain_wf ref_ext ref_codec (map_of d)"
    "example_view = chain_view_of ref_ext ref_codec (map_of d)"
    using example_store by blast
  let ?s = "snd (set_balance mem_kv ref_ext 8 5 [])"
  let ?bal = "(\<lambda>_. 0)(8 := 5) :: address \<Rightarrow> u256"
  have s: "state_wf ref_ext (map_of ?s)" "?bal = sv_balance (view_of ref_ext (map_of ?s))"
    by (rule mem_state.state_wf_writes(1), simp, simp add: mem_state.set_balance_view)
      (simp add: view_of_def)
  have small: "\<forall>a. unat (?bal a) < 2 ^ 128" by simp
  have w: "subtree_weight example_view ?bal 205 = 0" "subtree_weight example_view ?bal 206 = 5"
    by (simp_all add: subtree_weight_rec [OF example_forest])
  have g: "cv_number example_view 0 = Some 204" "cv_block example_view 204 \<noteq> None"
    by simp_all
  from canonical_head_is_greedy [OF mem_chain.chain_store_axioms d example_forest s small g]
  obtain l where "canonical_head mem_kv ref_ext ref_codec d ?s = Ok (Some l)"
    and "greedy example_view (\<lambda>x. capped (subtree_weight example_view ?bal x)) 204 l"
    by blast
  moreover have "l = 206" if "greedy example_view (\<lambda>x. capped (subtree_weight example_view ?bal x)) 204 l"
    using that by (auto simp: greedy_node [of example_view 204] greedy_leaf w capped_def)
  ultimately show ?thesis by blast
qed

end
