(* ===== verification/Quyn_Accept.thy ===== *)
theory Quyn_Accept
  imports Quyn_ForkLaws
begin

text \<open>
  core/src/chain.rs, \<open>accept_block\<close>: validation, parent, finality and double-sign checks, then
  the writes to the chain database and the saved state root. The resource of the action is the
  pair of the chain store and the state store.

  \<open>accept_view\<close> is the decision on the abstract chain; the refinement says that on a forest
  the code takes exactly this decision, writes exactly the block, and writes nothing when it
  refuses.
\<close>

section \<open>Definitions\<close>

definition on_chain :: "('d, 'e, 'a) act \<Rightarrow> ('d \<times> 'd, 'e, 'a) act" where
  "on_chain m cs = (let (r, c') = m (fst cs) in (r, (c', snd cs)))"

definition on_state :: "('d, 'e, 'a) act \<Rightarrow> ('d \<times> 'd, 'e, 'a) act" where
  "on_state m cs = (let (r, s') = m (snd cs) in (r, (fst cs, s')))"

text \<open>\<open>number.checked_sub(1).and_then(|n| chain.get_block_by_number(n).ok().flatten())\<close>\<close>

definition find_parent :: "'d kv \<Rightarrow> ext \<Rightarrow> codec \<Rightarrow> 'd \<Rightarrow> u64 \<Rightarrow> block option core_result" where
  "find_parent K X C c number =
     (if number = 0 then Ok None
      else case get_block_by_number K X C c (number - 1) of
          Ok r \<Rightarrow> Ok r | Err e \<Rightarrow> Ok None | Panic \<Rightarrow> Panic | Diverge \<Rightarrow> Diverge)"

definition check_parent :: "ext \<Rightarrow> block \<Rightarrow> block option \<Rightarrow> u64 \<Rightarrow> unit core_result" where
  "check_parent X b parent current_ts = (case parent of
       Some p \<Rightarrow> validate_block_header X (b_header b) (Some (b_header p)) current_ts
     | None \<Rightarrow> if h_number (b_header b) \<noteq> 0 then Err (ChainValidation ''missing parent'') else Ok ())"

definition check_finality :: "'d kv \<Rightarrow> ext \<Rightarrow> codec \<Rightarrow> 'd \<Rightarrow> block \<Rightarrow> unit core_result" where
  "check_finality K X C c b = obind (get_head K X c) (\<lambda>current_head. case current_head of
       None \<Rightarrow> Ok ()
     | Some head_hash \<Rightarrow>
         if h_parent_hash (b_header b) = head_hash then Ok ()
         else obind (get_finalized_height K X c) (\<lambda>finalized_height. case finalized_height of
              None \<Rightarrow> Ok ()
            | Some fh \<Rightarrow>
                obind (common_ancestor K X C c head_hash (block_hash X b)) (\<lambda>common. case common of
                    None \<Rightarrow> Ok ()
                  | Some ca_hash \<Rightarrow> obind (get_block K X C c ca_hash) (\<lambda>r. case r of
                        None \<Rightarrow> Err (ChainValidation ''common ancestor not found'')
                      | Some ca \<Rightarrow>
                          if h_number (b_header ca) < fh
                          then Err (ChainValidation (''reorg would exceed finality: common ancestor '' @
                                 dec (unat (h_number (b_header ca))) @ '' < finalized '' @ dec (unat fh)))
                          else Ok ()))))"

definition check_double_sign :: "'d kv \<Rightarrow> ext \<Rightarrow> 'd \<Rightarrow> block \<Rightarrow> unit core_result" where
  "check_double_sign K X c b =
     obind (get_signed_block K X c (h_validator (b_header b)) (h_number (b_header b))) (\<lambda>r. case r of
       Some existing_hash \<Rightarrow>
         if existing_hash \<noteq> block_hash X b
         then Err (DoubleSign (h_validator (b_header b)) (h_number (b_header b)) existing_hash
                (block_hash X b))
         else Ok ()
     | None \<Rightarrow> Ok ())"

definition accept_block ::
  "'d kv \<Rightarrow> ext \<Rightarrow> codec \<Rightarrow> block \<Rightarrow> u64 \<Rightarrow> ('d \<times> 'd, core_error, unit) act" where
  "accept_block K X C b current_ts =
     athen (alift (validate_block X b)) (
     abind (aread (\<lambda>(c, s). find_parent K X C c (h_number (b_header b)))) (\<lambda>parent.
     athen (alift (check_parent X b parent current_ts)) (
     athen (aread (\<lambda>(c, s). check_finality K X C c b)) (
     athen (aread (\<lambda>(c, s). check_double_sign K X c b)) (
     athen (on_chain (put_block K X C b)) (
     athen (on_chain (set_head K X (block_hash X b))) (
     athen (on_chain (update_finalized K X C (block_hash X b)))
           (on_state (save_state_root K (block_hash X b) (h_state_root (b_header b)))))))))))"

section \<open>The decision on the abstract chain\<close>

definition view_parent :: "chain_view \<Rightarrow> u64 \<Rightarrow> block option" where
  "view_parent v number = (if number = 0 then None
     else case cv_number v (number - 1) of None \<Rightarrow> None | Some h \<Rightarrow> cv_block v h)"

definition finality_view :: "ext \<Rightarrow> chain_view \<Rightarrow> block \<Rightarrow> unit core_result" where
  "finality_view X v b = (case (cv_head v, fst (cv_finalized v)) of
       (Some head, Some fh) \<Rightarrow>
         if h_parent_hash (b_header b) = head then Ok ()
         else (case common_spec v head (block_hash X b) of
             None \<Rightarrow> Ok ()
           | Some ca \<Rightarrow>
               if height v ca < unat fh
               then Err (ChainValidation (''reorg would exceed finality: common ancestor '' @
                      dec (height v ca) @ '' < finalized '' @ dec (unat fh)))
               else Ok ())
     | _ \<Rightarrow> Ok ())"

definition double_sign_view :: "ext \<Rightarrow> chain_view \<Rightarrow> block \<Rightarrow> unit core_result" where
  "double_sign_view X v b = (case cv_signed v (h_validator (b_header b)) (h_number (b_header b)) of
       Some e \<Rightarrow> if e \<noteq> block_hash X b
         then Err (DoubleSign (h_validator (b_header b)) (h_number (b_header b)) e (block_hash X b))
         else Ok ()
     | None \<Rightarrow> Ok ())"

definition accept_decision :: "ext \<Rightarrow> chain_view \<Rightarrow> block \<Rightarrow> u64 \<Rightarrow> unit core_result" where
  "accept_decision X v b now =
     obind (validate_block X b) (\<lambda>_.
     obind (check_parent X b (view_parent v (h_number (b_header b))) now) (\<lambda>_.
     obind (finality_view X v b) (\<lambda>_. double_sign_view X v b)))"

definition finalize_view :: "b256 \<Rightarrow> chain_view \<Rightarrow> chain_view" where
  "finalize_view h v = (case cv_block v h of
       None \<Rightarrow> v
     | Some b \<Rightarrow> if unat (h_number (b_header b)) < 100 then v
         else v\<lparr>cv_finalized := (Some (h_number (b_header b) - 100), ancestor v 100 h)\<rparr>)"

definition accept_view :: "ext \<Rightarrow> block \<Rightarrow> chain_view \<Rightarrow> chain_view" where
  "accept_view X b v =
     finalize_view (block_hash X b) ((view_put_block X b v)\<lparr>cv_head := Some (block_hash X b)\<rparr>)"

section \<open>Refinement\<close>

lemma on_chain_eq [simp]: "m c = (r, c') \<Longrightarrow> on_chain m (c, s) = (r, (c', s))"
  by (simp add: on_chain_def)

lemma on_state_eq [simp]: "m s = (r, s') \<Longrightarrow> on_state m (c, s) = (r, (c, s'))"
  by (simp add: on_state_def)

lemma accept_decision_no_panic:
  "accept_decision X v b now = Panic \<Longrightarrow> \<exists>p. view_parent v (h_number (b_header b)) = Some p \<and>
     (unat (h_number (b_header p)) = 2 ^ 64 - 1 \<or> 2 ^ 64 \<le> unat now + 3)"
proof -
  assume P: "accept_decision X v b now = Panic"
  have "finality_view X v b \<noteq> Panic" "double_sign_view X v b \<noteq> Panic"
    by (simp_all add: finality_view_def double_sign_view_def split: option.splits)
  with P validate_block_no_panic [of X b]
  have "check_parent X b (view_parent v (h_number (b_header b))) now = Panic"
    by (auto simp: accept_decision_def obind_eq_Panic)
  then obtain p where p: "view_parent v (h_number (b_header b)) = Some p"
    and "validate_block_header X (b_header b) (Some (b_header p)) now = Panic"
    by (auto simp: check_parent_def split: option.splits if_splits)
  moreover from this(2) have "unat (h_number (b_header p)) = 2 ^ 64 - 1 \<or> 2 ^ 64 \<le> unat now + 3"
    using unat_less [of "h_number (b_header p)"]
    by (auto simp: validate_block_header_def chk_add_def BLOCK_TIME_SECS_def obind_eq_Panic
        split: if_splits)
  ultimately show ?thesis by blast
qed

text \<open>
  A new block that was accepted on a parent keeps the forest: it is stored under a non-zero
  hash at which there was no block or the same header, its transactions carry their hashes, and
  its parent is stored one below.
\<close>

definition storable :: "ext \<Rightarrow> chain_view \<Rightarrow> block \<Rightarrow> bool" where
  "storable X v b \<longleftrightarrow> encodable (b_body b) \<and> block_hash X b \<noteq> 0 \<and>
     (\<forall>b'. cv_block v (block_hash X b) = Some b' \<longrightarrow> b_header b' = b_header b)"

definition new_hash :: "ext \<Rightarrow> chain_view \<Rightarrow> block \<Rightarrow> bool" where
  "new_hash X v b \<longleftrightarrow> block_hash X b \<noteq> 0 \<and>
     (\<forall>b'. cv_block v (block_hash X b) = Some b' \<longrightarrow> b_header b' = b_header b)"

lemma storable_iff: "storable X v b \<longleftrightarrow> encodable (b_body b) \<and> new_hash X v b"
  by (simp add: storable_def new_hash_def)

lemma new_hash_body [simp]: "new_hash X v (b\<lparr>b_body := txs\<rparr>) = new_hash X v b"
  by (simp add: new_hash_def)

text \<open>The chain's invariant: what the code keeps true of the stored blocks and their indexes.\<close>

definition chain_inv :: "chain_view \<Rightarrow> bool" where
  "chain_inv v \<longleftrightarrow> forest v \<and> children_ok v \<and>
     (\<forall>h b. cv_block v h = Some b \<and> h_number (b_header b) = 0 \<longrightarrow> h_parent_hash (b_header b) = 0) \<and>
     (\<forall>n h. cv_number v n = Some h \<longrightarrow> (\<exists>b. cv_block v h = Some b \<and> h_number (b_header b) = n)) \<and>
     (\<forall>h b. cv_block v h = Some b \<longrightarrow>
        cv_signed v (h_validator (b_header b)) (h_number (b_header b)) = Some h) \<and>
     (\<forall>h. cv_head v = Some h \<longrightarrow> cv_block v h \<noteq> None) \<and>
     (\<forall>n h. cv_finalized v = (Some n, Some h) \<longrightarrow> height v h = unat n \<and> cv_block v h \<noteq> None)"

lemma view_put_block_simps [simp]:
  "cv_block (view_put_block X b v) = (cv_block v)(block_hash X b \<mapsto> b)"
  "cv_number (view_put_block X b v) = (cv_number v)(h_number (b_header b) \<mapsto> block_hash X b)"
  "cv_signed (view_put_block X b v) = (cv_signed v)(h_validator (b_header b) :=
      (cv_signed v (h_validator (b_header b)))(h_number (b_header b) \<mapsto> block_hash X b))"
  "cv_children (view_put_block X b v) = (cv_children v)(h_parent_hash (b_header b) :=
      cv_children v (h_parent_hash (b_header b)) @ [block_hash X b])"
  "cv_head (view_put_block X b v) = cv_head v"
  "cv_finalized (view_put_block X b v) = cv_finalized v"
  by (simp_all add: view_put_block_def Let_def)

lemma view_parent_linked:
  assumes "accept_decision X v b now = Ok ()" and "h_number (b_header b) \<noteq> 0"
    and "\<forall>n h. cv_number v n = Some h \<longrightarrow> (\<exists>p. cv_block v h = Some p \<and> block_hash X p = h)"
  shows "\<exists>p. cv_block v (h_parent_hash (b_header b)) = Some p \<and>
    unat (h_number (b_header b)) = Suc (unat (h_number (b_header p)))"
proof -
  from assms(1,2) obtain p where p: "view_parent v (h_number (b_header b)) = Some p"
    and hdr: "validate_block_header X (b_header b) (Some (b_header p)) now = Ok ()"
    by (auto simp: accept_decision_def obind_eq_Ok check_parent_def split: option.splits)
  from p assms(2) obtain h where "cv_number v (h_number (b_header b) - 1) = Some h" "cv_block v h = Some p"
    by (auto simp: view_parent_def split: option.splits if_splits)
  moreover from this assms(3) have "block_hash X p = h" by fastforce
  ultimately show ?thesis
    using hdr by (simp add: header_ok_iff block_hash_def)
qed

text \<open>What acceptance needs of the chain, and what it keeps.\<close>

definition hashed :: "ext \<Rightarrow> chain_view \<Rightarrow> bool" where
  "hashed X v \<longleftrightarrow> (\<forall>h b. cv_block v h = Some b \<longrightarrow> block_hash X b = h)"

lemma put_block_keeps_headers:
  assumes "new_hash X v b" and "cv_block v h = Some p"
  shows "\<exists>p'. cv_block (view_put_block X b v) h = Some p' \<and> b_header p' = b_header p"
  using assms unfolding new_hash_def by auto

lemma put_block_linked:
  assumes "linked v" and "new_hash X v b"
    and "h_number (b_header b) \<noteq> 0 \<Longrightarrow> \<exists>p. cv_block v (h_parent_hash (b_header b)) = Some p \<and>
      unat (h_number (b_header b)) = Suc (unat (h_number (b_header p)))"
  shows "linked (view_put_block X b v)"
  unfolding linked_def
proof (intro allI impI, elim conjE)
  fix h x assume x: "cv_block (view_put_block X b v) h = Some x" "h_number (b_header x) \<noteq> 0"
  have "\<exists>p. cv_block v (h_parent_hash (b_header x)) = Some p \<and>
      unat (h_number (b_header x)) = Suc (unat (h_number (b_header p)))"
  proof (cases "h = block_hash X b")
    case True
    with x assms(3) show ?thesis by simp
  next
    case False
    with x assms(1) show ?thesis unfolding linked_def by simp
  qed
  then obtain p where p: "cv_block v (h_parent_hash (b_header x)) = Some p"
    "unat (h_number (b_header x)) = Suc (unat (h_number (b_header p)))" by blast
  with put_block_keeps_headers [OF assms(2) p(1)]
  show "\<exists>p. cv_block (view_put_block X b v) (h_parent_hash (b_header x)) = Some p \<and>
      unat (h_number (b_header x)) = Suc (unat (h_number (b_header p)))"
    by auto
qed

lemma number_hashed:
  assumes "chain_inv v" and "hashed X v"
  shows "\<forall>n h. cv_number v n = Some h \<longrightarrow> (\<exists>p. cv_block v h = Some p \<and> block_hash X p = h)"
  using assms unfolding chain_inv_def hashed_def by blast

lemma double_sign_view_Ok:
  "double_sign_view X v b = Ok () \<longleftrightarrow>
     (\<forall>e. cv_signed v (h_validator (b_header b)) (h_number (b_header b)) = Some e \<longrightarrow> e = block_hash X b)"
  by (auto simp: double_sign_view_def split: option.splits)

lemma view_upd_simps [simp]:
  "linked (v\<lparr>cv_head := x\<rparr>) = linked v" "linked (v\<lparr>cv_finalized := y\<rparr>) = linked v"
  "forest (v\<lparr>cv_head := x\<rparr>) = forest v" "forest (v\<lparr>cv_finalized := y\<rparr>) = forest v"
  "children_ok (v\<lparr>cv_head := x\<rparr>) = children_ok v" "children_ok (v\<lparr>cv_finalized := y\<rparr>) = children_ok v"
  "height (v\<lparr>cv_head := x\<rparr>) = height v" "height (v\<lparr>cv_finalized := y\<rparr>) = height v"
  by (simp_all add: linked_def forest_def children_ok_def height_def fun_eq_iff)

lemma chain_inv_put_block:
  assumes inv: "chain_inv v" and hv: "hashed X v" and st: "storable X v b"
    and ok: "accept_decision X v b now = Ok ()" and nz: "h_number (b_header b) \<noteq> 0"
  shows "chain_inv ((view_put_block X b v)\<lparr>cv_head := Some (block_hash X b)\<rparr>)"
proof -
  let ?h = "block_hash X b" and ?w = "view_put_block X b v"
  have nh: "new_hash X v b" using st by (simp add: storable_iff)
  have parent: "\<exists>p. cv_block v (h_parent_hash (b_header b)) = Some p \<and>
      unat (h_number (b_header b)) = Suc (unat (h_number (b_header p)))"
    by (rule view_parent_linked [OF ok nz number_hashed [OF inv hv]])
  have lk: "linked ?w"
    using put_block_linked [OF _ nh parent] inv unfolding chain_inv_def forest_def by blast
  have keep: "cv_block ?w x = Some y \<Longrightarrow> x \<noteq> ?h \<Longrightarrow> cv_block v x = Some y" for x y
    by simp
  have zero: "h_parent_hash (b_header y) = 0"
    if "cv_block ?w x = Some y" "h_number (b_header y) = 0" for x y
    using that nz inv unfolding chain_inv_def by (auto split: if_splits)
  have root: "cv_block ?w 0 = None"
    using inv st by (simp add: chain_inv_def forest_def storable_def)
  have f1: "forest ?w"
    unfolding forest_def using lk root zero by metis
  have f2: "children_ok ?w"
    unfolding children_ok_def
  proof (intro allI ballI)
    fix q x assume x: "x \<in> set (cv_children ?w q)"
    show "\<exists>y. cv_block ?w x = Some y \<and> h_parent_hash (b_header y) = q"
    proof (cases "x = ?h \<and> q = h_parent_hash (b_header b)")
      case False
      with x have "x \<in> set (cv_children v q)" by (auto split: if_splits)
      with inv obtain y where "cv_block v x = Some y" "h_parent_hash (b_header y) = q"
        unfolding chain_inv_def children_ok_def by blast
      with put_block_keeps_headers [OF nh this(1)] show ?thesis by auto
    qed simp
  qed
  have f3: "\<exists>y. cv_block ?w x = Some y \<and> h_number (b_header y) = n"
    if "cv_number ?w n = Some x" for n x
  proof (cases "n = h_number (b_header b)")
    case False
    with that have "cv_number v n = Some x" by simp
    with inv obtain y where "cv_block v x = Some y" "h_number (b_header y) = n"
      unfolding chain_inv_def by blast
    with put_block_keeps_headers [OF nh this(1)] show ?thesis by auto
  qed (use that in auto)
  have f4: "cv_signed ?w (h_validator (b_header y)) (h_number (b_header y)) = Some x"
    if "cv_block ?w x = Some y" for x y
  proof (cases "x = ?h")
    case True
    with that show ?thesis by simp
  next
    case False
    with that inv have "cv_signed v (h_validator (b_header y)) (h_number (b_header y)) = Some x"
      unfolding chain_inv_def by simp
    moreover from ok have "double_sign_view X v b = Ok ()"
      by (auto simp: accept_decision_def obind_eq_Ok)
    ultimately show ?thesis using False by (auto simp: double_sign_view_Ok)
  qed
  have f5: "height ?w x = unat n \<and> cv_block ?w x \<noteq> None"
    if "cv_finalized ?w = (Some n, Some x)" for n x
  proof -
    from that inv have old: "height v x = unat n" "cv_block v x \<noteq> None"
      unfolding chain_inv_def by auto
    then obtain p where "cv_block v x = Some p" by blast
    with put_block_keeps_headers [OF nh this] old show ?thesis
      by (auto simp: height_def)
  qed
  have f6: "cv_block ?w ?h \<noteq> None" by simp
  show ?thesis
    unfolding chain_inv_def view_upd_simps chain_view.simps chain_view.update_convs
    using f1 f2 zero f3 f4 f5 f6 by (intro conjI) (simp_all del: view_put_block_simps, blast+)
qed

lemma chain_inv_finalize:
  assumes "chain_inv v"
  shows "chain_inv (finalize_view h v)"
proof -
  have "height v x = unat n \<and> cv_block v x \<noteq> None"
    if "cv_block v h = Some b" "100 \<le> unat (h_number (b_header b))"
      "n = h_number (b_header b) - 100" "ancestor v 100 h = Some x" for b n x
  proof -
    have "linked v" using assms by (simp add: chain_inv_def forest_def)
    from ancestor_linked [OF this that(1), of 100] that(2,4) obtain c where
      "cv_block v x = Some c" "unat (h_number (b_header c)) = unat (h_number (b_header b)) - 100"
      by auto
    with that(2,3) show ?thesis by (simp add: height_def unat_sub word_le_nat_alt)
  qed
  with assms show ?thesis
    by (auto simp: chain_inv_def finalize_view_def forest_def linked_def children_ok_def height_def
        not_less split: option.splits)
qed

lemma chain_inv_accept:
  assumes "chain_inv v" and "hashed X v" and "storable X v b"
    and "accept_decision X v b now = Ok ()" and "h_number (b_header b) \<noteq> 0"
  shows "chain_inv (accept_view X b v)"
  unfolding accept_view_def by (intro chain_inv_finalize chain_inv_put_block [OF assms])

context chain_store
begin

lemma wf_hashed:
  assumes "chain_wf X C (contents c)" and "v = chain_view_of X C (contents c)"
  shows "hashed X v"
  using view_block_hash [OF assms(1)] assms(2) by (auto simp: hashed_def)

lemma find_parent_view:
  assumes "chain_wf X C (contents c)" and "v = chain_view_of X C (contents c)"
  shows "find_parent K X C c n = Ok (view_parent v n)"
  by (simp add: find_parent_def get_block_by_number_view [OF assms(1)] view_parent_def assms(2))

lemma check_finality_view:
  assumes "chain_wf X C (contents c)" and "v = chain_view_of X C (contents c)" and "forest v"
  shows "check_finality K X C c b = finality_view X v b"
proof -
  have stored: "common_spec v x y = Some a \<Longrightarrow> \<exists>p. cv_block v a = Some p" for x y a
    using chain_path_stored [OF assms(3)] common_spec_in by blast
  show ?thesis
    by (auto dest: stored simp: check_finality_def finality_view_def reads_view assms(2) [symmetric]
        common_ancestor_spec [OF assms] get_block_abs [OF assms(1,2)] height_def word_less_nat_alt
        split: option.splits)
qed

lemma check_double_sign_view:
  assumes "v = chain_view_of X C (contents c)"
  shows "check_double_sign K X c b = double_sign_view X v b"
  by (simp add: check_double_sign_def double_sign_view_def reads_view assms)

text \<open>Storing a block of which bincode reads the transactions \<open>txs\<close> back.\<close>

lemma store_block_refines:
  assumes "chain_wf X C (contents c)" and "v = chain_view_of X C (contents c)"
    and "linked (view_put_block X (b\<lparr>b_body := txs\<rparr>) v)" and "de_body C (body_code (b_body b)) = Inr txs"
  shows "\<exists>c' s'. athen (on_chain (put_block K X C b)) (
       athen (on_chain (set_head K X (block_hash X b))) (
       athen (on_chain (update_finalized K X C (block_hash X b)))
             (on_state (save_state_root K (block_hash X b) r)))) (c, s) = (Ok (), (c', s')) \<and>
     chain_wf X C (contents c') \<and> chain_view_of X C (contents c') = accept_view X (b\<lparr>b_body := txs\<rparr>) v \<and>
     contents s' = (contents s)(state_root_key (block_hash X b) \<mapsto> b256_bytes r)"
proof -
  let ?h = "block_hash X b" and ?b = "b\<lparr>b_body := txs\<rparr>"
  from put_block_reads [OF assms(1,4) assms(2) [symmetric]] obtain c1 where
    c1: "put_block K X C b c = (Ok (), c1)" "chain_wf X C (contents c1)"
      "chain_view_of X C (contents c1) = view_put_block X ?b v" by blast
  from set_head_refines [OF c1(2), of ?h] c1(3) obtain c2 where
    c2: "set_head K X ?h c1 = (Ok (), c2)" "chain_wf X C (contents c2)"
      "(view_put_block X ?b v)\<lparr>cv_head := Some ?h\<rparr> = chain_view_of X C (contents c2)" by auto
  have "linked ((view_put_block X ?b v)\<lparr>cv_head := Some ?h\<rparr>)"
    using assms(3) by (simp add: linked_def)
  from update_finalized_refines [OF c2(2,3) this, of ?h] obtain c3 where
    c3: "update_finalized K X C ?h c2 = (Ok (), c3)" "chain_wf X C (contents c3)"
      "chain_view_of X C (contents c3) = accept_view X ?b v"
    by (auto simp: accept_view_def finalize_view_def)
  have "save_state_root K ?h r s = (Ok (), snd (save_state_root K ?h r s))"
    using writes_Ok(4) by (metis prod.collapse)
  with c1(1) c2(1) c3 show ?thesis
    by (auto simp: athen_def save_state_root_contents)
qed

text \<open>When the checks pass, what happens is up to storing the block.\<close>

lemma accepted_stores:
  assumes "chain_wf X C (contents c)" and "v = chain_view_of X C (contents c)" and "chain_inv v"
    and "accept_decision X v b now = Ok ()"
  shows "accept_block K X C b now (c, s) = athen (on_chain (put_block K X C b)) (
       athen (on_chain (set_head K X (block_hash X b))) (
       athen (on_chain (update_finalized K X C (block_hash X b)))
             (on_state (save_state_root K (block_hash X b) (h_state_root (b_header b)))))) (c, s)"
proof -
  have fr: "forest v" using assms(3) by (simp add: chain_inv_def)
  show ?thesis
    using assms(4) find_parent_view [OF assms(1,2)] check_finality_view [OF assms(1,2) fr] check_double_sign_view [OF assms(2)]
    by (auto simp: accept_decision_def obind_eq_Ok accept_block_def athen_def [of "alift _"] athen_def [of "aread _"]
        abind_alift abind_aread)
qed

lemma refused_untouched:
  assumes "chain_wf X C (contents c)" and "v = chain_view_of X C (contents c)" and "chain_inv v"
    and "accept_decision X v b now \<noteq> Ok ()"
  shows "accept_block K X C b now (c, s) = (accept_decision X v b now, (c, s))"
proof -
  have fr: "forest v" using assms(3) by (simp add: chain_inv_def)
  note reads = find_parent_view [OF assms(1,2)] check_finality_view [OF assms(1,2) fr]
    check_double_sign_view [OF assms(2)]
  show ?thesis
    using assms(4)
    by (cases "validate_block X b"; cases "check_parent X b (view_parent v (h_number (b_header b))) now";
        cases "finality_view X v b"; cases "double_sign_view X v b")
      (auto simp: accept_decision_def accept_block_def athen_def [of "alift _"]
        athen_def [of "aread _"] abind_alift abind_aread reads)
qed

lemma accept_block_reads:
  assumes "chain_wf X C (contents c)" and "v = chain_view_of X C (contents c)" and inv: "chain_inv v"
    and ok: "accept_decision X v b now = Ok ()" and new: "new_hash X v b"
    and read: "de_body C (body_code (b_body b)) = Inr txs"
  shows "\<exists>c' s'. accept_block K X C b now (c, s) = (Ok (), (c', s')) \<and>
    chain_wf X C (contents c') \<and> chain_view_of X C (contents c') = accept_view X (b\<lparr>b_body := txs\<rparr>) v \<and>
    contents s' = (contents s)(state_root_key (block_hash X b) \<mapsto> b256_bytes (h_state_root (b_header b)))"
proof -
  have "linked (view_put_block X (b\<lparr>b_body := txs\<rparr>) v)"
  proof (rule put_block_linked)
    show "linked v" using inv by (simp add: chain_inv_def forest_def)
    show "new_hash X v (b\<lparr>b_body := txs\<rparr>)" using new by simp
    show "\<exists>p. cv_block v (h_parent_hash (b_header (b\<lparr>b_body := txs\<rparr>))) = Some p \<and>
        unat (h_number (b_header (b\<lparr>b_body := txs\<rparr>))) = Suc (unat (h_number (b_header p)))"
      if "h_number (b_header (b\<lparr>b_body := txs\<rparr>)) \<noteq> 0"
      using view_parent_linked [OF ok _ number_hashed [OF inv wf_hashed [OF assms(1,2)]]] that by simp
  qed
  from store_block_refines [OF assms(1,2) this read] show ?thesis
    unfolding accepted_stores [OF assms(1-3) ok] .
qed

lemma accept_block_refines:
  assumes "chain_wf X C (contents c)" and "v = chain_view_of X C (contents c)" and inv: "chain_inv v"
  shows "case accept_decision X v b now of
      Ok u \<Rightarrow> storable X v b \<longrightarrow>
        (\<exists>c' s'. accept_block K X C b now (c, s) = (Ok (), (c', s')) \<and>
          chain_wf X C (contents c') \<and> chain_view_of X C (contents c') = accept_view X b v \<and>
          contents s' = (contents s)(state_root_key (block_hash X b) \<mapsto> b256_bytes (h_state_root (b_header b))))
    | r \<Rightarrow> accept_block K X C b now (c, s) = (r, (c, s))"
  using accept_block_reads [OF assms, of b now "b_body b" s] refused_untouched [OF assms, of b now s]
  by (cases "accept_decision X v b now") (auto simp: storable_iff)

text \<open>Accepting a block whose stored body does not deserialize: it becomes the head, and is hidden.\<close>

lemma accept_undecodable:
  assumes "chain_wf X C (contents c)" and "v = chain_view_of X C (contents c)" and "chain_inv v"
    and "accept_decision X v b now = Ok ()" and "de_body C (body_code (b_body b)) = Inl e"
  shows "\<exists>c'. accept_block K X C b now (c, s) = (Err (Serialization e), (c', s)) \<and>
    get_head K X c' = Ok (Some (block_hash X b)) \<and>
    get_block K X C c' (block_hash X b) = Err (Serialization e) \<and>
    (\<forall>h. h \<noteq> block_hash X b \<longrightarrow> get_block K X C c' h = Ok (cv_block v h)) \<and>
    chain_view_of X C (contents c') =
      (view_put_block X b v)\<lparr>cv_block := (cv_block v)(block_hash X b := None), cv_head := Some (block_hash X b)\<rparr>"
proof -
  let ?h = "block_hash X b"
  let ?ch = "case contents c (chain_key_bytes X (ChildrenKey (h_parent_hash (b_header b)))) of
        None \<Rightarrow> [] | Some v \<Rightarrow> v"
  obtain c1 where c1: "put_block K X C b c = (Ok (), c1)" "contents c1 = block_entries b ?ch (contents c)"
    using put_block_contents by blast
  define c2 where "c2 = snd (set_head K X ?h c1)"
  have c2: "set_head K X ?h c1 = (Ok (), c2)"
    "contents c2 = (block_entries b ?ch (contents c))(chain_key_bytes X HeadKey \<mapsto> b256_bytes ?h)"
    by (simp_all add: c2_def set_head_def put_contents c1)
  have g: "get_block K X C c2 ?h = Err (Serialization e)" and hd: "get_head K X c2 = Ok (Some ?h)"
    using assms(5) by (simp_all add: get_block_def get_head_def c2 block_entries_def)
  have other: "get_block K X C c2 h = Ok (cv_block v h)" if "h \<noteq> ?h" for h
  proof -
    have "get_block K X C c2 h = get_block K X C c h"
      using that by (simp add: get_block_def c2 block_entries_def)
    then show ?thesis using get_block_view [OF assms(1)] assms(2) by simp
  qed
  have "chain_view_of X C (contents c2) =
      (view_put_block X b v)\<lparr>cv_block := (cv_block v)(?h := None), cv_head := Some ?h\<rparr>"
    unfolding c2(2) put_view assms(2)
    by (subst block_entries_hidden [OF assms(5) wf_children [OF assms(1)]])
      (simp_all add: chain_view_of_def split: option.splits)
  moreover have "update_finalized K X C ?h c2 = (Err (Serialization e), c2)"
    by (simp add: update_finalized_def abind_aread g)
  then have "accept_block K X C b now (c, s) = (Err (Serialization e), (c2, s))"
    using c1(1) c2(1) by (simp add: accepted_stores [OF assms(1-4)] athen_def)
  ultimately show ?thesis using g hd other by blast
qed

end

section \<open>Runs of the chain\<close>

text \<open>
  A run: a genesis block on an empty chain database, then any accepted blocks above number 0
  that do not collide with a stored hash, and any writes of receipts, evidence and validator
  sets in between.
\<close>

inductive chain_run ::
  "'d kv \<Rightarrow> ext \<Rightarrow> codec \<Rightarrow> ('d \<Rightarrow> bytes \<rightharpoonup> bytes) \<Rightarrow> 'd \<times> 'd \<Rightarrow> bool"
  for K X C contents where
  genesis: "contents c = Map.empty \<Longrightarrow> encodable (b_body g) \<Longrightarrow> h_number (b_header g) = 0 \<Longrightarrow> h_parent_hash (b_header g) = 0 \<Longrightarrow>
    block_hash X g \<noteq> 0 \<Longrightarrow> put_block K X C g c = (Ok (), c1) \<Longrightarrow>
    set_head K X (block_hash X g) c1 = (Ok (), c2) \<Longrightarrow> chain_run K X C contents (c2, s)"
| accept: "chain_run K X C contents (c, s) \<Longrightarrow> h_number (b_header b) \<noteq> 0 \<Longrightarrow>
    storable X (chain_view_of X C (contents c)) b \<Longrightarrow>
    accept_block K X C b now (c, s) = (Ok (), (c', s')) \<Longrightarrow> chain_run K X C contents (c', s')"
| receipt: "chain_run K X C contents (c, s) \<Longrightarrow>
    put_tx_receipt_index K X t bh n i g c = (r, c') \<Longrightarrow> chain_run K X C contents (c', s)"
| evidence: "chain_run K X C contents (c, s) \<Longrightarrow>
    put_slash_evidence K X a n bs c = (r, c') \<Longrightarrow> chain_run K X C contents (c', s)"
| validators: "chain_run K X C contents (c, s) \<Longrightarrow>
    put_validator_set_bytes K X bs c = (r, c') \<Longrightarrow> chain_run K X C contents (c', s)"

lemma chain_inv_upd [simp]:
  "chain_inv (v\<lparr>cv_receipt := x\<rparr>) = chain_inv v" "chain_inv (v\<lparr>cv_evidence := y\<rparr>) = chain_inv v"
  "chain_inv (v\<lparr>cv_validators := z\<rparr>) = chain_inv v"
  by (simp_all add: chain_inv_def forest_def linked_def children_ok_def height_def)

lemma chain_inv_genesis:
  assumes "h_number (b_header g) = 0" and "h_parent_hash (b_header g) = 0" and "block_hash X g \<noteq> 0"
  shows "chain_inv ((view_put_block X g empty_view)\<lparr>cv_head := Some (block_hash X g)\<rparr>)"
proof -
  have "forest (view_put_block X g empty_view)" "children_ok (view_put_block X g empty_view)"
    using assms by (auto simp: forest_def linked_def children_ok_def empty_view_def)
  then show ?thesis
    using assms by (simp add: chain_inv_def) (simp add: empty_view_def)
qed

lemma on_chain_snd: "on_chain m cs = (r, cs') \<Longrightarrow> snd cs' = snd cs"
  by (auto simp: on_chain_def split: prod.splits)

context chain_store
begin

lemma chain_run_inv:
  assumes "chain_run K X C contents cs"
  shows "chain_wf X C (contents (fst cs)) \<and> chain_inv (chain_view_of X C (contents (fst cs)))"
  using assms
proof induction
  case (genesis c g c1 c2 s)
  have "chain_wf X C (contents c)" "chain_view_of X C (contents c) = empty_view"
    using genesis(1) by simp_all
  from put_block_refines [OF this(1) genesis(2) this(2)] genesis(6) have
    c1: "chain_wf X C (contents c1)" "chain_view_of X C (contents c1) = view_put_block X g empty_view"
    by auto
  from set_head_refines [OF c1(1), of "block_hash X g"] c1(2) genesis(7)
    chain_inv_genesis [OF genesis(3-5)] show ?case by auto
next
  case (accept c s b now c' s')
  from accept.IH have wf: "chain_wf X C (contents c)" and inv: "chain_inv (chain_view_of X C (contents c))"
    by auto
  from accept_block_refines [OF wf refl inv, of b now s] accept(2-4)
    chain_inv_accept [OF inv wf_hashed [OF wf refl], of b now]
  show ?case
    by (cases "accept_decision X (chain_view_of X C (contents c)) b now") auto
next
  case (receipt c s t bh n i g r c')
  then show ?case
    using wf_other_key [of "contents c" "TxReceiptKey t"]
    by (auto simp: put_tx_receipt_index_def put_contents put_view simp del: fun_upd_apply)
next
  case (evidence c s a n bs r c')
  then show ?case
    using wf_other_key [of "contents c" "SlashEvidenceKey a n"]
    by (auto simp: put_slash_evidence_def put_contents put_view simp del: fun_upd_apply)
next
  case (validators c s bs r c')
  then show ?case
    using wf_other_key [of "contents c" ValidatorSetKey]
    by (auto simp: put_validator_set_bytes_def put_contents put_view simp del: fun_upd_apply)
qed

end

lemma chain_inv_unique_signature:
  assumes "chain_inv v" and "cv_block v h = Some b" and "cv_block v h' = Some b'"
    and "h_validator (b_header b) = h_validator (b_header b')"
    and "h_number (b_header b) = h_number (b_header b')"
  shows "h = h'"
  using assms unfolding chain_inv_def by (metis option.inject)

section \<open>Properties\<close>

text \<open>Chains for the witnesses: the genesis block, and a child of it.\<close>

definition one_view :: chain_view where
  "one_view = (view_put_block ref_ext example_genesis empty_view)\<lparr>cv_head := Some 204\<rparr>"

lemma one_view_simps [simp]:
  "cv_block one_view = [204 \<mapsto> example_genesis]" "cv_number one_view = [0 \<mapsto> 204]"
  "cv_head one_view = Some 204" "cv_finalized one_view = (None, None)"
  "cv_signed one_view = (\<lambda>_. Map.empty)(6 := [0 \<mapsto> 204])"
  "cv_children one_view = (\<lambda>_. [])(0 := [204])"
  by (simp_all add: one_view_def empty_view_def fun_eq_iff)

lemma one_view_inv: "chain_inv one_view"
  using chain_inv_genesis [of example_genesis ref_ext] by (simp add: one_view_def)

lemma one_store:
  "\<exists>c1 c2. put_block mem_kv ref_ext ref_codec example_genesis [] = (Ok (), c1) \<and>
     set_head mem_kv ref_ext 204 c1 = (Ok (), c2) \<and> chain_wf ref_ext ref_codec (map_of c2) \<and>
     one_view = chain_view_of ref_ext ref_codec (map_of c2)"
proof -
  have "chain_wf ref_ext ref_codec (map_of [])" "chain_view_of ref_ext ref_codec (map_of []) = empty_view"
    by simp_all
  from mem_chain.put_block_refines [OF this(1) example_block_encodable this(2)] obtain c1 where
    c1: "put_block mem_kv ref_ext ref_codec example_genesis [] = (Ok (), c1)"
      "chain_wf ref_ext ref_codec (map_of c1)"
      "chain_view_of ref_ext ref_codec (map_of c1) = view_put_block ref_ext example_genesis empty_view"
    by blast
  from mem_chain.set_head_refines [OF c1(2), of 204] c1 show ?thesis
    by (fastforce simp: one_view_def)
qed

lemma genesis_header_hash: "header_hash ref_ext (b_header example_genesis) = 204"
  using example_block_hash [of 0 0 10 6 0] by (simp add: block_hash_def del: example_block_hash)

lemma child_on_genesis:
  "validate_block_header ref_ext (b_header (example_block 204 1 20 a n)) (Some (b_header example_genesis)) 20
     = Ok ()"
  by (simp add: header_ok_iff genesis_header_hash)

lemma left_on_genesis: "accept_decision ref_ext one_view example_left 20 = Ok ()"
  using child_on_genesis [of 7 1]
  by (simp add: accept_decision_def view_parent_def check_parent_def finality_view_def double_sign_view_def)

text \<open>C2: \<open>accept_block\<close> decides and stores exactly as specified: over a working store whose
  chain satisfies the invariant, it refuses with the outcome of the specification (body, parent
  and header, finality, double signing, in this order) leaving both databases untouched. When
  the specification accepts a block, it depends on what bincode reads from the body it has just
  written. If that fails, the call fails with a serialization error, but the block is stored and is the
  head by then: it is entered in every index, cannot be read, and the state is untouched. If bincode
  reads transactions back (those of the block, when all carry their hashes) and the
  block's hash is not zero and not that of another stored header, the call succeeds, stores the
  block, makes it the head, moves the finalized checkpoint, and saves its state root.\<close>

theorem accept_block_refines_decision:
  assumes "chain_store K contents X C" and "chain_wf X C (contents c)"
    and "v = chain_view_of X C (contents c)" and "chain_inv v"
  shows "case accept_decision X v b now of
      Ok u \<Rightarrow> \<exists>bs. ser_body C (b_body b) = Inr bs \<and> (case de_body C bs of
          Inl e \<Rightarrow> \<exists>c'. accept_block K X C b now (c, s) = (Err (Serialization e), (c', s)) \<and>
            get_block K X C c' (block_hash X b) = Err (Serialization e) \<and>
            chain_view_of X C (contents c') = (view_put_block X b v)
              \<lparr>cv_block := (cv_block v)(block_hash X b := None), cv_head := Some (block_hash X b)\<rparr>
        | Inr txs \<Rightarrow> (encodable (b_body b) \<longrightarrow> txs = b_body b) \<and> (new_hash X v b \<longrightarrow>
            (\<exists>c' s'. accept_block K X C b now (c, s) = (Ok (), (c', s')) \<and>
              chain_wf X C (contents c') \<and> chain_view_of X C (contents c') = accept_view X (b\<lparr>b_body := txs\<rparr>) v \<and>
              contents s' = (contents s)(state_root_key (block_hash X b) \<mapsto> b256_bytes (h_state_root (b_header b))))))
    | r \<Rightarrow> accept_block K X C b now (c, s) = (r, (c, s))"
proof -
  note ser = chain_store.codec_simps(3,4) [OF assms(1), of "b_body b"]
  note reads = chain_store.accept_block_reads [OF assms, of b now _ s]
  note fails = chain_store.accept_undecodable [OF assms, of b now _ s]
  show ?thesis
  proof (cases "accept_decision X v b now")
    case (Ok u)
    then have ok: "accept_decision X v b now = Ok ()" by simp
    show ?thesis
    proof (cases "de_body C (chain_store.body_code C (b_body b))")
      case (Inl e)
      with fails [OF ok Inl] ser Ok show ?thesis by auto
    next
      case (Inr txs)
      with reads [OF ok _ Inr] ser Ok show ?thesis by auto
    qed
  qed (use chain_store.refused_untouched [OF assms, of b now s] in simp_all)
qed

theorem accept_block_refines_decision_witness:
  "\<exists>c c' s'. accept_block mem_kv ref_ext ref_codec example_left 20 (c, []) = (Ok (), (c', s')) \<and>
     cv_head (chain_view_of ref_ext ref_codec (map_of c')) = Some 205"
proof -
  obtain c where c: "chain_wf ref_ext ref_codec (map_of c)"
    "one_view = chain_view_of ref_ext ref_codec (map_of c)"
    using one_store by blast
  obtain c' s' where "accept_block mem_kv ref_ext ref_codec example_left 20 (c, []) = (Ok (), (c', s'))"
    and "chain_view_of ref_ext ref_codec (map_of c') = accept_view ref_ext example_left one_view"
    using accept_block_refines_decision [OF mem_chain.chain_store_axioms c one_view_inv,
        of example_left 20 "[]"] left_on_genesis by (auto simp: new_hash_def)
  moreover have "cv_head (accept_view ref_ext example_left one_view) = Some 205"
    by (simp add: accept_view_def finalize_view_def)
  ultimately show ?thesis by metis
qed

text \<open>C1: no equivocation is ever stored: in every state a run of the chain reaches, two stored
  blocks by the same validator with the same number are the same block.\<close>

theorem no_equivocation_stored:
  assumes "chain_store K contents X C" and "chain_run K X C contents (c, s)"
    and "cv_block (chain_view_of X C (contents c)) h = Some b"
    and "cv_block (chain_view_of X C (contents c)) h' = Some b'"
    and "h_validator (b_header b) = h_validator (b_header b')"
    and "h_number (b_header b) = h_number (b_header b')"
  shows "h = h' \<and> b = b'"
proof -
  have "chain_inv (chain_view_of X C (contents c))"
    using chain_store.chain_run_inv [OF assms(1,2)] by simp
  from chain_inv_unique_signature [OF this assms(3-6)] assms(3,4) show ?thesis by simp
qed

theorem no_equivocation_stored_witness:
  "\<exists>c. chain_run mem_kv ref_ext ref_codec map_of (c, []) \<and>
     cv_block (chain_view_of ref_ext ref_codec (map_of c)) 204 = Some example_genesis \<and>
     (\<forall>h b'. cv_block (chain_view_of ref_ext ref_codec (map_of c)) h = Some b' \<and>
        h_validator (b_header b') = 6 \<and> h_number (b_header b') = 0 \<longrightarrow> h = 204)"
proof -
  obtain c1 c2 where c: "put_block mem_kv ref_ext ref_codec example_genesis [] = (Ok (), c1)"
    "set_head mem_kv ref_ext 204 c1 = (Ok (), c2)" "chain_wf ref_ext ref_codec (map_of c2)"
    "one_view = chain_view_of ref_ext ref_codec (map_of c2)"
    using one_store by blast
  have run: "chain_run mem_kv ref_ext ref_codec map_of (c2, [])"
    by (rule chain_run.genesis [where c = "[]" and g = example_genesis and ?c1.0 = c1])
      (simp_all add: c(1,2))
  have b: "cv_block (chain_view_of ref_ext ref_codec (map_of c2)) 204 = Some example_genesis"
    by (simp flip: c(4))
  have "h = 204" if "cv_block (chain_view_of ref_ext ref_codec (map_of c2)) h = Some b'"
    "h_validator (b_header b') = 6" "h_number (b_header b') = 0" for h b'
    using no_equivocation_stored [OF mem_chain.chain_store_axioms run that(1) b] that by simp
  with run b show ?thesis by blast
qed

text \<open>C25: fork choice terminates: on every chain a run reaches, whatever hashes it is asked about, the
  search for a common ancestor and the computation of the blocks of a reorganisation return (the
  latter with an error only for blocks without a common ancestor), and so does the choice of the
  canonical head, over any state whose balances are below 2^128. The loops follow stored hashes
  and have no bound of their own; they end because numbers go down along parents.\<close>

theorem fork_choice_terminates:
  assumes "chain_store K contents X C" and "chain_run K X C contents (c, s)"
    and "state_wf X (contents s)" and "\<forall>a. unat (sv_balance (view_of X (contents s)) a) < 2 ^ 128"
  shows "(\<exists>r. common_ancestor K X C c a b = Ok r) \<and>
    ((\<exists>r. reorg_blocks K X C c a b = Ok r) \<or>
      reorg_blocks K X C c a b = Err (ChainValidation ''no common ancestor'')) \<and>
    (\<exists>r. canonical_head K X C c s = Ok r)"
proof (intro conjI)
  let ?v = "chain_view_of X C (contents c)"
  have wf: "chain_wf X C (contents c)" and inv: "chain_inv ?v"
    using chain_store.chain_run_inv [OF assms(1,2)] by simp_all
  then have forest: "forest ?v" "children_ok ?v" by (simp_all add: chain_inv_def)
  show "\<exists>r. common_ancestor K X C c a b = Ok r"
    using chain_store.common_ancestor_spec [OF assms(1) wf refl forest(1)] by blast
  show "(\<exists>r. reorg_blocks K X C c a b = Ok r) \<or>
      reorg_blocks K X C c a b = Err (ChainValidation ''no common ancestor'')"
    using chain_store.reorg_blocks_spec [OF assms(1) wf refl forest(1), of a b]
    by (simp split: option.splits)
  show "\<exists>r. canonical_head K X C c s = Ok r"
  proof (cases "cv_number ?v 0")
    case None
    then show ?thesis
      using chain_store.get_block_by_number_view [OF assms(1) wf, of 0] chain_store.reads_view(6) [OF assms(1), of c]
      by (simp add: canonical_head_def)
  next
    case (Some g)
    moreover from this inv have "cv_block ?v g \<noteq> None" unfolding chain_inv_def by blast
    ultimately show ?thesis
      using chain_store.canonical_head_greedy [OF assms(1) wf refl forest assms(3) refl assms(4)] by blast
  qed
qed

theorem fork_choice_terminates_witness:
  "\<exists>c. chain_run mem_kv ref_ext ref_codec map_of (c, []) \<and>
     (\<exists>r. canonical_head mem_kv ref_ext ref_codec c [] = Ok r)"
proof -
  obtain c1 c2 where c: "put_block mem_kv ref_ext ref_codec example_genesis [] = (Ok (), c1)"
    "set_head mem_kv ref_ext 204 c1 = (Ok (), c2)"
    using one_store by blast
  have run: "chain_run mem_kv ref_ext ref_codec map_of (c2, [])"
    by (rule chain_run.genesis [where c = "[]" and g = example_genesis and ?c1.0 = c1]) (simp_all add: c)
  have "\<forall>a. unat (sv_balance (view_of ref_ext (map_of [])) a) < 2 ^ 128" by (simp add: view_of_def)
  with fork_choice_terminates [OF mem_chain.chain_store_axioms run] run show ?thesis by (auto simp: state_wf_def)
qed

text \<open>Double signing is refused with its evidence: a block that passes the other checks and
  whose validator already signed another block at its height is refused with exactly that
  validator, that height and both hashes, and neither database changes.\<close>

theorem double_sign_refused:
  assumes "chain_store K contents X C" and "chain_wf X C (contents c)"
    and "v = chain_view_of X C (contents c)" and "chain_inv v"
    and "validate_block X b = Ok ()"
    and "check_parent X b (view_parent v (h_number (b_header b))) now = Ok ()"
    and "cv_block v (block_hash X b) = None"
    and "cv_signed v (h_validator (b_header b)) (h_number (b_header b)) = Some e" and "e \<noteq> block_hash X b"
  shows "accept_block K X C b now (c, s) =
    (Err (DoubleSign (h_validator (b_header b)) (h_number (b_header b)) e (block_hash X b)), (c, s))"
proof -
  have "finality_view X v b = Ok ()"
    using assms(7) by (auto simp: finality_view_def common_spec_def split: option.splits)
  with assms(5,6,8,9) have "accept_decision X v b now = Err (DoubleSign (h_validator (b_header b))
      (h_number (b_header b)) e (block_hash X b))"
    by (simp add: accept_decision_def double_sign_view_def)
  with chain_store.accept_block_refines [OF assms(1-4), of b now s] show ?thesis by simp
qed

theorem double_sign_refused_witness:
  "\<exists>c. accept_block mem_kv ref_ext ref_codec (example_block 7 0 11 6 4) 20 (c, []) =
     (Err (DoubleSign 6 0 204 208), (c, []))"
proof -
  obtain c where c: "chain_wf ref_ext ref_codec (map_of c)"
    "one_view = chain_view_of ref_ext ref_codec (map_of c)"
    using one_store by blast
  have "accept_block mem_kv ref_ext ref_codec (example_block 7 0 11 6 4) 20 (c, []) =
     (Err (DoubleSign 6 0 204 208), (c, []))"
    using double_sign_refused [OF mem_chain.chain_store_axioms c one_view_inv,
        of "example_block 7 0 11 6 4" 20 204 "[]"]
    by (simp add: check_parent_def view_parent_def)
  then show ?thesis by blast
qed

text \<open>C39: finality is not enforced against new blocks: the common-ancestor check starts from
  the new block's own hash, which is not stored yet, so it finds nothing; a block at or below
  the finalized height on a stored parent, by a validator that has not signed there, is accepted
  and becomes the head.\<close>

theorem finality_not_enforced:
  assumes "chain_store K contents X C" and "chain_wf X C (contents c)"
    and "v = chain_view_of X C (contents c)" and "chain_inv v"
    and "validate_block X b = Ok ()"
    and "check_parent X b (view_parent v (h_number (b_header b))) now = Ok ()"
    and "cv_block v (block_hash X b) = None" and "block_hash X b \<noteq> 0"
    and "cv_signed v (h_validator (b_header b)) (h_number (b_header b)) = None"
    and "fst (cv_finalized v) = Some fh" and "unat (h_number (b_header b)) \<le> unat fh"
    and "encodable (b_body b)"
  shows "\<exists>c' s'. accept_block K X C b now (c, s) = (Ok (), (c', s')) \<and>
    cv_head (chain_view_of X C (contents c')) = Some (block_hash X b)"
proof -
  have "finality_view X v b = Ok ()"
    using assms(7) by (auto simp: finality_view_def common_spec_def split: option.splits)
  with assms(5,6,9) have "accept_decision X v b now = Ok ()"
    by (simp add: accept_decision_def double_sign_view_def)
  moreover have "storable X v b" using assms(7,8,12) by (simp add: storable_def)
  moreover have "cv_head (accept_view X b v) = Some (block_hash X b)"
    by (simp add: accept_view_def finalize_view_def split: option.splits)
  ultimately show ?thesis
    using chain_store.accept_block_refines [OF assms(1-4), of b now s] by auto
qed

definition final_view :: chain_view where
  "final_view = (view_put_block ref_ext example_left one_view)\<lparr>cv_head := Some 205,
     cv_finalized := (Some 1, Some 205)\<rparr>"

lemma final_view_simps [simp]:
  "cv_block final_view = [204 \<mapsto> example_genesis, 205 \<mapsto> example_left]"
  "cv_number final_view = [0 \<mapsto> 204, 1 \<mapsto> 205]"
  "cv_head final_view = Some 205" "cv_finalized final_view = (Some 1, Some 205)"
  "cv_signed final_view = (\<lambda>_. Map.empty)(6 := [0 \<mapsto> 204], 7 := [1 \<mapsto> 205])"
  by (simp_all add: final_view_def fun_eq_iff)

lemma final_store:
  "\<exists>c. chain_wf ref_ext ref_codec (map_of c) \<and> final_view = chain_view_of ref_ext ref_codec (map_of c)"
proof -
  obtain c where c: "chain_wf ref_ext ref_codec (map_of c)"
    "chain_view_of ref_ext ref_codec (map_of c) = one_view"
    using one_store by metis
  from mem_chain.put_block_refines [OF c(1) example_block_encodable c(2)] obtain c1 where
    c1: "chain_wf ref_ext ref_codec (map_of c1)"
      "chain_view_of ref_ext ref_codec (map_of c1) = view_put_block ref_ext example_left one_view"
    by blast
  from mem_chain.set_head_refines [OF c1(1), of 205] obtain c2 where
    c2: "chain_wf ref_ext ref_codec (map_of c2)" "chain_view_of ref_ext ref_codec (map_of c2)
      = (view_put_block ref_ext example_left one_view)\<lparr>cv_head := Some 205\<rparr>"
    by (auto simp: c1)
  let ?c3 = "snd (kv_put mem_kv (snd (kv_put mem_kv c2 (chain_key_bytes ref_ext FinalizedHeightKey)
      (u64_be 1))) (chain_key_bytes ref_ext FinalizedHashKey) (b256_bytes 205))"
  have "map_of ?c3 = (map_of c2)(chain_key_bytes ref_ext FinalizedHeightKey \<mapsto> u64_be 1,
      chain_key_bytes ref_ext FinalizedHashKey \<mapsto> b256_bytes 205)"
    by (simp add: mem.put_contents)
  then have "chain_wf ref_ext ref_codec (map_of ?c3)"
    "final_view = chain_view_of ref_ext ref_codec (map_of ?c3)"
    using mem_chain.wf_other_key [OF mem_chain.wf_other_key [OF c2(1), of FinalizedHeightKey],
        of FinalizedHashKey]
    by (simp_all add: mem_chain.put_view c2 final_view_def)
  then show ?thesis by blast
qed

lemma chain_inv_set_final:
  "chain_inv v \<Longrightarrow> height v h = unat n \<Longrightarrow> cv_block v h \<noteq> None \<Longrightarrow>
     chain_inv (v\<lparr>cv_finalized := (Some n, Some h)\<rparr>)"
  by (auto simp: chain_inv_def)

lemma final_view_inv: "chain_inv final_view"
proof -
  have "hashed ref_ext one_view" by (simp add: hashed_def)
  from chain_inv_put_block [OF one_view_inv this _ left_on_genesis]
  have "chain_inv ((view_put_block ref_ext example_left one_view)\<lparr>cv_head := Some 205\<rparr>)"
    by (simp add: storable_def)
  from chain_inv_set_final [OF this, of 205 1] show ?thesis
    by (simp add: final_view_def height_def)
qed

theorem finality_not_enforced_witness:
  "\<exists>c c' s'. get_finalized_height mem_kv ref_ext c = Ok (Some 1) \<and>
     get_head mem_kv ref_ext c = Ok (Some 205) \<and>
     accept_block mem_kv ref_ext ref_codec example_right 20 (c, []) = (Ok (), (c', s')) \<and>
     cv_head (chain_view_of ref_ext ref_codec (map_of c')) = Some 206"
proof -
  obtain c where c: "chain_wf ref_ext ref_codec (map_of c)"
    "final_view = chain_view_of ref_ext ref_codec (map_of c)"
    using final_store by blast
  have reads: "get_finalized_height mem_kv ref_ext c = Ok (Some 1)" "get_head mem_kv ref_ext c = Ok (Some 205)"
    by (simp_all add: mem_chain.reads_view c(2) [symmetric])
  have "check_parent ref_ext example_right (view_parent final_view 1) 20 = Ok ()"
    using child_on_genesis [of 8 2] by (simp add: check_parent_def view_parent_def)
  then obtain c' s' where "accept_block mem_kv ref_ext ref_codec example_right 20 (c, []) = (Ok (), (c', s'))"
    and "cv_head (chain_view_of ref_ext ref_codec (map_of c')) = Some 206"
    using finality_not_enforced [OF mem_chain.chain_store_axioms c final_view_inv,
        of example_right 20 1 "[]"] by auto
  with reads show ?thesis by blast
qed

text \<open>A block of number 0 is never checked against the chain: whatever its parent hash and
  timestamp, a well-formed block of number 0 by a validator that has not signed height 0 is
  accepted on any chain and becomes the head.\<close>

theorem number_zero_unchecked:
  assumes "chain_store K contents X C" and "chain_wf X C (contents c)"
    and "v = chain_view_of X C (contents c)" and "chain_inv v"
    and "h_number (b_header b) = 0" and "validate_block X b = Ok ()"
    and "cv_block v (block_hash X b) = None" and "block_hash X b \<noteq> 0"
    and "cv_signed v (h_validator (b_header b)) 0 = None" and "encodable (b_body b)"
  shows "\<exists>c' s'. accept_block K X C b now (c, s) = (Ok (), (c', s')) \<and>
    cv_head (chain_view_of X C (contents c')) = Some (block_hash X b) \<and>
    cv_number (chain_view_of X C (contents c')) 0 = Some (block_hash X b)"
proof -
  have "finality_view X v b = Ok ()"
    using assms(7) by (auto simp: finality_view_def common_spec_def split: option.splits)
  with assms(5,6,9) have "accept_decision X v b now = Ok ()"
    by (simp add: accept_decision_def double_sign_view_def view_parent_def check_parent_def)
  moreover have "storable X v b" using assms(7,8,10) by (simp add: storable_def)
  moreover have "cv_head (accept_view X b v) = Some (block_hash X b)"
    and "cv_number (accept_view X b v) 0 = Some (block_hash X b)"
    using assms(5) by (simp_all add: accept_view_def finalize_view_def split: option.splits)
  ultimately show ?thesis
    using chain_store.accept_block_refines [OF assms(1-4), of b now s] by auto
qed

theorem number_zero_unchecked_witness:
  "\<exists>c c' s'. get_head mem_kv ref_ext c = Ok (Some 205) \<and>
     accept_block mem_kv ref_ext ref_codec (example_block 99 0 1000000 8 5) 20 (c, []) = (Ok (), (c', s')) \<and>
     cv_head (chain_view_of ref_ext ref_codec (map_of c')) = Some 209"
proof -
  obtain c where c: "chain_wf ref_ext ref_codec (map_of c)"
    "final_view = chain_view_of ref_ext ref_codec (map_of c)"
    using final_store by blast
  have head: "get_head mem_kv ref_ext c = Ok (Some 205)"
    by (simp add: mem_chain.reads_view c(2) [symmetric])
  obtain c' s' where
    "accept_block mem_kv ref_ext ref_codec (example_block 99 0 1000000 8 5) 20 (c, []) = (Ok (), (c', s'))"
    and "cv_head (chain_view_of ref_ext ref_codec (map_of c')) = Some 209"
    using number_zero_unchecked [OF mem_chain.chain_store_axioms c final_view_inv,
        of "example_block 99 0 1000000 8 5" 20 "[]"] by auto
  with head show ?thesis by blast
qed

text \<open>A block with a transaction that does not carry its hash destroys the head: when the
  checks accept a block whose body bincode cannot read back (as with one transaction whose
  \<open>hash_override\<close> is \<open>None\<close>), \<open>accept_block\<close> returns a serialization error only after the block
  has been stored and made the head, and from then on reading the head block fails.\<close>

theorem undecodable_block_becomes_head:
  assumes "chain_store K contents X C" and "chain_wf X C (contents c)"
    and "v = chain_view_of X C (contents c)" and "chain_inv v"
    and "accept_decision X v b now = Ok ()"
    and "ser_body C (b_body b) = Inr bs" and "de_body C bs = Inl e"
  shows "\<exists>c'. accept_block K X C b now (c, s) = (Err (Serialization e), (c', s)) \<and>
    get_head K X c' = Ok (Some (block_hash X b)) \<and>
    get_block K X C c' (block_hash X b) = Err (Serialization e)"
proof -
  have "de_body C (chain_store.body_code C (b_body b)) = Inl e"
    using assms(6,7) chain_store.codec_simps(3) [OF assms(1), of "b_body b"] by simp
  from chain_store.accept_undecodable [OF assms(1-5) this] show ?thesis by blast
qed

definition unhashed_block :: block where
  "unhashed_block = \<lparr>b_header = (b_header example_left)\<lparr>h_transactions_root := 32\<rparr>,
     b_body = [example_tx 0 1 5]\<rparr>"

lemma unhashed_block_accepted: "accept_decision ref_ext one_view unhashed_block 20 = Ok ()"
proof -
  have "transactions_root ref_ext [example_tx 0 1 5] = 32"
    by (simp add: transactions_root_def ref_ext_def)
  then have v: "validate_block ref_ext unhashed_block = Ok ()"
    by (simp add: validate_block_def validate_self_def unhashed_block_def)
  have "validate_block_header ref_ext (b_header unhashed_block) (Some (b_header example_genesis)) 20 = Ok ()"
    using child_on_genesis [of 7 1] by (simp add: header_ok_iff unhashed_block_def)
  moreover have "block_hash ref_ext unhashed_block = 205"
    using example_block_hash [of 204 1 20 7 1]
    by (simp add: block_hash_def header_hash_def header_preimage_def unhashed_block_def ref_ext_def)
  ultimately show ?thesis using v
    by (simp add: accept_decision_def view_parent_def check_parent_def finality_view_def
        double_sign_view_def unhashed_block_def)
qed

theorem undecodable_block_becomes_head_witness:
  "\<exists>c c' e. accept_block mem_kv ref_ext ref_codec unhashed_block 20 (c, []) = (Err (Serialization e), (c', [])) \<and>
     get_block mem_kv ref_ext ref_codec c' (block_hash ref_ext unhashed_block) = Err (Serialization e)"
proof -
  obtain c where c: "chain_wf ref_ext ref_codec (map_of c)"
    "one_view = chain_view_of ref_ext ref_codec (map_of c)"
    using one_store by blast
  obtain bs where bs: "ser_body ref_codec (b_body unhashed_block) = Inr bs"
    "de_body ref_codec bs = Inl ''io error: unexpected end of file''"
    by (simp add: ref_codec_def comp_def ref_tx_roundtrip unhashed_block_def encodable_def example_tx_def)
  from undecodable_block_becomes_head [OF mem_chain.chain_store_axioms c one_view_inv unhashed_block_accepted bs,
      of "[]"] show ?thesis by blast
qed

end
