(* ===== verification/Quyn_Mempool.thy ===== *)
theory Quyn_Mempool
  imports Quyn_Validation "HOL-Library.Multiset"
begin

text \<open>
  core/src/mempool.rs: the pool of pending transactions, by sender and nonce, with an index by
  hash. A \<open>HashMap\<close> that is iterated is an association list with a parameter \<open>rank\<close> that says in
  which order an iteration meets the keys of the current table (every order of distinct keys is
  some \<open>rank\<close>); a \<open>HashMap\<close> that is only looked up is a map. Locks are taken and released
  within one operation and never poisoned; sizes are naturals.
\<close>

section \<open>State\<close>

definition DEFAULT_MAX_POOL_SIZE :: nat where "DEFAULT_MAX_POOL_SIZE = 100000"
definition MAX_NONCE_GAP :: u64 where "MAX_NONCE_GAP = 10"

type_synonym nonce_map = "(u64 \<times> signed_transaction) list"
type_synonym sender_map = "(address \<times> nonce_map) list"
type_synonym hash_map = "b256 \<rightharpoonup> address \<times> u64"

text \<open>Given the keys of a table, the position of each in an iteration.\<close>

type_synonym hash_order = "address list \<Rightarrow> address \<Rightarrow> nat"

definition iter_order :: "hash_order \<Rightarrow> (address \<times> 'v) list \<Rightarrow> (address \<times> 'v) list" where
  "iter_order rank m = sort_key (\<lambda>e. rank (map fst m) (fst e)) m"

record mempool =
  mp_by_sender :: sender_map
  mp_by_hash :: hash_map
  mp_max_size :: nat

definition with_capacity :: "nat \<Rightarrow> mempool" where
  "with_capacity max_size = \<lparr>mp_by_sender = [], mp_by_hash = Map.empty, mp_max_size = max_size\<rparr>"

definition new_mempool :: mempool where
  "new_mempool = with_capacity DEFAULT_MAX_POOL_SIZE"

section \<open>Operations\<close>

definition pool_total :: "sender_map \<Rightarrow> nat" where
  "pool_total m = sum_list (map (\<lambda>e. length (snd e)) m)"

text \<open>\<open>entry.keys().max()\<close>\<close>

definition max_key :: "('k::linorder \<times> 'v) list \<Rightarrow> 'k option" where
  "max_key m = (if m = [] then None else Some (foldl max (fst (hd m)) (map fst (tl m))))"

definition total_fees :: "nonce_map \<Rightarrow> u256" where
  "total_fees m = foldl sat_add 0 (map (\<lambda>(_, tx). sat_mul (gas_price tx) (ucast (gas_limit tx))) m)"

text \<open>\<open>min_by_key\<close>: of equal minima the first.\<close>

fun min_by_fees :: "sender_map \<Rightarrow> (address \<times> u256) option" where
  "min_by_fees [] = None"
| "min_by_fees ((a, m) # es) = (case min_by_fees es of
       None \<Rightarrow> Some (a, total_fees m)
     | Some (b, f) \<Rightarrow> if f < total_fees m then Some (b, f) else Some (a, total_fees m))"

text \<open>The inner loop of \<open>evict_by_sender\<close>; it stops when nothing more needs to be evicted.\<close>

fun evict_txs :: "ext \<Rightarrow> signed_transaction list \<Rightarrow> hash_map \<Rightarrow> nat \<Rightarrow> nat \<Rightarrow> hash_map \<times> nat \<times> nat" where
  "evict_txs X [] bh evicted need = (bh, evicted, need)"
| "evict_txs X (tx # txs) bh evicted need =
     (let bh' = bh(tx_hash X tx := None); need' = need - 1
      in if need' = 0 then (bh', evicted + 1, need') else evict_txs X txs bh' (evicted + 1) need')"

lemma min_by_fees_in: "min_by_fees m = Some (a, f) \<Longrightarrow> a \<in> fst ` set m"
  by (induction m arbitrary: a f rule: min_by_fees.induct) (auto split: option.splits if_splits)

lemma min_by_fees_None: "min_by_fees m = None \<longleftrightarrow> m = []"
  by (cases m rule: min_by_fees.cases) (auto split: option.splits)

lemma length_delete: "a \<in> fst ` set m \<Longrightarrow> length (AList.delete a m) < length m"
  by (induction m) (force simp: less_Suc_eq_le length_delete_le)+

function evict_by_sender ::
  "ext \<Rightarrow> hash_order \<Rightarrow> sender_map \<Rightarrow> hash_map \<Rightarrow> nat \<Rightarrow> nat \<Rightarrow> sender_map \<times> hash_map \<times> nat" where
  "evict_by_sender X rank bs bh need evicted =
     (if need = 0 \<or> bs = [] then (bs, bh, evicted)
      else case min_by_fees (iter_order rank bs) of
          None \<Rightarrow> (bs, bh, evicted)
        | Some (addr, _) \<Rightarrow>
            (let txs = (case map_of bs addr of None \<Rightarrow> [] | Some m \<Rightarrow> map snd m)
             in case evict_txs X txs bh evicted need of (bh', evicted', need') \<Rightarrow>
                evict_by_sender X rank (AList.delete addr bs) bh' need' evicted'))"
  by pat_completeness auto
termination
proof (relation "measure (\<lambda>(X, rank, bs, bh, need, ev). length bs)")
  fix X rank bs bh need ev x addr f txs y bh' z ev' need'
  assume "min_by_fees (iter_order rank bs) = Some x" "(addr, f) = x"
  then have "addr \<in> fst ` set (iter_order rank bs)"
    using min_by_fees_in by metis
  then have "addr \<in> fst ` set bs"
    by (simp add: iter_order_def)
  then show "((X, rank, AList.delete addr bs, bh', need', ev'), X, rank, bs, bh, need, ev)
      \<in> measure (\<lambda>(X, rank, bs, bh, need, ev). length bs)"
    by (simp add: length_delete)
qed simp

declare evict_by_sender.simps [simp del]

definition insert_tx :: "ext \<Rightarrow> hash_order \<Rightarrow> signed_transaction \<Rightarrow> (mempool, core_error, nat option) act" where
  "insert_tx X rank tx p = (case sender X tx of
       Ok s \<Rightarrow>
         (let n = nonce tx; hash = tx_hash X tx; bs = mp_by_sender p; bh = mp_by_hash p in
          if bh hash \<noteq> None then (Ok None, p)
          else
            (let entry = (case map_of bs s of None \<Rightarrow> [] | Some m \<Rightarrow> m) in
             if (case max_key entry of None \<Rightarrow> False
                 | Some mx \<Rightarrow> mx < n \<and> MAX_NONCE_GAP < sat_sub n mx)
             then (Err (InvalidTransaction (''nonce gap too large: have max nonce '' @
                     dec (unat (the (max_key entry))) @ '' for sender, got '' @ dec (unat n) @
                     '' (max gap '' @ dec (unat MAX_NONCE_GAP) @ '')'')), p)
             else
               (let bh1 = (case map_of entry n of None \<Rightarrow> bh | Some old \<Rightarrow> bh(tx_hash X old := None));
                    bs1 = AList.update s (bt_insert n tx entry) bs;
                    bh2 = bh1(hash \<mapsto> (s, n));
                    total = pool_total bs1
                in if mp_max_size p < total
                   then (case evict_by_sender X rank bs1 bh2 (total - mp_max_size p) 0 of
                       (bs', bh', evicted) \<Rightarrow>
                         (Ok (Some evicted), p\<lparr>mp_by_sender := bs', mp_by_hash := bh'\<rparr>))
                   else (Ok None, p\<lparr>mp_by_sender := bs1, mp_by_hash := bh2\<rparr>))))
     | _ \<Rightarrow> (Err (InvalidTransaction ''Invalid signature''), p))"

definition remove_tx :: "b256 \<Rightarrow> (mempool, core_error, bool) act" where
  "remove_tx h p = (case mp_by_hash p h of
       None \<Rightarrow> (Ok False, p)
     | Some (s, n) \<Rightarrow>
         (let bs = mp_by_sender p;
              bs' = (case map_of bs s of
                  None \<Rightarrow> bs
                | Some m \<Rightarrow> if bt_remove n m = [] then AList.delete s bs
                            else AList.update s (bt_remove n m) bs)
          in (Ok True, p\<lparr>mp_by_sender := bs', mp_by_hash := (mp_by_hash p)(h := None)\<rparr>)))"

text \<open>The transaction of a sender at a nonce.\<close>

definition pool_tx :: "mempool \<Rightarrow> address \<Rightarrow> u64 \<Rightarrow> signed_transaction option" where
  "pool_tx p s n = (case map_of (mp_by_sender p) s of None \<Rightarrow> None | Some m \<Rightarrow> map_of m n)"

definition get_by_hash :: "mempool \<Rightarrow> b256 \<Rightarrow> signed_transaction option core_result" where
  "get_by_hash p h = (case mp_by_hash p h of
       None \<Rightarrow> Ok None
     | Some (s, n) \<Rightarrow> Ok (pool_tx p s n))"

definition all_txs :: "hash_order \<Rightarrow> mempool \<Rightarrow> signed_transaction list" where
  "all_txs rank p = concat (map (\<lambda>(_, m). map snd m) (iter_order rank (mp_by_sender p)))"

text \<open>A stable sort by \<open>Reverse(gas_price)\<close>: descending price.\<close>

definition get_best :: "hash_order \<Rightarrow> mempool \<Rightarrow> nat \<Rightarrow> signed_transaction list core_result" where
  "get_best rank p limit =
     Ok (take limit (sort_key (\<lambda>tx. - uint (gas_price tx)) (all_txs rank p)))"

definition pool_len :: "mempool \<Rightarrow> nat core_result" where
  "pool_len p = Ok (pool_total (mp_by_sender p))"

definition pool_is_empty :: "mempool \<Rightarrow> bool core_result" where
  "pool_is_empty p = obind (pool_len p) (\<lambda>n. Ok (n = 0))"

section \<open>The pool invariant\<close>

text \<open>
  Senders are distinct, each has its transactions by ascending nonce and at least one; a pooled
  transaction is under its sender and nonce, and the index finds it by its hash. (The converse
  does not hold: the index may keep hashes whose transactions are gone.)
\<close>

definition entries_ok :: "ext \<Rightarrow> sender_map \<Rightarrow> hash_map \<Rightarrow> bool" where
  "entries_ok X bs bh \<longleftrightarrow> distinct (map fst bs) \<and>
     (\<forall>(s, m) \<in> set bs. bt_sorted m \<and> m \<noteq> [] \<and>
        (\<forall>(n, tx) \<in> set m. sender X tx = Ok s \<and> nonce tx = n \<and> bh (tx_hash X tx) = Some (s, n)))"

definition pool_inv :: "ext \<Rightarrow> mempool \<Rightarrow> bool" where
  "pool_inv X p \<longleftrightarrow> entries_ok X (mp_by_sender p) (mp_by_hash p)"

lemma entries_okD:
  assumes "entries_ok X bs bh" and "map_of bs s = Some m"
  shows "bt_sorted m" and "m \<noteq> []"
    and "(n, tx) \<in> set m \<Longrightarrow> sender X tx = Ok s \<and> nonce tx = n \<and> bh (tx_hash X tx) = Some (s, n)"
  using assms map_of_SomeD [OF assms(2)] unfolding entries_ok_def by blast+

lemma entries_ok_hash:
  assumes "entries_ok X bs bh" and "(s, m) \<in> set bs" and "(n, tx) \<in> set m"
  shows "bh (tx_hash X tx) = Some (s, n)"
  using assms unfolding entries_ok_def by blast

subsection \<open>Eviction\<close>

definition forget :: "ext \<Rightarrow> hash_map \<Rightarrow> signed_transaction list \<Rightarrow> hash_map" where
  "forget X bh txs h = (if h \<in> tx_hash X ` set txs then None else bh h)"

lemma forget_Nil [simp]: "forget X bh [] = bh"
  by (simp add: forget_def fun_eq_iff)

lemma forget_Cons: "forget X (bh(tx_hash X tx := None)) txs = forget X bh (tx # txs)"
  by (auto simp: forget_def fun_eq_iff)

text \<open>The inner loop forgets the hashes of the first \<open>need\<close> transactions only.\<close>

lemma evict_txs_eq:
  "0 < need \<Longrightarrow> evict_txs X txs bh ev need =
     (forget X bh (take need txs), ev + min need (length txs), need - length txs)"
proof (induction txs arbitrary: bh ev need)
  case (Cons tx txs)
  show ?case
  proof (cases "need = 1")
    case True
    then show ?thesis by (simp add: forget_def fun_eq_iff)
  next
    case False
    then obtain k where "need = Suc k" "0 < k"
      using Cons.prems by (metis One_nat_def gr0_conv_Suc neq0_conv)
    with Cons.IH [of k "bh(tx_hash X tx := None)" "ev + 1", unfolded forget_Cons] show ?thesis
      by (simp add: Let_def del: fun_upd_apply)
  qed
qed simp

lemma map_of_delete_entry:
  "map_of bs a = Some m \<Longrightarrow> distinct (map fst bs) \<Longrightarrow>
     pool_total bs = length m + pool_total (AList.delete a bs)"
proof (induction bs)
  case (Cons e bs)
  then show ?case
    by (cases "fst e = a") (auto simp: pool_total_def delete_id)
qed simp

lemma entries_ok_delete:
  assumes "entries_ok X bs bh" and "map_of bs a = Some m" and "set txs \<subseteq> snd ` set m"
  shows "entries_ok X (AList.delete a bs) (forget X bh txs)"
proof -
  have "(forget X bh txs) (tx_hash X tx) = Some (s, n)"
    if "(s, k) \<in> set bs" "s \<noteq> a" "(n, tx) \<in> set k" for s k n tx
  proof -
    have h: "bh (tx_hash X tx) = Some (s, n)"
      by (rule entries_ok_hash [OF assms(1) that(1,3)])
    have "tx_hash X tx \<notin> tx_hash X ` set txs"
    proof
      assume "tx_hash X tx \<in> tx_hash X ` set txs"
      then obtain t where t: "t \<in> set txs" "tx_hash X tx = tx_hash X t" by blast
      with assms(3) obtain i where "(i, t) \<in> set m" by auto
      from entries_okD(3) [OF assms(1,2) this] h t that(2) show False by simp
    qed
    with h show ?thesis by (simp add: forget_def)
  qed
  with assms(1) show ?thesis
    unfolding entries_ok_def by (fastforce simp: AList.delete_eq distinct_map_filter)
qed

lemma evict_keeps:
  assumes "entries_ok X bs bh"
  shows "case evict_by_sender X rank bs bh need ev of (bs', bh', ev') \<Rightarrow>
    entries_ok X bs' bh' \<and> pool_total bs' \<le> pool_total bs - need"
  using assms
proof (induction X rank bs bh need ev rule: evict_by_sender.induct)
  case (1 X rank bs bh need ev)
  show ?case
  proof (cases "need = 0 \<or> bs = []")
    case True
    then show ?thesis
      using 1(2) by (subst evict_by_sender.simps) (auto simp: pool_total_def)
  next
    case False
    have ne: "iter_order rank bs \<noteq> []"
      using False by (metis (no_types) iter_order_def length_0_conv length_sort)
    then obtain a f where lo: "min_by_fees (iter_order rank bs) = Some (a, f)"
      by (metis min_by_fees_None not_Some_eq surj_pair)
    then have "a \<in> fst ` set bs"
      using min_by_fees_in [OF lo] by (simp add: iter_order_def)
    then obtain m where m: "map_of bs a = Some m"
      by (metis map_of_eq_None_iff not_Some_eq)
    let ?bh = "forget X bh (take need (map snd m))"
    have ok: "entries_ok X (AList.delete a bs) ?bh"
      by (rule entries_ok_delete [OF 1(2) m]) (auto dest: in_set_takeD)
    have evd: "(?bh, (ev + min need (length m), need - length m)) =
        evict_txs X (case map_of bs a of None \<Rightarrow> [] | Some m \<Rightarrow> map snd m) bh ev need"
      using False by (simp add: m evict_txs_eq)
    have step: "evict_by_sender X rank bs bh need ev =
        evict_by_sender X rank (AList.delete a bs) ?bh (need - length m) (ev + min need (length m))"
      using False by (subst evict_by_sender.simps) (simp add: lo m evict_txs_eq)
    have "pool_total bs = length m + pool_total (AList.delete a bs)"
      using map_of_delete_entry [OF m] 1(2) unfolding entries_ok_def by blast
    moreover have "case evict_by_sender X rank (AList.delete a bs) ?bh (need - length m)
        (ev + min need (length m)) of (bs', bh', ev') \<Rightarrow> entries_ok X bs' bh' \<and>
        pool_total bs' \<le> pool_total (AList.delete a bs) - (need - length m)"
      by (rule 1(1) [OF False lo refl refl evd refl ok])
    ultimately show ?thesis by (auto simp: step)
  qed
qed

subsection \<open>Insertion\<close>

lemma foldl_max: "foldl max (x :: 'a::linorder) xs = Max (set (x # xs))"
  by (simp add: foldl_conv_fold max.commute flip: Max.set_eq_fold)

lemma max_key_Max: "max_key m = (if m = [] then None else Some (Max (fst ` set m)))"
  by (cases m) (simp_all add: max_key_def foldl_max)

lemma bt_insert_nonempty [simp]: "bt_insert k v m \<noteq> []"
  by (cases "(k, v, m)" rule: bt_insert.cases) auto

lemma set_bt_insert: "bt_sorted m \<Longrightarrow> set (bt_insert k v m) = insert (k, v) {e \<in> set m. fst e \<noteq> k}"
  unfolding bt_sorted_def by (induction k v m rule: bt_insert.induct) auto

lemma pool_total_update:
  assumes "distinct (map fst bs)"
  shows "pool_total (AList.update s m bs) + (case map_of bs s of None \<Rightarrow> 0 | Some k \<Rightarrow> length k)
    = pool_total bs + length m"
  using assms
proof (induction bs)
  case (Cons e bs)
  then show ?case
    by (cases e) (auto simp: pool_total_def)
qed (simp add: pool_total_def)

definition gap_exceeded :: "mempool \<Rightarrow> address \<Rightarrow> u64 \<Rightarrow> bool" where
  "gap_exceeded p s n \<longleftrightarrow> (let ns = {k. pool_tx p s k \<noteq> None} in
     ns \<noteq> {} \<and> unat (Max ns) + 10 < unat n)"

text \<open>The tables after an insertion, before eviction.\<close>

definition inserted_senders :: "mempool \<Rightarrow> address \<Rightarrow> u64 \<Rightarrow> signed_transaction \<Rightarrow> sender_map" where
  "inserted_senders p s n tx = AList.update s
     (bt_insert n tx (case map_of (mp_by_sender p) s of None \<Rightarrow> [] | Some m \<Rightarrow> m)) (mp_by_sender p)"

definition inserted_hashes :: "ext \<Rightarrow> mempool \<Rightarrow> address \<Rightarrow> u64 \<Rightarrow> signed_transaction \<Rightarrow> hash_map" where
  "inserted_hashes X p s n tx = (case pool_tx p s n of
       None \<Rightarrow> mp_by_hash p | Some old \<Rightarrow> (mp_by_hash p)(tx_hash X old := None))(tx_hash X tx \<mapsto> (s, n))"

lemma insert_tx_eq:
  assumes "sender X tx = Ok s" and "n = nonce tx"
    and inv: "pool_inv X p"
  shows "insert_tx X rank tx p =
    (if mp_by_hash p (tx_hash X tx) \<noteq> None then (Ok None, p)
     else if gap_exceeded p s n
     then (Err (InvalidTransaction (''nonce gap too large: have max nonce '' @
        dec (unat (Max {k. pool_tx p s k \<noteq> None})) @ '' for sender, got '' @ dec (unat n) @
        '' (max gap '' @ dec 10 @ '')'')), p)
     else (let bs = inserted_senders p s n tx; bh = inserted_hashes X p s n tx in
       if mp_max_size p < pool_total bs
       then (case evict_by_sender X rank bs bh (pool_total bs - mp_max_size p) 0 of
           (bs', bh', evicted) \<Rightarrow> (Ok (Some evicted), p\<lparr>mp_by_sender := bs', mp_by_hash := bh'\<rparr>))
       else (Ok None, p\<lparr>mp_by_sender := bs, mp_by_hash := bh\<rparr>)))"
proof -
  define m where "m = (case map_of (mp_by_sender p) s of None \<Rightarrow> [] | Some m \<Rightarrow> m)"
  have at: "map_of m k = pool_tx p s k" for k
    by (simp add: m_def pool_tx_def split: option.splits)
  have dom: "{k. pool_tx p s k \<noteq> None} = fst ` set m"
    unfolding at [symmetric] by (simp add: dom_map_of_conv_image_fst [symmetric] dom_def)
  have gap: "(case max_key m of None \<Rightarrow> False | Some mx \<Rightarrow> mx < n \<and> MAX_NONCE_GAP < sat_sub n mx)
      = gap_exceeded p s n"
    unfolding gap_exceeded_def dom
    by (auto simp: max_key_Max MAX_NONCE_GAP_def sat_sub_def word_less_nat_alt word_le_nat_alt unat_sub)
  have mx: "gap_exceeded p s n \<Longrightarrow> the (max_key m) = Max {k. pool_tx p s k \<noteq> None}"
    unfolding gap_exceeded_def dom by (auto simp: Let_def max_key_Max)
  show ?thesis
    using mx unfolding insert_tx_def assms(1) outcome.case Let_def m_def [symmetric] gap
      assms(2) [symmetric] inserted_senders_def inserted_hashes_def at
    by (simp add: MAX_NONCE_GAP_def)
qed

text \<open>A pooled transaction is an entry of its sender's list.\<close>

lemma pool_tx_entry:
  assumes "pool_inv X p" and "pool_tx p s n = Some tx"
  shows "sender X tx = Ok s \<and> nonce tx = n \<and> mp_by_hash p (tx_hash X tx) = Some (s, n)"
proof -
  from assms(2) obtain m where "map_of (mp_by_sender p) s = Some m" "map_of m n = Some tx"
    by (auto simp: pool_tx_def split: option.splits)
  with entries_okD(3) [OF assms(1) [unfolded pool_inv_def]] map_of_SomeD show ?thesis by metis
qed

lemma pool_entry_tx:
  assumes "pool_inv X p" and "(s, m) \<in> set (mp_by_sender p)" and "(n, tx) \<in> set m"
  shows "pool_tx p s n = Some tx"
proof -
  have "map_of (mp_by_sender p) s = Some m"
    using assms(1,2) unfolding pool_inv_def entries_ok_def by (simp add: map_of_is_SomeI)
  moreover have "map_of m n = Some tx"
    using assms unfolding pool_inv_def entries_ok_def
    by (auto intro!: map_of_is_SomeI bt_sorted_distinct)
  ultimately show ?thesis by (simp add: pool_tx_def)
qed

lemma set_update: "distinct (map fst bs) \<Longrightarrow>
    set (AList.update s m bs) = insert (s, m) {e \<in> set bs. fst e \<noteq> s}"
  by (induction bs) (auto simp: image_iff)

lemma inserted_ok:
  assumes inv: "pool_inv X p" and tx: "sender X tx = Ok s" "n = nonce tx"
    and new: "mp_by_hash p (tx_hash X tx) = None"
  shows "entries_ok X (inserted_senders p s n tx) (inserted_hashes X p s n tx)"
proof -
  define m where "m = (case map_of (mp_by_sender p) s of None \<Rightarrow> [] | Some m \<Rightarrow> m)"
  let ?bs = "AList.update s (bt_insert n tx m) (mp_by_sender p)" and ?bh = "inserted_hashes X p s n tx"
  have dist: "distinct (map fst (mp_by_sender p))"
    using inv by (simp add: pool_inv_def entries_ok_def)
  have sorted: "bt_sorted m"
    using entries_okD(1) [OF inv [unfolded pool_inv_def]] by (simp add: m_def split: option.splits)
  have keep: "?bh (tx_hash X t) = Some (q, k)" if "pool_tx p q k = Some t" "(q, k) \<noteq> (s, n)" for q k t
  proof -
    have h: "mp_by_hash p (tx_hash X t) = Some (q, k)"
      using pool_tx_entry [OF inv that(1)] by simp
    have "tx_hash X t \<noteq> tx_hash X old" if "pool_tx p s n = Some old" for old
      using pool_tx_entry [OF inv that] h \<open>(q, k) \<noteq> (s, n)\<close> by auto
    moreover have "tx_hash X t \<noteq> tx_hash X tx" using h new by auto
    ultimately show ?thesis
      using h by (simp add: inserted_hashes_def split: option.splits)
  qed
  have "sender X t = Ok q \<and> nonce t = k \<and> ?bh (tx_hash X t) = Some (q, k)"
    if "(q, l) \<in> set ?bs" "(k, t) \<in> set l" for q l k t
  proof (cases "q = s \<and> k = n")
    case True
    with that have "t = tx"
      by (auto simp: set_update [OF dist] set_bt_insert [OF sorted])
    with True tx show ?thesis by (simp add: inserted_hashes_def)
  next
    case False
    have "pool_tx p q k = Some t"
    proof (cases "q = s")
      case True
      with that False have "(k, t) \<in> set m"
        by (auto simp: set_update [OF dist] set_bt_insert [OF sorted])
      then obtain l' where "map_of (mp_by_sender p) s = Some l'" "(k, t) \<in> set l'"
        by (cases "map_of (mp_by_sender p) s") (auto simp: m_def)
      with True show ?thesis using pool_entry_tx [OF inv] map_of_SomeD by metis
    next
      case False
      with that show ?thesis
        by (auto simp: set_update [OF dist] intro: pool_entry_tx [OF inv])
    qed
    with False pool_tx_entry [OF inv this] keep [of q k t] show ?thesis by auto
  qed
  moreover have "distinct (map fst ?bs)"
    using dist by (simp add: distinct_update)
  moreover have "bt_sorted l \<and> l \<noteq> []" if "(q, l) \<in> set ?bs" for q l
    using that inv sorted by (auto simp: set_update [OF dist] pool_inv_def entries_ok_def)
  ultimately show ?thesis
    unfolding entries_ok_def inserted_senders_def m_def [symmetric] by blast
qed

lemma pool_tx_inserted:
  assumes "pool_inv X p"
  shows "pool_tx (p\<lparr>mp_by_sender := inserted_senders p s n tx, mp_by_hash := bh\<rparr>) q k =
    (if q = s \<and> k = n then Some tx else pool_tx p q k)"
  by (auto simp: pool_tx_def inserted_senders_def update_conv' split: option.splits)

subsection \<open>Removal\<close>

text \<open>Dropping the entry of a hash keeps the table right if only its transaction is dropped.\<close>

lemma entries_ok_drop:
  assumes ok: "entries_ok X bs bh" and h: "bh h = Some (s, n)" and "distinct (map fst bs')"
    and "\<And>q l. (q, l) \<in> set bs' \<Longrightarrow> bt_sorted l \<and> l \<noteq> []"
    and sub: "\<And>q l k t. (q, l) \<in> set bs' \<Longrightarrow> (k, t) \<in> set l \<Longrightarrow>
      (\<exists>l'. (q, l') \<in> set bs \<and> (k, t) \<in> set l') \<and> (q, k) \<noteq> (s, n)"
  shows "entries_ok X bs' (bh(h := None))"
proof -
  have "sender X t = Ok q \<and> nonce t = k \<and> (bh(h := None)) (tx_hash X t) = Some (q, k)"
    if "(q, l) \<in> set bs'" "(k, t) \<in> set l" for q l k t
  proof -
    from sub [OF that] obtain l' where l': "(q, l') \<in> set bs" "(k, t) \<in> set l'" and ne: "(q, k) \<noteq> (s, n)"
      by blast
    from entries_ok_hash [OF ok l'] h ne have "(bh(h := None)) (tx_hash X t) = Some (q, k)" by auto
    with ok l' show ?thesis unfolding entries_ok_def by blast
  qed
  with assms(3,4) show ?thesis unfolding entries_ok_def by blast
qed

lemma remove_entries:
  assumes ok: "entries_ok X bs bh" and h: "bh h = Some (s, n)"
    and bs': "bs' = (case map_of bs s of None \<Rightarrow> bs
       | Some m \<Rightarrow> if bt_remove n m = [] then AList.delete s bs else AList.update s (bt_remove n m) bs)"
  shows "entries_ok X bs' (bh(h := None)) \<and> pool_total bs' \<le> pool_total bs"
proof -
  have dist: "distinct (map fst bs)" using ok by (simp add: entries_ok_def)
  show ?thesis
  proof (cases "map_of bs s")
    case None
    then have ne: "q \<noteq> s" if "(q, l) \<in> set bs" for q l
      using that by (metis map_of_eq_None_iff fst_conv image_eqI)
    have "entries_ok X bs (bh(h := None))"
    proof (rule entries_ok_drop [OF ok h dist])
      show "bt_sorted l \<and> l \<noteq> []" if "(q, l) \<in> set bs" for q l
        using that ok unfolding entries_ok_def by blast
      show "(\<exists>l'. (q, l') \<in> set bs \<and> (k, t) \<in> set l') \<and> (q, k) \<noteq> (s, n)"
        if "(q, l) \<in> set bs" "(k, t) \<in> set l" for q l k t
        using that ne by blast
    qed
    with None show ?thesis by (simp add: bs')
  next
    case m: (Some m)
    have ins: "(s, m) \<in> set bs" by (rule map_of_SomeD [OF m])
    show ?thesis
    proof (cases "bt_remove n m = []")
      case True
      have "entries_ok X (AList.delete s bs) (bh(h := None))"
        using ok by (intro entries_ok_drop [OF ok h])
          (auto simp: entries_ok_def distinct_map_filter AList.delete_eq)
      with True m map_of_delete_entry [OF m dist] show ?thesis by (simp add: bs')
    next
      case False
      let ?m = "bt_remove n m"
      have sub: "(k, t) \<in> set ?m \<longleftrightarrow> (k, t) \<in> set m \<and> k \<noteq> n" for k t
        by (auto simp: bt_remove_def)
      have "entries_ok X (AList.update s ?m bs) (bh(h := None))"
      proof (rule entries_ok_drop [OF ok h])
        show "distinct (map fst (AList.update s ?m bs))" using dist by (simp add: distinct_update)
        show "bt_sorted l \<and> l \<noteq> []" if "(q, l) \<in> set (AList.update s ?m bs)" for q l
          using that ok False entries_okD(1) [OF ok m]
          by (auto simp: set_update [OF dist] entries_ok_def)
        show "(\<exists>l'. (q, l') \<in> set bs \<and> (k, t) \<in> set l') \<and> (q, k) \<noteq> (s, n)"
          if "(q, l) \<in> set (AList.update s ?m bs)" "(k, t) \<in> set l" for q l k t
          using that ins sub by (auto simp: set_update [OF dist])
      qed
      moreover have "length ?m \<le> length m" by (simp add: bt_remove_def)
      ultimately show ?thesis
        using pool_total_update [OF dist, of s ?m] m False by (simp add: bs')
    qed
  qed
qed

lemma remove_keeps:
  assumes "pool_inv X p"
  shows "pool_inv X (snd (remove_tx h p)) \<and>
    pool_total (mp_by_sender (snd (remove_tx h p))) \<le> pool_total (mp_by_sender p) \<and>
    mp_max_size (snd (remove_tx h p)) = mp_max_size p"
proof (cases "mp_by_hash p h")
  case None
  then show ?thesis using assms by (simp add: remove_tx_def)
next
  case (Some e)
  obtain s n where "e = (s, n)" by (cases e)
  with Some remove_entries [OF assms [unfolded pool_inv_def], of h s n, OF _ refl] show ?thesis
    by (simp add: remove_tx_def pool_inv_def Let_def)
qed

section \<open>Runs of the pool\<close>

inductive pool_run :: "ext \<Rightarrow> mempool \<Rightarrow> bool" for X where
  new: "pool_run X (with_capacity max_size)"
| insert: "pool_run X p \<Longrightarrow> insert_tx X rank tx p = (r, p') \<Longrightarrow> pool_run X p'"
| remove: "pool_run X p \<Longrightarrow> remove_tx h p = (b, p') \<Longrightarrow> pool_run X p'"

lemma insert_keeps:
  assumes inv: "pool_inv X p" and le: "pool_total (mp_by_sender p) \<le> mp_max_size p"
    and ins: "insert_tx X rank tx p = (r, p')"
  shows "pool_inv X p' \<and> pool_total (mp_by_sender p') \<le> mp_max_size p'"
proof (cases rule: sender_cases [of X tx])
  case 2
  with ins inv le show ?thesis by (simp add: insert_tx_def)
next
  case (1 s)
  let ?n = "nonce tx"
  let ?bs = "inserted_senders p s ?n tx" and ?bh = "inserted_hashes X p s ?n tx"
  note eq = insert_tx_eq [OF 1 refl inv, of rank]
  show ?thesis
  proof (cases "mp_by_hash p (tx_hash X tx) \<noteq> None \<or> gap_exceeded p s ?n")
    case True
    with eq ins inv le show ?thesis by (auto split: if_splits)
  next
    case False
    then have ok: "entries_ok X ?bs ?bh" by (intro inserted_ok [OF inv 1 refl]) (cases "mp_by_hash p (tx_hash X tx)", simp_all)
    show ?thesis
    proof (cases "mp_max_size p < pool_total ?bs")
      case True
      from evict_keeps [OF ok, where rank = rank and need = "pool_total ?bs - mp_max_size p" and ev = 0] True eq ins False
      show ?thesis by (auto simp: Let_def pool_inv_def split: prod.splits)
    next
      case no: False
      with False eq ins ok have "p' = p\<lparr>mp_by_sender := ?bs, mp_by_hash := ?bh\<rparr>"
        by (simp add: Let_def)
      with ok no show ?thesis by (simp add: pool_inv_def)
    qed
  qed
qed

text \<open>An insertion adds no transaction but its own.\<close>

lemma evict_sub:
  "evict_by_sender X rank bs bh need ev = (bs', bh', ev') \<Longrightarrow> map_of bs' q = Some m \<Longrightarrow> map_of bs q = Some m"
proof (induction X rank bs bh need ev rule: evict_by_sender.induct)
  case (1 X rank bs bh need ev)
  show ?case
  proof (cases "need = 0 \<or> bs = []")
    case True
    then show ?thesis using 1(2,3) by (subst (asm) evict_by_sender.simps) auto
  next
    case False
    then have "iter_order rank bs \<noteq> []" by (metis (no_types) iter_order_def length_0_conv length_sort)
    then obtain a f where af: "min_by_fees (iter_order rank bs) = Some (a, f)"
      by (metis min_by_fees_None not_Some_eq surj_pair)
    define txs where "txs = (case map_of bs a of None \<Rightarrow> [] | Some m \<Rightarrow> map snd m)"
    obtain bh1 ev1 need1 where step: "(bh1, ev1, need1) = evict_txs X txs bh ev need"
      by (metis prod_cases3)
    have rec: "evict_by_sender X rank (AList.delete a bs) bh1 need1 ev1 = (bs', bh', ev')"
      using 1(2) False af step by (subst (asm) evict_by_sender.simps) (simp add: txs_def split: prod.splits)
    have "map_of (AList.delete a bs) q = Some m"
      by (rule 1(1) [OF False af refl txs_def step refl rec 1(3)])
    then show ?thesis by (simp add: delete_conv' split: if_splits)
  qed
qed

lemma insert_pool_tx:
  assumes inv: "pool_inv X p" and ins: "insert_tx X rank tx p = (r, p')" and t: "pool_tx p' q k = Some t"
  shows "t = tx \<or> pool_tx p q k = Some t"
proof (cases rule: sender_cases [of X tx])
  case 2
  with ins t show ?thesis by (simp add: insert_tx_def)
next
  case (1 s)
  let ?n = "nonce tx"
  let ?bs = "inserted_senders p s ?n tx" and ?bh = "inserted_hashes X p s ?n tx"
  have new: "pool_tx (p\<lparr>mp_by_sender := ?bs, mp_by_hash := bh\<rparr>) q k =
      (if q = s \<and> k = ?n then Some tx else pool_tx p q k)" for bh
    by (rule pool_tx_inserted [OF inv])
  obtain bs' bh' ev' where ev: "evict_by_sender X rank ?bs ?bh (pool_total ?bs - mp_max_size p) 0 = (bs', bh', ev')"
    by (cases "evict_by_sender X rank ?bs ?bh (pool_total ?bs - mp_max_size p) 0")
  have "p' = p \<or> p' = p\<lparr>mp_by_sender := ?bs, mp_by_hash := ?bh\<rparr> \<or> p' = p\<lparr>mp_by_sender := bs', mp_by_hash := bh'\<rparr>"
    using ins insert_tx_eq [OF 1 refl inv, of rank] ev by (auto simp: Let_def split: if_splits)
  moreover have "map_of bs' q = Some m \<Longrightarrow> map_of ?bs q = Some m" for m
    by (rule evict_sub [OF ev])
  then have "pool_tx (p\<lparr>mp_by_sender := bs', mp_by_hash := bh'\<rparr>) q k = Some t \<Longrightarrow>
      pool_tx (p\<lparr>mp_by_sender := ?bs, mp_by_hash := ?bh\<rparr>) q k = Some t"
    by (auto simp: pool_tx_def split: option.splits)
  ultimately show ?thesis using t new by (auto split: if_splits)
qed

lemma insert_no_panic: "insert_tx X rank tx p = (r, p') \<Longrightarrow> r \<noteq> Panic \<and> r \<noteq> Diverge"
  by (cases rule: sender_cases [of X tx]) (auto simp: insert_tx_def Let_def split: if_splits prod.splits)

lemma pool_run_inv:
  "pool_run X p \<Longrightarrow> pool_inv X p \<and> pool_total (mp_by_sender p) \<le> mp_max_size p"
proof (induction rule: pool_run.induct)
  case (new max_size)
  then show ?case by (simp add: with_capacity_def pool_inv_def entries_ok_def pool_total_def)
next
  case (insert p rank tx r p')
  then show ?case using insert_keeps by blast
next
  case (remove p h b p')
  with remove_keeps [of X p h] show ?case by auto
qed

lemma insert_stored:
  assumes inv: "pool_inv X p" and s: "sender X tx = Ok s"
    and new: "mp_by_hash p (tx_hash X tx) = None" and gap: "\<not> gap_exceeded p s (nonce tx)"
    and room: "pool_total (mp_by_sender p) < mp_max_size p"
  shows "\<exists>p'. insert_tx X rank tx p = (Ok None, p') \<and> get_by_hash p' (tx_hash X tx) = Ok (Some tx) \<and>
    (\<forall>q k. pool_tx p' q k = (if q = s \<and> k = nonce tx then Some tx else pool_tx p q k))"
proof -
  let ?bs = "inserted_senders p s (nonce tx) tx" and ?bh = "inserted_hashes X p s (nonce tx) tx"
  define m where "m = (case map_of (mp_by_sender p) s of None \<Rightarrow> [] | Some m \<Rightarrow> m)"
  have dist: "distinct (map fst (mp_by_sender p))"
    using inv by (simp add: pool_inv_def entries_ok_def)
  have "bt_sorted m"
    using entries_okD(1) [OF inv [unfolded pool_inv_def]] by (simp add: m_def split: option.splits)
  then have "length (bt_insert (nonce tx) tx m) \<le> Suc (length m)"
    by (simp add: length_bt_insert)
  moreover have "(case map_of (mp_by_sender p) s of None \<Rightarrow> 0 | Some k \<Rightarrow> length k) = length m"
    by (simp add: m_def split: option.splits)
  ultimately have "pool_total ?bs \<le> Suc (pool_total (mp_by_sender p))"
    using pool_total_update [OF dist, of s "bt_insert (nonce tx) tx m"]
    by (simp add: inserted_senders_def flip: m_def)
  with room insert_tx_eq [OF s refl inv, of rank] new gap
  have "insert_tx X rank tx p = (Ok None, p\<lparr>mp_by_sender := ?bs, mp_by_hash := ?bh\<rparr>)"
    by (simp add: Let_def)
  moreover have "?bh (tx_hash X tx) = Some (s, nonce tx)"
    by (simp add: inserted_hashes_def)
  ultimately show ?thesis
    by (auto simp: get_by_hash_def pool_tx_inserted [OF inv])
qed

subsection \<open>Selection\<close>

lemma length_all_txs: "length (all_txs rank p) = pool_total (mp_by_sender p)"
proof -
  have "mset (map (\<lambda>e. length (snd e)) (iter_order rank (mp_by_sender p)))
      = mset (map (\<lambda>e. length (snd e)) (mp_by_sender p))"
    by (simp add: iter_order_def)
  then have "sum_list (map (\<lambda>e. length (snd e)) (iter_order rank (mp_by_sender p)))
      = sum_list (map (\<lambda>e. length (snd e)) (mp_by_sender p))"
    by (metis sum_mset_sum_list)
  then show ?thesis
    by (simp add: all_txs_def length_concat pool_total_def comp_def case_prod_beta)
qed

lemma pool_tx_mem:
  "pool_tx p s n = Some tx \<Longrightarrow> \<exists>m. (s, m) \<in> set (mp_by_sender p) \<and> (n, tx) \<in> set m"
  by (auto simp: pool_tx_def split: option.splits dest!: map_of_SomeD)

lemma set_all_txs:
  assumes "pool_inv X p"
  shows "set (all_txs rank p) = {tx. \<exists>s n. pool_tx p s n = Some tx}"
proof -
  have "set (all_txs rank p) = {tx. \<exists>s m n. (s, m) \<in> set (mp_by_sender p) \<and> (n, tx) \<in> set m}"
    by (force simp: all_txs_def iter_order_def)
  also have "\<dots> = {tx. \<exists>s n. pool_tx p s n = Some tx}"
    using pool_entry_tx [OF assms] pool_tx_mem [of p] by blast
  finally show ?thesis .
qed

lemma pool_tx_removed:
  assumes "pool_inv X p" and "pool_tx p s n = Some tx" and "remove_tx (tx_hash X tx) p = (b, p')"
  shows "pool_tx p' q k = (if q = s \<and> k = n then None else pool_tx p q k)"
proof -
  from assms(2) obtain m where m: "map_of (mp_by_sender p) s = Some m" by (auto simp: pool_tx_def split: option.splits)
  have "map_of (bt_remove n m) = (map_of m)(n := None)" by simp
  moreover have "bt_remove n m = [] \<Longrightarrow> map_of m j = None" if "j \<noteq> n" for j
    using that map_of_bt_remove [of n m] by (metis fun_upd_other map_of.simps(1))
  ultimately show ?thesis
    using assms(3) m pool_tx_entry [OF assms(1,2)]
    by (auto simp: remove_tx_def pool_tx_def Let_def delete_conv' update_conv' split: if_splits option.splits)
qed

lemma distinct_all_txs:
  assumes "pool_inv X p"
  shows "distinct (all_txs rank p)"
proof -
  have ok: "entries_ok X (mp_by_sender p) (mp_by_hash p)" using assms by (simp add: pool_inv_def)
  have "distinct (concat (map (\<lambda>(_, m). map snd m) bs))"
    if "distinct (map fst bs)" "set bs \<subseteq> set (mp_by_sender p)" for bs
    using that
  proof (induction bs)
    case Nil
    then show ?case by simp
  next
    case (Cons e bs)
    obtain s m where e: "e = (s, m)" by (cases e)
    have at: "sender X t = Ok q \<and> nonce t = k" if "(q, l) \<in> set (e # bs)" "(k, t) \<in> set l" for q l k t
      using ok that Cons.prems(2) unfolding entries_ok_def by blast
    have "bt_sorted m" using ok Cons.prems(2) unfolding e entries_ok_def by auto
    then have d: "distinct m" using bt_sorted_distinct by (auto simp: distinct_map)
    have "distinct (map snd m)"
    proof (subst distinct_map, intro conjI inj_onI d)
      fix x y assume "x \<in> set m" "y \<in> set m" "snd x = snd y"
      then obtain k j t where "x = (k, t)" "y = (j, t)" "(k, t) \<in> set m" "(j, t) \<in> set m"
        by (metis prod.collapse)
      with at [of s m k t] at [of s m j t] show "x = y" by (simp add: e)
    qed
    moreover have "set (map snd m) \<inter> set (concat (map (\<lambda>(_, m). map snd m) bs)) = {}"
    proof -
      have False if "(k, t) \<in> set m" "(q, l) \<in> set bs" "(j, t) \<in> set l" for k t q l j
      proof -
        have "s = q" using at [of s m k t] at [of q l j t] that by (simp add: e)
        with that(2) Cons.prems(1) show False by (force simp: e)
      qed
      then show ?thesis by auto
    qed
    ultimately show ?case using Cons by (simp add: e)
  qed
  moreover have "set (iter_order rank (mp_by_sender p)) = set (mp_by_sender p)"
    "distinct (map fst (iter_order rank (mp_by_sender p)))"
    using ok by (simp_all add: iter_order_def entries_ok_def distinct_map distinct_sort)
  ultimately show ?thesis by (simp add: all_txs_def)
qed

lemma get_best_distinct:
  assumes "pool_inv X p" and "get_best rank p k = Ok txs"
  shows "distinct txs \<and> (\<forall>tx \<in> set txs. \<exists>s n. pool_tx p s n = Some tx)"
proof -
  have "set txs \<subseteq> set (all_txs rank p)" "distinct txs"
    using assms(2) distinct_all_txs [OF assms(1), of rank]
    by (auto simp: get_best_def distinct_sort distinct_take dest!: in_set_takeD)
  then show ?thesis using set_all_txs [OF assms(1), of rank] by auto
qed

lemma take_sort_price:
  fixes txs :: "signed_transaction list"
  defines "ts \<equiv> sort_key (\<lambda>tx. - uint (gas_price tx)) txs"
  shows "sorted_wrt (\<lambda>a b. gas_price b \<le> gas_price a) (take k ts)"
    and "mset (take k ts) + mset (drop k ts) = mset txs"
    and "\<forall>a \<in> set (take k ts). \<forall>b \<in> set (drop k ts). gas_price b \<le> gas_price a"
proof -
  have "sorted (map (\<lambda>tx. - uint (gas_price tx)) ts)" by (simp add: ts_def)
  then have *: "sorted_wrt (\<lambda>a b. gas_price b \<le> gas_price a) ts"
    by (simp add: sorted_wrt_map word_le_def)
  then have **: "sorted_wrt (\<lambda>a b. gas_price b \<le> gas_price a) (take k ts @ drop k ts)" by simp
  show "sorted_wrt (\<lambda>a b. gas_price b \<le> gas_price a) (take k ts)"
    and "\<forall>a \<in> set (take k ts). \<forall>b \<in> set (drop k ts). gas_price b \<le> gas_price a"
    using ** unfolding sorted_wrt_append by blast+
  show "mset (take k ts) + mset (drop k ts) = mset txs"
    by (metis append_take_drop_id mset_append mset_sort ts_def)
qed

subsection \<open>A full pool of one sender\<close>

lemma bt_insert_last:
  "\<forall>(k, v) \<in> set m. k < n \<Longrightarrow> bt_insert n t m = m @ [(n, t)]"
  by (induction m) auto

text \<open>
  When only one sender's transactions are pooled and the pool is full, one more of them evicts
  them all, but only the hash of the lowest nonce is forgotten.
\<close>

lemma insert_full_single:
  assumes inv: "pool_inv X p" and bs: "mp_by_sender p = [(s, m)]" and full: "length m = mp_max_size p"
    and s: "sender X tx = Ok s" and new: "mp_by_hash p (tx_hash X tx) = None"
    and last: "\<forall>(k, v) \<in> set m. k < nonce tx" and gap: "\<not> gap_exceeded p s (nonce tx)"
  shows "insert_tx X rank tx p = (Ok (Some 1), p\<lparr>mp_by_sender := [],
    mp_by_hash := (mp_by_hash p)(tx_hash X tx \<mapsto> (s, nonce tx), tx_hash X (snd (hd m)) := None)\<rparr>)"
proof -
  let ?n = "nonce tx"
  have "m \<noteq> []" using inv bs by (simp add: pool_inv_def entries_ok_def)
  then obtain e m' where m: "m = e # m'" by (cases m) auto
  have ins: "inserted_senders p s ?n tx = [(s, m @ [(?n, tx)])]"
    using bt_insert_last [OF last] by (simp add: inserted_senders_def bs)
  have "map_of m ?n = None"
    using last by (force simp: map_of_eq_None_iff)
  then have "pool_tx p s ?n = None" by (simp add: pool_tx_def bs)
  then have bh: "inserted_hashes X p s ?n tx = (mp_by_hash p)(tx_hash X tx \<mapsto> (s, ?n))"
    by (simp add: inserted_hashes_def)
  have "evict_by_sender X rank [(s, m @ [(?n, tx)])] ((mp_by_hash p)(tx_hash X tx \<mapsto> (s, ?n))) 1 0
      = ([], (mp_by_hash p)(tx_hash X tx \<mapsto> (s, ?n), tx_hash X (snd e) := None), 1)"
    by (subst evict_by_sender.simps, subst evict_by_sender.simps) (simp add: iter_order_def m Let_def)
  with insert_tx_eq [OF s refl inv, of rank] new gap ins bh full m show ?thesis
    by (simp add: pool_total_def)
qed

section \<open>Properties\<close>

text \<open>The transaction of account 3 for the witnesses, with a chosen hash.\<close>

abbreviation hashed_tx :: "b256 \<Rightarrow> u64 \<Rightarrow> u256 \<Rightarrow> signed_transaction" where
  "hashed_tx h n price \<equiv> (example_tx n price 0)\<lparr>st_hash_override := Some h\<rparr>"

lemma hashed_tx_simps [simp]:
  "sender ref_ext (hashed_tx h n price) = Ok 3" "tx_hash ref_ext (hashed_tx h n price) = h"
  "nonce (hashed_tx h n price) = n"
  using example_tx_sender [of n price 0]
  by (simp_all add: sender_def tx_hash_def nonce_def example_tx_def)

text \<open>A pool with room for one transaction, holding one.\<close>

lemma example_pool:
  "\<exists>p. pool_run ref_ext p \<and> mp_by_sender p = [(3, [(0, hashed_tx 100 0 1)])] \<and>
     mp_by_hash p = [100 \<mapsto> (3, 0)] \<and> mp_max_size p = 1"
proof -
  have run: "pool_run ref_ext (with_capacity 1)" by (rule pool_run.new)
  then have inv: "pool_inv ref_ext (with_capacity 1)" using pool_run_inv by blast
  have "insert_tx ref_ext (\<lambda>_ _. 0) (hashed_tx 100 0 1) (with_capacity 1) =
      (Ok None, (with_capacity 1)\<lparr>mp_by_sender := [(3, [(0, hashed_tx 100 0 1)])], mp_by_hash := [100 \<mapsto> (3, 0)]\<rparr>)"
    by (subst insert_tx_eq [OF _ refl inv, of _ 3], simp)
      (simp add: gap_exceeded_def pool_tx_def with_capacity_def inserted_senders_def
        inserted_hashes_def pool_total_def)
  from pool_run.insert [OF run this] show ?thesis
    by (intro exI conjI) (assumption, simp_all add: with_capacity_def)
qed

text \<open>C7: the pool stays sound in every run of insertions and removals from an empty pool: it never
  holds more than its capacity, and every pooled transaction is stored under its recovered sender
  and its nonce and is found by its hash.\<close>

theorem mempool_runs_sound:
  assumes "pool_run X p"
  shows "pool_len p = Ok (pool_total (mp_by_sender p)) \<and> pool_total (mp_by_sender p) \<le> mp_max_size p \<and>
    (\<forall>s n tx. pool_tx p s n = Some tx \<longrightarrow> sender X tx = Ok s \<and> nonce tx = n \<and>
       get_by_hash p (tx_hash X tx) = Ok (Some tx))"
  using pool_run_inv [OF assms] pool_tx_entry [of X p]
  by (auto simp: pool_len_def get_by_hash_def)

theorem mempool_runs_sound_witness:
  "\<exists>p. pool_run ref_ext p \<and> pool_len p = Ok 1 \<and> get_by_hash p 100 = Ok (Some (hashed_tx 100 0 1))"
proof -
  obtain p where p: "pool_run ref_ext p" "mp_by_sender p = [(3, [(0, hashed_tx 100 0 1)])]"
    using example_pool by blast
  then have "pool_tx p 3 0 = Some (hashed_tx 100 0 1)" by (simp add: pool_tx_def)
  with p(2) mempool_runs_sound [OF p(1)] have "get_by_hash p 100 = Ok (Some (hashed_tx 100 0 1))"
    and "pool_len p = Ok 1"
    using hashed_tx_simps(2) [of 100 0 1] by (metis, simp add: pool_total_def)
  with p(1) show ?thesis by blast
qed

text \<open>Insertion behaves as specified on every branch: a transaction whose sender does not
  recover is refused; a known hash is ignored; a nonce more than ten above the sender's highest
  pooled nonce is refused; and otherwise, while the pool has room, the transaction is stored in
  place of the one with the same sender and nonce, found by its hash, and nothing else changes.\<close>

theorem mempool_insert_branches:
  assumes "pool_run X p"
  shows "(\<forall>e. sender X tx = Err e \<longrightarrow>
      insert_tx X rank tx p = (Err (InvalidTransaction ''Invalid signature''), p)) \<and>
    (\<forall>s. sender X tx = Ok s \<longrightarrow>
      (if mp_by_hash p (tx_hash X tx) \<noteq> None then insert_tx X rank tx p = (Ok None, p)
       else if gap_exceeded p s (nonce tx) then
         (\<exists>msg. insert_tx X rank tx p = (Err (InvalidTransaction msg), p))
       else pool_total (mp_by_sender p) < mp_max_size p \<longrightarrow>
         (\<exists>p'. insert_tx X rank tx p = (Ok None, p') \<and> get_by_hash p' (tx_hash X tx) = Ok (Some tx) \<and>
           (\<forall>q k. pool_tx p' q k = (if q = s \<and> k = nonce tx then Some tx else pool_tx p q k)))))"
proof (intro conjI allI impI)
  show "insert_tx X rank tx p = (Err (InvalidTransaction ''Invalid signature''), p)"
    if "sender X tx = Err e" for e
    using that by (simp add: insert_tx_def)
next
  fix s assume s: "sender X tx = Ok s"
  have inv: "pool_inv X p" using pool_run_inv [OF assms] by simp
  show "if mp_by_hash p (tx_hash X tx) \<noteq> None then insert_tx X rank tx p = (Ok None, p)
       else if gap_exceeded p s (nonce tx) then
         (\<exists>msg. insert_tx X rank tx p = (Err (InvalidTransaction msg), p))
       else pool_total (mp_by_sender p) < mp_max_size p \<longrightarrow>
         (\<exists>p'. insert_tx X rank tx p = (Ok None, p') \<and> get_by_hash p' (tx_hash X tx) = Ok (Some tx) \<and>
           (\<forall>q k. pool_tx p' q k = (if q = s \<and> k = nonce tx then Some tx else pool_tx p q k)))"
    using insert_stored [OF inv s, of rank] insert_tx_eq [OF s refl inv, of rank]
    by (cases "mp_by_hash p (tx_hash X tx)"; cases "gap_exceeded p s (nonce tx)") simp_all
qed

theorem mempool_insert_branches_witness:
  "\<exists>p. pool_run ref_ext p \<and> insert_tx ref_ext (\<lambda>_ _. 0) (hashed_tx 100 5 1) p = (Ok None, p) \<and>
     (\<exists>msg. insert_tx ref_ext (\<lambda>_ _. 0) (hashed_tx 101 11 1) p = (Err (InvalidTransaction msg), p))"
proof -
  obtain p where p: "pool_run ref_ext p" "mp_by_sender p = [(3, [(0, hashed_tx 100 0 1)])]"
    "mp_by_hash p = [100 \<mapsto> (3, 0)]"
    using example_pool by blast
  have "{k. pool_tx p 3 k \<noteq> None} = {0}"
    by (auto simp: pool_tx_def p(2))
  then have "gap_exceeded p 3 11"
    by (simp add: gap_exceeded_def)
  with p mempool_insert_branches [OF p(1), of "hashed_tx 100 5 1" "\<lambda>_ _. 0"]
    mempool_insert_branches [OF p(1), of "hashed_tx 101 11 1" "\<lambda>_ _. 0"]
  show ?thesis by auto
qed

text \<open>Block selection takes the best-paying transactions: it returns the smaller of the limit
  and the pool size many pooled transactions, in descending gas price, and no transaction left
  out pays more than one taken.\<close>

theorem get_best_selects:
  assumes "pool_run X p"
  shows "\<exists>best rest. get_best rank p limit = Ok best \<and>
    length best = min limit (pool_total (mp_by_sender p)) \<and>
    sorted_wrt (\<lambda>a b. gas_price b \<le> gas_price a) best \<and>
    set best \<union> set rest = {tx. \<exists>s n. pool_tx p s n = Some tx} \<and>
    length best + length rest = pool_total (mp_by_sender p) \<and>
    (\<forall>a \<in> set best. \<forall>b \<in> set rest. gas_price b \<le> gas_price a)"
proof -
  let ?ts = "sort_key (\<lambda>tx. - uint (gas_price tx)) (all_txs rank p)"
  have inv: "pool_inv X p" using pool_run_inv [OF assms] by simp
  have "set (take limit ?ts) \<union> set (drop limit ?ts) = set (all_txs rank p)"
    by (metis append_take_drop_id set_append set_sort)
  then show ?thesis
    using take_sort_price [where txs = "all_txs rank p" and k = limit] set_all_txs [OF inv, of rank]
    by (intro exI [of _ "take limit ?ts"] exI [of _ "drop limit ?ts"])
      (simp add: get_best_def length_all_txs min_def)
qed

theorem get_best_selects_witness:
  "\<exists>p best. pool_run ref_ext p \<and> get_best (\<lambda>_ _. 0) p 7 = Ok best \<and> length best = 1"
proof -
  obtain p where p: "pool_run ref_ext p" "mp_by_sender p = [(3, [(0, hashed_tx 100 0 1)])]"
    using example_pool by blast
  with get_best_selects [OF p(1), of "\<lambda>_ _. 0" 7] show ?thesis
    by (auto simp: pool_total_def)
qed

text \<open>Eviction forgets too little: when a full pool holds only one sender's transactions, that
  sender's next transaction is accepted, all of its transactions are evicted, one eviction is
  reported, and the hash of the new transaction stays known: it can no longer be found, and
  inserting it again changes nothing.\<close>

theorem eviction_leaves_stale_hashes:
  assumes "pool_run X p" and "mp_by_sender p = [(s, m)]" and "length m = mp_max_size p"
    and "sender X tx = Ok s" and "mp_by_hash p (tx_hash X tx) = None"
    and "\<forall>(k, v) \<in> set m. k < nonce tx" and "\<not> gap_exceeded p s (nonce tx)"
  shows "\<exists>p'. insert_tx X rank tx p = (Ok (Some 1), p') \<and> pool_len p' = Ok 0 \<and>
    get_by_hash p' (tx_hash X tx) = Ok None \<and> insert_tx X rank tx p' = (Ok None, p')"
proof -
  have inv: "pool_inv X p" using pool_run_inv [OF assms(1)] by simp
  let ?h = "(mp_by_hash p)(tx_hash X tx \<mapsto> (s, nonce tx), tx_hash X (snd (hd m)) := None)"
  let ?p = "p\<lparr>mp_by_sender := [], mp_by_hash := ?h\<rparr>"
  have "m \<noteq> []" using inv assms(2) by (simp add: pool_inv_def entries_ok_def)
  then have "(fst (hd m), snd (hd m)) \<in> set m" by simp
  then have "mp_by_hash p (tx_hash X (snd (hd m))) \<noteq> None"
    using entries_ok_hash [OF inv [unfolded pool_inv_def], of s m "fst (hd m)" "snd (hd m)"] assms(2)
    by simp
  with assms(5) have "?h (tx_hash X tx) = Some (s, nonce tx)" by auto
  then have "insert_tx X rank tx ?p = (Ok None, ?p)" and "get_by_hash ?p (tx_hash X tx) = Ok None"
    using assms(4) by (simp_all add: insert_tx_def Let_def get_by_hash_def pool_tx_def)
  with insert_full_single [OF inv assms(2-7), of rank] show ?thesis
    by (intro exI [of _ ?p]) (simp add: pool_len_def pool_total_def)
qed

theorem eviction_leaves_stale_hashes_witness:
  "\<exists>p p'. pool_run ref_ext p \<and> insert_tx ref_ext (\<lambda>_ _. 0) (hashed_tx 101 1 1) p = (Ok (Some 1), p') \<and>
     pool_len p' = Ok 0 \<and> insert_tx ref_ext (\<lambda>_ _. 0) (hashed_tx 101 1 1) p' = (Ok None, p')"
proof -
  obtain p where p: "pool_run ref_ext p" "mp_by_sender p = [(3, [(0, hashed_tx 100 0 1)])]"
    "mp_by_hash p = [100 \<mapsto> (3, 0)]" "mp_max_size p = 1"
    using example_pool by blast
  have "{k. pool_tx p 3 k \<noteq> None} = {0}"
    by (auto simp: pool_tx_def p(2))
  then have "\<not> gap_exceeded p 3 1"
    by (simp add: gap_exceeded_def)
  with p eviction_leaves_stale_hashes [OF p(1,2), of "hashed_tx 101 1 1" "\<lambda>_ _. 0"]
  show ?thesis by auto
qed

end
