(* ===== verification/Quyn_Consensus.thy ===== *)
theory Quyn_Consensus
  imports Quyn_Extern
begin

text \<open>
  The consensus crate: consensus/src/validator_set.rs (registration, delegation, slashing, the
  active set and the choice of the proposer), slashing.rs (penalties) and rewards.rs (the block
  reward). A validator set is a sorted map by address with the list of delegations.
\<close>

section \<open>Definitions\<close>

datatype consensus_error =
    InvalidValidator string
  | Slashing string
  | Staking string
  | BlockProduction string

definition MIN_STAKE :: u128 where "MIN_STAKE = 10000 * 10 ^ 18"
definition MAX_VALIDATORS :: nat where "MAX_VALIDATORS = 1000"
definition EPOCH_LENGTH :: u64 where "EPOCH_LENGTH = 32"

record validator_info =
  vi_address :: address
  vi_stake :: u256
  vi_delegated :: u256
  vi_commission_bps :: u16
  vi_active :: bool

definition total_stake :: "validator_info \<Rightarrow> u256" where
  "total_stake v = sat_add (vi_stake v) (vi_delegated v)"

record delegation =
  dg_delegator :: address
  dg_validator :: address
  dg_amount :: u256

record validator_set =
  vs_validators :: "(address \<times> validator_info) list"
  vs_delegations :: "delegation list"

definition new_validator_set :: validator_set where
  "new_validator_set = \<lparr>vs_validators = [], vs_delegations = []\<rparr>"

definition delegated_to :: "delegation list \<Rightarrow> address \<Rightarrow> u256" where
  "delegated_to ds a = foldl sat_add 0 (map dg_amount (filter (\<lambda>d. dg_validator d = a) ds))"

definition register ::
  "address \<Rightarrow> u256 \<Rightarrow> u16 \<Rightarrow> (validator_set, consensus_error, unit) act" where
  "register a stake commission_bps s = (case to_u128 stake of
       Ok st \<Rightarrow>
         if st < MIN_STAKE
         then (Err (Staking (''stake '' @ dec (unat stake) @ '' below minimum '' @ dec (unat MIN_STAKE))), s)
         else if MAX_VALIDATORS \<le> length (vs_validators s) \<and> map_of (vs_validators s) a = None
         then (Err (Staking ''validator set full''), s)
         else (Ok (), s\<lparr>vs_validators := bt_insert a
                \<lparr>vi_address = a, vi_stake = stake, vi_delegated = delegated_to (vs_delegations s) a,
                 vi_commission_bps = commission_bps, vi_active = True\<rparr> (vs_validators s)\<rparr>)
     | Err e \<Rightarrow> (Err e, s) | Panic \<Rightarrow> (Panic, s) | Diverge \<Rightarrow> (Diverge, s))"

definition delegate :: "address \<Rightarrow> address \<Rightarrow> u256 \<Rightarrow> (validator_set, consensus_error, unit) act" where
  "delegate delegator a amount s =
     (if amount = 0 then (Ok (), s)
      else case map_of (vs_validators s) a of
          None \<Rightarrow> (Err (Staking ''validator not found''), s)
        | Some v \<Rightarrow>
            if \<not> vi_active v then (Err (Staking ''validator inactive''), s)
            else (Ok (), s\<lparr>
              vs_validators := bt_insert a (v\<lparr>vi_delegated := sat_add (vi_delegated v) amount\<rparr>) (vs_validators s),
              vs_delegations := vs_delegations s @
                [\<lparr>dg_delegator = delegator, dg_validator = a, dg_amount = amount\<rparr>]\<rparr>))"

definition get_validator :: "validator_set \<Rightarrow> address \<Rightarrow> validator_info option" where
  "get_validator s a = map_of (vs_validators s) a"

fun filter_active :: "validator_info list \<Rightarrow> (consensus_error, validator_info list) outcome" where
  "filter_active [] = Ok []"
| "filter_active (v # vs) =
     (if vi_active v
      then obind (to_u128 (total_stake v)) (\<lambda>t. obind (filter_active vs) (\<lambda>rest.
           Ok (if MIN_STAKE \<le> t then v # rest else rest)))
      else filter_active vs)"

definition active_validators :: "validator_set \<Rightarrow> (consensus_error, validator_info list) outcome" where
  "active_validators s = filter_active (map snd (vs_validators s))"

definition slash :: "address \<Rightarrow> u256 \<Rightarrow> bool \<Rightarrow> validator_set \<Rightarrow> validator_set" where
  "slash a amount deactivate s = (case map_of (vs_validators s) a of
       None \<Rightarrow> s
     | Some v \<Rightarrow> s\<lparr>vs_validators := bt_insert a
         (v\<lparr>vi_stake := sat_sub (vi_stake v) amount, vi_active := (vi_active v \<and> \<not> deactivate)\<rparr>)
         (vs_validators s)\<rparr>)"

text \<open>The checked \<open>sum\<close> of the stakes.\<close>

fun sum_stakes :: "u128 \<Rightarrow> validator_info list \<Rightarrow> (consensus_error, u128) outcome" where
  "sum_stakes acc [] = Ok acc"
| "sum_stakes acc (v # vs) =
     obind (to_u128 (total_stake v)) (\<lambda>t. obind (chk_add acc t) (\<lambda>acc'. sum_stakes acc' vs))"

fun pick :: "u128 \<Rightarrow> validator_info list \<Rightarrow> (consensus_error, address option) outcome" where
  "pick idx [] = Ok None"
| "pick idx (v # vs) =
     obind (to_u128 (total_stake v)) (\<lambda>t. if idx < t then Ok (Some (vi_address v)) else pick (idx - t) vs)"

definition proposer_seed :: "ext \<Rightarrow> u64 \<Rightarrow> b256 \<Rightarrow> u64" where
  "proposer_seed X block_number parent_block_hash =
     (let epoch = block_number div EPOCH_LENGTH;
          seed = sha256 X (u64_be epoch @ b256_bytes parent_block_hash @ u64_be block_number)
      in of_be (take 8 (b256_bytes seed)))"

definition select_proposer ::
  "ext \<Rightarrow> validator_info list \<Rightarrow> u64 \<Rightarrow> b256 \<Rightarrow> (consensus_error, address option) outcome" where
  "select_proposer X validators block_number parent_block_hash =
     (if validators = [] then Ok None
      else obind (sum_stakes 0 validators) (\<lambda>total.
        if total = 0 then Ok (Some (vi_address (hd validators)))
        else obind (pick (ucast (proposer_seed X block_number parent_block_hash) mod total) validators)
          (\<lambda>r. case r of Some a \<Rightarrow> Ok (Some a)
             | None \<Rightarrow> Ok (Some (vi_address (last validators))))))"

datatype slash_reason = DoubleSignReason | InvalidBlockReason | Liveness

record slash_evidence =
  se_validator :: address
  se_reason :: slash_reason
  se_block_number :: u64
  se_payload :: bytes

fun slash_penalty_bps :: "slash_reason \<Rightarrow> u16" where
  "slash_penalty_bps DoubleSignReason = 10000"
| "slash_penalty_bps InvalidBlockReason = 5000"
| "slash_penalty_bps Liveness = 1000"

definition BLOCKS_PER_YEAR :: u64 where "BLOCKS_PER_YEAR = 365 * 24 * 60 * 60 div 3"
definition APY_BPS :: u64 where "APY_BPS = 500"
definition REWARD_POOL :: u128 where "REWARD_POOL = 100000000 * 10 ^ 18"

text \<open>\<open>REWARD_POOL as u64\<close> keeps the low 64 bits.\<close>

definition block_reward_amount :: u256 where
  "block_reward_amount =
     (let yearly = sat_mul (ucast REWARD_POOL) APY_BPS div 10000
      in ucast yearly div ucast BLOCKS_PER_YEAR)"

definition distribute_block_reward ::
  "address \<Rightarrow> validator_info option \<Rightarrow> u256 \<Rightarrow> (address \<times> u256) list" where
  "distribute_block_reward proposer v reward = [(proposer, reward)]"

section \<open>The invariant of the set\<close>

text \<open>
  Keys are the validators' addresses in order, at most \<open>MAX_VALIDATORS\<close>, and what is recorded as
  delegated to a validator is the saturated sum of its delegations.
\<close>

definition set_inv :: "validator_set \<Rightarrow> bool" where
  "set_inv s \<longleftrightarrow> bt_sorted (vs_validators s) \<and> length (vs_validators s) \<le> MAX_VALIDATORS \<and>
     (\<forall>a v. map_of (vs_validators s) a = Some v \<longrightarrow>
        vi_address v = a \<and> vi_delegated v = delegated_to (vs_delegations s) a)"

lemma delegated_to_snoc:
  "delegated_to (ds @ [d]) a =
     (if dg_validator d = a then sat_add (delegated_to ds a) (dg_amount d) else delegated_to ds a)"
  by (simp add: delegated_to_def)

lemma delegated_unknown:
  assumes "\<forall>d \<in> set ds. dg_validator d \<noteq> a"
  shows "delegated_to ds a = 0"
proof -
  have "filter (\<lambda>d. dg_validator d = a) ds = []" using assms by (simp add: filter_empty_conv)
  then show ?thesis by (simp add: delegated_to_def)
qed

lemma set_inv_new: "set_inv new_validator_set"
  by (simp add: set_inv_def new_validator_set_def)

lemma register_inv:
  assumes "set_inv s"
  shows "set_inv (snd (register a stake c s))"
proof (cases "to_u128 stake :: (consensus_error, u128) outcome")
  case (Ok st)
  with assms show ?thesis
    by (auto simp: register_def set_inv_def length_bt_insert MAX_VALIDATORS_def)
qed (use assms in \<open>simp_all add: register_def\<close>)

lemma delegate_inv:
  assumes "set_inv s"
  shows "set_inv (snd (delegate x a amount s))"
proof (cases "map_of (vs_validators s) a")
  case None
  with assms show ?thesis by (simp add: delegate_def)
next
  case (Some v)
  with assms show ?thesis
    by (auto simp: delegate_def set_inv_def length_bt_insert delegated_to_snoc)
qed

lemma slash_inv:
  assumes "set_inv s"
  shows "set_inv (slash a amount b s)"
  using assms by (auto simp: slash_def set_inv_def length_bt_insert split: option.splits)

inductive set_run :: "validator_set \<Rightarrow> bool" where
  new: "set_run new_validator_set"
| reg: "set_run s \<Longrightarrow> register a stake c s = (r, s') \<Longrightarrow> set_run s'"
| del: "set_run s \<Longrightarrow> delegate x a amount s = (r, s') \<Longrightarrow> set_run s'"
| sls: "set_run s \<Longrightarrow> set_run (slash a amount b s)"

lemma set_run_inv: "set_run s \<Longrightarrow> set_inv s"
proof (induction rule: set_run.induct)
  case (reg s a stake c r s')
  with register_inv [of s a stake c] show ?case by simp
next
  case (del s x a amount r s')
  with delegate_inv [of s x a amount] show ?case by simp
qed (simp_all add: set_inv_new slash_inv)

section \<open>The active set and the proposer\<close>

definition stake_nat :: "validator_info \<Rightarrow> nat" where
  "stake_nat v = unat (total_stake v)"

lemma filter_active_Ok:
  "filter_active vs = Ok as \<Longrightarrow> as = filter (\<lambda>v. vi_active v \<and> unat MIN_STAKE \<le> stake_nat v) vs \<and>
     (\<forall>v \<in> set as. stake_nat v < 2 ^ 128)"
proof (induction vs arbitrary: as)
  case (Cons v vs)
  show ?case
  proof (cases "vi_active v")
    case False
    with Cons show ?thesis by simp
  next
    case True
    with Cons.prems have "\<exists>t rest. to_u128 (total_stake v) = (Ok t :: (consensus_error, u128) outcome) \<and>
        filter_active vs = Ok rest \<and> as = (if MIN_STAKE \<le> t then v # rest else rest)"
      by (auto simp: obind_eq_Ok)
    then obtain t rest where t: "to_u128 (total_stake v) = (Ok t :: (consensus_error, u128) outcome)"
      and rest: "filter_active vs = Ok rest"
      and as: "as = (if MIN_STAKE \<le> t then v # rest else rest)"
      by blast
    from to_u128_Ok [OF t] have "unat t = stake_nat v" "stake_nat v < 2 ^ 128"
      by (simp_all add: stake_nat_def)
    with Cons.IH [OF rest] True as show ?thesis by (simp add: word_le_nat_alt)
  qed
qed simp

lemma sum_stakes_Ok:
  assumes "unat acc + sum_list (map stake_nat vs) < 2 ^ 128"
  shows "\<exists>t. sum_stakes acc vs = Ok t \<and> unat t = unat acc + sum_list (map stake_nat vs)"
  using assms
proof (induction vs arbitrary: acc)
  case (Cons v vs)
  let ?t = "ucast (total_stake v) :: u128"
  have t: "to_u128 (total_stake v) = Ok ?t" and ut: "unat ?t = stake_nat v"
    using Cons.prems by (simp_all add: to_u128_small stake_nat_def unsigned_ucast_eq take_bit_nat_eq_self)
  have u: "unat (acc + ?t) = unat acc + stake_nat v" and c: "chk_add acc ?t = Ok (acc + ?t)"
    using Cons.prems ut by (simp_all add: chk_add_def unat_word_ariths)
  from Cons.IH [of "acc + ?t"] Cons.prems show ?case by (simp add: add.assoc t c u)
qed simp

text \<open>The proposer is the validator whose interval of the cumulated stakes holds the index.\<close>

definition holds_slot :: "validator_info list \<Rightarrow> nat \<Rightarrow> address \<Rightarrow> bool" where
  "holds_slot vs i a \<longleftrightarrow> (\<exists>pre v post. vs = pre @ v # post \<and> a = vi_address v \<and>
     sum_list (map stake_nat pre) \<le> i \<and> i < sum_list (map stake_nat pre) + stake_nat v)"

lemma pick_slot:
  assumes "unat idx < sum_list (map stake_nat vs)" and "\<forall>v \<in> set vs. stake_nat v < 2 ^ 128"
  shows "\<exists>a. pick idx vs = Ok (Some a) \<and> holds_slot vs (unat idx) a"
  using assms
proof (induction vs arbitrary: idx)
  case (Cons v vs)
  let ?t = "ucast (total_stake v) :: u128"
  have t: "to_u128 (total_stake v) = Ok ?t" and ut: "unat ?t = stake_nat v"
    using Cons.prems by (simp_all add: to_u128_small stake_nat_def unsigned_ucast_eq take_bit_nat_eq_self)
  show ?case
  proof (cases "idx < ?t")
    case True
    then have "holds_slot (v # vs) (unat idx) (vi_address v)"
      unfolding holds_slot_def using ut
      by (intro exI [of _ "[]"] exI [of _ v] exI [of _ vs]) (simp add: word_less_nat_alt)
    with True show ?thesis by (simp add: t)
  next
    case False
    then have sub: "unat (idx - ?t) = unat idx - stake_nat v" and le: "stake_nat v \<le> unat idx"
      using ut by (simp_all add: unat_sub word_le_nat_alt not_less)
    with Cons.prems obtain a where a: "pick (idx - ?t) vs = Ok (Some a)"
      and "holds_slot vs (unat (idx - ?t)) a"
      using Cons.IH [of "idx - ?t"] by (auto simp: less_diff_conv2 add.commute)
    then obtain pre w post where "vs = pre @ w # post" "a = vi_address w"
      "sum_list (map stake_nat pre) \<le> unat (idx - ?t)"
      "unat (idx - ?t) < sum_list (map stake_nat pre) + stake_nat w"
      unfolding holds_slot_def by blast
    with sub le have "v # vs = (v # pre) @ w # post \<and> a = vi_address w \<and>
        sum_list (map stake_nat (v # pre)) \<le> unat idx \<and>
        unat idx < sum_list (map stake_nat (v # pre)) + stake_nat w"
      by simp linarith
    then have "holds_slot (v # vs) (unat idx) a"
      unfolding holds_slot_def by blast
    with False a show ?thesis by (simp add: t)
  qed
qed simp

lemma stake_le_sum: "v \<in> set vs \<Longrightarrow> stake_nat v \<le> sum_list (map stake_nat vs)"
  by (induction vs) auto

lemma select_slot:
  assumes "0 < sum_list (map stake_nat vs)" and "sum_list (map stake_nat vs) < 2 ^ 128"
  shows "\<exists>a. select_proposer X vs n h = Ok (Some a) \<and>
    holds_slot vs (unat (proposer_seed X n h) mod sum_list (map stake_nat vs)) a"
proof -
  from sum_stakes_Ok [of 0 vs] assms obtain t where
    t: "sum_stakes 0 vs = (Ok t :: (consensus_error, u128) outcome)" "unat t = sum_list (map stake_nat vs)"
    by auto
  let ?i = "ucast (proposer_seed X n h) mod t :: u128"
  have "unat (proposer_seed X n h) < 2 ^ 128"
    using unat_less [of "proposer_seed X n h"] by simp
  then have "unat (ucast (proposer_seed X n h) :: u128) = unat (proposer_seed X n h)"
    by (simp add: unsigned_ucast_eq take_bit_nat_eq_self)
  then have i: "unat ?i = unat (proposer_seed X n h) mod sum_list (map stake_nat vs)"
    by (simp add: unat_mod t(2))
  have "vs \<noteq> []" "t \<noteq> 0" using assms(1) t(2) by (auto simp del: sum_list_eq_0_iff)
  moreover have "\<forall>v \<in> set vs. stake_nat v < 2 ^ 128"
    using assms(2) stake_le_sum by (meson le_less_trans)
  moreover have "unat ?i < sum_list (map stake_nat vs)"
    using assms(1) by (simp add: i)
  ultimately show ?thesis
    using pick_slot [of ?i vs] t(1) i by (auto simp: select_proposer_def)
qed

lemma active_heads:
  assumes "active_validators s = Ok as"
  shows "as = filter (\<lambda>v. vi_active v \<and> unat MIN_STAKE \<le> stake_nat v) (map snd (vs_validators s))"
  using filter_active_Ok assms unfolding active_validators_def by blast

lemma set_inv_key: "set_inv s \<Longrightarrow> (b, v) \<in> set (vs_validators s) \<Longrightarrow> vi_address v = b"
  unfolding set_inv_def by (meson bt_sorted_distinct map_of_is_SomeI)

lemma slash_active:
  assumes inv: "set_inv s" and ok: "active_validators s = Ok as"
    and ok': "active_validators (slash a amount True s) = Ok as'"
  shows "as' = filter (\<lambda>v. vi_address v \<noteq> a) as"
proof -
  let ?P = "\<lambda>v. vi_active v \<and> unat MIN_STAKE \<le> stake_nat v"
  have upd: "filter ?P (map snd (bt_insert a (w\<lparr>vi_stake := x, vi_active := False\<rparr>) m))
      = filter (\<lambda>v. vi_address v \<noteq> a) (filter ?P (map snd m))"
    if "bt_sorted m" "\<forall>(b, v) \<in> set m. vi_address v = b" "map_of m a \<noteq> None" for w x m
    using that
  proof (induction m)
    case (Cons e m)
    obtain b v where e: "e = (b, v)" by (cases e)
    have b: "bt_sorted m" "\<forall>(c, u) \<in> set m. b < c" "vi_address v = b"
      using Cons.prems e by (auto simp: bt_sorted_def)
    show ?case
    proof (cases "a = b")
      case True
      have "\<forall>u \<in> set (map snd m). vi_address u \<noteq> a"
        using b(2) Cons.prems(2) e True by force
      then have "filter (\<lambda>v. vi_address v \<noteq> a) (filter ?P (map snd m)) = filter ?P (map snd m)"
        unfolding filter_filter by (intro filter_cong) auto
      with True e b(3) show ?thesis by simp
    next
      case False
      have "\<not> a < b"
        using False Cons.prems(3) e b(2) by (force dest: map_of_SomeD)
      with False Cons.IH b(1,3) Cons.prems e show ?thesis by simp
    qed
  qed simp
  have mem: "\<forall>(b, v) \<in> set (vs_validators s). vi_address v = b"
    using set_inv_key [OF inv] by blast
  have keep: "\<forall>v \<in> set (map snd (vs_validators s)). vi_address v \<noteq> a" if "map_of (vs_validators s) a = None"
    using that mem by (force simp: map_of_eq_None_iff)
  from active_heads [OF ok] active_heads [OF ok'] show ?thesis
  proof (cases "map_of (vs_validators s) a")
    case None
    have "\<forall>v \<in> set as. vi_address v \<noteq> a"
      using keep [OF None] unfolding active_heads [OF ok] by auto
    then have "filter (\<lambda>v. vi_address v \<noteq> a) as = as"
      unfolding filter_id_conv .
    with active_heads [OF ok] active_heads [OF ok'] None show ?thesis
      by (simp add: slash_def)
  next
    case (Some v)
    have "bt_sorted (vs_validators s)" using inv by (simp add: set_inv_def)
    from upd [OF this mem, where w = v] Some active_heads [OF ok] active_heads [OF ok'] show ?thesis
      by (simp add: slash_def)
  qed
qed

section \<open>Properties\<close>

text \<open>C30: the validator set keeps its books in every run of registrations, delegations and slashes:
  addresses are distinct and sorted, there are at most a thousand, every entry is under its own
  address, and the amount recorded as delegated to a validator is the saturated sum of the
  delegations naming it.\<close>

theorem validator_set_runs_sound:
  assumes "set_run s"
  shows "sorted_wrt (<) (map fst (vs_validators s)) \<and> length (vs_validators s) \<le> 1000 \<and>
    (\<forall>a v. get_validator s a = Some v \<longrightarrow>
       vi_address v = a \<and> vi_delegated v = delegated_to (vs_delegations s) a)"
  using set_run_inv [OF assms]
  by (auto simp: set_inv_def bt_sorted_def get_validator_def MAX_VALIDATORS_def)

definition example_set :: validator_set where
  "example_set = snd (delegate 9 2 7 (snd (register 1 (ucast MIN_STAKE) 0
     (snd (register 2 (ucast MIN_STAKE) 5 new_validator_set)))))"

lemma example_set_run: "set_run example_set"
  unfolding example_set_def
  by (intro set_run.del [OF _ prod.collapse [symmetric]] set_run.reg [OF _ prod.collapse [symmetric]] set_run.new)

lemma example_set_eq:
  "example_set = \<lparr>vs_validators =
     [(1, \<lparr>vi_address = 1, vi_stake = 10000000000000000000000, vi_delegated = 0,
          vi_commission_bps = 0, vi_active = True\<rparr>),
      (2, \<lparr>vi_address = 2, vi_stake = 10000000000000000000000, vi_delegated = 7,
          vi_commission_bps = 5, vi_active = True\<rparr>)],
     vs_delegations = [\<lparr>dg_delegator = 9, dg_validator = 2, dg_amount = 7\<rparr>]\<rparr>"
  by (simp add: example_set_def delegate_def register_def new_validator_set_def to_u128_def
      MIN_STAKE_def MAX_VALIDATORS_def delegated_to_def)

theorem validator_set_runs_sound_witness:
  "\<exists>v. get_validator example_set 2 = Some v \<and> vi_delegated v = delegated_to (vs_delegations example_set) 2 \<and>
     vi_delegated v = 7"
proof -
  obtain v where v: "get_validator example_set 2 = Some v" "vi_delegated v = 7"
    by (simp add: example_set_eq get_validator_def)
  with validator_set_runs_sound [OF example_set_run] show ?thesis by blast
qed

text \<open>Slashing with deactivation takes exactly that validator out of the active set: the
  validators active afterwards are those active before, in the same order, without it.\<close>

theorem slash_removes_from_active:
  assumes "set_run s" and "active_validators s = Ok as"
    and "active_validators (slash a amount True s) = Ok as'"
  shows "as' = filter (\<lambda>v. vi_address v \<noteq> a) as"
  by (rule slash_active [OF set_run_inv [OF assms(1)] assms(2,3)])

theorem slash_removes_from_active_witness:
  "\<exists>as. active_validators example_set = Ok as \<and> map vi_address as = [1, 2] \<and>
     active_validators (slash 1 5 True example_set) = Ok (filter (\<lambda>v. vi_address v \<noteq> 1) as)"
proof -
  define as as' where "as = map snd (vs_validators example_set)" and "as' = tl as"
  have as: "active_validators example_set = Ok as" "map vi_address as = [1, 2]"
    and as': "active_validators (slash 1 5 True example_set) = Ok as'"
    by (simp_all add: as_def as'_def active_validators_def example_set_eq slash_def to_u128_def
        total_stake_def sat_add_def MIN_STAKE_def)
  from slash_removes_from_active [OF example_set_run as(1) as'] as as' show ?thesis by metis
qed

text \<open>C35: the proposer is chosen by stake: when the stakes add up to a positive u128, selection
  returns without panic the validator whose interval of the cumulated stakes holds the 64-bit
  seed of the slot reduced modulo the total stake.\<close>

theorem proposer_by_stake:
  assumes "0 < sum_list (map stake_nat vs)" and "sum_list (map stake_nat vs) < 2 ^ 128"
  shows "\<exists>a. select_proposer X vs n h = Ok (Some a) \<and>
    holds_slot vs (unat (proposer_seed X n h) mod sum_list (map stake_nat vs)) a"
  by (rule select_slot [OF assms])

theorem proposer_by_stake_witness:
  "\<exists>a. select_proposer ref_ext [\<lparr>vi_address = 5, vi_stake = 3, vi_delegated = 1,
     vi_commission_bps = 0, vi_active = True\<rparr>] 7 9 = Ok (Some a)"
proof -
  let ?v = "\<lparr>vi_address = 5, vi_stake = 3, vi_delegated = 1, vi_commission_bps = 0, vi_active = True\<rparr>"
  have "stake_nat ?v = 4" by (simp add: stake_nat_def total_stake_def sat_add_def)
  then have "0 < sum_list (map stake_nat [?v])" "sum_list (map stake_nat [?v]) < 2 ^ 128" by simp_all
  from proposer_by_stake [OF this, of ref_ext 7 9] show ?thesis by blast
qed

text \<open>On the active set the choice is no choice: the seed has 64 bits and is below the
  minimum stake, so whatever the slot and the parent hash, the proposer is the active validator
  with the lowest address.\<close>

theorem proposer_is_lowest_address:
  assumes "set_run s" and "active_validators s = Ok (v # vs)"
    and "sum_list (map stake_nat (v # vs)) < 2 ^ 128"
  shows "select_proposer X (v # vs) n h = Ok (Some (vi_address v)) \<and>
    (\<forall>w \<in> set vs. vi_address v < vi_address w)"
proof
  let ?vs = "v # vs"
  let ?P = "\<lambda>v. vi_active v \<and> unat MIN_STAKE \<le> stake_nat v"
  have act: "?vs = filter ?P (map snd (vs_validators s))" by (rule active_heads [OF assms(2)])
  then have "v \<in> set (filter ?P (map snd (vs_validators s)))" by (metis list.set_intros(1))
  then have big: "2 ^ 64 \<le> stake_nat v" by (simp add: MIN_STAKE_def)
  have seed: "unat (proposer_seed X n h) < 2 ^ 64"
    using unat_less [of "proposer_seed X n h"] by simp
  have "0 < sum_list (map stake_nat ?vs)" using big by simp
  from select_slot [OF this assms(3), of X n h] obtain a where
    a: "select_proposer X ?vs n h = Ok (Some a)"
      "holds_slot ?vs (unat (proposer_seed X n h) mod sum_list (map stake_nat ?vs)) a" by blast
  have small: "unat (proposer_seed X n h) mod sum_list (map stake_nat ?vs) < stake_nat v"
    using seed big by (meson le_less_trans less_le_trans mod_less_eq_dividend)
  from a(2) obtain pre w post where w: "?vs = pre @ w # post" "a = vi_address w"
    "sum_list (map stake_nat pre) \<le> unat (proposer_seed X n h) mod sum_list (map stake_nat ?vs)"
    unfolding holds_slot_def by blast
  have "pre = []"
  proof (rule ccontr)
    assume "pre \<noteq> []"
    with w(1) have "stake_nat v \<le> sum_list (map stake_nat pre)" by (cases pre) auto
    with w(3) small show False by simp
  qed
  with w a(1) show "select_proposer X ?vs n h = Ok (Some (vi_address v))" by simp
  have inv: "set_inv s" by (rule set_run_inv [OF assms(1)])
  have key: "\<forall>e \<in> set (vs_validators s). vi_address (snd e) = fst e"
    using set_inv_key [OF inv] by auto
  then have eq: "map vi_address (map snd (vs_validators s)) = map fst (vs_validators s)" by simp
  have "sorted_wrt (<) (map vi_address (map snd (vs_validators s)))"
    unfolding eq using inv by (simp add: set_inv_def bt_sorted_def)
  then have "sorted_wrt (\<lambda>x y. vi_address x < vi_address y) (map snd (vs_validators s))"
    unfolding sorted_wrt_map [of _ vi_address] .
  then have "sorted_wrt (\<lambda>x y. vi_address x < vi_address y) ?vs"
    unfolding act by (rule sorted_wrt_filter)
  then show "\<forall>w \<in> set vs. vi_address v < vi_address w" by simp
qed

theorem proposer_is_lowest_address_witness:
  "\<exists>v w. active_validators example_set = Ok [v, w] \<and> select_proposer ref_ext [v, w] 7 9 = Ok (Some 1)"
proof -
  have "\<exists>v w. active_validators example_set = Ok [v, w] \<and> vi_address v = 1 \<and>
      sum_list (map stake_nat [v, w]) < 2 ^ 128"
    by (simp add: active_validators_def example_set_eq to_u128_def total_stake_def
        sat_add_def MIN_STAKE_def stake_nat_def)
  with proposer_is_lowest_address [OF example_set_run, of _ _ ref_ext 7 9] show ?thesis by metis
qed

text \<open>The block reward is not the documented 5% a year: the pool of 10^26 units is truncated to
  64 bits and the product saturates, so the reward of a block is 175482725 units, where 500
  basis points of the pool over the blocks of a year are 475646879756468797.\<close>

theorem block_reward_truncated:
  "unat block_reward_amount = 175482725 \<and>
   unat REWARD_POOL * unat APY_BPS div 10000 div unat BLOCKS_PER_YEAR = 475646879756468797"
  by (simp add: block_reward_amount_def REWARD_POOL_def APY_BPS_def BLOCKS_PER_YEAR_def sat_mul_def
      Let_def unat_div)

end
