(* ===== verification/Quyn_RugPull.thy ===== *)
theory Quyn_RugPull
  imports Complex_Main Quyn_Validation
begin

text \<open>
  quyn-intelligence/src: rug_pull_detector.rs (the anti-rug-pull detector), contract_scanner.rs
  (risk scores of bytecode and Solidity source) and liquidity_monitor.rs.

  \<open>f64\<close> values are a type parameter with their operations as an argument (\<open>f64_ops\<close>): no law
  of floating-point arithmetic is used. Solidity source is ASCII text: lower-casing of other
  letters is not modelled.
\<close>

section \<open>The detector\<close>

text \<open>
  \<open>f_frac n k\<close> is the literal \<open>n / 10 ^ k\<close>, \<open>f_to_int\<close> truncates towards zero (the casts to the
  integer types saturate it), \<open>f_fmt k\<close> prints with \<open>k\<close> decimals.
\<close>

record 'f f64_ops =
  f_of_u128 :: "u128 \<Rightarrow> 'f"
  f_lit :: "nat \<Rightarrow> 'f"
  f_frac :: "nat \<Rightarrow> nat \<Rightarrow> 'f"
  f_add :: "'f \<Rightarrow> 'f \<Rightarrow> 'f"
  f_sub :: "'f \<Rightarrow> 'f \<Rightarrow> 'f"
  f_div :: "'f \<Rightarrow> 'f \<Rightarrow> 'f"
  f_mul :: "'f \<Rightarrow> 'f \<Rightarrow> 'f"
  f_min :: "'f \<Rightarrow> 'f \<Rightarrow> 'f"
  f_gt :: "'f \<Rightarrow> 'f \<Rightarrow> bool"
  f_ge :: "'f \<Rightarrow> 'f \<Rightarrow> bool"
  f_round :: "'f \<Rightarrow> 'f"
  f_to_int :: "'f \<Rightarrow> int"
  f_fmt :: "nat \<Rightarrow> 'f \<Rightarrow> string"

record 'f rug_pull_config =
  max_single_tx_sell_percent :: 'f
  max_concentration_percent :: 'f
  min_lock_period_blocks :: u64
  contract_risk_threshold :: u8

definition default_rug_pull_config :: "'f f64_ops \<Rightarrow> 'f rug_pull_config" where
  "default_rug_pull_config F = \<lparr>max_single_tx_sell_percent = f_lit F 30,
     max_concentration_percent = f_lit F 40, min_lock_period_blocks = 100000,
     contract_risk_threshold = 60\<rparr>"

datatype contract_risk_factor =
    UnlimitedMintFunction | InstantOwnerWithdraw | HiddenBackdoor | NoTimeLockOnWithdraw
  | HighOwnerConcentration | NoLiquidityLock | SuspiciousDeployer | UnverifiedContract
  | RecentDeployment | MultipleRisksCombined

record 'f contract_risk_profile =
  crp_contract_address :: address
  crp_deployer :: address
  crp_deploy_block :: u64
  crp_risk_score :: u8
  crp_risk_factors :: "contract_risk_factor list"
  crp_is_verified :: bool
  crp_liquidity_locked :: bool
  crp_lock_expiry_block :: "u64 option"
  crp_total_supply :: u128
  crp_holder_count :: u32
  crp_top_holder_percent :: 'f

record liquidity_lock =
  ll_contract :: address
  ll_locked_amount :: u128
  ll_lock_start_block :: u64
  ll_lock_expiry_block :: u64
  ll_locker :: address
  ll_is_active :: bool

datatype rug_pull_alert_type =
    LargeSellDetected | LiquidityDrainAttempt | HighConcentrationSellAlert
  | ContractBackdoorDetected | SuspiciousMintBeforeSell | RapidDeployAndSell | CoordinatedDump

datatype alert_severity = Low | Medium | High | Critical

record rug_pull_alert =
  ra_alert_id :: b256
  ra_contract :: address
  ra_deployer :: address
  ra_alert_type :: rug_pull_alert_type
  ra_severity :: alert_severity
  ra_description :: string
  ra_triggered_block :: u64
  ra_transaction_hash :: "b256 option"

definition make_alert_id :: "ext \<Rightarrow> address \<Rightarrow> u64 \<Rightarrow> string \<Rightarrow> b256" where
  "make_alert_id X contract block desc =
     keccak256 X (address_bytes contract @ u64_be block @ ascii desc)"

record 'f rug_pull_detector =
  rp_config :: "'f rug_pull_config"
  rp_contract_registry :: "address \<rightharpoonup> 'f contract_risk_profile"
  rp_liquidity_locks :: "address \<rightharpoonup> liquidity_lock"
  rp_alerts :: "rug_pull_alert list"

definition new_rug_pull_detector :: "'f rug_pull_config \<Rightarrow> 'f rug_pull_detector" where
  "new_rug_pull_detector cfg = \<lparr>rp_config = cfg, rp_contract_registry = Map.empty,
     rp_liquidity_locks = Map.empty, rp_alerts = []\<rparr>"

definition percent :: "'f f64_ops \<Rightarrow> u128 \<Rightarrow> u128 \<Rightarrow> 'f" where
  "percent F a b = f_mul F (f_div F (f_of_u128 F a) (f_of_u128 F b)) (f_lit F 100)"

text \<open>The three checks that can alert, in order; the first alert is stored and returned.\<close>

definition large_sell_alert ::
  "'f f64_ops \<Rightarrow> ext \<Rightarrow> 'f rug_pull_config \<Rightarrow> signed_transaction \<Rightarrow> address \<Rightarrow> u128 \<Rightarrow>
    'f contract_risk_profile option \<Rightarrow> u128 \<Rightarrow> u64 \<Rightarrow> rug_pull_alert option" where
  "large_sell_alert F X cfg tx a value_wei contract_profile total_supply current_block =
     (case contract_profile of
        Some p \<Rightarrow>
          if 0 < total_supply then
            (let sell_pct = percent F value_wei total_supply
             in if f_gt F sell_pct (max_single_tx_sell_percent cfg) \<and> a = crp_deployer p
                then Some \<lparr>ra_alert_id = make_alert_id X (crp_contract_address p) current_block ''large_sell'',
                  ra_contract = crp_contract_address p, ra_deployer = crp_deployer p,
                  ra_alert_type = LargeSellDetected, ra_severity = Critical,
                  ra_description = ''Deployer selling '' @ f_fmt F 1 sell_pct @
                    ''% of supply in one tx (max '' @ f_fmt F 0 (max_single_tx_sell_percent cfg) @ ''%)'',
                  ra_triggered_block = current_block, ra_transaction_hash = Some (tx_hash X tx)\<rparr>
                else None)
          else None
      | None \<Rightarrow> None)"

definition concentration_alert ::
  "'f f64_ops \<Rightarrow> ext \<Rightarrow> 'f rug_pull_config \<Rightarrow> signed_transaction \<Rightarrow> u128 \<Rightarrow>
    'f contract_risk_profile option \<Rightarrow> u128 \<Rightarrow> u128 \<Rightarrow> u64 \<Rightarrow> rug_pull_alert option" where
  "concentration_alert F X cfg tx value_wei contract_profile sender_balance total_supply current_block =
     (if 0 < total_supply \<and> 0 < sender_balance then
        (let holder_pct = percent F sender_balance total_supply;
             sell_pct = percent F value_wei total_supply
         in if f_gt F holder_pct (max_concentration_percent cfg) \<and> f_gt F sell_pct (f_lit F 20)
            then (let contract = (case contract_profile of None \<Rightarrow> 0 | Some p \<Rightarrow> crp_contract_address p);
                      deployer = (case contract_profile of None \<Rightarrow> 0 | Some p \<Rightarrow> crp_deployer p)
                  in Some \<lparr>ra_alert_id = make_alert_id X contract current_block ''high_concentration_sell'',
                    ra_contract = contract, ra_deployer = deployer,
                    ra_alert_type = HighConcentrationSellAlert, ra_severity = High,
                    ra_description = ''Wallet holding '' @ f_fmt F 1 holder_pct @ ''% selling '' @
                      f_fmt F 1 sell_pct @ ''% of supply'',
                    ra_triggered_block = current_block, ra_transaction_hash = Some (tx_hash X tx)\<rparr>)
            else None)
      else None)"

definition rapid_sell_alert ::
  "'f f64_ops \<Rightarrow> ext \<Rightarrow> signed_transaction \<Rightarrow> address \<Rightarrow> u128 \<Rightarrow>
    'f contract_risk_profile option \<Rightarrow> u128 \<Rightarrow> u64 \<Rightarrow> rug_pull_alert option" where
  "rapid_sell_alert F X tx a value_wei contract_profile total_supply current_block =
     (case contract_profile of
        Some p \<Rightarrow>
          (let blocks_since_deploy = sat_sub current_block (crp_deploy_block p)
           in if blocks_since_deploy < 1000 \<and> a = crp_deployer p \<and> 0 < total_supply then
                (let sell_pct = percent F value_wei total_supply
                 in if f_gt F sell_pct (f_lit F 10)
                    then Some \<lparr>ra_alert_id = make_alert_id X (crp_contract_address p) current_block ''rapid_deploy_sell'',
                      ra_contract = crp_contract_address p, ra_deployer = crp_deployer p,
                      ra_alert_type = RapidDeployAndSell, ra_severity = High,
                      ra_description = ''Deployer selling '' @ f_fmt F 1 sell_pct @ ''% within '' @
                        dec (unat blocks_since_deploy) @ '' blocks of deployment'',
                      ra_triggered_block = current_block, ra_transaction_hash = Some (tx_hash X tx)\<rparr>
                    else None)
              else None)
      | None \<Rightarrow> None)"

definition rug_pull_analyse ::
  "'f f64_ops \<Rightarrow> ext \<Rightarrow> signed_transaction \<Rightarrow> 'f contract_risk_profile option \<Rightarrow> u128 \<Rightarrow> u128 \<Rightarrow> u64 \<Rightarrow>
    'f rug_pull_detector \<Rightarrow> (core_error, rug_pull_alert option \<times> 'f rug_pull_detector) outcome" where
  "rug_pull_analyse F X tx contract_profile sender_balance total_supply current_block rp =
     (case sender X tx of
        Ok a \<Rightarrow> obind (to_u128 (tx_value tx)) (\<lambda>value_wei.
          let alert =
            (case large_sell_alert F X (rp_config rp) tx a value_wei contract_profile total_supply current_block of
               Some al \<Rightarrow> Some al
             | None \<Rightarrow> (case concentration_alert F X (rp_config rp) tx value_wei contract_profile
                            sender_balance total_supply current_block of
                 Some al \<Rightarrow> Some al
               | None \<Rightarrow> rapid_sell_alert F X tx a value_wei contract_profile total_supply current_block))
          in case alert of
               Some al \<Rightarrow> Ok (Some al, rp\<lparr>rp_alerts := rp_alerts rp @ [al]\<rparr>)
             | None \<Rightarrow> Ok (None, rp))
      | Err e \<Rightarrow> Ok (None, rp) | Panic \<Rightarrow> Panic | Diverge \<Rightarrow> Diverge)"

definition register_contract ::
  "address \<Rightarrow> 'f contract_risk_profile \<Rightarrow> 'f rug_pull_detector \<Rightarrow> 'f rug_pull_detector" where
  "register_contract a p rp = rp\<lparr>rp_contract_registry := (rp_contract_registry rp)(a \<mapsto> p)\<rparr>"

definition lock_liquidity ::
  "address \<Rightarrow> u128 \<Rightarrow> u64 \<Rightarrow> address \<Rightarrow> u64 \<Rightarrow> 'f rug_pull_detector \<Rightarrow>
    ('e, liquidity_lock \<times> 'f rug_pull_detector) outcome" where
  "lock_liquidity contract amount lock_period_blocks locker current_block rp =
     obind (chk_add current_block lock_period_blocks) (\<lambda>expiry.
     let lock = \<lparr>ll_contract = contract, ll_locked_amount = amount, ll_lock_start_block = current_block,
           ll_lock_expiry_block = expiry, ll_locker = locker, ll_is_active = True\<rparr>
     in Ok (lock, rp\<lparr>rp_liquidity_locks := (rp_liquidity_locks rp)(contract \<mapsto> lock)\<rparr>))"

definition get_contract_profile :: "'f rug_pull_detector \<Rightarrow> address \<Rightarrow> 'f contract_risk_profile option" where
  "get_contract_profile rp a = rp_contract_registry rp a"

definition get_all_alerts :: "'f rug_pull_detector \<Rightarrow> rug_pull_alert list" where
  "get_all_alerts rp = rp_alerts rp"

definition get_alerts_for_contract :: "'f rug_pull_detector \<Rightarrow> address \<Rightarrow> rug_pull_alert list" where
  "get_alerts_for_contract rp a = filter (\<lambda>al. ra_contract al = a) (rp_alerts rp)"

section \<open>The contract scanner\<close>

datatype scan_recommendation = Safe | Caution | HighRisk | Dangerous

record contract_scan_result =
  cs_risk_score :: u8
  cs_risk_factors :: "contract_risk_factor list"
  cs_recommendation :: scan_recommendation
  cs_details :: "string list"

definition recommendation_from_score :: "u8 \<Rightarrow> scan_recommendation" where
  "recommendation_from_score score =
     (if score \<le> 30 then Safe else if score \<le> 60 then Caution
      else if score \<le> 85 then HighRisk else Dangerous)"

text \<open>\<open>score.clamp(0, 100) as u8\<close> on the small \<open>i32\<close> scores\<close>

definition clamp_score :: "int \<Rightarrow> u8" where
  "clamp_score score = word_of_int (max 0 (min 100 score))"

definition scan_result :: "int \<Rightarrow> contract_risk_factor list \<Rightarrow> string list \<Rightarrow> contract_scan_result" where
  "scan_result score factors details = \<lparr>cs_risk_score = clamp_score score, cs_risk_factors = factors,
     cs_recommendation = recommendation_from_score (clamp_score score), cs_details = details\<rparr>"

definition selfdestruct_detail :: string where
  "selfdestruct_detail = ''Contract contains selfdestruct function which can destroy contract and take funds''"

definition scan_bytecode :: "bytes \<Rightarrow> contract_scan_result" where
  "scan_bytecode bytecode =
     (if list_ex (\<lambda>w. w = 0xff) bytecode
      then scan_result 40 [HiddenBackdoor] [selfdestruct_detail]
      else scan_result 0 [] [])"

text \<open>\<open>str::contains\<close> and \<open>to_lowercase\<close> on ASCII text\<close>

fun contains :: "string \<Rightarrow> string \<Rightarrow> bool" where
  "contains [] p \<longleftrightarrow> p = []"
| "contains (c # s) p \<longleftrightarrow> take (length p) (c # s) = p \<or> contains s p"

definition lower_char :: "char \<Rightarrow> char" where
  "lower_char c = (if 65 \<le> (of_char c :: nat) \<and> (of_char c :: nat) \<le> 90 then char_of (of_char c + (32 :: nat)) else c)"

definition to_lowercase :: "string \<Rightarrow> string" where
  "to_lowercase s = map lower_char s"

text \<open>A rule that applies adds its points, risk factors and detail.\<close>

type_synonym scan_state = "int \<times> contract_risk_factor list \<times> string list"

definition rule :: "bool \<Rightarrow> int \<Rightarrow> contract_risk_factor list \<Rightarrow> string list \<Rightarrow> scan_state \<Rightarrow> scan_state" where
  "rule applies points factors details st = (case st of (score, fs, ds) \<Rightarrow>
     if applies then (score + points, fs @ factors, ds @ details) else (score, fs, ds))"

definition unlimited_mint :: "string \<Rightarrow> bool" where
  "unlimited_mint s \<longleftrightarrow> (contains s ''function mint'' \<or> contains s ''function _mint'') \<and>
     \<not> contains s ''maxsupply'' \<and> \<not> contains s ''max_supply'' \<and> \<not> contains s ''cap''"

definition instant_withdraw :: "string \<Rightarrow> bool" where
  "instant_withdraw s \<longleftrightarrow> (contains s ''transfer'' \<or> contains s ''send'' \<or> contains s ''call'') \<and>
     contains s ''owner'' \<and> \<not> contains s ''timelock'' \<and> \<not> contains s ''time lock'' \<and> \<not> contains s ''delay''"

definition fee_manipulation :: "string \<Rightarrow> bool" where
  "fee_manipulation s \<longleftrightarrow> (contains s ''fee'' \<or> contains s ''_fee'') \<and> contains s ''owner'' \<and> contains s ''set''"

definition no_timelock :: "string \<Rightarrow> bool" where
  "no_timelock s \<longleftrightarrow> (contains s ''withdraw'' \<or> contains s ''claim'') \<and> contains s ''owner'' \<and>
     \<not> contains s ''timelock'' \<and> \<not> contains s ''delay''"

definition scan_rules :: "string \<Rightarrow> scan_state \<Rightarrow> scan_state" where
  "scan_rules s =
     rule (contains s ''liquiditylock'' \<or> contains s ''liquidity locked'') (- 15) [] [] \<circ>
     rule (contains s ''audit'' \<or> contains s ''verified'') (- 10) [] [] \<circ>
     rule (contains s ''timelock'' \<or> contains s ''time lock'') (- 15) [] [] \<circ>
     rule (contains s ''renounceownership'' \<or> contains s ''ownershiprenounced'') (- 20) [] [] \<circ>
     rule (no_timelock s) 15 [NoTimeLockOnWithdraw] [] \<circ>
     rule (fee_manipulation s) 25 []
       [''Owner can set transfer fees to 100% effectively stealing all transferred funds''] \<circ>
     rule (contains s ''pause'' \<and> (contains s ''transfer'' \<or> contains s ''_beforetokentransfer'')) 20 []
       [''Owner can pause all transfers freezing funds''] \<circ>
     rule (contains s ''blacklist'' \<or> contains s ''_isblacklisted'') 15 []
       [''Contract can blacklist wallet addresses preventing them from selling''] \<circ>
     rule (contains s ''selfdestruct'' \<or> contains s ''suicide'') 40 [HiddenBackdoor] [selfdestruct_detail] \<circ>
     rule (instant_withdraw s) 30 [InstantOwnerWithdraw]
       [''Owner can withdraw funds instantly without timelock''] \<circ>
     rule (unlimited_mint s) 25 [UnlimitedMintFunction]
       [''Contract has unlimited mint function with no supply cap'']"

definition scan_solidity :: "string \<Rightarrow> contract_scan_result" where
  "scan_solidity source_code = (case scan_rules (to_lowercase source_code) (0, [], []) of
     (score, factors, details) \<Rightarrow> scan_result score factors details)"

section \<open>The liquidity monitor\<close>

record liquidity_state =
  ls_total_liquidity :: u128
  ls_last_known_block :: u64

record 'f liquidity_monitor =
  lm_config :: "'f rug_pull_config"
  lm_liquidity :: "address \<rightharpoonup> liquidity_state"
  lm_locks :: "address \<rightharpoonup> liquidity_lock"

definition new_liquidity_monitor :: "'f rug_pull_config \<Rightarrow> 'f liquidity_monitor" where
  "new_liquidity_monitor cfg = \<lparr>lm_config = cfg, lm_liquidity = Map.empty, lm_locks = Map.empty\<rparr>"

definition set_liquidity :: "address \<Rightarrow> u128 \<Rightarrow> u64 \<Rightarrow> 'f liquidity_monitor \<Rightarrow> 'f liquidity_monitor" where
  "set_liquidity contract total_liquidity block m = m\<lparr>lm_liquidity := (lm_liquidity m)(contract \<mapsto>
     \<lparr>ls_total_liquidity = total_liquidity, ls_last_known_block = block\<rparr>)\<rparr>"

definition register_lock :: "liquidity_lock \<Rightarrow> 'f liquidity_monitor \<Rightarrow> 'f liquidity_monitor" where
  "register_lock lock m = m\<lparr>lm_locks := (lm_locks m)(ll_contract lock \<mapsto> lock)\<rparr>"

definition would_drain_more_than_half :: "'f liquidity_monitor \<Rightarrow> address \<Rightarrow> u128 \<Rightarrow> ('e, bool) outcome" where
  "would_drain_more_than_half m contract amount = (case lm_liquidity m contract of
       None \<Rightarrow> Ok False
     | Some st \<Rightarrow> if ls_total_liquidity st = 0 then Ok False
         else obind (chk_mul amount 100) (\<lambda>x. obind (chk_mul (ls_total_liquidity st) 50) (\<lambda>y.
           Ok (y \<le> x))))"

definition get_lock :: "'f liquidity_monitor \<Rightarrow> address \<Rightarrow> liquidity_lock option" where
  "get_lock m contract = lm_locks m contract"

definition is_locked :: "'f liquidity_monitor \<Rightarrow> address \<Rightarrow> u64 \<Rightarrow> bool" where
  "is_locked m contract current_block = (case lm_locks m contract of
       None \<Rightarrow> False
     | Some l \<Rightarrow> ll_is_active l \<and> current_block < ll_lock_expiry_block l)"

section \<open>Alerts\<close>

lemma no_alert_without_supply:
  "large_sell_alert F X cfg tx a v p 0 n = None" "concentration_alert F X cfg tx v p b 0 n = None"
  "rapid_sell_alert F X tx a v p 0 n = None"
  by (simp_all add: large_sell_alert_def concentration_alert_def rapid_sell_alert_def split: option.splits)

lemma rug_pull_no_supply:
  "rug_pull_analyse F X tx p b 0 n rp = Ok (al, rp') \<Longrightarrow> al = None \<and> rp' = rp"
  by (auto simp: rug_pull_analyse_def no_alert_without_supply obind_eq_Ok split: outcome.splits)

lemma large_sell_alert_Some:
  "large_sell_alert F X cfg tx a v p t n = Some al \<Longrightarrow>
     (\<exists>q. p = Some q \<and> a = crp_deployer q \<and> ra_deployer al = a \<and> ra_contract al = crp_contract_address q \<and>
       f_gt F (percent F v t) (max_single_tx_sell_percent cfg)) \<and>
     0 < t \<and> ra_severity al = Critical \<and> ra_triggered_block al = n \<and> ra_transaction_hash al = Some (tx_hash X tx)"
  by (auto simp: large_sell_alert_def Let_def split: option.splits if_splits)

lemma concentration_alert_Some:
  "concentration_alert F X cfg tx v p b t n = Some al \<Longrightarrow>
     f_gt F (percent F b t) (max_concentration_percent cfg) \<and> f_gt F (percent F v t) (f_lit F 20) \<and>
     0 < t \<and> 0 < b \<and> ra_severity al = High \<and> ra_triggered_block al = n \<and>
     ra_transaction_hash al = Some (tx_hash X tx)"
  by (auto simp: concentration_alert_def Let_def split: option.splits if_splits)

lemma rapid_sell_alert_Some:
  "rapid_sell_alert F X tx a v p t n = Some al \<Longrightarrow>
     (\<exists>q. p = Some q \<and> a = crp_deployer q \<and> unat n < unat (crp_deploy_block q) + 1000 \<and>
       f_gt F (percent F v t) (f_lit F 10)) \<and>
     0 < t \<and> ra_severity al = High \<and> ra_triggered_block al = n \<and> ra_transaction_hash al = Some (tx_hash X tx)"
  by (auto simp: rapid_sell_alert_def Let_def word_less_nat_alt unat_sat_sub split: option.splits if_splits)

section \<open>Text search\<close>

lemma contains_iff: "contains s p \<longleftrightarrow> (\<exists>u v. s = u @ p @ v)"
proof (induction s)
  case (Cons c s)
  have "take (length p) (c # s) = p \<longleftrightarrow> (\<exists>v. c # s = p @ v)"
    by (metis append_eq_conv_conj append_take_drop_id)
  also have "\<dots> \<or> contains s p \<longleftrightarrow> (\<exists>u v. c # s = u @ p @ v)"
    unfolding Cons.IH by (metis append_Cons append_Nil list.inject neq_Nil_conv)
  finally show ?case by simp
qed simp

lemma contains_append: "contains s p \<Longrightarrow> contains (u @ s @ v) p"
  unfolding contains_iff by (metis append.assoc)

lemma contains_appendI [intro]: "contains t p \<Longrightarrow> contains (s @ t) p"
  using contains_append [of t p s "[]"] by simp

lemma unat_clamp_score: "unat (clamp_score n) = nat (max 0 (min 100 n))"
proof -
  let ?m = "max 0 (min 100 n)"
  have "uint (word_of_int ?m :: u8) = ?m"
    by (subst uint_word_of_int_eq, rule take_bit_int_eq_self) auto
  then show ?thesis by (metis clamp_score_def unat_eq_nat_uint)
qed

section \<open>Properties\<close>

text \<open>Every alert of the detector is justified and recorded: an analysis either leaves the
  detector as it is and raises nothing, or appends exactly the alert it returns, for this
  transaction and block, and then the supply is not zero and either the sender is the deployer of
  the profiled contract (always so for critical alerts) or the sender's balance exceeds the
  concentration limit.\<close>

theorem rug_pull_alert_justified:
  assumes "rug_pull_analyse F X tx p b t n rp = Ok (r, rp')"
  shows "(case r of None \<Rightarrow> rp' = rp
    | Some al \<Rightarrow> rp' = rp\<lparr>rp_alerts := rp_alerts rp @ [al]\<rparr> \<and> t \<noteq> 0 \<and>
        ra_triggered_block al = n \<and> ra_transaction_hash al = Some (tx_hash X tx) \<and>
        (ra_severity al = Critical \<or> ra_severity al = High) \<and>
        (\<exists>a. sender X tx = Ok a \<and>
          (if ra_severity al = Critical then \<exists>q. p = Some q \<and> a = crp_deployer q \<and> ra_deployer al = a
           else (\<exists>q. p = Some q \<and> a = crp_deployer q \<and> unat n < unat (crp_deploy_block q) + 1000) \<or>
             f_gt F (percent F b t) (max_concentration_percent (rp_config rp)))))"
proof (cases r)
  case None
  with assms show ?thesis
    by (auto simp: rug_pull_analyse_def Let_def obind_eq_Ok split: outcome.splits option.splits)
next
  case (Some al)
  define v :: u128 where "v = ucast (tx_value tx)"
  from assms Some obtain a where a: "sender X tx = Ok a" and u: "unat (tx_value tx) < 2 ^ 128"
    by (auto simp: rug_pull_analyse_def to_u128_def obind_eq_Ok split: outcome.splits if_splits)
  have v: "to_u128 (tx_value tx) = (Ok v :: (core_error, u128) outcome)"
    using u by (simp add: to_u128_def v_def)
  note an = assms [unfolded rug_pull_analyse_def Let_def Some, simplified a v, simplified]
  consider (large) "large_sell_alert F X (rp_config rp) tx a v p t n = Some al"
    | (conc) "concentration_alert F X (rp_config rp) tx v p b t n = Some al"
    | (rapid) "rapid_sell_alert F X tx a v p t n = Some al"
    using an by (auto split: option.splits)
  moreover have "rp' = rp\<lparr>rp_alerts := rp_alerts rp @ [al]\<rparr>"
    using an by (auto split: option.splits)
  ultimately show ?thesis
    by cases (use a Some in \<open>auto dest!: large_sell_alert_Some concentration_alert_Some rapid_sell_alert_Some\<close>)
qed

text \<open>The deployer of a token with a supply of 1000 sells 500 of it; the reference
  arithmetic is that of the rationals.\<close>

definition ref_f64 :: "rat f64_ops" where
  "ref_f64 = \<lparr>f_of_u128 = (\<lambda>x. of_nat (unat x)), f_lit = of_nat, f_frac = (\<lambda>n k. of_nat n / 10 ^ k),
     f_add = (+), f_sub = (-), f_div = (/), f_mul = (*), f_min = min, f_gt = (>), f_ge = (\<ge>),
     f_round = (\<lambda>x. of_int (if 0 \<le> x then \<lfloor>x + 1 / 2\<rfloor> else \<lceil>x - 1 / 2\<rceil>)),
     f_to_int = (\<lambda>x. if 0 \<le> x then \<lfloor>x\<rfloor> else \<lceil>x\<rceil>),
     f_fmt = (\<lambda>k x. dec (nat \<lfloor>x\<rfloor>))\<rparr>"

definition example_profile :: "rat contract_risk_profile" where
  "example_profile = \<lparr>crp_contract_address = 9, crp_deployer = 3, crp_deploy_block = 1,
     crp_risk_score = 0, crp_risk_factors = [], crp_is_verified = False, crp_liquidity_locked = False,
     crp_lock_expiry_block = None, crp_total_supply = 1000, crp_holder_count = 1, crp_top_holder_percent = 90\<rparr>"

theorem rug_pull_alert_justified_witness:
  "\<exists>al rp'. rug_pull_analyse ref_f64 ref_ext (example_tx 0 1 500) (Some example_profile) 0 1000 7
      (new_rug_pull_detector (default_rug_pull_config ref_f64)) = Ok (Some al, rp') \<and>
    ra_deployer al = 3 \<and> rp_alerts rp' = [al]"
proof -
  let ?rp = "new_rug_pull_detector (default_rug_pull_config ref_f64)"
  have u: "to_u128 (tx_value (example_tx 0 1 500)) = (Ok 500 :: (core_error, u128) outcome)"
    by (simp add: to_u128_def example_tx_def accessor_defs)
  have "\<exists>al. large_sell_alert ref_f64 ref_ext (rp_config ?rp) (example_tx 0 1 500) 3 500 (Some example_profile) 1000 7
     = Some al \<and> ra_severity al = Critical"
    by (simp add: large_sell_alert_def example_profile_def percent_def ref_f64_def
        new_rug_pull_detector_def default_rug_pull_config_def)
  then obtain al where al: "large_sell_alert ref_f64 ref_ext (rp_config ?rp) (example_tx 0 1 500) 3 500
      (Some example_profile) 1000 7 = Some al" and c: "ra_severity al = Critical" by blast
  have "rug_pull_analyse ref_f64 ref_ext (example_tx 0 1 500) (Some example_profile) 0 1000 7 ?rp =
     Ok (Some al, ?rp\<lparr>rp_alerts := rp_alerts ?rp @ [al]\<rparr>)"
    by (simp add: rug_pull_analyse_def u al)
  from rug_pull_alert_justified [OF this] this c show ?thesis
    by (auto simp: new_rug_pull_detector_def)
qed

text \<open>The comment: it names a lock, a renounced ownership, an audit and a cap.\<close>

definition whitewash :: string where
  "whitewash = ''// TimeLock LiquidityLock RenounceOwnership audit cap''"

text \<open>A comment defeats the scanner: whatever a Solidity source does, appending one comment to
  it brings its risk score down to at most 40 and its recommendation to Safe or Caution, because
  the words that lower the score and switch rules off are searched in comments too.\<close>

theorem scan_comment_defeats:
  "unat (cs_risk_score (scan_solidity (s @ whitewash))) \<le> 40 \<and>
   cs_recommendation (scan_solidity (s @ whitewash)) \<in> {Safe, Caution}"
proof -
  let ?t = "to_lowercase (s @ whitewash)"
  have t: "contains ?t ''cap''" "contains ?t ''timelock''" "contains ?t ''liquiditylock''"
    "contains ?t ''renounceownership''" "contains ?t ''audit''"
    unfolding to_lowercase_def map_append by (rule contains_appendI, code_simp)+
  then have off: "\<not> unlimited_mint ?t" "\<not> instant_withdraw ?t" "\<not> no_timelock ?t"
    by (simp_all add: unlimited_mint_def instant_withdraw_def no_timelock_def)
  obtain score fs ds where r: "scan_rules ?t (0, [], []) = (score, fs, ds)"
    by (cases "scan_rules ?t (0, [], [])") auto
  moreover have "fst (scan_rules ?t (0, [], [])) \<le> 40"
    using t off by (simp add: scan_rules_def rule_def del: contains.simps)
  ultimately have "score \<le> 40" by simp
  then have c: "unat (clamp_score score) \<le> 40"
    by (simp add: unat_clamp_score)
  then show ?thesis
    by (simp add: scan_solidity_def r scan_result_def recommendation_from_score_def word_le_nat_alt)
qed

text \<open>The drain test is exact while the products fit: for a contract with known, non-zero
  liquidity, the test says whether the amount is at least half of the liquidity; when the amount
  times 100 or the liquidity times 50 exceeds 128 bits it panics instead.\<close>

theorem would_drain_exact:
  assumes "lm_liquidity m c = Some st" and "ls_total_liquidity st \<noteq> 0"
  shows "would_drain_more_than_half m c amount =
    (if unat amount * 100 < 2 ^ 128 \<and> unat (ls_total_liquidity st) * 50 < 2 ^ 128
     then Ok (unat (ls_total_liquidity st) \<le> 2 * unat amount) else Panic)"
  using assms
  by (auto simp: would_drain_more_than_half_def chk_mul_def word_le_nat_alt unat_word_ariths)

theorem would_drain_exact_witness:
  "would_drain_more_than_half (set_liquidity 9 1000 1 (new_liquidity_monitor (default_rug_pull_config ref_f64))) 9 500
     = (Ok True :: (core_error, bool) outcome)"
proof -
  let ?m = "set_liquidity 9 1000 1 (new_liquidity_monitor (default_rug_pull_config ref_f64))"
  have "lm_liquidity ?m 9 = Some \<lparr>ls_total_liquidity = 1000, ls_last_known_block = 1\<rparr>"
    by (simp add: set_liquidity_def)
  from would_drain_exact [OF this, of 500] show ?thesis by simp
qed

end
