(* ===== verification/Quyn_Fraud.thy ===== *)
theory Quyn_Fraud
  imports Quyn_ChainLaws Quyn_RugPull
begin

text \<open>
  quyn-intelligence/src: models.rs (thresholds), patterns.rs (flagged addresses),
  risk_scorer.rs (flags and recommendations) and fraud_detector.rs (the eight checks of a
  transaction against the chain and the state). A check returns its score with the flags it
  pushes. The eighth check runs the rug-pull detector, whose state an analysis threads through.
\<close>

section \<open>Configuration, flags, recommendations\<close>

record fraud_config =
  low_threshold :: u8
  medium_threshold :: u8
  high_threshold :: u8
  critical_threshold :: u8
  max_tx_per_minute :: u32
  max_tx_per_hour :: u32
  max_value_per_hour :: u128
  min_wallet_age_blocks :: u64
  new_wallet_large_tx :: u128

definition default_fraud_config :: fraud_config where
  "default_fraud_config = \<lparr>low_threshold = 30, medium_threshold = 60, high_threshold = 85,
     critical_threshold = 86, max_tx_per_minute = 10, max_tx_per_hour = 50,
     max_value_per_hour = - 1, min_wallet_age_blocks = 10,
     new_wallet_large_tx = 1000 * 10 ^ 18\<rparr>"

datatype fraud_recommendation = Include | IncludeWithLog | Delay | Reject

datatype fraud_flag =
    NewWalletLargeTransfer | HighVelocity | ExtremeVelocity | LargeBalanceDrain
  | FullBalanceDrain | RoundNumber | DustAttack | RapidWalletDrain | SuspiciousRecipient
  | PotentialRugPull | SuspiciousLargeSell | HighConcentrationSell | LiquidityDrainAttempt
  | SuspiciousContractInteraction

fun flag_str :: "fraud_flag \<Rightarrow> string" where
  "flag_str NewWalletLargeTransfer = ''NEW_WALLET_LARGE_TRANSFER''"
| "flag_str HighVelocity = ''HIGH_VELOCITY''"
| "flag_str ExtremeVelocity = ''EXTREME_VELOCITY''"
| "flag_str LargeBalanceDrain = ''LARGE_BALANCE_DRAIN''"
| "flag_str FullBalanceDrain = ''FULL_BALANCE_DRAIN''"
| "flag_str RoundNumber = ''ROUND_NUMBER''"
| "flag_str DustAttack = ''DUST_ATTACK''"
| "flag_str RapidWalletDrain = ''RAPID_WALLET_DRAIN''"
| "flag_str SuspiciousRecipient = ''SUSPICIOUS_RECIPIENT''"
| "flag_str PotentialRugPull = ''POTENTIAL_RUG_PULL''"
| "flag_str SuspiciousLargeSell = ''SUSPICIOUS_LARGE_SELL''"
| "flag_str HighConcentrationSell = ''HIGH_CONCENTRATION_SELL''"
| "flag_str LiquidityDrainAttempt = ''LIQUIDITY_DRAIN_ATTEMPT''"
| "flag_str SuspiciousContractInteraction = ''SUSPICIOUS_CONTRACT_INTERACTION''"

record fraud_analysis =
  fa_transaction_hash :: b256
  fa_risk_score :: u8
  fa_flags :: "fraud_flag list"
  fa_recommendation :: fraud_recommendation
  fa_timestamp :: u64

definition get_recommendation :: "u8 \<Rightarrow> fraud_config \<Rightarrow> fraud_recommendation" where
  "get_recommendation score cfg =
     (if score \<le> low_threshold cfg then Include
      else if score \<le> medium_threshold cfg then IncludeWithLog
      else if score \<le> high_threshold cfg then Delay
      else Reject)"

section \<open>The pattern database\<close>

type_synonym pattern_db = "address set"

definition new_pattern_db :: pattern_db where "new_pattern_db = {}"
definition is_suspicious :: "pattern_db \<Rightarrow> address \<Rightarrow> bool" where "is_suspicious db a \<longleftrightarrow> a \<in> db"
definition add_suspicious :: "address \<Rightarrow> pattern_db \<Rightarrow> pattern_db" where "add_suspicious a db = insert a db"
definition remove_suspicious :: "address \<Rightarrow> pattern_db \<Rightarrow> pattern_db" where
  "remove_suspicious a db = db - {a}"

text \<open>\<open>set_serde\<close>: the addresses as hexadecimal strings, in the order \<open>as\<close> in which the set is walked;
  strings that are no address are skipped when they are read.\<close>

definition serialize_patterns :: "ext \<Rightarrow> address list \<Rightarrow> string list" where
  "serialize_patterns X as = map (\<lambda>a. hex_encode X (address_bytes a)) as"

definition deserialize_patterns :: "ext \<Rightarrow> string list \<Rightarrow> pattern_db" where
  "deserialize_patterns X vec = foldl (\<lambda>db s. case hex_decode X (trim_start_matches ''0x'' s) of
       Inr b \<Rightarrow> if length b = 20 then insert (of_be b) db else db
     | Inl _ \<Rightarrow> db) {} vec"

lemma patterns_roundtrip:
  assumes "hex_crate X" and "set as = db"
  shows "deserialize_patterns X (serialize_patterns X as) = db"
proof -
  have t: "trim_start_matches ''0x'' (hex_encode X b) = hex_encode X b" for b
    by (simp add: hex_crate.hex_encode_digits [OF assms(1)] trim_start_matches_id hex_digits_no_prefix)
  have "foldl (\<lambda>db s. case hex_decode X (trim_start_matches ''0x'' s) of
       Inr b \<Rightarrow> if length b = 20 then insert (of_be b) db else db
     | Inl _ \<Rightarrow> db) acc (map (\<lambda>a. hex_encode X (address_bytes a)) as) = set as \<union> acc" for acc :: pattern_db
    by (induction as arbitrary: acc) (auto simp: t hex_crate.hex_roundtrip [OF assms(1)])
  from this [of "{}"] assms(2) show ?thesis by (simp add: deserialize_patterns_def serialize_patterns_def)
qed

section \<open>The checks\<close>

record 'f fraud_detector =
  fd_pattern_db :: pattern_db
  fd_config :: fraud_config
  fd_rug_pull :: "'f rug_pull_detector option"

definition new_detector :: "fraud_config \<Rightarrow> 'f fraud_detector" where
  "new_detector cfg = \<lparr>fd_pattern_db = new_pattern_db, fd_config = cfg, fd_rug_pull = None\<rparr>"

definition new_with_rug_pull :: "fraud_config \<Rightarrow> 'f rug_pull_detector \<Rightarrow> 'f fraud_detector" where
  "new_with_rug_pull cfg rp = \<lparr>fd_pattern_db = new_pattern_db, fd_config = cfg, fd_rug_pull = Some rp\<rparr>"

definition ONE_QYN_WEI :: u128 where "ONE_QYN_WEI = 10 ^ 18"
definition DUST_WEI :: u128 where "DUST_WEI = 1000000000000000"
definition VELOCITY_WINDOW_BLOCKS :: u64 where "VELOCITY_WINDOW_BLOCKS = 60"
definition RAPID_DRAIN_WINDOW_BLOCKS :: u64 where "RAPID_DRAIN_WINDOW_BLOCKS = 10"
definition HIGH_VELOCITY_THRESHOLD :: u32 where "HIGH_VELOCITY_THRESHOLD = 10"
definition EXTREME_VELOCITY_THRESHOLD :: u32 where "EXTREME_VELOCITY_THRESHOLD = 20"
definition DUST_ATTACK_COUNT_THRESHOLD :: u32 where "DUST_ATTACK_COUNT_THRESHOLD = 50"
definition RAPID_DRAIN_TX_THRESHOLD :: u32 where "RAPID_DRAIN_TX_THRESHOLD = 5"
definition RAPID_DRAIN_BALANCE_PCT :: u128 where "RAPID_DRAIN_BALANCE_PCT = 50"

type_synonym check = "(u8 \<times> fraud_flag list) core_result"

text \<open>The two nested loops of the history checks: every transaction of the blocks in the range.\<close>

fun fold_txs :: "(signed_transaction \<Rightarrow> 'a \<Rightarrow> 'a core_result) \<Rightarrow> signed_transaction list \<Rightarrow> 'a \<Rightarrow> 'a core_result" where
  "fold_txs f [] acc = Ok acc"
| "fold_txs f (t # ts) acc = obind (f t acc) (\<lambda>acc'. fold_txs f ts acc')"

fun scan_blocks :: "'d kv \<Rightarrow> ext \<Rightarrow> codec \<Rightarrow> 'd \<Rightarrow> (signed_transaction \<Rightarrow> 'a \<Rightarrow> 'a core_result) \<Rightarrow>
    u64 list \<Rightarrow> 'a \<Rightarrow> 'a core_result" where
  "scan_blocks K X C c f [] acc = Ok acc"
| "scan_blocks K X C c f (n # ns) acc = (case get_block_by_number K X C c n of
       Ok (Some b) \<Rightarrow> obind (fold_txs f (b_body b) acc) (\<lambda>acc'. scan_blocks K X C c f ns acc')
     | Ok None \<Rightarrow> scan_blocks K X C c f ns acc
     | Err e \<Rightarrow> scan_blocks K X C c f ns acc
     | Panic \<Rightarrow> Panic | Diverge \<Rightarrow> Diverge)"

text \<open>\<open>start..block_number\<close>\<close>

definition u64_range :: "u64 \<Rightarrow> u64 \<Rightarrow> u64 list" where
  "u64_range a b = map of_nat [unat a ..< unat b]"

definition invalid_sender :: "ext \<Rightarrow> signed_transaction \<Rightarrow> address core_result" where
  "invalid_sender X tx = map_err (invalid_tx X) (sender X tx)"

definition check_new_wallet :: "'d kv \<Rightarrow> ext \<Rightarrow> fraud_config \<Rightarrow> signed_transaction \<Rightarrow> 'd \<Rightarrow> check" where
  "check_new_wallet K X cfg tx s = (case sender X tx of
       Ok a \<Rightarrow>
         (let go = (\<lambda>n. if n \<noteq> 0 then Ok (0, [])
            else obind (to_u128 (tx_value tx)) (\<lambda>value_wei.
              if new_wallet_large_tx cfg \<le> value_wei then Ok (25, [NewWalletLargeTransfer]) else Ok (0, [])))
          in case get_nonce K X s a of
              Ok n \<Rightarrow> go n | Err e \<Rightarrow> go 0 | Panic \<Rightarrow> Panic | Diverge \<Rightarrow> Diverge)
     | _ \<Rightarrow> Ok (0, []))"

definition check_velocity :: "'d kv \<Rightarrow> ext \<Rightarrow> codec \<Rightarrow> 'd \<Rightarrow> address \<Rightarrow> u64 \<Rightarrow> check" where
  "check_velocity K X C c a block_number =
     (if block_number < 2 then Ok (0, [])
      else let start = sat_sub block_number VELOCITY_WINDOW_BLOCKS in
        obind (scan_blocks K X C c
            (\<lambda>t count. if sender X t = Ok a then chk_add count (1 :: u32) else Ok count)
            (u64_range start block_number) 0) (\<lambda>count.
        if EXTREME_VELOCITY_THRESHOLD < count then Ok (40, [ExtremeVelocity])
        else if HIGH_VELOCITY_THRESHOLD < count then Ok (20, [HighVelocity])
        else Ok (0, [])))"

definition check_large_value :: "'d kv \<Rightarrow> ext \<Rightarrow> signed_transaction \<Rightarrow> 'd \<Rightarrow> check" where
  "check_large_value K X tx s =
     obind (invalid_sender X tx) (\<lambda>a.
     obind (get_balance K X s a) (\<lambda>balance.
     obind (to_u128 balance) (\<lambda>balance_wei.
     obind (to_u128 (tx_value tx)) (\<lambda>value_wei.
     if balance_wei = 0 then Ok (0, [])
     else if balance_wei \<le> value_wei then Ok (25, [FullBalanceDrain])
     else obind (chk_mul value_wei 100) (\<lambda>x. obind (chk_mul balance_wei 80) (\<lambda>y.
       if y \<le> x then Ok (15, [LargeBalanceDrain]) else Ok (0, [])))))))"

definition round_amounts :: "u128 list" where
  "round_amounts = [1, 10, 100, 1000, 10000, 100000, 1000000, 10000000, 100000000]"

definition check_round_numbers :: "signed_transaction \<Rightarrow> check" where
  "check_round_numbers tx = obind (to_u128 (tx_value tx)) (\<lambda>value_wei.
     if value_wei = 0 then Ok (0, [])
     else if value_wei mod ONE_QYN_WEI \<noteq> 0 then Ok (0, [])
     else if value_wei div ONE_QYN_WEI \<in> set round_amounts then Ok (5, [RoundNumber])
     else Ok (0, []))"

definition check_dust_attack ::
  "'d kv \<Rightarrow> ext \<Rightarrow> codec \<Rightarrow> 'd \<Rightarrow> signed_transaction \<Rightarrow> u64 \<Rightarrow> check" where
  "check_dust_attack K X C c tx block_number =
     obind (to_u128 (tx_value tx)) (\<lambda>value_wei.
     if DUST_WEI \<le> value_wei then Ok (0, [])
     else obind (invalid_sender X tx) (\<lambda>a.
       if block_number < 2 then Ok (0, [])
       else let start = sat_sub block_number (VELOCITY_WINDOW_BLOCKS * 2) in
         obind (scan_blocks K X C c (\<lambda>t dust_count.
             if sender X t = Ok a
             then obind (to_u128 (tx_value t)) (\<lambda>v.
               if v < DUST_WEI then chk_add dust_count (1 :: u32) else Ok dust_count)
             else Ok dust_count) (u64_range start block_number) 0) (\<lambda>dust_count.
         if DUST_ATTACK_COUNT_THRESHOLD \<le> dust_count then Ok (30, [DustAttack]) else Ok (0, []))))"

definition check_rapid_drain ::
  "'d kv \<Rightarrow> ext \<Rightarrow> codec \<Rightarrow> 'd \<Rightarrow> 'd \<Rightarrow> signed_transaction \<Rightarrow> u64 \<Rightarrow> check" where
  "check_rapid_drain K X C c s tx block_number =
     (if block_number < RAPID_DRAIN_WINDOW_BLOCKS + 1 then Ok (0, [])
      else obind (invalid_sender X tx) (\<lambda>a.
        let start = sat_sub block_number RAPID_DRAIN_WINDOW_BLOCKS in
        obind (scan_blocks K X C c (\<lambda>t (tx_count, value_sent).
            if sender X t = Ok a
            then obind (chk_add tx_count (1 :: u32)) (\<lambda>tx_count'.
                 obind (to_u128 (tx_value t)) (\<lambda>v.
                 obind (chk_add value_sent v) (\<lambda>value_sent'. Ok (tx_count', value_sent'))))
            else Ok (tx_count, value_sent)) (u64_range start block_number) (0, 0))
          (\<lambda>(tx_count, value_sent).
        if tx_count < RAPID_DRAIN_TX_THRESHOLD then Ok (0, [])
        else obind (obind (get_balance K X s a) to_u128) (\<lambda>current_balance.
          obind (chk_add current_balance value_sent) (\<lambda>balance_before_window.
          if balance_before_window = 0 then Ok (0, [])
          else obind (chk_mul value_sent 100) (\<lambda>x.
            if RAPID_DRAIN_BALANCE_PCT \<le> x div balance_before_window
            then Ok (35, [RapidWalletDrain]) else Ok (0, [])))))))"

definition check_known_patterns :: "pattern_db \<Rightarrow> signed_transaction \<Rightarrow> check" where
  "check_known_patterns db tx = (case to_addr tx of
       Some a \<Rightarrow> if is_suspicious db a then Ok (40, [SuspiciousRecipient]) else Ok (0, [])
     | None \<Rightarrow> Ok (0, []))"

definition check_rug_pull ::
  "'f f64_ops \<Rightarrow> ext \<Rightarrow> signed_transaction \<Rightarrow> u64 \<Rightarrow> 'f rug_pull_detector option \<Rightarrow>
    (core_error, (u8 \<times> fraud_flag list) \<times> 'f rug_pull_detector option) outcome" where
  "check_rug_pull F X tx block_number rp = (case rp of
       None \<Rightarrow> Ok ((0, []), None)
     | Some guard \<Rightarrow> obind (rug_pull_analyse F X tx None 0 0 block_number guard) (\<lambda>(alert, guard').
         Ok ((case alert of
             None \<Rightarrow> (0, [])
           | Some al \<Rightarrow> (case ra_severity al of
               Critical \<Rightarrow> (50, [PotentialRugPull])
             | High \<Rightarrow> (30, [SuspiciousLargeSell])
             | Medium \<Rightarrow> (15, [])
             | Low \<Rightarrow> (5, []))), Some guard')))"

text \<open>\<open>score += check\<close> in \<open>u8\<close> arithmetic, with the flags the check pushed.\<close>

definition add_check :: "check \<Rightarrow> u8 \<times> fraud_flag list \<Rightarrow> check" where
  "add_check r acc = obind r (\<lambda>(s, fl). obind (chk_add (fst acc) s) (\<lambda>score. Ok (score, snd acc @ fl)))"

text \<open>The analysis, with the rug-pull detector as it leaves it.\<close>

definition analyse_transaction ::
  "'d kv \<Rightarrow> ext \<Rightarrow> codec \<Rightarrow> 'f f64_ops \<Rightarrow> 'f fraud_detector \<Rightarrow> signed_transaction \<Rightarrow> 'd \<Rightarrow> 'd \<Rightarrow> u64 \<Rightarrow>
    (core_error, fraud_analysis \<times> 'f rug_pull_detector option) outcome" where
  "analyse_transaction K X C F D tx c s block_number =
     obind (invalid_sender X tx) (\<lambda>a.
     obind (add_check (check_new_wallet K X (fd_config D) tx s) (0, [])) (\<lambda>r1.
     obind (add_check (check_velocity K X C c a block_number) r1) (\<lambda>r2.
     obind (add_check (check_large_value K X tx s) r2) (\<lambda>r3.
     obind (add_check (check_round_numbers tx) r3) (\<lambda>r4.
     obind (add_check (check_dust_attack K X C c tx block_number) r4) (\<lambda>r5.
     obind (add_check (check_rapid_drain K X C c s tx block_number) r5) (\<lambda>r6.
     obind (add_check (check_known_patterns (fd_pattern_db D) tx) r6) (\<lambda>r7.
     obind (check_rug_pull F X tx block_number (fd_rug_pull D)) (\<lambda>(e8, rp').
     obind (add_check (Ok e8) r7) (\<lambda>r8.
     let score = min (fst r8) 100
     in Ok (\<lparr>fa_transaction_hash = tx_hash X tx, fa_risk_score = score, fa_flags = snd r8,
          fa_recommendation = get_recommendation score (fd_config D), fa_timestamp = block_number\<rparr>, rp')))))))))))"

section \<open>The scores of the checks\<close>

text \<open>What a flag adds to the score.\<close>

fun flag_weight :: "fraud_flag \<Rightarrow> nat" where
  "flag_weight NewWalletLargeTransfer = 25"
| "flag_weight HighVelocity = 20"
| "flag_weight ExtremeVelocity = 40"
| "flag_weight LargeBalanceDrain = 15"
| "flag_weight FullBalanceDrain = 25"
| "flag_weight RoundNumber = 5"
| "flag_weight DustAttack = 30"
| "flag_weight RapidWalletDrain = 35"
| "flag_weight SuspiciousRecipient = 40"
| "flag_weight PotentialRugPull = 50"
| "flag_weight SuspiciousLargeSell = 30"
| "flag_weight HighConcentrationSell = 0"
| "flag_weight LiquidityDrainAttempt = 0"
| "flag_weight SuspiciousContractInteraction = 0"

text \<open>A check with these flags to choose from pushes at most one, and scores its weight.\<close>

definition scores :: "fraud_flag set \<Rightarrow> check \<Rightarrow> bool" where
  "scores S r \<longleftrightarrow> (\<forall>sc fl. r = Ok (sc, fl) \<longrightarrow> unat sc = sum_list (map flag_weight fl) \<and>
     set fl \<subseteq> S \<and> length fl \<le> 1)"

lemma scores_Ok:
  "scores S (Ok (0, []))" "f \<in> S \<Longrightarrow> unat x = flag_weight f \<Longrightarrow> scores S (Ok (x, [f]))"
  "scores S (Err e)" "scores S Panic" "scores S Diverge"
  by (simp_all add: scores_def)

lemma scores_obind: "(\<And>x. r = Ok x \<Longrightarrow> scores S (f x)) \<Longrightarrow> scores S (obind r f)"
  by (cases r) (simp_all add: scores_Ok)

lemma scores_if: "(b \<Longrightarrow> scores S x) \<Longrightarrow> (\<not> b \<Longrightarrow> scores S y) \<Longrightarrow> scores S (if b then x else y)"
  by simp

lemmas scores_intros = scores_Ok scores_obind scores_if

lemma scores_new_wallet: "scores {NewWalletLargeTransfer} (check_new_wallet K X cfg tx s)"
  unfolding check_new_wallet_def Let_def
  by (auto split: outcome.splits intro!: scores_intros)

lemma scores_velocity: "scores {ExtremeVelocity, HighVelocity} (check_velocity K X C c a n)"
  unfolding check_velocity_def Let_def by (auto intro!: scores_intros)

lemma scores_large_value: "scores {FullBalanceDrain, LargeBalanceDrain} (check_large_value K X tx s)"
  unfolding check_large_value_def by (auto intro!: scores_intros)

lemma scores_round: "scores {RoundNumber} (check_round_numbers tx)"
  unfolding check_round_numbers_def by (auto intro!: scores_intros)

lemma scores_dust: "scores {DustAttack} (check_dust_attack K X C c tx n)"
  unfolding check_dust_attack_def Let_def by (auto intro!: scores_intros)

lemma scores_drain: "scores {RapidWalletDrain} (check_rapid_drain K X C c s tx n)"
  unfolding check_rapid_drain_def Let_def by (auto intro!: scores_intros split: prod.splits)

lemma scores_patterns: "scores {SuspiciousRecipient} (check_known_patterns db tx)"
  unfolding check_known_patterns_def by (auto split: option.splits intro!: scores_intros)

text \<open>
  The eighth check passes the detector no profile, balance or supply, so it never alerts.
\<close>

lemma check_rug_pull_Ok: "check_rug_pull F X tx n rp = Ok (e, rp') \<Longrightarrow> e = (0, []) \<and> rp' = rp"
  by (auto simp: check_rug_pull_def obind_eq_Ok dest!: rug_pull_no_supply split: option.splits)

text \<open>Adding a check to a score that leaves room for it.\<close>

definition total_weight :: "fraud_flag list \<Rightarrow> nat" where
  "total_weight fl = sum_list (map flag_weight fl)"

lemma add_check_step:
  assumes "scores S r" and "\<forall>f \<in> S. flag_weight f \<le> w" and "unat (fst acc) = total_weight (snd acc)"
    and "total_weight (snd acc) \<le> k" and "k + w \<le> 255"
    and "distinct (snd acc)" and "set (snd acc) \<inter> S = {}"
  shows "(case add_check r acc of
      Ok acc' \<Rightarrow> (\<exists>x. r = Ok x) \<and> unat (fst acc') = total_weight (snd acc') \<and> total_weight (snd acc') \<le> k + w \<and>
        distinct (snd acc') \<and> set (snd acc') \<subseteq> set (snd acc) \<union> S
    | Err e \<Rightarrow> r = Err e | Panic \<Rightarrow> r = Panic | Diverge \<Rightarrow> r = Diverge)"
proof (cases r)
  case (Ok x)
  obtain sc fl where x: "x = (sc, fl)" by (cases x)
  with Ok assms(1) have fl: "unat sc = total_weight fl" "set fl \<subseteq> S" "length fl \<le> 1"
    by (auto simp: scores_def total_weight_def)
  have "total_weight fl \<le> w"
    using fl(2,3) assms(2) by (cases fl) (auto simp: total_weight_def)
  moreover have "distinct fl" using fl(3) by (cases fl) auto
  ultimately show ?thesis
    using Ok x fl assms
    by (auto simp: add_check_def chk_add_def unat_word_ariths total_weight_def)
qed (simp_all add: add_check_def)

text \<open>The running score: the weight of the flags so far, which come from \<open>T\<close> and weigh at most \<open>k\<close>.\<close>

definition running :: "nat \<Rightarrow> fraud_flag set \<Rightarrow> u8 \<times> fraud_flag list \<Rightarrow> bool" where
  "running k T acc \<longleftrightarrow> unat (fst acc) = total_weight (snd acc) \<and> total_weight (snd acc) \<le> k \<and>
     distinct (snd acc) \<and> set (snd acc) \<subseteq> T"

lemma running_start: "running 0 {} (0, [])"
  by (simp add: running_def total_weight_def)

lemma add_check_Ok:
  assumes "scores S r" and "\<forall>f \<in> S. flag_weight f \<le> w" and "k + w \<le> 255" and "T \<inter> S = {}"
    and "running k T acc" and "add_check r acc = Ok acc'"
  shows "running (k + w) (T \<union> S) acc'"
  using add_check_step [OF assms(1,2), of acc k] assms(3-6) by (auto simp: running_def)

lemma add_check_Panic:
  assumes "scores S r" and "\<forall>f \<in> S. flag_weight f \<le> w" and "k + w \<le> 255" and "T \<inter> S = {}"
    and "running k T acc" and "add_check r acc = Panic"
  shows "r = Panic"
  using add_check_step [OF assms(1,2), of acc k] assms(3-6) by (auto simp: running_def)

lemma add_check_no_panic:
  assumes "scores S r" and "\<forall>f \<in> S. flag_weight f \<le> w" and "k + w \<le> 255" and "T \<inter> S = {}"
    and "running k T acc" and "r \<noteq> Panic" and "\<And>acc'. running (k + w) (T \<union> S) acc' \<Longrightarrow> f acc' \<noteq> Panic"
  shows "obind (add_check r acc) f \<noteq> Panic"
  using add_check_Ok [OF assms(1-5)] add_check_Panic [OF assms(1-5)] assms(6,7)
  by (cases "add_check r acc") auto

lemma last_check: "add_check (Ok (0, [])) acc = Ok acc"
  using unat_less [of "fst acc"] by (simp add: add_check_def chk_add_def)

abbreviation "F1 \<equiv> {NewWalletLargeTransfer}"
abbreviation "F2 \<equiv> F1 \<union> {ExtremeVelocity, HighVelocity}"
abbreviation "F3 \<equiv> F2 \<union> {FullBalanceDrain, LargeBalanceDrain}"
abbreviation "F4 \<equiv> F3 \<union> {RoundNumber}"
abbreviation "F5 \<equiv> F4 \<union> {DustAttack}"
abbreviation "F6 \<equiv> F5 \<union> {RapidWalletDrain}"
abbreviation "F7 \<equiv> F6 \<union> {SuspiciousRecipient}"

text \<open>The seven checks in order: 25, 65, 90, 95, 125, 160 and 200 points at most.\<close>

lemmas checks_Ok =
  add_check_Ok [OF scores_new_wallet, where w = 25 and k = 0 and T = "{}", simplified]
  add_check_Ok [OF scores_velocity, where w = 40 and k = 25 and T = F1, simplified]
  add_check_Ok [OF scores_large_value, where w = 25 and k = 65 and T = F2, simplified]
  add_check_Ok [OF scores_round, where w = 5 and k = 90 and T = F3, simplified]
  add_check_Ok [OF scores_dust, where w = 30 and k = 95 and T = F4, simplified]
  add_check_Ok [OF scores_drain, where w = 35 and k = 125 and T = F5, simplified]
  add_check_Ok [OF scores_patterns, where w = 40 and k = 160 and T = F6, simplified]

lemmas checks_no_panic =
  add_check_no_panic [OF scores_new_wallet, where w = 25 and k = 0 and T = "{}", simplified]
  add_check_no_panic [OF scores_velocity, where w = 40 and k = 25 and T = F1, simplified]
  add_check_no_panic [OF scores_large_value, where w = 25 and k = 65 and T = F2, simplified]
  add_check_no_panic [OF scores_round, where w = 5 and k = 90 and T = F3, simplified]
  add_check_no_panic [OF scores_dust, where w = 30 and k = 95 and T = F4, simplified]
  add_check_no_panic [OF scores_drain, where w = 35 and k = 125 and T = F5, simplified]
  add_check_no_panic [OF scores_patterns, where w = 40 and k = 160 and T = F6, simplified]

section \<open>The history window\<close>

definition block_at :: "chain_view \<Rightarrow> u64 \<Rightarrow> block option" where
  "block_at v n = (case cv_number v n of None \<Rightarrow> None | Some h \<Rightarrow> cv_block v h)"

definition window_txs :: "chain_view \<Rightarrow> u64 list \<Rightarrow> signed_transaction list" where
  "window_txs v ns = concat (map (\<lambda>n. case block_at v n of None \<Rightarrow> [] | Some b \<Rightarrow> b_body b) ns)"

lemma fold_txs_append:
  "fold_txs f (xs @ ys) acc = obind (fold_txs f xs acc) (fold_txs f ys)"
proof (induction xs arbitrary: acc)
  case (Cons x xs)
  then show ?case by (cases "f x acc") simp_all
qed simp

context chain_store
begin

lemma scan_blocks_window:
  assumes "chain_wf X C (contents c)" and "v = chain_view_of X C (contents c)"
  shows "scan_blocks K X C c f ns acc = fold_txs f (window_txs v ns) acc"
proof (induction ns arbitrary: acc)
  case Nil
  then show ?case by (simp add: window_txs_def)
next
  case (Cons n ns)
  have n: "get_block_by_number K X C c n = Ok (block_at v n)"
    using get_block_by_number_view [OF assms(1)] assms(2) by (simp add: block_at_def)
  show ?case
  proof (cases "block_at v n")
    case None
    with n Cons show ?thesis by (simp add: window_txs_def)
  next
    case (Some b)
    with n have "scan_blocks K X C c f (n # ns) acc = obind (fold_txs f (b_body b) acc) (scan_blocks K X C c f ns)"
      by simp
    also have "... = obind (fold_txs f (b_body b) acc) (fold_txs f (window_txs v ns))"
      using Cons by (cases "fold_txs f (b_body b) acc") simp_all
    finally show ?thesis using Some by (simp add: window_txs_def fold_txs_append)
  qed
qed

end

lemma count_fold:
  assumes "unat count + length (filter P ts) < 2 ^ 32"
  shows "fold_txs (\<lambda>t count. if P t then chk_add count (1 :: u32) else Ok count) ts count
    = Ok (count + of_nat (length (filter P ts)))"
  using assms
proof (induction ts arbitrary: count)
  case (Cons t ts)
  show ?case
  proof (cases "P t")
    case True
    with Cons.prems have "unat (count + 1) = unat count + 1" "unat count + 1 < 2 ^ 32"
      by (simp_all add: unat_word_ariths)
    with Cons.IH [of "count + 1"] Cons.prems True show ?thesis
      by (simp add: chk_add_def add.assoc)
  next
    case False
    with Cons show ?thesis by simp
  qed
qed simp

lemma get_recommendation_default:
  "get_recommendation sc default_fraud_config =
    (if unat sc \<le> 30 then Include else if unat sc \<le> 60 then IncludeWithLog
     else if unat sc \<le> 85 then Delay else Reject)"
  by (simp add: get_recommendation_def default_fraud_config_def word_le_nat_alt)

lemma obind_no_panic: "r \<noteq> Panic \<Longrightarrow> (\<And>x. r = Ok x \<Longrightarrow> f x \<noteq> Panic) \<Longrightarrow> obind r f \<noteq> Panic"
  by (cases r) auto

section \<open>Properties\<close>

text \<open>C31: the risk score is exactly the weight of the reported flags: the score of an analysis is the
  sum of the weights of its flags, capped at 100, every flag is reported at most once, and the
  eighth check never contributes: with or without a rug-pull detector no rug-pull flag is ever
  reported and the detector is left as it was. With the default thresholds scores up to 30 are included, up to 60
  included with a log entry, up to 85 delayed, and above that rejected.\<close>

theorem fraud_score_exact:
  assumes "analyse_transaction K X C F D tx c s n = Ok (an, rp')"
    and "fd_config D = default_fraud_config"
  shows "unat (fa_risk_score an) = min 100 (total_weight (fa_flags an)) \<and> distinct (fa_flags an) \<and>
    PotentialRugPull \<notin> set (fa_flags an) \<and> SuspiciousLargeSell \<notin> set (fa_flags an) \<and>
    rp' = fd_rug_pull D \<and> fa_transaction_hash an = tx_hash X tx \<and>
    fa_recommendation an = (let w = min 100 (total_weight (fa_flags an)) in
      if w \<le> 30 then Include else if w \<le> 60 then IncludeWithLog else if w \<le> 85 then Delay else Reject)"
proof -
  from assms(1) obtain a r1 r2 r3 r4 r5 r6 r7 e8 r8 where r:
    "add_check (check_new_wallet K X (fd_config D) tx s) (0, []) = Ok r1"
    "add_check (check_velocity K X C c a n) r1 = Ok r2"
    "add_check (check_large_value K X tx s) r2 = Ok r3"
    "add_check (check_round_numbers tx) r3 = Ok r4"
    "add_check (check_dust_attack K X C c tx n) r4 = Ok r5"
    "add_check (check_rapid_drain K X C c s tx n) r5 = Ok r6"
    "add_check (check_known_patterns (fd_pattern_db D) tx) r6 = Ok r7"
    and e8: "check_rug_pull F X tx n (fd_rug_pull D) = Ok (e8, rp')" and r8: "add_check (Ok e8) r7 = Ok r8"
    and an: "an = \<lparr>fa_transaction_hash = tx_hash X tx, fa_risk_score = min (fst r8) 100, fa_flags = snd r8,
          fa_recommendation = get_recommendation (min (fst r8) 100) default_fraud_config, fa_timestamp = n\<rparr>"
    unfolding analyse_transaction_def obind_eq_Ok Let_def assms(2) split_paired_Ex prod.case by force
  note q1 = checks_Ok(1) [OF running_start r(1)]
  note q3 = checks_Ok(3) [OF checks_Ok(2) [OF q1 r(2)] r(3)]
  note q5 = checks_Ok(5) [OF checks_Ok(4) [OF q3 r(4)] r(5)]
  note q7 = checks_Ok(7) [OF checks_Ok(6) [OF q5 r(6)] r(7)]
  have "r8 = r7" and rp: "rp' = fd_rug_pull D"
    using check_rug_pull_Ok [OF e8] r8 by (simp_all add: last_check)
  with q7 have w: "unat (fst r8) = total_weight (snd r8)" and d: "distinct (snd r8)"
    and n: "PotentialRugPull \<notin> set (snd r8)" "SuspiciousLargeSell \<notin> set (snd r8)"
    by (auto simp: running_def)
  have m: "unat (min (fst r8) 100) = min 100 (total_weight (snd r8))"
    using w by (simp add: min_def word_le_nat_alt)
  show ?thesis
    unfolding an Let_def
    by (simp only: fraud_analysis.simps get_recommendation_default m d n rp simp_thms)
qed

text \<open>An account that sends its whole balance of one QYN, on an empty chain.\<close>

lemma example_tx_to_u128: "to_u128 (tx_value (example_tx n p 1000000000000000000)) = Ok 1000000000000000000"
  by (simp add: to_u128_def example_tx_def accessor_defs)

theorem fraud_score_exact_witness:
  "\<exists>s an rp'. analyse_transaction mem_kv ref_ext ref_codec ref_f64 (new_detector default_fraud_config)
      (example_tx 0 1 1000000000000000000) [] s 1 = Ok (an, rp') \<and>
    fa_flags an = [FullBalanceDrain, RoundNumber] \<and> unat (fa_risk_score an) = 30"
proof -
  let ?D = "new_detector default_fraud_config" and ?tx = "example_tx 0 1 1000000000000000000"
  let ?s = "snd (set_balance mem_kv ref_ext 3 1000000000000000000 [])"
  have wf: "state_wf ref_ext (map_of ?s)"
    by (rule mem_state.state_wf_writes(1)) simp
  have bal: "sv_balance (view_of ref_ext (map_of ?s)) = (\<lambda>_. 0)(3 := 1000000000000000000)"
    and non: "sv_nonce (view_of ref_ext (map_of ?s)) = (\<lambda>_. 0)"
    by (simp_all add: mem_state.set_balance_view) (simp_all add: view_of_def)
  note st = mem_state.get_balance_view [OF wf] mem_state.get_nonce_view [OF wf] bal non example_tx_to_u128
  have u: "to_u128 (1000000000000000000 :: u256) = (Ok 1000000000000000000 :: (core_error, u128) outcome)"
    by (simp add: to_u128_def)
  have c: "check_new_wallet mem_kv ref_ext default_fraud_config ?tx ?s = Ok (0, [])"
    "check_velocity mem_kv ref_ext ref_codec [] 3 1 = Ok (0, [])"
    "check_large_value mem_kv ref_ext ?tx ?s = Ok (25, [FullBalanceDrain])"
    "check_round_numbers ?tx = Ok (5, [RoundNumber])"
    "check_dust_attack mem_kv ref_ext ref_codec [] ?tx 1 = Ok (0, [])"
    "check_rapid_drain mem_kv ref_ext ref_codec [] ?s ?tx 1 = Ok (0, [])"
    "check_known_patterns {} ?tx = Ok (0, [])"
    "check_rug_pull ref_f64 ref_ext ?tx 1 None = Ok ((0, []), None)"
    by (simp_all add: check_new_wallet_def check_velocity_def check_large_value_def check_round_numbers_def
        check_dust_attack_def check_rapid_drain_def check_known_patterns_def check_rug_pull_def st u
        invalid_sender_def default_fraud_config_def ONE_QYN_WEI_def DUST_WEI_def RAPID_DRAIN_WINDOW_BLOCKS_def
        round_amounts_def is_suspicious_def Let_def split: option.splits)
  have "\<exists>an. analyse_transaction mem_kv ref_ext ref_codec ref_f64 ?D ?tx [] ?s 1 = Ok (an, None) \<and>
      fa_flags an = [FullBalanceDrain, RoundNumber]"
    by (simp add: analyse_transaction_def invalid_sender_def new_detector_def new_pattern_db_def c
        add_check_def chk_add_def Let_def)
  then obtain an where an: "analyse_transaction mem_kv ref_ext ref_codec ref_f64 ?D ?tx [] ?s 1 = Ok (an, None)"
    and f: "fa_flags an = [FullBalanceDrain, RoundNumber]" by blast
  have "fd_config ?D = default_fraud_config" by (simp add: new_detector_def)
  from fraud_score_exact [OF an this] an f show ?thesis
    by (auto simp: total_weight_def)
qed

text \<open>The score arithmetic never overflows: the eight scores add up to at most 250, so an
  analysis panics only when the sender recovery or one of the checks, run by itself, panics; the
  addition of the scores in 8 bits never does.\<close>

theorem fraud_score_no_overflow:
  assumes "analyse_transaction K X C F D tx c s n = Panic"
  shows "invalid_sender X tx = Panic \<or> check_new_wallet K X (fd_config D) tx s = Panic \<or>
    (\<exists>a. sender X tx = Ok a \<and> check_velocity K X C c a n = Panic) \<or>
    check_large_value K X tx s = Panic \<or> check_round_numbers tx = Panic \<or>
    check_dust_attack K X C c tx n = Panic \<or> check_rapid_drain K X C c s tx n = Panic \<or>
    check_known_patterns (fd_pattern_db D) tx = Panic \<or> check_rug_pull F X tx n (fd_rug_pull D) = Panic"
proof (rule ccontr)
  assume np: "\<not> ?thesis"
  have sa: "sender X tx = Ok a" if "invalid_sender X tx = Ok a" for a
    using that by (cases "sender X tx") (simp_all add: invalid_sender_def)
  have last: "obind (check_rug_pull F X tx n (fd_rug_pull D)) (\<lambda>(e8, rp'). obind (add_check (Ok e8) r7) (\<lambda>r8.
      Ok (g r8 rp'))) \<noteq> Panic" for r7 g
    by (rule obind_no_panic) (use np in \<open>auto dest!: check_rug_pull_Ok simp: last_check\<close>)
  have "analyse_transaction K X C F D tx c s n \<noteq> Panic"
    unfolding analyse_transaction_def Let_def
    apply (rule obind_no_panic)
    subgoal using np by blast
    apply (rule checks_no_panic(1) [OF running_start])
    subgoal using np by blast
    apply (rule checks_no_panic(2), assumption)
    subgoal using np sa by blast
    by (rule last | rule checks_no_panic(3-7), assumption, use np in blast)+
  with assms show False by contradiction
qed

theorem fraud_score_no_overflow_witness:
  "analyse_transaction mem_kv ref_ext ref_codec ref_f64 (new_detector default_fraud_config)
      (example_tx 0 1 (- 1)) [] [] 1 = Panic \<and>
    (check_new_wallet mem_kv ref_ext default_fraud_config (example_tx 0 1 (- 1)) [] = Panic \<or>
     check_large_value mem_kv ref_ext (example_tx 0 1 (- 1)) [] = Panic \<or>
     check_round_numbers (example_tx 0 1 (- 1)) = Panic \<or>
     check_dust_attack mem_kv ref_ext ref_codec [] (example_tx 0 1 (- 1)) 1 = Panic)"
proof -
  let ?D = "new_detector default_fraud_config" and ?tx = "example_tx 0 1 (- 1)"
  have wf: "state_wf ref_ext (map_of [])" by simp
  have n: "get_nonce mem_kv ref_ext [] 3 = Ok 0"
    by (simp add: mem_state.get_nonce_view [OF wf]) (simp add: view_of_def)
  have u: "to_u128 (tx_value ?tx) = Panic"
    by (simp add: to_u128_def example_tx_def accessor_defs unat_max)
  have a: "invalid_sender ref_ext ?tx = Ok 3" by (simp add: invalid_sender_def)
  have "check_new_wallet mem_kv ref_ext default_fraud_config ?tx [] = Panic"
    by (simp add: check_new_wallet_def n u)
  then have p: "analyse_transaction mem_kv ref_ext ref_codec ref_f64 ?D ?tx [] [] 1 = Panic"
    by (simp add: analyse_transaction_def a add_check_def new_detector_def)
  have "check_velocity mem_kv ref_ext ref_codec [] 3 1 \<noteq> Panic"
    "check_rapid_drain mem_kv ref_ext ref_codec [] [] ?tx 1 \<noteq> Panic"
    "check_known_patterns (fd_pattern_db ?D) ?tx \<noteq> Panic"
    "check_rug_pull ref_f64 ref_ext ?tx 1 (fd_rug_pull ?D) \<noteq> Panic"
    by (simp_all add: check_velocity_def check_rapid_drain_def check_known_patterns_def check_rug_pull_def
        new_detector_def RAPID_DRAIN_WINDOW_BLOCKS_def split: option.splits)
  with p fraud_score_no_overflow [OF p] a show ?thesis
    by (auto simp: new_detector_def)
qed

text \<open>The velocity check counts exactly: over a working, well-formed chain store with fewer
  than \<open>2 ^ 32\<close> transactions in the window, the check never fails; it flags extreme velocity
  exactly when the sender signed more than 20 of the transactions of the sixty blocks before the
  given number, high velocity exactly when it signed 11 to 20 of them, and nothing otherwise or
  before block 2.\<close>

theorem velocity_flags_exact:
  fixes k :: nat
  assumes "chain_store K contents X C" and "chain_wf X C (contents c)"
    and "w = window_txs (chain_view_of X C (contents c)) (u64_range (n - min n 60) n)"
    and "length w < 2 ^ 32" and "k = length (filter (\<lambda>t. sender X t = Ok a) w)"
  shows "check_velocity K X C c a n = (if n < 2 \<or> k \<le> 10 then Ok (0, [])
    else if k \<le> 20 then Ok (20, [HighVelocity]) else Ok (40, [ExtremeVelocity]))"
proof -
  have k: "k < 2 ^ 32" using assms(4,5) le_less_trans [OF length_filter_le] by blast
  have st: "sat_sub n VELOCITY_WINDOW_BLOCKS = n - min n 60"
    by (auto simp: sat_sub_def VELOCITY_WINDOW_BLOCKS_def min_def)
  have "fold_txs (\<lambda>t count. if sender X t = Ok a then chk_add count (1 :: u32) else Ok count) w 0
      = Ok (of_nat k)"
    using count_fold [of 0 "\<lambda>t. sender X t = Ok a" w] k assms(5) by simp
  then have sc: "scan_blocks K X C c (\<lambda>t count. if sender X t = Ok a then chk_add count (1 :: u32) else Ok count)
      (u64_range (n - min n 60) n) 0 = Ok (of_nat k)"
    by (simp add: chain_store.scan_blocks_window [OF assms(1,2) refl] assms(3))
  have "unat (of_nat k :: u32) = k" using k by (simp add: unsigned_of_nat take_bit_nat_eq_self)
  then have c: "(EXTREME_VELOCITY_THRESHOLD < of_nat k) = (20 < k)" "(HIGH_VELOCITY_THRESHOLD < of_nat k) = (10 < k)"
    by (simp_all add: EXTREME_VELOCITY_THRESHOLD_def HIGH_VELOCITY_THRESHOLD_def word_less_nat_alt)
  show ?thesis
    unfolding check_velocity_def Let_def st sc obind.simps c by auto
qed

theorem velocity_flags_exact_witness:
  "check_velocity mem_kv ref_ext ref_codec [] 3 5 = Ok (0, [])"
proof -
  have v: "chain_wf ref_ext ref_codec (map_of [])" "chain_view_of ref_ext ref_codec (map_of []) = empty_view"
    by simp_all
  have w: "[] = window_txs (chain_view_of ref_ext ref_codec (map_of [])) (u64_range (5 - min 5 60) 5)"
    unfolding v(2) by (simp add: window_txs_def block_at_def empty_view_def)
  from velocity_flags_exact [OF mem_chain.chain_store_axioms v(1) w _ refl, of 3] show ?thesis
    by simp
qed

end
