(* ===== verification/Quyn_Vm.thy ===== *)
theory Quyn_Vm
  imports Quyn_StateLaws Quyn_Validation
begin

text \<open>
  vm/src: error.rs, abi.rs, executor.rs (the environment handed to the interpreter, execution of
  a transaction and of a call, the block environment) and state_db_adapter.rs (the state database
  as the interpreter's database, and the commit of its changes). The interpreter, the crate revm,
  is the parameter \<open>R\<close>: from the database it reads through and the environment it gives a result
  with the changed accounts. A \<open>HashMap\<close> of changes is its entries in iteration order; bytecode is
  the bytes it was made from.
\<close>

section \<open>Errors and call data\<close>

datatype vm_error = Revert string | OutOfGas | InvalidContract string | Abi string

fun vm_error_string :: "vm_error \<Rightarrow> string" where
  "vm_error_string (Revert s) = ''Execution reverted: '' @ s"
| "vm_error_string OutOfGas = ''Out of gas''"
| "vm_error_string (InvalidContract s) = ''Invalid contract: '' @ s"
| "vm_error_string (Abi s) = ''ABI error: '' @ s"

definition encode_selector_and_args :: "bytes \<Rightarrow> bytes \<Rightarrow> bytes" where
  "encode_selector_and_args selector args = selector @ args"

text \<open>\<open>std::str::from_utf8\<close>: the well-formed byte sequences of UTF-8.\<close>

definition in_range :: "u8 \<Rightarrow> u8 \<Rightarrow> u8 \<Rightarrow> bool" where
  "in_range a b c \<longleftrightarrow> a \<le> c \<and> c \<le> b"

fun utf8_valid :: "bytes \<Rightarrow> bool" where
  "utf8_valid [] \<longleftrightarrow> True"
| "utf8_valid [a] \<longleftrightarrow> a < 0x80"
| "utf8_valid [a, b] \<longleftrightarrow>
     (if a < 0x80 then utf8_valid [b] else in_range 0xC2 0xDF a \<and> in_range 0x80 0xBF b)"
| "utf8_valid [a, b, c] \<longleftrightarrow>
     (if a < 0x80 then utf8_valid [b, c]
      else if in_range 0xC2 0xDF a then in_range 0x80 0xBF b \<and> utf8_valid [c]
      else (a = 0xE0 \<and> in_range 0xA0 0xBF b \<or> (in_range 0xE1 0xEC a \<or> in_range 0xEE 0xEF a) \<and> in_range 0x80 0xBF b
            \<or> a = 0xED \<and> in_range 0x80 0x9F b) \<and> in_range 0x80 0xBF c)"
| "utf8_valid (a # b # c # d # bs) \<longleftrightarrow>
     (if a < 0x80 then utf8_valid (b # c # d # bs)
      else if in_range 0xC2 0xDF a then in_range 0x80 0xBF b \<and> utf8_valid (c # d # bs)
      else if in_range 0xE0 0xEF a
      then (a = 0xE0 \<and> in_range 0xA0 0xBF b \<or> (in_range 0xE1 0xEC a \<or> in_range 0xEE 0xEF a) \<and> in_range 0x80 0xBF b
            \<or> a = 0xED \<and> in_range 0x80 0x9F b) \<and> in_range 0x80 0xBF c \<and> utf8_valid (d # bs)
      else (a = 0xF0 \<and> in_range 0x90 0xBF b \<or> in_range 0xF1 0xF3 a \<and> in_range 0x80 0xBF b
            \<or> a = 0xF4 \<and> in_range 0x80 0x8F b) \<and> in_range 0x80 0xBF c \<and> in_range 0x80 0xBF d \<and> utf8_valid bs)"

definition from_utf8 :: "bytes \<Rightarrow> string option" where
  "from_utf8 bs = (if utf8_valid bs then Some (map (\<lambda>b. char_of (unat b)) bs) else None)"

definition decode_revert_reason :: "bytes \<Rightarrow> string option" where
  "decode_revert_reason data =
     (if length data < 4 then None
      else if take 4 data = [0x08, 0xc3, 0x79, 0xa0] \<and> 68 < length data
      then (let len = unat (of_be (take 4 (drop 36 data)) :: u32)
            in if 40 + len \<le> length data then from_utf8 (take len (drop 40 data)) else None)
      else None)"

section \<open>The environment\<close>

record vm_block_env =
  be_number :: u256
  be_timestamp :: u256
  be_gas_limit :: u256
  be_basefee :: u256
  be_coinbase :: address
  be_difficulty :: u256
  be_prevrandao :: "b256 option"
  be_excess_blob_gas :: "u64 option"

datatype transact_to = Call address | Create

record vm_tx_env =
  te_caller :: address
  te_gas_limit :: u64
  te_gas_price :: u256
  te_gas_priority_fee :: "u256 option"
  te_transact_to :: transact_to
  te_value :: u256
  te_data :: bytes
  te_chain_id :: "u64 option"
  te_nonce :: "u64 option"
  te_access_list :: "(address \<times> u256 list) list"
  te_blob_hashes :: "b256 list"
  te_max_fee_per_blob_gas :: "u256 option"

record vm_env =
  ve_chain_id :: u64
  ve_block :: vm_block_env
  ve_tx :: vm_tx_env

definition QYN_CHAIN_ID :: u64 where "QYN_CHAIN_ID = 7777"

definition block_env :: "ext \<Rightarrow> u64 \<Rightarrow> u64 \<Rightarrow> u64 \<Rightarrow> u256 \<Rightarrow> address \<Rightarrow> vm_block_env" where
  "block_env X number timestamp gas base_fee coinbase = \<lparr>
     be_number = ucast number, be_timestamp = ucast timestamp, be_gas_limit = ucast gas,
     be_basefee = base_fee, be_coinbase = coinbase, be_difficulty = 0,
     be_prevrandao = Some (keccak256 X (u64_be number)), be_excess_blob_gas = Some 0\<rparr>"

definition tx_env :: "signed_transaction \<Rightarrow> address \<Rightarrow> u64 \<Rightarrow> vm_tx_env" where
  "tx_env tx caller cid = \<lparr>
     te_caller = caller, te_gas_limit = gas_limit tx, te_gas_price = gas_price tx,
     te_gas_priority_fee = None,
     te_transact_to = (case to_addr tx of Some a \<Rightarrow> Call a | None \<Rightarrow> Create),
     te_value = tx_value tx, te_data = tx_data tx, te_chain_id = Some cid, te_nonce = Some (nonce tx),
     te_access_list = [], te_blob_hashes = [], te_max_fee_per_blob_gas = None\<rparr>"

definition exec_env :: "signed_transaction \<Rightarrow> address \<Rightarrow> vm_block_env \<Rightarrow> u64 \<Rightarrow> vm_env" where
  "exec_env tx caller blk cid = \<lparr>ve_chain_id = cid, ve_block = blk, ve_tx = tx_env tx caller cid\<rparr>"

section \<open>The adapter\<close>

record account_info =
  ai_balance :: u256
  ai_nonce :: u64
  ai_code_hash :: b256
  ai_code :: "bytes option"

text \<open>An account as the interpreter leaves it; the state database ignores \<open>ac_selfdestructed\<close>.\<close>

record account =
  ac_info :: account_info
  ac_storage :: "(u256 \<times> u256) list"
  ac_selfdestructed :: bool

type_synonym code_cache = "b256 \<rightharpoonup> bytes"
type_synonym changes = "(address \<times> account) list"

definition KECCAK_EMPTY :: "ext \<Rightarrow> b256" where "KECCAK_EMPTY X = keccak256 X []"

definition basic :: "'d kv \<Rightarrow> ext \<Rightarrow> 'd \<Rightarrow> address \<Rightarrow> (code_cache, core_error, account_info option) act" where
  "basic K X d a =
     abind (alift (get_balance K X d a)) (\<lambda>balance.
     abind (alift (get_nonce K X d a)) (\<lambda>n.
     abind (alift (get_code K X d a)) (\<lambda>code_bytes.
     if code_bytes = []
     then aret (Some \<lparr>ai_balance = balance, ai_nonce = n, ai_code_hash = KECCAK_EMPTY X, ai_code = None\<rparr>)
     else (\<lambda>cache. (Ok (Some \<lparr>ai_balance = balance, ai_nonce = n,
              ai_code_hash = keccak256 X code_bytes, ai_code = Some code_bytes\<rparr>),
            cache(keccak256 X code_bytes \<mapsto> code_bytes))))))"

definition code_by_hash :: "ext \<Rightarrow> b256 \<Rightarrow> (code_cache, core_error, bytes) act" where
  "code_by_hash X code_hash cache = (case cache code_hash of
       Some bc \<Rightarrow> (Ok bc, cache)
     | None \<Rightarrow> (Err (Storage (''code_by_hash '' @ hex_encode X (b256_bytes code_hash) @ '' not in cache'')), cache))"

definition vm_storage :: "'d kv \<Rightarrow> ext \<Rightarrow> 'd \<Rightarrow> address \<Rightarrow> u256 \<Rightarrow> (code_cache, core_error, u256) act" where
  "vm_storage K X d a slot = alift (get_storage K X d a slot)"

definition vm_block_hash :: "u256 \<Rightarrow> (code_cache, core_error, b256) act" where
  "vm_block_hash number = aret 0"

text \<open>\<open>let _ = r;\<close> an error is dropped.\<close>

definition ignore_err :: "('s, 'e, 'a) act \<Rightarrow> ('s, vm_error, unit) act" where
  "ignore_err m s = (case m s of
       (Ok _, s') \<Rightarrow> (Ok (), s')
     | (Err _, s') \<Rightarrow> (Ok (), s')
     | (Panic, s') \<Rightarrow> (Panic, s')
     | (Diverge, s') \<Rightarrow> (Diverge, s'))"

definition on_store :: "('d, 'e, 'a) act \<Rightarrow> ('d \<times> code_cache, 'e, 'a) act" where
  "on_store m = (\<lambda>(d, cache). case m d of (r, d') \<Rightarrow> (r, (d', cache)))"

definition cache_code :: "b256 \<Rightarrow> bytes \<Rightarrow> ('d \<times> code_cache, vm_error, unit) act" where
  "cache_code h code = (\<lambda>(d, cache). (Ok (), (d, cache(h \<mapsto> code))))"

definition commit_account :: "'d kv \<Rightarrow> ext \<Rightarrow> address \<times> account \<Rightarrow> ('d \<times> code_cache, vm_error, unit) act" where
  "commit_account K X = (\<lambda>(a, acc). let info = ac_info acc in
     athen (ignore_err (on_store (set_balance K X a (ai_balance info)))) (
     athen (ignore_err (on_store (set_nonce K X a (ai_nonce info)))) (
     athen (case ai_code info of
         Some code \<Rightarrow> if code \<noteq> []
           then athen (ignore_err (on_store (set_code K X a code))) (cache_code (ai_code_hash info) code)
           else aret ()
       | None \<Rightarrow> aret ())
     (afor (ac_storage acc) (\<lambda>(slot, v). ignore_err (on_store (set_storage K X a slot v)))))))"

definition commit :: "'d kv \<Rightarrow> ext \<Rightarrow> changes \<Rightarrow> ('d \<times> code_cache, vm_error, unit) act" where
  "commit K X chs = afor chs (commit_account K X)"

section \<open>Execution\<close>

record db_ops =
  op_basic :: "address \<Rightarrow> (code_cache, core_error, account_info option) act"
  op_code_by_hash :: "b256 \<Rightarrow> (code_cache, core_error, bytes) act"
  op_storage :: "address \<Rightarrow> u256 \<Rightarrow> (code_cache, core_error, u256) act"
  op_block_hash :: "u256 \<Rightarrow> (code_cache, core_error, b256) act"

definition adapter_ops :: "'d kv \<Rightarrow> ext \<Rightarrow> 'd \<Rightarrow> db_ops" where
  "adapter_ops K X d = \<lparr>op_basic = basic K X d, op_code_by_hash = code_by_hash X,
     op_storage = vm_storage K X d, op_block_hash = vm_block_hash\<rparr>"

record vm_log =
  lg_address :: address
  lg_topics :: "b256 list"
  lg_data :: bytes

record vm_result =
  vr_gas_used :: u64
  vr_success :: bool
  vr_output :: "bytes option"
  vr_logs :: "vm_log list"

text \<open>\<open>Evm::transact\<close>: the debug text of an error, or a result and the changed accounts.\<close>

record revm =
  rv_transact :: "db_ops \<Rightarrow> vm_env \<Rightarrow> code_cache \<Rightarrow> (string + vm_result \<times> changes) \<times> code_cache"

record execution_result =
  er_gas_used :: u64
  er_success :: bool
  er_output :: bytes
  er_logs :: "vm_log list"

definition execute_tx ::
  "revm \<Rightarrow> 'd kv \<Rightarrow> ext \<Rightarrow> signed_transaction \<Rightarrow> vm_block_env \<Rightarrow> u64 \<Rightarrow>
    ('d \<times> code_cache, vm_error, execution_result) act" where
  "execute_tx R K X tx blk cid = (\<lambda>(d, cache).
     case map_err (\<lambda>e. InvalidContract (core_error_string X e)) (sender X tx) of
       Ok caller \<Rightarrow>
         (case rv_transact R (adapter_ops K X d) (exec_env tx caller blk cid) cache of
            (Inl e, cache') \<Rightarrow> (Err (Revert e), (d, cache'))
          | (Inr (res, chs), cache') \<Rightarrow>
              abind (commit K X chs) (\<lambda>_. aret \<lparr>er_gas_used = vr_gas_used res, er_success = vr_success res,
                er_output = (case vr_output res of None \<Rightarrow> [] | Some o' \<Rightarrow> o'), er_logs = vr_logs res\<rparr>)
                (d, cache'))
     | Err e \<Rightarrow> (Err e, (d, cache)) | Panic \<Rightarrow> (Panic, (d, cache)) | Diverge \<Rightarrow> (Diverge, (d, cache)))"

definition execute_call ::
  "revm \<Rightarrow> 'd kv \<Rightarrow> ext \<Rightarrow> signed_transaction \<Rightarrow> vm_block_env \<Rightarrow> u64 \<Rightarrow>
    ('d \<times> code_cache, vm_error, bytes) act" where
  "execute_call R K X tx blk cid = (\<lambda>(d, cache).
     case map_err (\<lambda>e. InvalidContract (core_error_string X e)) (sender X tx) of
       Ok caller \<Rightarrow>
         (case rv_transact R (adapter_ops K X d) (exec_env tx caller blk cid) cache of
            (Inl e, cache') \<Rightarrow> (Err (Revert e), (d, cache'))
          | (Inr (res, chs), cache') \<Rightarrow>
              (Ok (case vr_output res of None \<Rightarrow> [] | Some o' \<Rightarrow> o'), (d, cache')))
     | Err e \<Rightarrow> (Err e, (d, cache)) | Panic \<Rightarrow> (Panic, (d, cache)) | Diverge \<Rightarrow> (Diverge, (d, cache)))"

end
