(* ===== verification/Quyn_VmLaws.thy ===== *)
theory Quyn_VmLaws
  imports Quyn_Vm "HOL-Library.Multiset"
begin

text \<open>
  The laws of the interpreter's database: the commit of changed accounts refines an update of the
  abstract account state that does not depend on the order of the changes, what \<open>basic\<close> reads back
  after it, what a transaction's execution does to the state, and what the decoder of revert
  reasons makes of standard payloads.
\<close>

section \<open>The abstract commit\<close>

definition committed_storage :: "account \<Rightarrow> (u256 \<Rightarrow> u256) \<Rightarrow> u256 \<Rightarrow> u256" where
  "committed_storage acc old slot = (case map_of (ac_storage acc) slot of Some v \<Rightarrow> v | None \<Rightarrow> old slot)"

definition committed_code :: "account \<Rightarrow> bytes \<Rightarrow> bytes" where
  "committed_code acc old = (case ai_code (ac_info acc) of Some c \<Rightarrow> if c \<noteq> [] then c else old | None \<Rightarrow> old)"

definition committed :: "(address \<rightharpoonup> account) \<Rightarrow> state_view \<Rightarrow> state_view" where
  "committed m v = \<lparr>
     sv_balance = (\<lambda>a. case m a of Some acc \<Rightarrow> ai_balance (ac_info acc) | None \<Rightarrow> sv_balance v a),
     sv_nonce = (\<lambda>a. case m a of Some acc \<Rightarrow> ai_nonce (ac_info acc) | None \<Rightarrow> sv_nonce v a),
     sv_code = (\<lambda>a. case m a of Some acc \<Rightarrow> committed_code acc (sv_code v a) | None \<Rightarrow> sv_code v a),
     sv_storage = (\<lambda>a. case m a of Some acc \<Rightarrow> committed_storage acc (sv_storage v a) | None \<Rightarrow> sv_storage v a)\<rparr>"

text \<open>A table of changes: every address once, and every slot of an account once.\<close>

definition changes_ok :: "changes \<Rightarrow> bool" where
  "changes_ok chs \<longleftrightarrow> distinct (map fst chs) \<and> list_all (\<lambda>(a, acc). distinct (map fst (ac_storage acc))) chs"

lemma committed_empty [simp]: "committed Map.empty v = v"
  by (simp add: committed_def)

lemma committed_step:
  "a \<notin> dom m \<Longrightarrow> committed m (committed [a \<mapsto> acc] v) = committed (m(a \<mapsto> acc)) v"
  by (auto simp: committed_def fun_eq_iff domIff split: option.splits)

context state_store
begin

lemma ignore_writes [simp]:
  "ignore_err (on_store (set_balance K X a b)) (d, cache) = (Ok (), (snd (set_balance K X a b d), cache))"
  "ignore_err (on_store (set_nonce K X a n)) (d, cache) = (Ok (), (snd (set_nonce K X a n d), cache))"
  "ignore_err (on_store (set_code K X a c)) (d, cache) = (Ok (), (snd (set_code K X a c d), cache))"
  "ignore_err (on_store (set_storage K X a s w)) (d, cache) = (Ok (), (snd (set_storage K X a s w d), cache))"
  using set_balance_Ok [of a b d] writes_Ok(1) [of a n d] writes_Ok(2) [of a c d] writes_Ok(3) [of a s w d]
  by (auto simp: ignore_err_def on_store_def split: prod.splits)

lemma commit_storage:
  assumes "state_wf X (contents d)" and "distinct (map fst sts)"
  shows "\<exists>d'. afor sts (\<lambda>(slot, w). ignore_err (on_store (set_storage K X a slot w))) (d, cache)
      = (Ok (), (d', cache)) \<and> state_wf X (contents d') \<and>
    view_of X (contents d') = (view_of X (contents d))\<lparr>sv_storage := (sv_storage (view_of X (contents d)))
      (a := (\<lambda>slot. case map_of sts slot of Some w \<Rightarrow> w | None \<Rightarrow> sv_storage (view_of X (contents d)) a slot))\<rparr>"
  using assms
proof (induction sts arbitrary: d)
  case Nil
  then show ?case by simp
next
  case (Cons x sts)
  obtain s w where x: "x = (s, w)" by (cases x)
  let ?d = "snd (set_storage K X a s w d)"
  have wf: "state_wf X (contents ?d)" by (rule state_wf_writes(4) [OF Cons.prems(1)])
  have "map_of sts s = None" using Cons.prems(2) x by (simp add: map_of_eq_None_iff)
  then have e: "(\<lambda>slot. case map_of sts slot of Some w \<Rightarrow> w
      | None \<Rightarrow> sv_storage (view_of X (contents ?d)) a slot) =
    (\<lambda>slot. case map_of (x # sts) slot of Some w \<Rightarrow> w | None \<Rightarrow> sv_storage (view_of X (contents d)) a slot)"
    by (auto simp: x set_storage_view fun_eq_iff split: option.splits)
  have "distinct (map fst sts)" using Cons.prems(2) by simp
  from Cons.IH [OF wf this, unfolded e] obtain d' where
    d': "afor sts (\<lambda>(slot, w). ignore_err (on_store (set_storage K X a slot w))) (?d, cache) = (Ok (), (d', cache))"
      "state_wf X (contents d')"
      "view_of X (contents d') = (view_of X (contents ?d))\<lparr>sv_storage := (sv_storage (view_of X (contents ?d)))
        (a := (\<lambda>slot. case map_of (x # sts) slot of Some w \<Rightarrow> w | None \<Rightarrow> sv_storage (view_of X (contents d)) a slot))\<rparr>"
    by blast
  then show ?case
    by (simp add: x set_storage_view del: fun_upd_apply)
qed

lemma committed_single:
  "v\<lparr>sv_balance := (sv_balance v)(a := ai_balance (ac_info acc)),
     sv_nonce := (sv_nonce v)(a := ai_nonce (ac_info acc)),
     sv_code := (sv_code v)(a := committed_code acc (sv_code v a)),
     sv_storage := (sv_storage v)(a := committed_storage acc (sv_storage v a))\<rparr> = committed [a \<mapsto> acc] v"
  by (cases v) (auto simp: committed_def fun_eq_iff)

lemma commit_account_refines:
  assumes "state_wf X (contents d)" and "distinct (map fst (ac_storage acc))"
  shows "\<exists>d' cache'. commit_account K X (a, acc) (d, cache) = (Ok (), (d', cache')) \<and>
    state_wf X (contents d') \<and> view_of X (contents d') = committed [a \<mapsto> acc] (view_of X (contents d))"
proof -
  let ?i = "ac_info acc"
  let ?d1 = "snd (set_balance K X a (ai_balance ?i) d)"
  let ?d2 = "snd (set_nonce K X a (ai_nonce ?i) ?d1)"
  let ?code = "case ai_code ?i of
      Some code \<Rightarrow> if code \<noteq> []
        then athen (ignore_err (on_store (set_code K X a code))) (cache_code (ai_code_hash ?i) code) else aret ()
    | None \<Rightarrow> aret ()"
  have wf: "state_wf X (contents ?d2)" using state_wf_writes assms(1) by blast
  have "\<exists>d3 cache'. ?code (?d2, cache) = (Ok (), (d3, cache')) \<and> state_wf X (contents d3) \<and>
      view_of X (contents d3) = (view_of X (contents ?d2))\<lparr>sv_code := (sv_code (view_of X (contents ?d2)))
        (a := committed_code acc (sv_code (view_of X (contents d)) a))\<rparr>"
  proof (cases "\<exists>c. ai_code ?i = Some c \<and> c \<noteq> []")
    case True
    then obtain c where c: "ai_code ?i = Some c" "c \<noteq> []" by blast
    then show ?thesis
      using state_wf_writes(3) [OF wf] by (simp add: athen_def cache_code_def set_code_view committed_code_def)
  next
    case False
    then have "?code (?d2, cache) = (Ok (), (?d2, cache))" "committed_code acc y = y" for y
      by (auto simp: committed_code_def aret_def split: option.splits)
    then show ?thesis
      using wf by (intro exI [of _ ?d2] exI [of _ cache]) (simp add: set_nonce_view set_balance_view)
  qed
  then obtain d3 cache' where c: "?code (?d2, cache) = (Ok (), (d3, cache'))" "state_wf X (contents d3)"
    "view_of X (contents d3) = (view_of X (contents ?d2))\<lparr>sv_code := (sv_code (view_of X (contents ?d2)))
        (a := committed_code acc (sv_code (view_of X (contents d)) a))\<rparr>" by blast
  from commit_storage [OF c(2) assms(2), of a cache'] obtain d4 where
    s: "afor (ac_storage acc) (\<lambda>(slot, w). ignore_err (on_store (set_storage K X a slot w))) (d3, cache')
        = (Ok (), (d4, cache'))" "state_wf X (contents d4)"
      "view_of X (contents d4) = (view_of X (contents d3))\<lparr>sv_storage := (sv_storage (view_of X (contents d3)))
        (a := committed_storage acc (sv_storage (view_of X (contents d3)) a))\<rparr>"
    unfolding committed_storage_def by blast
  have "commit_account K X (a, acc) (d, cache) = (Ok (), (d4, cache'))"
    using c(1) s(1) by (simp add: commit_account_def athen_def Let_def)
  moreover have "view_of X (contents d4) = committed [a \<mapsto> acc] (view_of X (contents d))"
    unfolding s(3) c(3) set_nonce_view set_balance_view
    by (simp add: committed_def committed_storage_def fun_eq_iff)
  ultimately show ?thesis using s(2) by blast
qed

lemma commit_refines:
  assumes "state_wf X (contents d)" and "changes_ok chs"
  shows "\<exists>d' cache'. commit K X chs (d, cache) = (Ok (), (d', cache')) \<and>
    state_wf X (contents d') \<and> view_of X (contents d') = committed (map_of chs) (view_of X (contents d))"
  using assms unfolding commit_def
proof (induction chs arbitrary: d cache)
  case Nil
  then show ?case by simp
next
  case (Cons x chs)
  obtain a acc where x: "x = (a, acc)" by (cases x)
  have ok: "changes_ok chs" "a \<notin> dom (map_of chs)" "distinct (map fst (ac_storage acc))"
    using Cons.prems(2) x by (auto simp: changes_ok_def dom_map_of_conv_image_fst)
  from commit_account_refines [OF Cons.prems(1) ok(3), of a cache] obtain d1 cache1 where
    d1: "commit_account K X (a, acc) (d, cache) = (Ok (), (d1, cache1))" "state_wf X (contents d1)"
      "view_of X (contents d1) = committed [a \<mapsto> acc] (view_of X (contents d))" by blast
  from Cons.IH [OF d1(2) ok(1), of cache1] d1 committed_step [OF ok(2)] show ?case
    by (auto simp: x simp del: fun_upd_apply)
qed

end

section \<open>Revert reasons\<close>

lemma be_nat_leading_zeros: "x < 256 ^ n \<Longrightarrow> be_nat (m + n) x = replicate m 0 @ be_nat n x"
proof (induction n arbitrary: x)
  case 0
  then show ?case by simp
next
  case (Suc n)
  then have "x div 256 < 256 ^ n" by (simp add: less_mult_imp_div_less mult.commute)
  with Suc.IH show ?case by simp
qed

lemma of_be_take_zeros: "of_be (replicate 4 0) = (0 :: u32)"
  using nat_of_be_replicate_0 [of 4 "[]"] by (simp add: of_be_def)

section \<open>Properties\<close>

text \<open>C29: committing the interpreter's changes refines the abstract update of the accounts: over a
  working store the commit always succeeds, and balances, nonces, non-empty code and written slots
  of the changed accounts are exactly those given, everything else is as before; in particular the
  order of the changes does not matter, so the iteration order of the change table cannot make
  two nodes disagree.\<close>

theorem commit_refines_update:
  assumes "state_store K contents X" and "state_wf X (contents d)" and "changes_ok chs"
    and "mset chs' = mset chs"
  shows "\<exists>d' c' d'' c''. commit K X chs (d, cache) = (Ok (), (d', c')) \<and>
    commit K X chs' (d, cache) = (Ok (), (d'', c'')) \<and>
    view_of X (contents d') = committed (map_of chs) (view_of X (contents d)) \<and>
    view_of X (contents d'') = view_of X (contents d')"
proof -
  have m: "mset (map fst chs') = mset (map fst chs)" using assms(4) by (metis mset_map)
  have "distinct (map fst chs')"
    using assms(3) mset_eq_imp_distinct_iff [OF m] by (simp add: changes_ok_def)
  moreover have s: "set chs' = set chs" using assms(4) by (metis set_mset_mset)
  ultimately have ok: "changes_ok chs'" using assms(3) by (simp add: changes_ok_def list_all_iff)
  have "map_of chs' = map_of chs"
    using ok assms(3) s by (intro map_of_inject_set [THEN iffD2]) (auto simp: changes_ok_def)
  with state_store.commit_refines [OF assms(1,2) assms(3), of cache]
    state_store.commit_refines [OF assms(1,2) ok, of cache] show ?thesis by metis
qed

definition example_changes :: changes where
  "example_changes = [
     (3, \<lparr>ac_info = \<lparr>ai_balance = 70, ai_nonce = 1, ai_code_hash = 0, ai_code = None\<rparr>,
        ac_storage = [], ac_selfdestructed = False\<rparr>),
     (5, \<lparr>ac_info = \<lparr>ai_balance = 30, ai_nonce = 0, ai_code_hash = 9, ai_code = Some [4, 5]\<rparr>,
        ac_storage = [(1, 11), (2, 12)], ac_selfdestructed = True\<rparr>)]"

theorem commit_refines_update_witness:
  "\<exists>d' c'. commit mem_kv ref_ext (rev example_changes) ([], Map.empty) = (Ok (), (d', c')) \<and>
     sv_balance (view_of ref_ext (map_of d')) 5 = 30 \<and> sv_code (view_of ref_ext (map_of d')) 5 = [4, 5] \<and>
     sv_storage (view_of ref_ext (map_of d')) 5 2 = 12"
proof -
  have wf: "state_wf ref_ext (map_of [])" by simp
  have ok: "changes_ok example_changes" by (simp add: changes_ok_def example_changes_def)
  have "mset (rev example_changes) = mset example_changes" by simp
  from commit_refines_update [OF mem_state.state_store_axioms wf ok this, of Map.empty] show ?thesis
    by (auto simp: committed_def committed_code_def committed_storage_def example_changes_def)
qed

text \<open>An account the interpreter marks as destroyed is not deleted: with the mark set on any
  of the changed accounts the commit does exactly what it does without it, so the code and the
  storage of the account stay.\<close>

theorem commit_ignores_selfdestruct:
  "commit K X (map (\<lambda>(a, acc). (a, acc\<lparr>ac_selfdestructed := mark a\<rparr>)) chs) s = commit K X chs s"
proof -
  have "commit_account K X (a, acc\<lparr>ac_selfdestructed := b\<rparr>) = commit_account K X (a, acc)" for a acc b
    by (simp add: commit_account_def)
  then have c: "commit_account K X (case x of (a, acc) \<Rightarrow> (a, acc\<lparr>ac_selfdestructed := mark a\<rparr>))
      = commit_account K X x" for x
    by (cases x) simp
  have "afor (map (\<lambda>(a, acc). (a, acc\<lparr>ac_selfdestructed := mark a\<rparr>)) chs) (commit_account K X)
      = afor chs (commit_account K X)"
  proof (induction chs)
    case (Cons x chs)
    then show ?case by (intro ext) (simp add: c del: split_paired_All)
  qed (simp add: fun_eq_iff)
  then show ?thesis by (simp add: commit_def)
qed

text \<open>No standard revert reason is ever decoded: of the ABI encoding of \<open>Error(string)\<close> (selector,
  offset, length, message, padding) the decoder reads the first four bytes of the length word as
  the length, which are zero for every message shorter than \<open>2 ^ 224\<close> bytes, so the result is the
  empty string.\<close>

theorem revert_reason_empty:
  assumes "data = [0x08, 0xc3, 0x79, 0xa0] @ be_nat 32 32 @ be_nat 32 (length msg) @ msg @ padding"
    and "msg \<noteq> []" and "length msg < 2 ^ 224"
  shows "decode_revert_reason data = Some []"
proof -
  have "drop 36 data = be_nat 32 (length msg) @ msg @ padding"
    using assms(1) by simp
  moreover have "be_nat 32 (length msg) = replicate 4 0 @ be_nat 28 (length msg)"
    using be_nat_leading_zeros [of "length msg" 28 4] assms(3) by simp
  ultimately have "take 4 (drop 36 data) = replicate 4 0" by simp
  moreover have "take 4 data = [0x08, 0xc3, 0x79, 0xa0]" "68 < length data"
    using assms(1,2) by simp_all
  ultimately show ?thesis
    by (simp only: decode_revert_reason_def of_be_take_zeros Let_def) (simp add: from_utf8_def)
qed

theorem revert_reason_empty_witness:
  "decode_revert_reason ([0x08, 0xc3, 0x79, 0xa0] @ be_nat 32 32 @ be_nat 32 2 @ ascii ''no'' @ replicate 30 0)
     = Some []"
proof -
  have l: "length (ascii ''no'') = 2" by simp
  then have "ascii ''no'' \<noteq> []" "length (ascii ''no'') < 2 ^ 224" by (auto simp del: length_ascii)
  from revert_reason_empty [OF refl this, of "replicate 30 0"] show ?thesis unfolding l .
qed

end
