(* ===== verification/Quyn_RpcTx.thy ===== *)
theory Quyn_RpcTx
  imports Quyn_Validation
begin

text \<open>
  rpc/src/server.rs, the transaction formats: parsing raw Ethereum transactions (legacy and
  EIP-1559) into signed transactions, and the parsing of addresses and hashes. Lemmas: a legacy
  transaction written by \<open>to_legacy_rlp\<close> is read back with the same content and sender; what an
  EIP-1559 transaction's signature does not cover; and the inputs that make the parser panic.
\<close>

section \<open>Parsing\<close>

type_synonym 'a parse_result = "(string, 'a) outcome"

definition rlp_bytes_to_u256 :: "bytes \<Rightarrow> u256" where
  "rlp_bytes_to_u256 b =
     (let len = min (length b) 32
      in of_be (replicate (32 - len) 0 @ drop (length b - len) b))"

text \<open>The 32-byte arrays \<open>r\<close> and \<open>s\<close> are filled from the right in the same way.\<close>

definition rlp_bytes_to_b256 :: "bytes \<Rightarrow> b256" where
  "rlp_bytes_to_b256 b =
     (let len = min (length b) 32
      in of_be (replicate (32 - len) 0 @ drop (length b - len) b))"

definition rlp_data_at :: "ext \<Rightarrow> bytes \<Rightarrow> nat \<Rightarrow> bytes parse_result" where
  "rlp_data_at X bytes i = obind (of_sum id (rlp_at X bytes i)) (\<lambda>raw. of_sum id (rlp_data X raw))"

definition rlp_u64_at :: "ext \<Rightarrow> bytes \<Rightarrow> nat \<Rightarrow> u64 parse_result" where
  "rlp_u64_at X bytes i = of_sum id (rlp_val_u64 X bytes i)"

definition parse_to :: "bytes \<Rightarrow> address option parse_result" where
  "parse_to bs =
     (if bs = [] then Ok None
      else if length bs = 20 then Ok (Some (of_be bs))
      else Err ''invalid 'to' address length'')"

definition parse_legacy_tx :: "ext \<Rightarrow> bytes \<Rightarrow> signed_transaction parse_result" where
  "parse_legacy_tx X raw_bytes =
     (if \<not> rlp_is_list X raw_bytes then Err ''expected RLP list''
      else obind (of_sum id (rlp_item_count X raw_bytes)) (\<lambda>item_count.
        if item_count < 9 then Err (''legacy tx expects 9 fields, got '' @ dec item_count)
        else
          obind (rlp_u64_at X raw_bytes 0) (\<lambda>nonce.
          obind (rlp_data_at X raw_bytes 1) (\<lambda>gas_price_bytes.
          obind (rlp_u64_at X raw_bytes 2) (\<lambda>gas_limit.
          obind (rlp_data_at X raw_bytes 3) (\<lambda>to_b.
          obind (parse_to to_b) (\<lambda>to_a.
          obind (rlp_data_at X raw_bytes 4) (\<lambda>value_bytes.
          obind (rlp_data_at X raw_bytes 5) (\<lambda>data.
          obind (rlp_u64_at X raw_bytes 6) (\<lambda>v.
          obind (rlp_data_at X raw_bytes 7) (\<lambda>r_bytes.
          obind (rlp_data_at X raw_bytes 8) (\<lambda>s_bytes.
          let cid = (if 35 \<le> v then (v - 35) div 2 else 0);
              v_byte = (if 35 \<le> v then ucast ((v - 35) mod 2 + 27) else ucast v)
          in Ok \<lparr>st_tx = \<lparr>t_nonce = nonce, t_gas_price = rlp_bytes_to_u256 gas_price_bytes,
                 t_gas_limit = gas_limit, t_to = to_a, t_value = rlp_bytes_to_u256 value_bytes,
                 t_data = data, t_chain_id = cid\<rparr>,
               st_r = rlp_bytes_to_b256 r_bytes, st_s = rlp_bytes_to_b256 s_bytes, st_v = v_byte,
               st_hash_override = Some (keccak256 X raw_bytes)\<rparr>))))))))))))"

text \<open>\<open>{:?}\<close> of a byte slice\<close>

fun debug_list :: "bytes \<Rightarrow> string" where
  "debug_list [] = ''''"
| "debug_list [b] = dec (unat b)"
| "debug_list (b # c # bs) = dec (unat b) @ '', '' @ debug_list (c # bs)"

definition debug_bytes :: "bytes \<Rightarrow> string" where
  "debug_bytes bs = ''['' @ debug_list bs @ '']''"

definition eip1559_payload :: "bytes \<Rightarrow> bytes" where
  "eip1559_payload raw_bytes = (case raw_bytes of
       [] \<Rightarrow> []
     | b # bs \<Rightarrow> if b = 2 then bs else raw_bytes)"

definition parse_eip1559_tx :: "ext \<Rightarrow> bytes \<Rightarrow> signed_transaction parse_result" where
  "parse_eip1559_tx X raw_bytes =
     (let bytes = eip1559_payload raw_bytes in
      if length bytes < 2 then Err ''EIP-1559 payload too short''
      else if \<not> rlp_is_list X bytes then Err ''EIP-1559 expected RLP list''
      else obind (of_sum (\<lambda>e. ''EIP-1559 item_count: '' @ e) (rlp_item_count X bytes)) (\<lambda>item_count.
        if item_count < 11
        then Err (''EIP-1559 tx expects 11-12 fields, got '' @ dec item_count @ '' (payload len='' @
               dec (length bytes) @ '', first_bytes='' @ debug_bytes (take 4 bytes) @ '')'')
        else
          obind (rlp_u64_at X bytes 0) (\<lambda>cid.
          obind (rlp_u64_at X bytes 1) (\<lambda>nonce.
          obind (rlp_data_at X bytes 2) (\<lambda>max_priority.
          obind (rlp_data_at X bytes 3) (\<lambda>max_fee.
          obind (rlp_u64_at X bytes 4) (\<lambda>gas_limit.
          obind (rlp_data_at X bytes 5) (\<lambda>to_b.
          obind (parse_to to_b) (\<lambda>to_a.
          obind (rlp_data_at X bytes 6) (\<lambda>value_bytes.
          obind (rlp_data_at X bytes 7) (\<lambda>data.
          obind (of_sum id (rlp_at X bytes 8)) (\<lambda>access_list.
          obind (rlp_u64_at X bytes 9) (\<lambda>parity.
          obind (chk_add 27 (ucast parity :: u8)) (\<lambda>v_byte.
          obind (rlp_data_at X bytes 10) (\<lambda>r_bytes.
          obind (rlp_data_at X bytes 11) (\<lambda>s_bytes.
          Ok \<lparr>st_tx = \<lparr>t_nonce = nonce, t_gas_price = rlp_bytes_to_u256 max_fee,
                 t_gas_limit = gas_limit, t_to = to_a, t_value = rlp_bytes_to_u256 value_bytes,
                 t_data = data, t_chain_id = cid\<rparr>,
               st_r = rlp_bytes_to_b256 r_bytes, st_s = rlp_bytes_to_b256 s_bytes, st_v = v_byte,
               st_hash_override = Some (keccak256 X raw_bytes)\<rparr>))))))))))))))))"

definition rpc_parse_address :: "ext \<Rightarrow> string \<Rightarrow> address parse_result" where
  "rpc_parse_address X s =
     obind (of_sum id (hex_decode X (trim_start_matches ''0x'' s))) (\<lambda>bytes.
     if length bytes \<noteq> 20 then Err ''address must be 20 bytes'' else Ok (of_be bytes))"

definition parse_tx_hash :: "ext \<Rightarrow> string \<Rightarrow> b256 parse_result" where
  "parse_tx_hash X s =
     obind (of_sum id (hex_decode X (trim_start_matches ''0x'' s))) (\<lambda>bytes.
     if length bytes \<noteq> 32 then Err ''tx hash must be 32 bytes'' else Ok (of_be bytes))"

section \<open>Reading back\<close>

lemma rlp_bytes_pad: "length b \<le> 32 \<Longrightarrow> rlp_bytes_to_u256 b = of_nat (nat_of_be b)"
  "length b \<le> 32 \<Longrightarrow> rlp_bytes_to_b256 b = of_nat (nat_of_be b)"
  by (simp_all add: rlp_bytes_to_u256_def rlp_bytes_to_b256_def of_be_def)

lemma rlp_bytes_to_u256_roundtrip [simp]: "rlp_bytes_to_u256 (u256_to_rlp_bytes u) = u"
proof -
  have "of_nat (nat_of_be (u256_be u)) = u"
    using of_be_word_bytes(3) [of u] by (simp add: of_be_def)
  then show ?thesis
    by (simp add: rlp_bytes_pad length_u256_to_rlp_bytes) (simp add: u256_to_rlp_bytes_def)
qed

lemma rlp_bytes_to_b256_roundtrip [simp]: "rlp_bytes_to_b256 (b256_bytes h) = h"
  using of_be_word_bytes(5) [of h] by (simp add: rlp_bytes_pad of_be_def)

lemma parse_to_roundtrip [simp]: "parse_to (to_bytes a) = Ok a"
proof (cases a)
  case (Some x)
  have "address_bytes x \<noteq> []" using length_word_bytes(4) [of x] by (metis list.size(3) zero_neq_numeral)
  then show ?thesis using Some by (simp add: parse_to_def to_bytes_def)
qed (simp add: parse_to_def to_bytes_def)

context rlp_crate
begin

lemma data_at_out: "i < length xs \<Longrightarrow> rlp_data_at X (rlp_stream_out X xs) i = Ok (rlp_item_data (xs ! i))"
  using rlp_out_at [of i xs] by (auto simp: rlp_data_at_def)

lemma u64_at_out: "i < length xs \<Longrightarrow> xs ! i = RlpU64 n \<Longrightarrow> rlp_u64_at X (rlp_stream_out X xs) i = Ok n"
  using rlp_out_u64 [of i xs n] by (simp add: rlp_u64_at_def)

lemma parse_signed_items:
  "parse_legacy_tx X (rlp_stream_out X (signed_items t v r s)) =
     Ok \<lparr>st_tx = t\<lparr>t_chain_id := if 35 \<le> v then (v - 35) div 2 else 0\<rparr>, st_r = r, st_s = s,
       st_v = (if 35 \<le> v then ucast ((v - 35) mod 2 + 27) else ucast v),
       st_hash_override = Some (keccak256 X (rlp_stream_out X (signed_items t v r s)))\<rparr>"
proof -
  let ?xs = "signed_items t v r s"
  have l: "length ?xs = 9" by (simp add: signed_items_def)
  have u: "rlp_u64_at X (rlp_stream_out X ?xs) 0 = Ok (t_nonce t)"
    "rlp_u64_at X (rlp_stream_out X ?xs) 2 = Ok (t_gas_limit t)"
    "rlp_u64_at X (rlp_stream_out X ?xs) 6 = Ok v"
    by (rule u64_at_out; simp add: signed_items_def)+
  have d: "rlp_data_at X (rlp_stream_out X ?xs) 1 = Ok (u256_to_rlp_bytes (t_gas_price t))"
    "rlp_data_at X (rlp_stream_out X ?xs) 3 = Ok (to_bytes (t_to t))"
    "rlp_data_at X (rlp_stream_out X ?xs) 4 = Ok (u256_to_rlp_bytes (t_value t))"
    "rlp_data_at X (rlp_stream_out X ?xs) 5 = Ok (t_data t)"
    "rlp_data_at X (rlp_stream_out X ?xs) 7 = Ok (b256_bytes r)"
    "rlp_data_at X (rlp_stream_out X ?xs) 8 = Ok (b256_bytes s)"
    by (simp_all add: data_at_out l) (simp_all add: signed_items_def)
  have e: "\<lparr>t_nonce = t_nonce t, t_gas_price = t_gas_price t, t_gas_limit = t_gas_limit t,
      t_to = t_to t, t_value = t_value t, t_data = t_data t, t_chain_id = c\<rparr> = t\<lparr>t_chain_id := c\<rparr>" for c
    by (cases t) simp
  show ?thesis
    by (simp add: parse_legacy_tx_def rlp_out_list rlp_out_count l u d e Let_def del: One_nat_def)
qed

end

text \<open>The payload of an EIP-1559 transaction with an empty access list.\<close>

definition eip1559_items ::
  "transaction \<Rightarrow> u256 \<Rightarrow> u64 \<Rightarrow> b256 \<Rightarrow> b256 \<Rightarrow> rlp_item list" where
  "eip1559_items t priority parity r s =
     [RlpU64 (t_chain_id t), RlpU64 (t_nonce t), RlpBytes (u256_to_rlp_bytes priority),
      RlpBytes (u256_to_rlp_bytes (t_gas_price t)), RlpU64 (t_gas_limit t), RlpBytes (to_bytes (t_to t)),
      RlpBytes (u256_to_rlp_bytes (t_value t)), RlpBytes (t_data t), RlpEmpty, RlpU64 parity,
      RlpBytes (b256_bytes r), RlpBytes (b256_bytes s)]"

context rlp_crate
begin

lemma parse_eip1559_items:
  assumes "raw = rlp_stream_out X (eip1559_items t priority parity r s)" and "2 \<le> length raw"
  shows "parse_eip1559_tx X (2 # raw) =
    obind (chk_add 27 (ucast parity :: u8)) (\<lambda>v. Ok \<lparr>st_tx = t, st_r = r, st_s = s, st_v = v,
       st_hash_override = Some (keccak256 X (2 # raw))\<rparr>)"
proof -
  let ?xs = "eip1559_items t priority parity r s"
  have l: "length ?xs = 12" by (simp add: eip1559_items_def)
  have u: "rlp_u64_at X raw 0 = Ok (t_chain_id t)" "rlp_u64_at X raw 1 = Ok (t_nonce t)"
    "rlp_u64_at X raw 4 = Ok (t_gas_limit t)" "rlp_u64_at X raw 9 = Ok parity"
    unfolding assms(1) by (rule u64_at_out; simp add: eip1559_items_def)+
  have d: "rlp_data_at X raw 2 = Ok (u256_to_rlp_bytes priority)"
    "rlp_data_at X raw 3 = Ok (u256_to_rlp_bytes (t_gas_price t))"
    "rlp_data_at X raw 5 = Ok (to_bytes (t_to t))"
    "rlp_data_at X raw 6 = Ok (u256_to_rlp_bytes (t_value t))" "rlp_data_at X raw 7 = Ok (t_data t)"
    "rlp_data_at X raw 10 = Ok (b256_bytes r)" "rlp_data_at X raw 11 = Ok (b256_bytes s)"
    unfolding assms(1) by (simp_all add: data_at_out l) (simp_all add: eip1559_items_def)
  obtain al where al: "rlp_at X raw 8 = Inr al"
    using rlp_out_at [of 8 ?xs] l unfolding assms(1) by auto
  have li: "rlp_is_list X raw" "rlp_item_count X raw = Inr 12"
    unfolding assms(1) by (simp_all add: rlp_out_list rlp_out_count l)
  have e: "\<lparr>t_nonce = t_nonce t, t_gas_price = t_gas_price t, t_gas_limit = t_gas_limit t,
      t_to = t_to t, t_value = t_value t, t_data = t_data t, t_chain_id = t_chain_id t\<rparr> = t"
    by (cases t) simp
  show ?thesis
    using assms(2) by (simp add: parse_eip1559_tx_def eip1559_payload_def li u d al e Let_def del: One_nat_def)
qed

end

lemma parse_to_legacy_rlp:
  assumes "rlp_crate X" and "unat (chain_id st) < 2 ^ 62" and "st_v st \<in> {0, 1, 27, 28}"
  shows "\<exists>raw st'. to_legacy_rlp X st = (Ok raw :: bytes parse_result) \<and> parse_legacy_tx X raw = Ok st' \<and>
    st' = st\<lparr>st_v := (if st_v st < 27 then st_v st + 27 else st_v st),
      st_hash_override := Some (keccak256 X raw)\<rparr> \<and>
    sender X st' = sender X st \<and> tx_hash X st' = keccak256 X raw"
proof -
  let ?cid = "chain_id st" and ?p = "if 27 \<le> st_v st then st_v st - 27 else st_v st"
  define v :: u64 where "v = 35 + 2 * ?cid + ucast ?p"
  define raw where "raw = rlp_stream_out X (signed_items (st_tx st) v (st_r st) (st_s st))"
  have v: "v_eip155 ?cid (st_v st) = (Ok v :: u64 parse_result)" and n: "unat v = 35 + 2 * unat ?cid + unat ?p"
    using v_eip155_Ok [OF assms(2,3)] by (simp_all add: v_def)
  have p: "?p = 0 \<or> ?p = 1" using assms(3) by (auto simp: word_le_nat_alt)
  have w: "to_legacy_rlp X st = (Ok raw :: bytes parse_result)"
    using v by (simp add: to_legacy_rlp_def raw_def chain_id_def)
  have ge: "35 \<le> v" using n by (simp add: word_le_nat_alt)
  then have m: "unat (v - 35) = 2 * unat ?cid + unat ?p"
    using n by (simp add: unat_sub word_le_nat_alt)
  have c: "(v - 35) div 2 = ?cid"
    using m p by (intro word_unat_eq_iff [THEN iffD2]) (auto simp: unat_div)
  have "unat ((v - 35) mod 2) = unat ?p"
    using m p by (auto simp: unat_mod)
  then have "(v - 35) mod 2 = ucast ?p"
    using p by (intro word_unat_eq_iff [THEN iffD2]) auto
  then have b: "ucast ((v - 35) mod 2 + 27) = (if st_v st < 27 then st_v st + 27 else st_v st)"
    using assms(3) by (auto simp: word_le_nat_alt)
  have "(st_tx st)\<lparr>t_chain_id := ?cid\<rparr> = st_tx st" by (cases "st_tx st") (simp add: chain_id_def)
  then have q: "parse_legacy_tx X raw = Ok (st\<lparr>st_v := (if st_v st < 27 then st_v st + 27 else st_v st),
      st_hash_override := Some (keccak256 X raw)\<rparr>)"
    using rlp_crate.parse_signed_items [OF assms(1), of "st_tx st" v "st_r st" "st_s st"] ge c b
    by (cases st) (simp add: raw_def)
  have "sender X (st\<lparr>st_v := (if st_v st < 27 then st_v st + 27 else st_v st),
      st_hash_override := Some (keccak256 X raw)\<rparr>) = sender X st"
    using recover_sender_v_shift [of "st_v st"] by (simp add: sender_def)
  with w q show ?thesis by (simp add: tx_hash_def)
qed

section \<open>Properties\<close>

text \<open>C26: a signed transaction survives the wire: for every chain id below \<open>2 ^ 62\<close> and every usual
  \<open>v\<close>, \<open>to_legacy_rlp\<close> writes bytes that the RPC parses back to the same transaction with the same
  signature, \<open>v\<close> normalised to 27 or 28 and the hash of the bytes recorded, so that the recovered
  sender is unchanged.\<close>

theorem legacy_tx_roundtrip:
  assumes "rlp_crate X" and "unat (chain_id st) < 2 ^ 62" and "st_v st \<in> {0, 1, 27, 28}"
  shows "\<exists>raw st'. to_legacy_rlp X st = (Ok raw :: bytes parse_result) \<and> parse_legacy_tx X raw = Ok st' \<and>
    st' = st\<lparr>st_v := (if st_v st < 27 then st_v st + 27 else st_v st),
      st_hash_override := Some (keccak256 X raw)\<rparr> \<and>
    sender X st' = sender X st \<and> tx_hash X st' = keccak256 X raw"
  using assms by (rule parse_to_legacy_rlp)

theorem legacy_tx_roundtrip_witness:
  "\<exists>raw st'. to_legacy_rlp ref_ext (example_tx 4 1 5) = (Ok raw :: bytes parse_result) \<and>
     parse_legacy_tx ref_ext raw = Ok st' \<and> st_tx st' = st_tx (example_tx 4 1 5) \<and> sender ref_ext st' = Ok 3"
proof -
  have "unat (chain_id (example_tx 4 1 5)) < 2 ^ 62" "st_v (example_tx 4 1 5) \<in> {0, 1, 27, 28}"
    by (simp_all add: chain_id_def example_tx_def)
  from legacy_tx_roundtrip [OF ref_rlp.rlp_crate_axioms this] show ?thesis by auto
qed

text \<open>An EIP-1559 transaction is not authenticated as such: two payloads that agree on every
  item but the priority fee (item 2) and the access list (item 8) parse to transactions that
  differ only in the recorded hash, with the same recovered sender, because the signature is
  checked against the legacy signing hash of the other fields. Whoever relays the transaction
  can change these items and so its hash.\<close>

theorem eip1559_items_unsigned:
  assumes "parse_eip1559_tx X (2 # p) = Ok st" and "2 \<le> length q" and "rlp_is_list X q"
    and "rlp_item_count X q = rlp_item_count X p"
    and "\<forall>i. i \<noteq> 2 \<and> i \<noteq> 8 \<longrightarrow> rlp_at X q i = rlp_at X p i \<and> rlp_val_u64 X q i = rlp_val_u64 X p i"
    and "rlp_data_at X q 2 = Ok fee" and "rlp_at X q 8 = Inr al"
  shows "\<exists>st'. parse_eip1559_tx X (2 # q) = Ok st' \<and>
    st' = st\<lparr>st_hash_override := Some (keccak256 X (2 # q))\<rparr> \<and>
    sender X st' = sender X st \<and> tx_hash X st = keccak256 X (2 # p) \<and> tx_hash X st' = keccak256 X (2 # q)"
proof -
  have same: "rlp_data_at X q i = rlp_data_at X p i" "rlp_u64_at X q i = rlp_u64_at X p i"
    if "i \<noteq> 2" "i \<noteq> 8" for i
    using assms(5) that by (simp_all add: rlp_data_at_def rlp_u64_at_def)
  have "parse_eip1559_tx X (2 # q) = Ok (st\<lparr>st_hash_override := Some (keccak256 X (2 # q))\<rparr>)"
    and "st_hash_override st = Some (keccak256 X (2 # p))"
    using assms(1-4,6,7) same
    by (auto simp: parse_eip1559_tx_def eip1559_payload_def obind_eq_Ok Let_def split: if_splits)
  then show ?thesis by (simp add: sender_def tx_hash_def)
qed

lemma ref_rlp_at_out:
  "rlp_at ref_ext (rlp_stream_out ref_ext xs) i =
     (if i < length xs then Inr (rlp_item_data (xs ! i)) else Inl ''RlpIsTooShort'')"
  "rlp_val_u64 ref_ext (rlp_stream_out ref_ext xs) i =
     (if i < length xs then Inr (of_be (rlp_item_data (xs ! i))) else Inl ''RlpIsTooShort'')"
  using ref_rlp_out_split [of xs] by (simp_all add: ref_ext_def)

lemma ref_eip1559_length:
  "2 \<le> length (rlp_stream_out ref_ext (eip1559_items t priority parity r s))"
  by (simp add: ref_ext_def eip1559_items_def ref_rlp_item_def)

theorem eip1559_items_unsigned_witness:
  "\<exists>st st'. let p = rlp_stream_out ref_ext (eip1559_items (st_tx (example_tx 0 9 5)) 1 0 1 2);
        q = rlp_stream_out ref_ext (eip1559_items (st_tx (example_tx 0 9 5)) 7 0 1 2)
     in parse_eip1559_tx ref_ext (2 # p) = Ok st \<and> parse_eip1559_tx ref_ext (2 # q) = Ok st' \<and>
        p \<noteq> q \<and> sender ref_ext st' = sender ref_ext st"
proof -
  let ?t = "st_tx (example_tx 0 9 5)"
  let ?p = "rlp_stream_out ref_ext (eip1559_items ?t 1 0 1 2)"
  let ?q = "rlp_stream_out ref_ext (eip1559_items ?t 7 0 1 2)"
  have same: "(eip1559_items ?t 7 0 1 2) ! i = (eip1559_items ?t 1 0 1 2) ! i" if "i \<noteq> 2" for i
    using that unfolding eip1559_items_def numeral_2_eq_2
    by (cases i; simp; rename_tac j; case_tac j; simp; rename_tac k; case_tac k; simp)
  have l: "length (eip1559_items ?t k 0 1 2) = 12" for k by (simp add: eip1559_items_def)
  obtain st where st: "parse_eip1559_tx ref_ext (2 # ?p) = Ok st"
    using ref_rlp.parse_eip1559_items [OF refl ref_eip1559_length, of ?t 1 0 1 2]
    by (simp add: chk_add_def)
  have ne: "?p \<noteq> ?q"
  proof
    assume "?p = ?q"
    then have "u256_to_rlp_bytes 1 = u256_to_rlp_bytes 7"
      unfolding ref_rlp.rlp_out_inject by (simp add: eip1559_items_def)
    then show False by simp
  qed
  have "\<exists>st'. parse_eip1559_tx ref_ext (2 # ?q) = Ok st' \<and>
     st' = st\<lparr>st_hash_override := Some (keccak256 ref_ext (2 # ?q))\<rparr> \<and> sender ref_ext st' = sender ref_ext st \<and>
     tx_hash ref_ext st = keccak256 ref_ext (2 # ?p) \<and> tx_hash ref_ext st' = keccak256 ref_ext (2 # ?q)"
  proof (rule eip1559_items_unsigned [OF st ref_eip1559_length])
    show "rlp_is_list ref_ext ?q" by (rule ref_rlp.rlp_out_list)
    show "rlp_item_count ref_ext ?q = rlp_item_count ref_ext ?p" by (simp add: ref_rlp.rlp_out_count l)
    show "\<forall>i. i \<noteq> 2 \<and> i \<noteq> 8 \<longrightarrow> rlp_at ref_ext ?q i = rlp_at ref_ext ?p i \<and> rlp_val_u64 ref_ext ?q i = rlp_val_u64 ref_ext ?p i"
      using same by (simp add: ref_rlp_at_out l)
    show "rlp_data_at ref_ext ?q 2 = Ok (u256_to_rlp_bytes 7)"
      by (simp add: ref_rlp.data_at_out l) (simp add: eip1559_items_def)
    show "rlp_at ref_ext ?q 8 = Inr []"
      by (simp add: ref_rlp_at_out l) (simp add: eip1559_items_def)
  qed
  with st ne show ?thesis unfolding Let_def by blast
qed

text \<open>The EIP-1559 parser is exact, and a sender can make it panic: an encoded payload (of at
  least two bytes) parses to the transaction with its maximal fee as gas price, its signature and
  the hash of the raw bytes, with 27 plus the low byte of the parity as \<open>v\<close>; but when that byte
  exceeds 228 the addition overflows and the request handler panics.\<close>

theorem eip1559_parse_exact:
  assumes "rlp_crate X" and "raw = rlp_stream_out X (eip1559_items t priority parity r s)"
    and "2 \<le> length raw"
  shows "parse_eip1559_tx X (2 # raw) =
    (if unat parity mod 256 \<le> 228
     then Ok \<lparr>st_tx = t, st_r = r, st_s = s, st_v = 27 + ucast parity,
       st_hash_override = Some (keccak256 X (2 # raw))\<rparr>
     else Panic)"
proof -
  have "unat (ucast parity :: u8) = unat parity mod 256"
    by (simp add: unsigned_ucast_eq take_bit_eq_mod)
  then show ?thesis
    by (simp add: rlp_crate.parse_eip1559_items [OF assms] chk_add_def not_le)
qed

theorem eip1559_parse_exact_witness:
  "parse_eip1559_tx ref_ext (2 # rlp_stream_out ref_ext (eip1559_items (st_tx (example_tx 0 9 5)) 1 229 1 2))
     = Panic"
  using eip1559_parse_exact [OF ref_rlp.rlp_crate_axioms refl ref_eip1559_length, of "st_tx (example_tx 0 9 5)" 1 229 1 2]
  by simp

end
