(* ===== verification/Quyn_Wallet.thy ===== *)
theory Quyn_Wallet
  imports Quyn_RpcTx Quyn_Chain
begin

text \<open>
  wallet/src: errors, key pairs and signing, HD derivation and the offline commands. The crates
  secp256k1 (keys and signatures), bip39 and bip32 (mnemonics and derivation), the parsers of
  \<open>Address\<close> and \<open>U256\<close> and bincode are the parameter \<open>W\<close>; what is relied upon is the locale
  \<open>ecdsa_crate\<close>: recovering a signature gives the signer's public key.
\<close>

section \<open>Keys\<close>

datatype wallet_error =
    InvalidMnemonic string | InvalidKey string | Signing string | WalletIo string

fun wallet_error_string :: "wallet_error \<Rightarrow> string" where
  "wallet_error_string (InvalidMnemonic s) = ''Invalid mnemonic: '' @ s"
| "wallet_error_string (InvalidKey s) = ''Invalid key: '' @ s"
| "wallet_error_string (Signing s) = ''Signing failed: '' @ s"
| "wallet_error_string (WalletIo s) = ''IO: '' @ s"

type_synonym 'a wallet_result = "(wallet_error, 'a) outcome"

record wallet_ext =
  secp_public_key :: "bytes \<Rightarrow> string + bytes"
  secp_sign :: "bytes \<Rightarrow> bytes \<Rightarrow> bytes \<times> nat"
  bip39_from_entropy :: "bytes \<Rightarrow> string + string"
  bip39_seed :: "string \<Rightarrow> string + bytes"
  bip32_derive :: "bytes \<Rightarrow> string \<Rightarrow> string + bytes"
  parse_address_str :: "string \<Rightarrow> string + address"
  parse_u256_str :: "string \<Rightarrow> string + u256"
  ser_tx :: "signed_transaction \<Rightarrow> string + bytes"

record key_pair =
  kp_secret :: bytes
  kp_public :: bytes

definition from_secret :: "wallet_ext \<Rightarrow> bytes \<Rightarrow> key_pair wallet_result" where
  "from_secret W secret =
     obind (of_sum InvalidKey (secp_public_key W secret)) (\<lambda>pk.
     Ok \<lparr>kp_secret = secret, kp_public = pk\<rparr>)"

definition kp_address :: "ext \<Rightarrow> key_pair \<Rightarrow> address" where
  "kp_address X kp = of_be (drop 12 (b256_bytes (keccak256 X (take 64 (drop 1 (kp_public kp))))))"

definition sign_hash :: "wallet_ext \<Rightarrow> key_pair \<Rightarrow> bytes \<Rightarrow> (b256 \<times> b256 \<times> u8) wallet_result" where
  "sign_hash W kp h =
     obind (of_sum InvalidKey (secp_public_key W (kp_secret kp))) (\<lambda>_.
     case secp_sign W (kp_secret kp) h of (compact, recovery_id) \<Rightarrow>
       Ok (of_be (take 32 compact), of_be (take 32 (drop 32 compact)), of_nat recovery_id))"

definition address_from_str :: "wallet_ext \<Rightarrow> string \<Rightarrow> address wallet_result" where
  "address_from_str W s = of_sum InvalidKey (parse_address_str W s)"

definition sign_transaction ::
  "wallet_ext \<Rightarrow> ext \<Rightarrow> transaction \<Rightarrow> key_pair \<Rightarrow> signed_transaction wallet_result" where
  "sign_transaction W X tx kp =
     obind (sign_hash W kp (b256_bytes (signing_hash X tx))) (\<lambda>(r, s, v).
     Ok \<lparr>st_tx = tx, st_r = r, st_s = s, st_v = v, st_hash_override = None\<rparr>)"

section \<open>Derivation\<close>

definition DERIVATION_PATH_MAINNET :: string where
  "DERIVATION_PATH_MAINNET = ''m/44'/7777'/0'/0/''"

definition DERIVATION_PATH_TESTNET :: string where
  "DERIVATION_PATH_TESTNET = ''m/44'/7779'/0'/0/''"

text \<open>The entropy is drawn by the caller.\<close>

definition generate_mnemonic :: "wallet_ext \<Rightarrow> bytes \<Rightarrow> string wallet_result" where
  "generate_mnemonic W entropy = of_sum InvalidMnemonic (bip39_from_entropy W entropy)"

definition derivation_path_prefix :: "u64 \<Rightarrow> string" where
  "derivation_path_prefix cid =
     (if cid = CHAIN_ID_TESTNET then DERIVATION_PATH_TESTNET else DERIVATION_PATH_MAINNET)"

definition derive_keypair_for_chain ::
  "wallet_ext \<Rightarrow> string \<Rightarrow> u32 \<Rightarrow> u64 \<Rightarrow> key_pair wallet_result" where
  "derive_keypair_for_chain W phrase index cid =
     obind (of_sum InvalidMnemonic (bip39_seed W phrase)) (\<lambda>seed.
     obind (of_sum InvalidMnemonic (bip32_derive W seed (derivation_path_prefix cid @ dec (unat index))))
       (\<lambda>secret. from_secret W secret))"

definition derive_keypair :: "wallet_ext \<Rightarrow> string \<Rightarrow> u32 \<Rightarrow> key_pair wallet_result" where
  "derive_keypair W phrase index = derive_keypair_for_chain W phrase index CHAIN_ID_MAINNET"

definition hex_address :: "ext \<Rightarrow> key_pair \<Rightarrow> string" where
  "hex_address X kp = ''0x'' @ hex_encode X (address_bytes (kp_address X kp))"

definition address_for_mnemonic :: "wallet_ext \<Rightarrow> ext \<Rightarrow> string \<Rightarrow> u32 \<Rightarrow> string wallet_result" where
  "address_for_mnemonic W X phrase index =
     obind (derive_keypair W phrase index) (\<lambda>kp. Ok (hex_address X kp))"

section \<open>Commands\<close>

definition newline :: string where "newline = [char_of (10 :: nat)]"

definition run_new :: "wallet_ext \<Rightarrow> ext \<Rightarrow> bytes \<Rightarrow> string wallet_result" where
  "run_new W X entropy =
     obind (generate_mnemonic W entropy) (\<lambda>phrase.
     obind (derive_keypair W phrase 0) (\<lambda>kp.
     Ok (''Mnemonic: '' @ phrase @ newline @ ''Address: '' @ hex_address X kp @ newline)))"

definition run_import :: "wallet_ext \<Rightarrow> ext \<Rightarrow> string \<Rightarrow> u32 \<Rightarrow> string wallet_result" where
  "run_import W X phrase index =
     obind (derive_keypair W phrase index) (\<lambda>kp. Ok (''Address: '' @ hex_address X kp @ newline))"

text \<open>An amount is read as hexadecimal, and as decimal only when that fails.\<close>

definition parse_amount :: "wallet_ext \<Rightarrow> ext \<Rightarrow> string \<Rightarrow> string \<Rightarrow> u256 wallet_result" where
  "parse_amount W X msg v = (case u256_from_str_radix X (trim_start_matches ''0x'' v) 16 of
       Inr u \<Rightarrow> Ok u
     | Inl _ \<Rightarrow> (case parse_u256_str W v of Inr u \<Rightarrow> Ok u | Inl _ \<Rightarrow> Err (InvalidKey msg)))"

definition run_sign_tx ::
  "wallet_ext \<Rightarrow> ext \<Rightarrow> u64 \<Rightarrow> string \<Rightarrow> u64 \<Rightarrow> string option \<Rightarrow> string \<Rightarrow> string \<Rightarrow> u64 \<Rightarrow> string \<Rightarrow> u32 \<Rightarrow>
    bytes wallet_result" where
  "run_sign_tx W X nce gas_pr gas_lim to_str val_str data_str cid phrase index =
     obind (derive_keypair_for_chain W phrase index cid) (\<lambda>kp.
     obind (case to_str of None \<Rightarrow> Ok None | Some s \<Rightarrow> obind (address_from_str W s) (\<lambda>a. Ok (Some a))) (\<lambda>to_a.
     obind (parse_amount W X ''invalid value'' val_str) (\<lambda>value_u.
     obind (parse_amount W X ''invalid gas_price'' gas_pr) (\<lambda>gas_price_u.
     obind (if data_str = [] then Ok []
            else of_sum InvalidKey (hex_decode X (trim_start_matches ''0x'' data_str))) (\<lambda>data_bytes.
     obind (sign_transaction W X \<lparr>t_nonce = nce, t_gas_price = gas_price_u, t_gas_limit = gas_lim,
        t_to = to_a, t_value = value_u, t_data = data_bytes, t_chain_id = cid\<rparr> kp) (\<lambda>signed.
     of_sum Signing (ser_tx W signed)))))))"

section \<open>Signatures recover to the signer\<close>

locale ecdsa_crate =
  fixes X :: ext and W :: wallet_ext
  assumes recover_signature: "secp_public_key W secret = Inr pk \<Longrightarrow> secp_sign W secret msg = (compact, rid) \<Longrightarrow>
      rid < 4 \<and> length compact = 64 \<and> (\<exists>i sig. secp_recovery_id X (int rid) = Some i \<and>
        secp_from_compact X compact i = Some sig \<and> secp_recover X msg sig = Some pk)"
begin

lemma b256_of_32: "length bs = 32 \<Longrightarrow> b256_bytes (of_be bs) = bs"
  using be_nat_nat_of_be [of bs] nat_of_be_less [of bs]
  by (simp add: b256_bytes_def of_be_def unsigned_of_nat take_bit_nat_eq_self)

lemma sign_recovers:
  assumes "from_secret W secret = Ok kp" and "sign_transaction W X tx kp = Ok st"
  shows "st_tx st = tx \<and> st_hash_override st = None \<and> st_v st \<in> {0, 1, 2, 3} \<and>
    sender X st = Ok (kp_address X kp)"
proof -
  from assms(1) obtain pk where pk: "secp_public_key W secret = Inr pk" and kp: "kp = \<lparr>kp_secret = secret, kp_public = pk\<rparr>"
    by (auto simp: from_secret_def obind_eq_Ok of_sum_eq_Ok)
  let ?m = "b256_bytes (signing_hash X tx)"
  obtain compact rid where sg: "secp_sign W secret ?m = (compact, rid)" by (cases "secp_sign W secret ?m")
  from recover_signature [OF pk sg] obtain i sig where rid: "rid < 4" and l: "length compact = 64"
    and i: "secp_recovery_id X (int rid) = Some i" "secp_from_compact X compact i = Some sig"
      "secp_recover X ?m sig = Some pk" by blast
  have st: "st = \<lparr>st_tx = tx, st_r = of_be (take 32 compact), st_s = of_be (take 32 (drop 32 compact)),
      st_v = of_nat rid, st_hash_override = None\<rparr>"
    using assms(2) by (simp add: sign_transaction_def sign_hash_def kp pk sg)
  have rs: "b256_bytes (of_be (take 32 compact)) @ b256_bytes (of_be (take 32 (drop 32 compact))) = compact"
    using l by (simp add: b256_of_32)
  have v: "rid = 0 \<or> rid = 1 \<or> rid = 2 \<or> rid = 3" using rid by auto
  then have u: "uint (of_nat rid :: u8) = int rid" "\<not> 27 \<le> (of_nat rid :: u8)"
    by (auto simp: word_le_nat_alt)
  have "sender X st = Ok (kp_address X kp)"
    using i by (simp add: sender_def recover_sender_def st u rs kp_address_def kp Let_def)
  then show ?thesis using v by (auto simp: st)
qed

end

text \<open>The reference crates: a public key spells out the secret twice behind its tag byte.\<close>

definition ref_wallet :: wallet_ext where
  "ref_wallet = \<lparr>secp_public_key = (\<lambda>s. if length s = 32 then Inr (4 # s @ s) else Inl ''malformed or out-of-range secret key''),
     secp_sign = (\<lambda>s m. (s @ s, 0)),
     bip39_from_entropy = (\<lambda>e. Inr ''abandon about''),
     bip39_seed = (\<lambda>p. Inr (replicate 64 0)),
     bip32_derive = (\<lambda>s p. Inr (replicate 31 0 @ [of_nat (length p)])),
     parse_address_str = (\<lambda>s. Inr 5), parse_u256_str = (\<lambda>s. Inl ''invalid digit''),
     ser_tx = (\<lambda>st. Inr [1])\<rparr>"

interpretation ref_ecdsa: ecdsa_crate ref_ext ref_wallet
proof
  fix secret pk msg compact rid
  assume "secp_public_key ref_wallet secret = Inr pk" "secp_sign ref_wallet secret msg = (compact, rid)"
  then show "rid < 4 \<and> length compact = 64 \<and> (\<exists>i sig. secp_recovery_id ref_ext (int rid) = Some i \<and>
      secp_from_compact ref_ext compact i = Some sig \<and> secp_recover ref_ext msg sig = Some pk)"
    by (auto simp: ref_wallet_def ref_ext_def split: if_splits)
qed

section \<open>Decimal amounts\<close>

text \<open>The number a decimal numeral denotes when it is read as hexadecimal.\<close>

fun read_as_hex :: "nat \<Rightarrow> nat" where
  "read_as_hex n = (if n < 10 then n else 16 * read_as_hex (n div 10) + n mod 10)"

declare read_as_hex.simps [simp del]

lemma read_as_hex_step: "10 \<le> n \<Longrightarrow> read_as_hex n = 16 * read_as_hex (n div 10) + n mod 10"
  by (subst read_as_hex.simps) simp

lemma read_as_hex_ge: "n \<le> read_as_hex n"
proof (induction n rule: read_as_hex.induct)
  case (1 n)
  have "n = 10 * (n div 10) + n mod 10" by simp
  with 1 have "\<not> n < 10 \<Longrightarrow> n \<le> 16 * read_as_hex (n div 10) + n mod 10" by linarith
  then show ?case by (subst read_as_hex.simps) simp
qed

lemma read_as_hex_greater:
  assumes "10 \<le> n" shows "n < read_as_hex n"
proof -
  have "n = 10 * (n div 10) + n mod 10" by simp
  moreover have "1 \<le> n div 10" using assms by simp
  ultimately show ?thesis
    using read_as_hex_step [OF assms] read_as_hex_ge [of "n div 10"] by linarith
qed

lemma dec_is_lower_hex: "dec n = lower_hex (read_as_hex n)"
  unfolding dec_def lower_hex_def
proof (induction n rule: read_as_hex.induct)
  case (1 n)
  show ?case
  proof (cases "n < 10")
    case True
    then show ?thesis
      by (subst (2) radix_string.simps, subst radix_string.simps, subst (1 2 3) read_as_hex.simps) simp
  next
    case False
    then have r: "read_as_hex n = 16 * read_as_hex (n div 10) + n mod 10" and "1 \<le> n div 10"
      by (simp_all add: read_as_hex_step)
    moreover have "n mod 10 < 10" by simp
    ultimately have "\<not> read_as_hex n < 16" "read_as_hex n div 16 = read_as_hex (n div 10)" "read_as_hex n mod 16 = n mod 10"
      using read_as_hex_ge [of "n div 10"] by (linarith | simp add: r)+
    with 1 False show ?thesis
      by (subst (2) radix_string.simps, subst radix_string.simps) simp
  qed
qed

section \<open>Properties\<close>

text \<open>C32: the wallet signs for its own account: whatever mnemonic, index and chain the key pair is
  derived from, a transaction signed with it keeps its content, carries a recovery id as \<open>v\<close> and
  the node recovers exactly the address of the key pair as its sender. The transaction has no
  recorded hash, so it is not in the form bincode can read back.\<close>

theorem wallet_signature_recovers:
  assumes "ecdsa_crate X W" and "derive_keypair_for_chain W phrase index cid = Ok kp"
    and "sign_transaction W X tx kp = Ok st"
  shows "st_tx st = tx \<and> st_v st \<in> {0, 1, 2, 3} \<and> sender X st = Ok (kp_address X kp) \<and> \<not> encodable [st]"
proof -
  from assms(2) obtain secret where "from_secret W secret = Ok kp"
    by (auto simp: derive_keypair_for_chain_def obind_eq_Ok)
  from ecdsa_crate.sign_recovers [OF assms(1) this assms(3)] show ?thesis by (simp add: encodable_def)
qed

theorem wallet_signature_recovers_witness:
  "\<exists>kp st. derive_keypair_for_chain ref_wallet ''abandon about'' 3 7779 = Ok kp \<and>
     sign_transaction ref_wallet ref_ext (st_tx (example_tx 0 9 5)) kp = Ok st \<and>
     sender ref_ext st = Ok (kp_address ref_ext kp)"
proof -
  obtain kp where kp: "derive_keypair_for_chain ref_wallet ''abandon about'' 3 7779 = Ok kp"
    by (simp add: derive_keypair_for_chain_def ref_wallet_def from_secret_def)
  then obtain secret where "from_secret ref_wallet secret = Ok kp"
    by (auto simp: derive_keypair_for_chain_def obind_eq_Ok)
  then obtain st where st: "sign_transaction ref_wallet ref_ext (st_tx (example_tx 0 9 5)) kp = Ok st"
    by (auto simp: sign_transaction_def sign_hash_def from_secret_def obind_eq_Ok of_sum_eq_Ok ref_wallet_def split: if_splits)
  from wallet_signature_recovers [OF ref_ecdsa.ecdsa_crate_axioms kp st] kp st show ?thesis by blast
qed

text \<open>The offline signer takes every decimal amount for a hexadecimal one: for a value of at least
  ten units given in decimal, the amount that is signed is the number its digits denote in base
  sixteen, which is strictly larger than the one the user gave. The decimal reading is
  reached only by a text that is not hexadecimal, and so never by a decimal numeral.\<close>

theorem decimal_amount_read_as_hex:
  assumes "radix_crate X" and "10 \<le> n" and "read_as_hex n < 2 ^ 256"
  shows "parse_amount W X msg (dec n) = Ok (of_nat (read_as_hex n)) \<and>
    n < unat (of_nat (read_as_hex n) :: u256)"
  using radix_crate.from_lower_hex [OF assms(1,3)] read_as_hex_greater [OF assms(2)] assms(3)
  by (simp add: parse_amount_def dec_is_lower_hex trim_start_matches_id [OF lower_hex_no_prefix(1)] unsigned_of_nat take_bit_nat_eq_self)

theorem decimal_amount_read_as_hex_witness:
  "parse_amount ref_wallet ref_ext ''invalid value'' (dec 1000) = Ok 4096"
proof -
  have "read_as_hex 1000 = 4096" by (simp add: read_as_hex.simps)
  then show ?thesis
    using decimal_amount_read_as_hex [OF ref_radix.radix_crate_axioms, of 1000 ref_wallet "''invalid value''"]
    by simp
qed

end
