(* ===== verification/Quyn_Json.thy ===== *)
theory Quyn_Json
  imports Quyn_RugPull
begin

text \<open>
  JSON values as the RPC reads and writes them (\<open>serde_json::Value\<close>), the parameter checks and
  error values of rpc/src/server.rs, and the number parsers of the standard library it uses.
  A floating-point number is a value of the type parameter \<open>'f\<close>. An object is an association list
  without duplicate keys; the order in which its members are printed is not modelled.
\<close>

section \<open>Values\<close>

datatype 'f json =
    JNull
  | JBool bool
  | JInt int
  | JFloat 'f
  | JString string
  | JArray "'f json list"
  | JObject "(string \<times> 'f json) list"

fun as_str :: "'f json \<Rightarrow> string option" where
  "as_str (JString s) = Some s"
| "as_str _ = None"

fun as_bool :: "'f json \<Rightarrow> bool option" where
  "as_bool (JBool b) = Some b"
| "as_bool _ = None"

fun json_u64 :: "'f json \<Rightarrow> u64 option" where
  "json_u64 (JInt i) = (if 0 \<le> i \<and> i < 2 ^ 64 then Some (of_int i) else None)"
| "json_u64 _ = None"

fun as_array :: "'f json \<Rightarrow> 'f json list option" where
  "as_array (JArray xs) = Some xs"
| "as_array _ = None"

text \<open>\<open>v.get(i)\<close> and \<open>v.get("key")\<close>\<close>

fun json_at :: "'f json \<Rightarrow> nat \<Rightarrow> 'f json option" where
  "json_at (JArray xs) i = (if i < length xs then Some (xs ! i) else None)"
| "json_at _ i = None"

fun json_field :: "'f json \<Rightarrow> string \<Rightarrow> 'f json option" where
  "json_field (JObject m) k = map_of m k"
| "json_field _ k = None"

text \<open>\<open>as_object_mut\<close> and \<open>insert\<close>, which does nothing to a value that is no object.\<close>

fun json_insert :: "string \<Rightarrow> 'f json \<Rightarrow> 'f json \<Rightarrow> 'f json" where
  "json_insert k v (JObject m) = JObject (AList.update k v m)"
| "json_insert k v j = j"

abbreviation "obind_opt r f \<equiv> Option.bind r f"

definition unwrap_str :: "string \<Rightarrow> string option \<Rightarrow> string" where
  "unwrap_str d r = (case r of None \<Rightarrow> d | Some s \<Rightarrow> s)"

lemma json_field_insert [simp]:
  "json_field (json_insert k v (JObject m)) k' = (if k' = k then Some v else map_of m k')"
  by (simp add: update_conv')

section \<open>Errors and parameters\<close>

definition error_value :: "string \<Rightarrow> 'f json" where
  "error_value msg = JObject [(''error'', JObject [(''message'', JString msg)])]"

definition error_value_with_code :: "int \<Rightarrow> string \<Rightarrow> 'f json" where
  "error_value_with_code code msg =
     JObject [(''error'', JObject [(''code'', JInt code), (''message'', JString msg)])]"

text \<open>A handler ends with a value, or returns one early (\<open>Err\<close>).\<close>

type_synonym ('f, 'a) handler = "('f json, 'a) outcome"

definition param_str :: "'f json \<Rightarrow> nat \<Rightarrow> string option" where
  "param_str params i = obind_opt (json_at params i) as_str"

definition require_params_array :: "'f json \<Rightarrow> ('f, 'f json list) handler" where
  "require_params_array params = (case as_array params of
       Some xs \<Rightarrow> Ok xs
     | None \<Rightarrow> Err (error_value ''params must be an array''))"

definition require_param_count :: "'f json \<Rightarrow> nat \<Rightarrow> ('f, unit) handler" where
  "require_param_count params min_len =
     obind (require_params_array params) (\<lambda>arr.
     if length arr < min_len
     then Err (error_value (''method requires at least '' @ dec min_len @ '' parameter(s), got '' @ dec (length arr)))
     else Ok ())"

definition require_param_string :: "'f json \<Rightarrow> nat \<Rightarrow> ('f, unit) handler" where
  "require_param_string params i =
     obind (require_param_count params (i + 1)) (\<lambda>_.
     if param_str params i = None
     then Err (error_value (''parameter '' @ dec i @ '' must be a string''))
     else Ok ())"

text \<open>\<open>params.get(i).and_then(as_str).or_else(|| params.get(key).and_then(as_str)).unwrap_or(d)\<close>\<close>

definition param_or_field :: "'f json \<Rightarrow> nat \<Rightarrow> string \<Rightarrow> string \<Rightarrow> string" where
  "param_or_field params i key d = (case param_str params i of
       Some s \<Rightarrow> s
     | None \<Rightarrow> unwrap_str d (obind_opt (json_field params key) as_str))"

text \<open>\<open>.ok().flatten()\<close>\<close>

fun ok_flatten :: "('e, 'a option) outcome \<Rightarrow> ('g, 'a option) outcome" where
  "ok_flatten (Ok r) = Ok r"
| "ok_flatten (Err e) = Ok None"
| "ok_flatten Panic = Panic"
| "ok_flatten Diverge = Diverge"

lemma require_param_string_Ok:
  "require_param_string params i = Ok u \<longleftrightarrow> (\<exists>xs s. params = JArray xs \<and> i < length xs \<and> xs ! i = JString s)"
  by (cases params)
    (auto simp: require_param_string_def require_param_count_def require_params_array_def param_str_def
      obind_eq_Ok elim: as_str.elims split: if_splits)

lemma require_param_string_no_panic [simp]:
  "require_param_string params i \<noteq> Panic" "require_param_string params i \<noteq> Diverge"
  by (auto simp: require_param_string_def require_param_count_def require_params_array_def split: option.splits)

section \<open>Numbers in text\<close>

text \<open>
  \<open>from_str_radix\<close> of an unsigned integer type with \<open>w\<close> bits: an optional plus sign, at least
  one digit, no overflow. \<open>parse\<close> is its instance for base ten.
\<close>

definition digit_value :: "nat \<Rightarrow> char \<Rightarrow> nat option" where
  "digit_value radix c = (let n = of_char c;
       v = (if 48 \<le> n \<and> n < 58 then n - 48 else if 97 \<le> n \<and> n < 123 then n - 87
            else if 65 \<le> n \<and> n < 91 then n - 55 else radix)
     in if v < radix then Some v else None)"

fun digits_value :: "nat \<Rightarrow> nat \<Rightarrow> string \<Rightarrow> nat option" where
  "digits_value radix acc [] = Some acc"
| "digits_value radix acc (c # s) = (case digit_value radix c of
       None \<Rightarrow> None
     | Some v \<Rightarrow> digits_value radix (radix * acc + v) s)"

definition from_str_radix :: "nat \<Rightarrow> nat \<Rightarrow> string \<Rightarrow> nat option" where
  "from_str_radix w radix s =
     (let ds = (case s of [] \<Rightarrow> [] | c # t \<Rightarrow> if c = CHR ''+'' then t else s)
      in if ds = [] then None
         else case digits_value radix 0 ds of
             None \<Rightarrow> None
           | Some n \<Rightarrow> if n < 2 ^ w then Some n else None)"

definition u64_from_str_radix :: "string \<Rightarrow> nat \<Rightarrow> u64 option" where
  "u64_from_str_radix s radix = map_option of_nat (from_str_radix 64 radix s)"

definition u128_from_str_radix :: "string \<Rightarrow> nat \<Rightarrow> u128 option" where
  "u128_from_str_radix s radix = map_option of_nat (from_str_radix 128 radix s)"

lemma digit_value_digit_char: "d < radix \<Longrightarrow> radix \<le> 16 \<Longrightarrow> digit_value radix (digit_char d) = Some d"
  by (auto simp: digit_value_def digit_char_def Let_def)

lemma digits_value_append:
  "digits_value radix acc (s @ t) = (case digits_value radix acc s of
     None \<Rightarrow> None | Some v \<Rightarrow> digits_value radix v t)"
  by (induction s arbitrary: acc) (auto split: option.splits)

lemma digits_value_radix_string:
  "2 \<le> radix \<Longrightarrow> radix \<le> 16 \<Longrightarrow> digits_value radix 0 (radix_string radix n) = Some n"
proof (induction n rule: less_induct)
  case (less n)
  show ?case
  proof (cases "n < radix")
    case True
    with less.prems show ?thesis
      by (subst radix_string.simps) (simp add: digit_value_digit_char)
  next
    case False
    with less.prems have "n div radix < n" "n mod radix < radix" by simp_all
    with less False show ?thesis
      by (subst radix_string.simps) (simp add: digits_value_append digit_value_digit_char)
  qed
qed

lemma digit_char_not_plus: "d < 16 \<Longrightarrow> digit_char d \<noteq> CHR ''+''"
proof -
  assume "d < 16"
  then have "ref_digit (digit_char d) = Some d" by (rule ref_digit_digit_char)
  then show ?thesis by (auto simp: ref_digit_def)
qed

lemma from_str_radix_lower_hex: "n < 2 ^ w \<Longrightarrow> from_str_radix w 16 (lower_hex n) = Some n"
proof -
  assume n: "n < 2 ^ w"
  obtain c t where s: "radix_string 16 n = c # t"
    using radix_string_nonempty by (cases "radix_string 16 n") auto
  then have "c \<in> set (radix_string 16 n)" by simp
  with radix_string_digits obtain d where "d < 16" "c = digit_char d" by blast
  then have "c \<noteq> CHR ''+''" using digit_char_not_plus by simp
  with s n digits_value_radix_string [of 16 n] show ?thesis
    by (simp add: from_str_radix_def lower_hex_def)
qed

end
