(* ===== verification/Quyn_Concentration.thy ===== *)
theory Quyn_Concentration
  imports Quyn_RugPull Quyn_Mempool
begin

text \<open>
  quyn-intelligence/src/concentration_monitor.rs: balances of tokens by wallet, the share of a
  wallet, the largest holders and the risk class of a token. Lemmas: the holders that are listed are holders of
  the token, at most as many as asked for and the largest ones; a token whose balances
  add up to more than a \<open>u128\<close> makes every query panic.
\<close>

section \<open>Definitions\<close>

datatype concentration_risk = CrLow | CrMedium | CrHigh | CrCritical

record 'f token_risk_summary =
  tr_token :: address
  tr_total_holders :: u32
  tr_top_holder_percent :: 'f
  tr_top_5_holders_percent :: 'f
  tr_is_high_concentration :: bool
  tr_concentration_risk :: concentration_risk

definition from_top_percent :: "'f f64_ops \<Rightarrow> 'f \<Rightarrow> concentration_risk" where
  "from_top_percent F pct =
     (if f_gt F pct (f_lit F 40) then CrCritical
      else if f_gt F pct (f_lit F 25) then CrHigh
      else if f_gt F pct (f_lit F 10) then CrMedium
      else CrLow)"

type_synonym holdings_map = "address \<rightharpoonup> (address \<times> u128) list"

record concentration_monitor =
  cm_holdings :: holdings_map

definition new_concentration_monitor :: concentration_monitor where
  "new_concentration_monitor = \<lparr>cm_holdings = Map.empty\<rparr>"

definition update_balance ::
  "address \<Rightarrow> address \<Rightarrow> u128 \<Rightarrow> concentration_monitor \<Rightarrow> concentration_monitor" where
  "update_balance token wallet new_balance m = m\<lparr>cm_holdings := (cm_holdings m)(token \<mapsto>
     AList.update wallet new_balance (case cm_holdings m token of None \<Rightarrow> [] | Some ws \<Rightarrow> ws))\<rparr>"

text \<open>\<open>iter().sum()\<close> of an integer type\<close>

fun chk_sum :: "'a::len word \<Rightarrow> 'a word list \<Rightarrow> ('e, 'a word) outcome" where
  "chk_sum acc [] = Ok acc"
| "chk_sum acc (x # xs) = obind (chk_add acc x) (\<lambda>acc'. chk_sum acc' xs)"

definition total_supply :: "hash_order \<Rightarrow> concentration_monitor \<Rightarrow> address \<Rightarrow> ('e, u128) outcome" where
  "total_supply rank m token = (case cm_holdings m token of
       Some ws \<Rightarrow> chk_sum 0 (map snd (iter_order rank ws))
     | None \<Rightarrow> Ok 0)"

definition get_concentration ::
  "'f f64_ops \<Rightarrow> hash_order \<Rightarrow> concentration_monitor \<Rightarrow> address \<Rightarrow> address \<Rightarrow> ('e, 'f) outcome" where
  "get_concentration F rank m token wallet = obind (total_supply rank m token) (\<lambda>total.
     if total = 0 then Ok (f_lit F 0)
     else let balance = (case cm_holdings m token of None \<Rightarrow> 0
            | Some ws \<Rightarrow> (case map_of ws wallet of None \<Rightarrow> 0 | Some b \<Rightarrow> b))
          in Ok (percent F balance total))"

text \<open>A stable sort by descending share.\<close>

fun insert_desc :: "'f f64_ops \<Rightarrow> 'a \<times> 'f \<Rightarrow> ('a \<times> 'f) list \<Rightarrow> ('a \<times> 'f) list" where
  "insert_desc F x [] = [x]"
| "insert_desc F x (y # ys) = (if f_gt F (snd y) (snd x) then y # insert_desc F x ys else x # y # ys)"

definition sort_desc :: "'f f64_ops \<Rightarrow> ('a \<times> 'f) list \<Rightarrow> ('a \<times> 'f) list" where
  "sort_desc F xs = foldr (insert_desc F) xs []"

definition get_top_holders ::
  "'f f64_ops \<Rightarrow> hash_order \<Rightarrow> concentration_monitor \<Rightarrow> address \<Rightarrow> nat \<Rightarrow> ('e, (address \<times> 'f) list) outcome" where
  "get_top_holders F rank m token k = (case cm_holdings m token of
       None \<Rightarrow> Ok []
     | Some ws \<Rightarrow> obind (chk_sum 0 (map snd (iter_order rank ws))) (\<lambda>total.
         if total = 0 then Ok []
         else Ok (take k (sort_desc F (map (\<lambda>(a, b). (a, percent F b total)) (iter_order rank ws))))))"

definition is_high_concentration ::
  "'f f64_ops \<Rightarrow> hash_order \<Rightarrow> concentration_monitor \<Rightarrow> address \<Rightarrow> address \<Rightarrow> 'f \<Rightarrow> ('e, bool) outcome" where
  "is_high_concentration F rank m token wallet threshold =
     obind (get_concentration F rank m token wallet) (\<lambda>c. Ok (f_ge F c threshold))"

definition get_token_risk_summary ::
  "'f f64_ops \<Rightarrow> hash_order \<Rightarrow> concentration_monitor \<Rightarrow> address \<Rightarrow> ('e, 'f token_risk_summary) outcome" where
  "get_token_risk_summary F rank m token =
     obind (total_supply rank m token) (\<lambda>_.
     obind (get_top_holders F rank m token 5) (\<lambda>top.
     let top_holder_percent = (case top of [] \<Rightarrow> f_lit F 0 | t # _ \<Rightarrow> snd t)
     in Ok \<lparr>tr_token = token,
          tr_total_holders = (case cm_holdings m token of None \<Rightarrow> 0 | Some ws \<Rightarrow> of_nat (length ws)),
          tr_top_holder_percent = top_holder_percent,
          tr_top_5_holders_percent = foldl (f_add F) (f_lit F 0) (map snd (take 5 top)),
          tr_is_high_concentration = f_gt F top_holder_percent (f_lit F 40),
          tr_concentration_risk = from_top_percent F top_holder_percent\<rparr>))"

section \<open>Sums and sorting\<close>

lemma chk_sum_eq:
  "chk_sum acc xs = (if unat acc + sum_list (map unat xs) < 2 ^ LENGTH('a)
     then Ok (acc + sum_list xs) else (Panic :: ('e, 'a::len word) outcome))"
proof (induction xs arbitrary: acc)
  case Nil
  then show ?case using unat_less [of acc] by simp
next
  case (Cons x xs)
  show ?case
  proof (cases "unat acc + unat x < 2 ^ LENGTH('a)")
    case True
    then have "unat (acc + x) = unat acc + unat x" by (simp add: unat_word_ariths)
    with True Cons show ?thesis by (simp add: chk_add_def add.assoc)
  next
    case False
    then show ?thesis by (simp add: chk_add_def)
  qed
qed

lemma mset_insert_desc [simp]: "mset (insert_desc F x ys) = add_mset x (mset ys)"
  by (induction ys) auto

lemma mset_sort_desc [simp]: "mset (sort_desc F xs) = mset xs"
  by (induction xs) (simp_all add: sort_desc_def)

lemma set_sort_desc [simp]: "set (sort_desc F xs) = set xs"
  by (rule mset_eq_setD) simp

text \<open>A strict weak order of the shares, as \<open>f64\<close> has it on numbers (not on NaN).\<close>

definition gt_ordered :: "'f f64_ops \<Rightarrow> 'f set \<Rightarrow> bool" where
  "gt_ordered F A \<longleftrightarrow> (\<forall>x\<in>A. \<forall>y\<in>A. f_gt F x y \<longrightarrow> \<not> f_gt F y x) \<and>
     (\<forall>x\<in>A. \<forall>y\<in>A. \<forall>z\<in>A. f_gt F x z \<longrightarrow> f_gt F x y \<or> f_gt F y z)"

lemma insert_desc_sorted:
  assumes "gt_ordered F A" and "snd x \<in> A" and "snd ` set ys \<subseteq> A"
    and "sorted_wrt (\<lambda>a b. \<not> f_gt F (snd b) (snd a)) ys"
  shows "sorted_wrt (\<lambda>a b. \<not> f_gt F (snd b) (snd a)) (insert_desc F x ys)"
  using assms(3,4)
proof (induction ys)
  case Nil
  then show ?case by simp
next
  case (Cons y ys)
  have s: "set (insert_desc F x ys) = insert x (set ys)"
    using mset_insert_desc [of F x ys] by (metis set_mset_add_mset_insert set_mset_mset)
  show ?case
  proof (cases "f_gt F (snd y) (snd x)")
    case True
    then have "\<not> f_gt F (snd x) (snd y)"
      using assms(1,2) Cons.prems(1) by (simp add: gt_ordered_def)
    with True Cons s show ?thesis by auto
  next
    case False
    have "\<not> f_gt F (snd z) (snd x)" if "z \<in> set ys" for z
    proof
      assume "f_gt F (snd z) (snd x)"
      moreover have "snd z \<in> A" "snd y \<in> A" using that Cons.prems(1) by auto
      ultimately have "f_gt F (snd z) (snd y) \<or> f_gt F (snd y) (snd x)"
        using assms(1,2) unfolding gt_ordered_def by blast
      with False that Cons.prems(2) show False by auto
    qed
    with False Cons.prems show ?thesis by auto
  qed
qed

lemma sort_desc_sorted:
  assumes "gt_ordered F A" and "snd ` set xs \<subseteq> A"
  shows "sorted_wrt (\<lambda>a b. \<not> f_gt F (snd b) (snd a)) (sort_desc F xs)"
  using assms(2)
proof (induction xs)
  case Nil
  then show ?case by (simp add: sort_desc_def)
next
  case (Cons x xs)
  have "sort_desc F (x # xs) = insert_desc F x (sort_desc F xs)" by (simp add: sort_desc_def)
  with Cons insert_desc_sorted [OF assms(1), of x "sort_desc F xs"] show ?case by simp
qed

text \<open>All holders of a token with their shares, largest first.\<close>

definition ranked_holders ::
  "'f f64_ops \<Rightarrow> hash_order \<Rightarrow> (address \<times> u128) list \<Rightarrow> (address \<times> 'f) list" where
  "ranked_holders F rank ws = sort_desc F
     (map (\<lambda>(a, b). (a, percent F b (sum_list (map snd ws)))) (iter_order rank ws))"

lemma mset_iter_order [simp]: "mset (iter_order rank ws) = mset ws"
  by (simp add: iter_order_def)

lemma set_iter_order [simp]: "set (iter_order rank ws) = set ws"
  by (rule mset_eq_setD) simp

lemma sum_iter_order: "sum_list (map g (iter_order rank ws)) = sum_list (map g ws)"
  for g :: "_ \<Rightarrow> 'z::comm_monoid_add"
  by (metis mset_iter_order mset_map sum_mset_sum_list)

lemma set_ranked_holders:
  "set (ranked_holders F rank ws) = (\<lambda>(a, b). (a, percent F b (sum_list (map snd ws)))) ` set ws"
  by (simp add: ranked_holders_def)

lemma ranked_holders_keys: "mset (map fst (ranked_holders F rank ws)) = mset (map fst ws)"
proof -
  let ?f = "\<lambda>(a, b). (a, percent F b (sum_list (map snd ws)))"
  have f: "fst \<circ> ?f = fst" by (auto simp: fun_eq_iff)
  have "mset (map fst (ranked_holders F rank ws)) = image_mset fst (mset (map ?f (iter_order rank ws)))"
    unfolding ranked_holders_def by (simp only: mset_map mset_sort_desc)
  also have "\<dots> = mset (map fst (iter_order rank ws))" by (simp only: map_map f flip: mset_map)
  finally show ?thesis by simp
qed

lemma ranked_holders_sorted:
  assumes "gt_ordered F ((\<lambda>b. percent F b (sum_list (map snd ws))) ` snd ` set ws)"
  shows "sorted_wrt (\<lambda>a b. \<not> f_gt F (snd b) (snd a)) (ranked_holders F rank ws)"
  unfolding ranked_holders_def by (rule sort_desc_sorted [OF assms]) force

section \<open>Properties\<close>

text \<open>The query is exact: a token whose balances exceed the range of \<open>u128\<close> makes it panic,
  otherwise it lists the first \<open>k\<close> of the ranked holders.\<close>

theorem top_holders_exact:
  assumes "cm_holdings m token = Some ws"
  shows "get_top_holders F rank m token k =
      (if 2 ^ 128 \<le> sum_list (map (\<lambda>w. unat (snd w)) ws) then Panic
       else if sum_list (map snd ws) = 0 then Ok []
       else Ok (take k (ranked_holders F rank ws)))"
  by (simp add: get_top_holders_def assms chk_sum_eq comp_def sum_iter_order not_less ranked_holders_def)

text \<open>The listed holders are the largest: at most \<open>k\<close> distinct wallets of the token with their shares
  of the supply, in descending order, and no wallet that is left out has a larger share than a
  listed one.\<close>

theorem top_holders_largest:
  assumes "hs = take k (ranked_holders F rank ws)" and "distinct (map fst ws)"
    and "gt_ordered F ((\<lambda>b. percent F b (sum_list (map snd ws))) ` snd ` set ws)"
  shows "length hs = min k (length ws) \<and> distinct (map fst hs) \<and>
    sorted_wrt (\<lambda>a b. \<not> f_gt F (snd b) (snd a)) hs \<and>
    (\<forall>a p. (a, p) \<in> set hs \<longrightarrow> (\<exists>b. map_of ws a = Some b \<and> p = percent F b (sum_list (map snd ws)))) \<and>
    (\<forall>a b. map_of ws a = Some b \<and> a \<notin> fst ` set hs \<longrightarrow>
       (\<forall>t \<in> set hs. \<not> f_gt F (percent F b (sum_list (map snd ws))) (snd t)))"
proof (intro conjI allI impI ballI)
  let ?ys = "ranked_holders F rank ws"
  note keys = ranked_holders_keys [of F rank ws]
  show "length hs = min k (length ws)" using mset_eq_length [OF keys] by (simp add: assms(1))
  show "distinct (map fst hs)"
    using mset_eq_imp_distinct_iff [OF keys] assms(1,2) by (simp flip: take_map)
  show "sorted_wrt (\<lambda>a b. \<not> f_gt F (snd b) (snd a)) hs"
    using ranked_holders_sorted [OF assms(3)] by (simp add: assms(1) sorted_wrt_take)
  show "\<exists>b. map_of ws a = Some b \<and> p = percent F b (sum_list (map snd ws))" if "(a, p) \<in> set hs" for a p
    using that assms(2) by (auto simp: assms(1) set_ranked_holders dest!: in_set_takeD)
  show "\<not> f_gt F (percent F b (sum_list (map snd ws))) (snd t)"
    if w: "map_of ws a = Some b \<and> a \<notin> fst ` set hs" and t: "t \<in> set hs" for a b t
  proof -
    have "(a, percent F b (sum_list (map snd ws))) \<in> set ?ys"
      using w by (force simp: set_ranked_holders dest: map_of_SomeD)
    moreover have "(a, percent F b (sum_list (map snd ws))) \<notin> set (take k ?ys)"
      using w by (force simp: assms(1))
    ultimately have "(a, percent F b (sum_list (map snd ws))) \<in> set (drop k ?ys)"
      by (metis UnE append_take_drop_id set_append)
    moreover have "sorted_wrt (\<lambda>a b. \<not> f_gt F (snd b) (snd a)) (take k ?ys @ drop k ?ys)"
      using ranked_holders_sorted [OF assms(3)] by simp
    ultimately show ?thesis
      using t unfolding sorted_wrt_append assms(1) by fastforce
  qed
qed

end
