(* ===== verification/Quyn_Rpc.thy ===== *)
theory Quyn_Rpc
  imports Quyn_Json Quyn_RpcTx Quyn_Concentration Quyn_Fraud Quyn_Consensus
begin

text \<open>
  rpc/src/server.rs, the requests about the chain, the state and the pool, one definition per arm
  of \<open>dispatch\<close>. A handler returns a JSON value, early (\<open>Err\<close>) or at its end (\<open>Ok\<close>), or panics;
  requests that change the server are actions on its state. bincode's readers of transactions and
  validator sets are arguments. Logging is not modelled.
\<close>

section \<open>The server\<close>

text \<open>
  \<open>as_rug_pull_poisoned\<close> is the poison flag of the lock around the detector: a panic while it is
  held for writing sets it, and every later \<open>unwrap\<close> of the lock panics. Times are in
  nanoseconds.
\<close>

record ('d, 'f) app_state =
  as_chain :: 'd
  as_state :: 'd
  as_mempool :: mempool
  as_chain_id :: u64
  as_rate_limiter :: "string \<rightharpoonup> u32 \<times> nat"
  as_rug_pull :: "'f rug_pull_detector"
  as_rug_pull_poisoned :: bool
  as_concentration :: concentration_monitor

text \<open>\<open>format!("0x{:x}", n)\<close> and \<open>format!("0x{}", hex::encode(bytes))\<close>\<close>

definition quantity :: "'a::len word \<Rightarrow> string" where
  "quantity n = ''0x'' @ lower_hex (unat n)"

definition hex_data :: "ext \<Rightarrow> bytes \<Rightarrow> string" where
  "hex_data X bs = ''0x'' @ hex_encode X bs"

text \<open>\<open>chain.get_head().ok().flatten().and_then(|h| chain.get_block(&h).ok().flatten())\<close>\<close>

definition head_block :: "'d kv \<Rightarrow> ext \<Rightarrow> codec \<Rightarrow> 'd \<Rightarrow> ('e, block option) outcome" where
  "head_block K X C c = obind (ok_flatten (get_head K X c)) (\<lambda>head. case head of
       None \<Rightarrow> Ok None
     | Some h \<Rightarrow> ok_flatten (get_block K X C c h))"

definition head_number :: "'d kv \<Rightarrow> ext \<Rightarrow> codec \<Rightarrow> 'd \<Rightarrow> ('e, u64) outcome" where
  "head_number K X C c = obind (head_block K X C c) (\<lambda>b. Ok (case b of None \<Rightarrow> 0 | Some b \<Rightarrow> h_number (b_header b)))"

definition core_err :: "ext \<Rightarrow> core_error \<Rightarrow> 'f json" where
  "core_err X e = error_value (core_error_string X e)"

text \<open>\<open>tx.sender().ok().unwrap_or(Address::ZERO)\<close>\<close>

definition sender_or_zero :: "ext \<Rightarrow> signed_transaction \<Rightarrow> ('e, address) outcome" where
  "sender_or_zero X tx = (case sender X tx of
       Ok a \<Rightarrow> Ok a | Err e \<Rightarrow> Ok 0 | Panic \<Rightarrow> Panic | Diverge \<Rightarrow> Diverge)"

text \<open>\<open>iter().map(f).collect()\<close>\<close>

fun omap :: "('a \<Rightarrow> ('e, 'b) outcome) \<Rightarrow> 'a list \<Rightarrow> ('e, 'b list) outcome" where
  "omap f [] = Ok []"
| "omap f (x # xs) = obind (f x) (\<lambda>y. obind (omap f xs) (\<lambda>ys. Ok (y # ys)))"

definition tx_to_json :: "ext \<Rightarrow> signed_transaction \<Rightarrow> ('f, 'f json) handler" where
  "tx_to_json X tx = obind (sender_or_zero X tx) (\<lambda>a.
     Ok (JObject [(''hash'', JString (hex_data X (b256_bytes (tx_hash X tx)))),
       (''from'', JString (hex_data X (address_bytes a))),
       (''to'', case to_addr tx of None \<Rightarrow> JNull | Some t \<Rightarrow> JString (hex_data X (address_bytes t))),
       (''value'', JString (quantity (tx_value tx))),
       (''gasPrice'', JString (quantity (gas_price tx))),
       (''gas'', JString (quantity (gas_limit tx))),
       (''nonce'', JString (quantity (nonce tx)))]))"

section \<open>Chain and account reads\<close>

definition eth_block_number :: "'d kv \<Rightarrow> ext \<Rightarrow> codec \<Rightarrow> 'd \<Rightarrow> ('f, 'f json) handler" where
  "eth_block_number K X C c = obind (head_block K X C c) (\<lambda>b.
     Ok (JString (case b of None \<Rightarrow> ''0x0'' | Some b \<Rightarrow> quantity (h_number (b_header b)))))"

definition param_address :: "ext \<Rightarrow> 'f json \<Rightarrow> ('f, address) handler" where
  "param_address X params =
     map_err error_value (rpc_parse_address X (unwrap_str '''' (param_str params 0)))"

definition param_hash :: "ext \<Rightarrow> 'f json \<Rightarrow> ('f, b256) handler" where
  "param_hash X params = map_err error_value (parse_tx_hash X (unwrap_str '''' (param_str params 0)))"

definition eth_get_balance :: "'d kv \<Rightarrow> ext \<Rightarrow> 'd \<Rightarrow> 'f json \<Rightarrow> ('f, 'f json) handler" where
  "eth_get_balance K X s params =
     obind (require_param_string params 0) (\<lambda>_.
     obind (param_address X params) (\<lambda>addr.
     obind (map_err (core_err X) (get_balance K X s addr)) (\<lambda>bal. Ok (JString (quantity bal)))))"

definition eth_get_transaction_count :: "'d kv \<Rightarrow> ext \<Rightarrow> 'd \<Rightarrow> 'f json \<Rightarrow> ('f, 'f json) handler" where
  "eth_get_transaction_count K X s params =
     obind (require_param_string params 0) (\<lambda>_.
     obind (param_address X params) (\<lambda>addr.
     obind (map_err (core_err X) (get_nonce K X s addr)) (\<lambda>n. Ok (JString (quantity n)))))"

definition eth_get_code :: "'d kv \<Rightarrow> ext \<Rightarrow> 'd \<Rightarrow> 'f json \<Rightarrow> ('f, 'f json) handler" where
  "eth_get_code K X s params =
     obind (param_address X params) (\<lambda>addr.
     obind (map_err (core_err X) (get_code K X s addr)) (\<lambda>code. Ok (JString (hex_data X code))))"

definition full_tx_flag :: "'f json \<Rightarrow> bool" where
  "full_tx_flag params = (case obind_opt (json_at params 1) as_bool of None \<Rightarrow> False | Some b \<Rightarrow> b)"

definition block_txs_json :: "ext \<Rightarrow> bool \<Rightarrow> block \<Rightarrow> ('f, 'f json) handler" where
  "block_txs_json X full_tx b =
     (if full_tx then obind (omap (tx_to_json X) (b_body b)) (\<lambda>js. Ok (JArray js))
      else Ok (JArray (map (\<lambda>tx. JString (hex_data X (b256_bytes (tx_hash X tx)))) (b_body b))))"

definition block_json :: "ext \<Rightarrow> bool \<Rightarrow> block \<Rightarrow> ('f, 'f json) handler" where
  "block_json X full_tx b = (let h = b_header b; hash = (\<lambda>x. JString (hex_data X (b256_bytes x))) in
     obind (block_txs_json X full_tx b) (\<lambda>txs_value.
     Ok (JObject [(''number'', JString (quantity (h_number h))),
       (''hash'', hash (block_hash X b)),
       (''parentHash'', hash (h_parent_hash h)),
       (''stateRoot'', hash (h_state_root h)),
       (''transactionsRoot'', hash (h_transactions_root h)),
       (''receiptsRoot'', hash (h_receipts_root h)),
       (''timestamp'', JString (quantity (h_timestamp h))),
       (''miner'', JString (hex_data X (address_bytes (h_validator h)))),
       (''transactions'', txs_value),
       (''gasLimit'', JString (quantity (h_gas_limit h))),
       (''gasUsed'', JString ''0x0''),
       (''sha3Uncles'', JString ''0x1dcc4de8dec75d7aab85b567b6ccd41ad312451b948a7413f0a142fd40d49347''),
       (''mixHash'', JString (''0x'' @ replicate 64 CHR ''0'')),
       (''nonce'', JString ''0x0000000000000000''),
       (''logsBloom'', JString (''0x'' @ replicate 512 CHR ''0'')),
       (''difficulty'', JString ''0x0''),
       (''totalDifficulty'', JString ''0x0''),
       (''extraData'', JString ''0x''),
       (''size'', JString ''0x0''),
       (''uncles'', JArray [])])))"

text \<open>\<open>match r { Ok(Some(b)) => b, _ => return Value::Null }\<close>\<close>

fun block_or_null :: "(core_error, block option) outcome \<Rightarrow> ('f, block) handler" where
  "block_or_null (Ok (Some b)) = Ok b"
| "block_or_null (Ok None) = Err JNull"
| "block_or_null (Err e) = Err JNull"
| "block_or_null Panic = Panic"
| "block_or_null Diverge = Diverge"

definition block_tag :: "'d kv \<Rightarrow> ext \<Rightarrow> codec \<Rightarrow> 'd \<Rightarrow> string \<Rightarrow> ('e, u64 option) outcome" where
  "block_tag K X C c tag =
     (if tag = ''latest'' \<or> tag = ''pending''
      then obind (head_block K X C c) (\<lambda>b. Ok (map_option (\<lambda>b. h_number (b_header b)) b))
      else Ok (u64_from_str_radix (trim_start_matches ''0x'' tag) 16))"

definition eth_get_block_by_number :: "'d kv \<Rightarrow> ext \<Rightarrow> codec \<Rightarrow> 'd \<Rightarrow> 'f json \<Rightarrow> ('f, 'f json) handler" where
  "eth_get_block_by_number K X C c params =
     obind (require_param_count params 1) (\<lambda>_.
     obind (block_tag K X C c (unwrap_str ''latest'' (param_str params 0))) (\<lambda>block_number.
     case block_number of
       None \<Rightarrow> Err JNull
     | Some n \<Rightarrow> obind (block_or_null (get_block_by_number K X C c n)) (\<lambda>b.
         block_json X (full_tx_flag params) b)))"

definition eth_get_block_by_hash :: "'d kv \<Rightarrow> ext \<Rightarrow> codec \<Rightarrow> 'd \<Rightarrow> 'f json \<Rightarrow> ('f, 'f json) handler" where
  "eth_get_block_by_hash K X C c params =
     obind (require_param_string params 0) (\<lambda>_.
     obind (param_hash X params) (\<lambda>hash.
     obind (block_or_null (get_block K X C c hash)) (\<lambda>b. block_json X (full_tx_flag params) b)))"

section \<open>Transactions\<close>

text \<open>\<open>chain.get_block(&h).ok().flatten().and_then(|b| b.body.transactions.get(i).cloned())\<close>\<close>

definition tx_in_block :: "'d kv \<Rightarrow> ext \<Rightarrow> codec \<Rightarrow> 'd \<Rightarrow> b256 \<Rightarrow> u32 \<Rightarrow> ('e, signed_transaction option) outcome" where
  "tx_in_block K X C c bh index = obind (ok_flatten (get_block K X C c bh)) (\<lambda>b.
     Ok (case b of None \<Rightarrow> None
       | Some b \<Rightarrow> if unat index < length (b_body b) then Some (b_body b ! unat index) else None))"

definition with_position :: "ext \<Rightarrow> b256 \<Rightarrow> u64 \<Rightarrow> u32 \<Rightarrow> signed_transaction \<Rightarrow> 'f json \<Rightarrow> 'f json" where
  "with_position X bh block_number index tx =
     json_insert ''s'' (JString (hex_data X (b256_bytes (st_s tx)))) \<circ>
     json_insert ''r'' (JString (hex_data X (b256_bytes (st_r tx)))) \<circ>
     json_insert ''v'' (JString (quantity (st_v tx))) \<circ>
     json_insert ''input'' (JString (hex_data X (tx_data tx))) \<circ>
     json_insert ''transactionIndex'' (JString (quantity index)) \<circ>
     json_insert ''blockNumber'' (JString (quantity block_number)) \<circ>
     json_insert ''blockHash'' (JString (hex_data X (b256_bytes bh)))"

definition eth_get_transaction_by_hash :: "'d kv \<Rightarrow> ext \<Rightarrow> codec \<Rightarrow> 'd \<Rightarrow> 'f json \<Rightarrow> ('f, 'f json) handler" where
  "eth_get_transaction_by_hash K X C c params =
     obind (require_param_string params 0) (\<lambda>_.
     obind (param_hash X params) (\<lambda>txh.
     obind (map_err (core_err X) (get_tx_receipt_index K X c txh)) (\<lambda>r. case r of
       None \<Rightarrow> Ok JNull
     | Some (bh, block_number, index, _) \<Rightarrow>
         obind (tx_in_block K X C c bh index) (\<lambda>t. case t of
           None \<Rightarrow> Ok JNull
         | Some tx \<Rightarrow> obind (tx_to_json X tx) (\<lambda>j.
             Ok (with_position X bh block_number index tx j))))))"

definition receipt_json ::
  "ext \<Rightarrow> b256 \<Rightarrow> b256 \<Rightarrow> u64 \<Rightarrow> u32 \<Rightarrow> u64 \<Rightarrow> string \<Rightarrow> 'f json \<Rightarrow> 'f json" where
  "receipt_json X txh bh block_number index gas_used from to_v = JObject [
     (''transactionHash'', JString (hex_data X (b256_bytes txh))),
     (''blockHash'', JString (hex_data X (b256_bytes bh))),
     (''blockNumber'', JString (quantity block_number)),
     (''transactionIndex'', JString (quantity index)),
     (''from'', JString from),
     (''to'', to_v),
     (''status'', JString ''0x1''),
     (''gasUsed'', JString (quantity gas_used)),
     (''cumulativeGasUsed'', JString (quantity gas_used)),
     (''logs'', JArray []),
     (''logsBloom'', JString (''0x'' @ replicate 512 CHR ''0''))]"

definition receipt_parties :: "ext \<Rightarrow> signed_transaction option \<Rightarrow> ('e, string \<times> 'f json) outcome" where
  "receipt_parties X t = (case t of
       Some tx \<Rightarrow> obind (sender_or_zero X tx) (\<lambda>a. Ok (hex_data X (address_bytes a),
         case to_addr tx of None \<Rightarrow> JNull | Some to_a \<Rightarrow> JString (hex_data X (address_bytes to_a))))
     | None \<Rightarrow> Ok (hex_data X (address_bytes 0), JString (hex_data X (address_bytes 0))))"

definition eth_get_transaction_receipt :: "'d kv \<Rightarrow> ext \<Rightarrow> codec \<Rightarrow> 'd \<Rightarrow> 'f json \<Rightarrow> ('f, 'f json) handler" where
  "eth_get_transaction_receipt K X C c params =
     obind (require_param_string params 0) (\<lambda>_.
     obind (param_hash X params) (\<lambda>txh.
     obind (map_err (core_err X) (get_tx_receipt_index K X c txh)) (\<lambda>r. case r of
       None \<Rightarrow> Ok JNull
     | Some (bh, block_number, index, gas_used) \<Rightarrow>
         obind (tx_in_block K X C c bh index) (\<lambda>t.
         obind (receipt_parties X t) (\<lambda>(from, to_v).
         Ok (receipt_json X txh bh block_number index gas_used from to_v))))))"

text \<open>The transactions of an address: the loops over one block and over the blocks below the head.\<close>

fun address_txs_block ::
  "ext \<Rightarrow> address \<Rightarrow> nat \<Rightarrow> u64 \<Rightarrow> b256 \<Rightarrow> nat \<Rightarrow> signed_transaction list \<Rightarrow> 'f json list \<Rightarrow> ('f, 'f json list) handler" where
  "address_txs_block X a limit n bh i [] txs = Ok txs"
| "address_txs_block X a limit n bh i (tx # rest) txs =
     obind (sender_or_zero X tx) (\<lambda>from.
     if from = a \<or> to_addr tx = Some a
     then obind (tx_to_json X tx) (\<lambda>j.
       let txs' = txs @ [(json_insert ''transactionIndex'' (JString (''0x'' @ lower_hex i)) \<circ>
             json_insert ''blockHash'' (JString (hex_data X (b256_bytes bh))) \<circ>
             json_insert ''blockNumber'' (JString (quantity n))) j]
       in if limit \<le> length txs' then Ok txs' else address_txs_block X a limit n bh (i + 1) rest txs')
     else address_txs_block X a limit n bh (i + 1) rest txs)"

fun address_txs ::
  "'d kv \<Rightarrow> ext \<Rightarrow> codec \<Rightarrow> 'd \<Rightarrow> address \<Rightarrow> nat \<Rightarrow> u64 list \<Rightarrow> 'f json list \<Rightarrow> ('f, 'f json list) handler" where
  "address_txs K X C c a limit [] txs = Ok txs"
| "address_txs K X C c a limit (n # ns) txs =
     (if limit \<le> length txs then Ok txs
      else case get_block_by_number K X C c n of
          Ok (Some b) \<Rightarrow> obind (address_txs_block X a limit n (block_hash X b) 0 (b_body b) txs) (\<lambda>txs'.
            address_txs K X C c a limit ns txs')
        | Ok None \<Rightarrow> address_txs K X C c a limit ns txs
        | Err e \<Rightarrow> address_txs K X C c a limit ns txs
        | Panic \<Rightarrow> Panic | Diverge \<Rightarrow> Diverge)"

definition quyn_get_address_transactions :: "'d kv \<Rightarrow> ext \<Rightarrow> codec \<Rightarrow> 'd \<Rightarrow> 'f json \<Rightarrow> ('f, 'f json) handler" where
  "quyn_get_address_transactions K X C c params =
     obind (require_param_string params 0) (\<lambda>_.
     obind (param_address X params) (\<lambda>addr.
     let limit = (case obind_opt (json_at params 1) json_u64 of None \<Rightarrow> 100 | Some l \<Rightarrow> l) in
     obind (head_number K X C c) (\<lambda>head_num.
     obind (address_txs K X C c addr (unat limit) (rev (map of_nat [0 ..< Suc (unat head_num)])) [])
       (\<lambda>txs. Ok (JArray txs)))))"

section \<open>Sending a transaction\<close>

text \<open>\<open>parse_legacy_tx(..).or_else(|_| bincode::deserialize(..))\<close>\<close>

definition parse_raw :: "ext \<Rightarrow> (bytes \<Rightarrow> string + signed_transaction) \<Rightarrow> bytes \<Rightarrow> signed_transaction parse_result" where
  "parse_raw X de_tx bytes =
     (if hd bytes = 2 then parse_eip1559_tx X bytes
      else case parse_legacy_tx X bytes of
          Ok t \<Rightarrow> Ok t
        | Err _ \<Rightarrow> of_sum id (de_tx bytes)
        | Panic \<Rightarrow> Panic | Diverge \<Rightarrow> Diverge)"

definition decode_raw ::
  "ext \<Rightarrow> (bytes \<Rightarrow> string + signed_transaction) \<Rightarrow> 'f json \<Rightarrow> ('f, signed_transaction) handler" where
  "decode_raw X de_tx params =
     obind (require_param_string params 0) (\<lambda>_.
     let raw_hex = trim_start_matches ''0x'' (unwrap_str '''' (param_str params 0)) in
     if length raw_hex mod 2 \<noteq> 0
     then Err (error_value_with_code (- 32602) ''Invalid hex: odd number of digits'')
     else obind (of_sum (\<lambda>e. error_value_with_code (- 32602) (''Invalid hex: '' @ e)) (hex_decode X raw_hex)) (\<lambda>bytes.
       if bytes = [] then Err (error_value ''Empty transaction'')
       else map_err (\<lambda>e. error_value (''Failed to parse tx: '' @ e)) (parse_raw X de_tx bytes)))"

definition check_raw :: "'d kv \<Rightarrow> ext \<Rightarrow> ('d, 'f) app_state \<Rightarrow> signed_transaction \<Rightarrow> ('f, unit) handler" where
  "check_raw K X app tx =
     obind (map_err (\<lambda>e. error_value (''Invalid signature: '' @ core_error_string X e)) (sender X tx)) (\<lambda>_.
     obind (map_err (core_err X) (validate_tx_basic X tx (as_chain_id app))) (\<lambda>_.
     map_err (core_err X) (validate_tx_against_state K X tx (as_state app))))"

definition pool_insert ::
  "ext \<Rightarrow> hash_order \<Rightarrow> signed_transaction \<Rightarrow> (('d, 'f) app_state, 'f json, 'f json) act" where
  "pool_insert X rank tx app = (case insert_tx X rank tx (as_mempool app) of (r, p) \<Rightarrow>
     (obind (map_err (core_err X) r) (\<lambda>_. Ok (JString (hex_data X (b256_bytes (tx_hash X tx))))),
      app\<lparr>as_mempool := p\<rparr>))"

definition eth_send_raw_transaction ::
  "'d kv \<Rightarrow> ext \<Rightarrow> (bytes \<Rightarrow> string + signed_transaction) \<Rightarrow> hash_order \<Rightarrow> 'f json \<Rightarrow>
    (('d, 'f) app_state, 'f json, 'f json) act" where
  "eth_send_raw_transaction K X de_tx rank params =
     abind (alift (decode_raw X de_tx params)) (\<lambda>tx.
     athen (aread (\<lambda>app. check_raw K X app tx)) (pool_insert X rank tx))"

section \<open>Network and validators\<close>

fun count_txs :: "'d kv \<Rightarrow> ext \<Rightarrow> codec \<Rightarrow> 'd \<Rightarrow> u64 list \<Rightarrow> u64 \<Rightarrow> ('e, u64) outcome" where
  "count_txs K X C c [] txs = Ok txs"
| "count_txs K X C c (n # ns) txs = (case get_block_by_number K X C c n of
       Ok (Some b) \<Rightarrow> obind (chk_add txs (of_nat (length (b_body b)))) (\<lambda>txs'. count_txs K X C c ns txs')
     | Ok None \<Rightarrow> count_txs K X C c ns txs
     | Err e \<Rightarrow> count_txs K X C c ns txs
     | Panic \<Rightarrow> Panic | Diverge \<Rightarrow> Diverge)"

definition quyn_get_network_stats ::
  "'d kv \<Rightarrow> ext \<Rightarrow> codec \<Rightarrow> 'f f64_ops \<Rightarrow> u64 \<Rightarrow> 'd \<Rightarrow> ('f, 'f json) handler" where
  "quyn_get_network_stats K X C F cid c =
     obind (head_block K X C c) (\<lambda>b.
     obind (case b of
         None \<Rightarrow> Ok (0, 0)
       | Some b \<Rightarrow> obind (count_txs K X C c (map of_nat [0 ..< Suc (unat (h_number (b_header b)))]) 0) (\<lambda>txs.
           obind (chk_add (h_number (b_header b)) 1) (\<lambda>n. Ok (n, txs)))) (\<lambda>(block_count, total_txs).
     let f = (\<lambda>x :: u64. f_of_u128 F (ucast x));
         tps = (if 0 < block_count then f_div F (f total_txs) (f_mul F (f block_count) (f 3)) else f_lit F 0)
     in Ok (JObject [(''blockCount'', JInt (uint block_count)),
          (''totalTransactions'', JInt (uint total_txs)),
          (''blockTimeSecs'', JInt 3),
          (''estimatedTps'', JString (f_fmt F 2 tps)),
          (''chainId'', JString (quantity cid))])))"

definition stored_validators ::
  "'d kv \<Rightarrow> ext \<Rightarrow> (bytes \<Rightarrow> string + validator_set) \<Rightarrow> 'd \<Rightarrow> ('e, validator_info list option) outcome" where
  "stored_validators K X de_vs c =
     obind (ok_flatten (get_validator_set_bytes K X c)) (\<lambda>bytes.
     case de_vs (case bytes of None \<Rightarrow> [] | Some bs \<Rightarrow> bs) of
       Inl _ \<Rightarrow> Ok None
     | Inr vset \<Rightarrow> (case active_validators vset of
           Ok vs \<Rightarrow> Ok (Some vs) | Err e \<Rightarrow> Ok None | Panic \<Rightarrow> Panic | Diverge \<Rightarrow> Diverge))"

definition quyn_get_validator_list ::
  "'d kv \<Rightarrow> ext \<Rightarrow> (bytes \<Rightarrow> string + validator_set) \<Rightarrow> 'd \<Rightarrow> ('f, 'f json) handler" where
  "quyn_get_validator_list K X de_vs c = obind (stored_validators K X de_vs c) (\<lambda>r.
     Ok (JArray (case r of None \<Rightarrow> [] | Some vs \<Rightarrow> map (\<lambda>v.
       JObject [(''address'', JString (hex_data X (address_bytes (vi_address v)))),
         (''stake'', JString (quantity (vi_stake v))),
         (''delegated'', JString (quantity (vi_delegated v))),
         (''active'', JBool (vi_active v))]) vs)))"

definition quyn_get_validator_stats ::
  "'d kv \<Rightarrow> ext \<Rightarrow> (bytes \<Rightarrow> string + validator_set) \<Rightarrow> 'd \<Rightarrow> ('f, 'f json) handler" where
  "quyn_get_validator_stats K X de_vs c = obind (stored_validators K X de_vs c) (\<lambda>r.
     obind (case r of
         None \<Rightarrow> Ok (0, 0)
       | Some vs \<Rightarrow> obind (omap (\<lambda>v. to_u128 (total_stake v)) vs) (\<lambda>ss.
           obind (chk_sum 0 ss) (\<lambda>stake. Ok (length vs, stake)))) (\<lambda>(n, total).
     Ok (JObject [(''validatorCount'', JInt (int n)), (''totalStaked'', JString (quantity (total :: u128)))])))"

end
