(* ===== verification/Quyn_Gas.thy ===== *)
theory Quyn_Gas
  imports Quyn_RugPull
begin

text \<open>
  quyn-intelligence/src/gas_optimiser.rs: the window of recent blocks and the suggested gas price.
  Lemmas: the window holds exactly the last blocks recorded, and the price stays between the
  configured bounds, whatever the floating-point arithmetic gives.
\<close>

section \<open>Definitions\<close>

record 'f block_metrics =
  bm_block_number :: u64
  bm_transaction_count :: u32
  bm_average_gas_used :: u64
  bm_timestamp :: u64
  bm_congestion_score :: 'f

record 'f gas_config =
  gc_history_size :: nat
  gc_base_fee :: u64
  gc_min_fee :: u64
  gc_max_fee :: u64
  gc_congestion_threshold :: 'f

definition default_gas_config :: "'f f64_ops \<Rightarrow> 'f gas_config" where
  "default_gas_config F = \<lparr>gc_history_size = 100, gc_base_fee = 1000000000, gc_min_fee = 100000000,
     gc_max_fee = 100000000000, gc_congestion_threshold = f_frac F 8 1\<rparr>"

datatype congestion_level = LowCongestion | MediumCongestion | HighCongestion | CriticalCongestion

record 'f gas_prediction =
  gp_recommended_gas_price :: u64
  gp_confidence :: 'f
  gp_congestion_level :: congestion_level
  gp_estimated_confirmation_blocks :: u32
  gp_optimal_send_window :: string

record 'f gas_optimiser =
  go_history :: "'f block_metrics list"
  go_config :: "'f gas_config"

definition new_gas_optimiser :: "'f gas_config \<Rightarrow> 'f gas_optimiser" where
  "new_gas_optimiser cfg = \<lparr>go_history = [], go_config = cfg\<rparr>"

definition record_block :: "'f block_metrics \<Rightarrow> 'f gas_optimiser \<Rightarrow> 'f gas_optimiser" where
  "record_block metrics g = g\<lparr>go_history :=
     (if length (go_history g) = gc_history_size (go_config g) then tl (go_history g) else go_history g) @ [metrics]\<rparr>"

text \<open>\<open>as u64\<close> of a floating-point number saturates.\<close>

definition f_to_u64 :: "'f f64_ops \<Rightarrow> 'f \<Rightarrow> u64" where
  "f_to_u64 F x = of_int (max 0 (min (2 ^ 64 - 1) (f_to_int F x)))"

definition f_of_u64 :: "'f f64_ops \<Rightarrow> u64 \<Rightarrow> 'f" where
  "f_of_u64 F x = f_of_u128 F (ucast x)"

definition f_sum :: "'f f64_ops \<Rightarrow> 'f list \<Rightarrow> 'f" where
  "f_sum F xs = foldl (f_add F) (f_lit F 0) xs"

definition f_clamp :: "'f f64_ops \<Rightarrow> 'f \<Rightarrow> 'f \<Rightarrow> 'f \<Rightarrow> 'f" where
  "f_clamp F lo hi x = (let y = (if f_gt F lo x then lo else x) in if f_gt F y hi then hi else y)"

definition congestion_of :: "'f f64_ops \<Rightarrow> 'f \<Rightarrow> congestion_level" where
  "congestion_of F avg =
     (if f_ge F (f_frac F 3 1) avg then LowCongestion
      else if f_ge F (f_frac F 6 1) avg then MediumCongestion
      else if f_ge F (f_frac F 8 1) avg then HighCongestion
      else CriticalCongestion)"

definition level_factor :: "'f f64_ops \<Rightarrow> congestion_level \<Rightarrow> 'f" where
  "level_factor F l = (case l of
       LowCongestion \<Rightarrow> f_lit F 1
     | MediumCongestion \<Rightarrow> f_frac F 15 1
     | HighCongestion \<Rightarrow> f_lit F 2
     | CriticalCongestion \<Rightarrow> f_lit F 3)"

definition clamp_price :: "'f gas_config \<Rightarrow> u64 \<Rightarrow> u64" where
  "clamp_price cfg price =
     (let p = (if price < gc_min_fee cfg then gc_min_fee cfg else price)
      in if gc_max_fee cfg < p then gc_max_fee cfg else p)"

definition send_window :: "'f f64_ops \<Rightarrow> 'f gas_config \<Rightarrow> 'f \<Rightarrow> 'f \<Rightarrow> string" where
  "send_window F cfg avg last_congestion =
     (if f_gt F (f_frac F 3 1) avg then ''Now''
      else if f_gt F last_congestion avg \<and> f_gt F (gc_congestion_threshold cfg) avg then ''Wait 30 seconds''
      else if f_ge F avg (f_frac F 8 1) then ''Network busy, retry in 2 minutes''
      else ''Now'')"

definition predict_gas_price :: "'f f64_ops \<Rightarrow> 'f gas_optimiser \<Rightarrow> u64 \<Rightarrow> 'f gas_prediction" where
  "predict_gas_price F g current_block =
     (if go_history g = []
      then \<lparr>gp_recommended_gas_price = gc_base_fee (go_config g), gp_confidence = f_frac F 3 1,
             gp_congestion_level = LowCongestion, gp_estimated_confirmation_blocks = 1,
             gp_optimal_send_window = ''Now''\<rparr>
      else
        let window = take 100 (rev (go_history g));
            len = f_of_u128 F (of_nat (length window));
            avg = f_div F (f_sum F (map bm_congestion_score window)) len;
            last_congestion = (case window of [] \<Rightarrow> f_lit F 0 | m # _ \<Rightarrow> bm_congestion_score m);
            level = congestion_of F avg;
            price = f_to_u64 F (f_mul F (f_of_u64 F (gc_base_fee (go_config g))) (level_factor F level))
        in \<lparr>gp_recommended_gas_price = clamp_price (go_config g) price,
             gp_confidence = f_clamp F (f_lit F 0) (f_lit F 1)
               (f_div F len (f_of_u128 F (of_nat (gc_history_size (go_config g))))),
             gp_congestion_level = level,
             gp_estimated_confirmation_blocks = (case level of LowCongestion \<Rightarrow> 1
               | MediumCongestion \<Rightarrow> 2 | HighCongestion \<Rightarrow> 5 | CriticalCongestion \<Rightarrow> 10),
             gp_optimal_send_window = send_window F (go_config g) avg last_congestion\<rparr>)"

definition get_fee_history :: "'f gas_optimiser \<Rightarrow> 'f block_metrics list" where
  "get_fee_history g = go_history g"

section \<open>Properties\<close>

text \<open>The window is exact: after recording any sequence of blocks on a new optimiser of positive size,
  the history is the last \<open>gc_history_size\<close> of them, oldest first.\<close>

theorem fee_history_window:
  assumes "0 < gc_history_size cfg"
  shows "get_fee_history (fold record_block ms (new_gas_optimiser cfg)) =
    drop (length ms - gc_history_size cfg) ms"
proof -
  have "fold record_block ms (new_gas_optimiser cfg) =
      \<lparr>go_history = drop (length ms - gc_history_size cfg) ms, go_config = cfg\<rparr>"
  proof (induction ms rule: rev_induct)
    case Nil
    then show ?case by (simp add: new_gas_optimiser_def)
  next
    case (snoc x ms)
    let ?n = "gc_history_size cfg"
    show ?case
    proof (cases "length ms < ?n")
      case True
      with snoc show ?thesis by (simp add: record_block_def)
    next
      case False
      then have "Suc (length ms) - ?n = Suc (length ms - ?n)" using assms by (simp add: Suc_diff_le)
      moreover have "length (drop (length ms - ?n) ms) = ?n" using False by simp
      ultimately show ?thesis using snoc assms
        by (simp add: record_block_def drop_Suc tl_drop)
    qed
  qed
  then show ?thesis by (simp add: get_fee_history_def)
qed

text \<open>The suggested price never leaves the configured range: with a base fee between the bounds, the
  prediction lies between them whatever the history and the floating-point arithmetic are.\<close>

theorem gas_price_in_range:
  assumes "gc_min_fee (go_config g) \<le> gc_base_fee (go_config g)"
    and "gc_base_fee (go_config g) \<le> gc_max_fee (go_config g)"
  shows "gc_min_fee (go_config g) \<le> gp_recommended_gas_price (predict_gas_price F g n) \<and>
    gp_recommended_gas_price (predict_gas_price F g n) \<le> gc_max_fee (go_config g)"
  using assms by (auto simp: predict_gas_price_def Let_def clamp_price_def)

end
