(* ===== verification/Quyn_RpcIntel.thy ===== *)
theory Quyn_RpcIntel
  imports Quyn_Rpc Quyn_Gas
begin

text \<open>
  rpc/src/server.rs, the requests about fraud, content, gas prices, contracts and liquidity, with
  the types of quyn-intelligence/src/content_verifier.rs. The clock is an argument in seconds.
  Text is ASCII: the trimming and lower-casing of other characters is not modelled.
\<close>

section \<open>The lock of the detector\<close>

text \<open>\<open>state.rug_pull_detector.read().unwrap()\<close>\<close>

definition detector_read :: "('d, 'f) app_state \<Rightarrow> ('e, 'f rug_pull_detector) outcome" where
  "detector_read app = (if as_rug_pull_poisoned app then Panic else Ok (as_rug_pull app))"

section \<open>Fraud analysis\<close>

definition recommendation_name :: "fraud_recommendation \<Rightarrow> string" where
  "recommendation_name r = (case r of Include \<Rightarrow> ''Include'' | IncludeWithLog \<Rightarrow> ''IncludeWithLog''
     | Delay \<Rightarrow> ''Delay'' | Reject \<Rightarrow> ''Reject'')"

definition analysis_json :: "ext \<Rightarrow> fraud_analysis \<Rightarrow> 'f json" where
  "analysis_json X an = JObject [
     (''transactionHash'', JString (hex_data X (b256_bytes (fa_transaction_hash an)))),
     (''riskScore'', JInt (uint (fa_risk_score an))),
     (''flags'', JArray (map (\<lambda>f. JString (flag_str f)) (fa_flags an))),
     (''recommendation'', JString (recommendation_name (fa_recommendation an))),
     (''timestamp'', JInt (uint (fa_timestamp an)))]"

text \<open>The transaction to analyse: one in a block, or one in the pool for the block after the head.\<close>

definition find_analysed ::
  "'d kv \<Rightarrow> ext \<Rightarrow> codec \<Rightarrow> ('d, 'f) app_state \<Rightarrow> b256 \<Rightarrow> ('f, signed_transaction \<times> u64) handler" where
  "find_analysed K X C app txh =
     obind (map_err (core_err X) (get_tx_receipt_index K X (as_chain app) txh)) (\<lambda>r. case r of
       Some (bh, block_number, index, _) \<Rightarrow>
         obind (tx_in_block K X C (as_chain app) bh index) (\<lambda>t. case t of
           Some tx \<Rightarrow> Ok (tx, block_number)
         | None \<Rightarrow> Err JNull)
     | None \<Rightarrow>
         obind (ok_flatten (get_by_hash (as_mempool app) txh)) (\<lambda>t. case t of
           Some tx \<Rightarrow> obind (head_number K X C (as_chain app)) (\<lambda>n.
             obind (chk_add n 1) (\<lambda>next_n. Ok (tx, next_n)))
         | None \<Rightarrow> Err JNull))"

text \<open>
  The last check of the detector runs under the write lock: the poisoned lock makes it panic, and a
  panic in it (where the analysis without it would succeed) poisons the lock.
\<close>

definition run_analysis ::
  "'d kv \<Rightarrow> ext \<Rightarrow> codec \<Rightarrow> 'f f64_ops \<Rightarrow> signed_transaction \<times> u64 \<Rightarrow> (('d, 'f) app_state, 'f json, 'f json) act" where
  "run_analysis K X C F = (\<lambda>(tx, n) app.
     let run = (\<lambda>D. analyse_transaction K X C F D tx (as_chain app) (as_state app) n)
     in case run (new_with_rug_pull default_fraud_config (as_rug_pull app)) of
       Ok (an, rp) \<Rightarrow>
         if as_rug_pull_poisoned app then (Panic, app)
         else (Ok (analysis_json X an),
               app\<lparr>as_rug_pull := (case rp of None \<Rightarrow> as_rug_pull app | Some guard \<Rightarrow> guard)\<rparr>)
     | Err e \<Rightarrow> (Err (core_err X e), app)
     | Panic \<Rightarrow> (Panic, app\<lparr>as_rug_pull_poisoned := (as_rug_pull_poisoned app \<or>
         (case run (new_detector default_fraud_config) of Ok _ \<Rightarrow> True | _ \<Rightarrow> False))\<rparr>)
     | Diverge \<Rightarrow> (Diverge, app))"

definition qyn_get_fraud_analysis ::
  "'d kv \<Rightarrow> ext \<Rightarrow> codec \<Rightarrow> 'f f64_ops \<Rightarrow> 'f json \<Rightarrow> (('d, 'f) app_state, 'f json, 'f json) act" where
  "qyn_get_fraud_analysis K X C F params =
     athen (alift (require_param_string params 0)) (
     abind (alift (param_hash X params)) (\<lambda>txh.
     abind (aread (\<lambda>app. find_analysed K X C app txh)) (run_analysis K X C F)))"

section \<open>Content verification\<close>

definition qyn_get_verification_stats :: "'f f64_ops \<Rightarrow> u64 \<Rightarrow> ('f, 'f json) handler" where
  "qyn_get_verification_stats F base =
     obind (chk_add (base mod 10000) 1247) (\<lambda>total.
     let trusted = f_to_u64 F (f_mul F (f_of_u64 F total) (f_frac F 73 2));
         flagged = f_to_u64 F (f_mul F (f_of_u64 F total) (f_frac F 19 2)) in
     obind (chk_add trusted flagged) (\<lambda>both.
     Ok (JObject [(''totalVerifications'', JInt (uint total)),
       (''trustedCount'', JInt (uint trusted)),
       (''flaggedCount'', JInt (uint flagged)),
       (''rejectedCount'', JInt (uint (sat_sub total both)))])))"

definition content_type_names :: "string list" where
  "content_type_names = [''ARTICLE'', ''IMAGE'', ''TEXT'', ''VIDEO'', ''DOCUMENT'', ''SOCIAL_POST'']"

text \<open>\<open>{:064x}\<close>\<close>

definition hex64 :: "nat \<Rightarrow> string" where
  "hex64 n = (let s = lower_hex n in replicate (64 - length s) CHR ''0'' @ s)"

definition recent_verification :: "u64 \<Rightarrow> u64 \<Rightarrow> ('f, 'f json) handler" where
  "recent_verification now i =
     obind (chk_mul i 7) (\<lambda>k. obind (chk_add now k) (\<lambda>t. obind (chk_add now i) (\<lambda>vid.
     obind (chk_mul i 3) (\<lambda>age.
     let score = ucast (t mod 100) :: u8;
         result = (if 70 \<le> score then ''TRUSTED'' else if 40 \<le> score then ''UNCERTAIN'' else ''DISPUTED'')
     in Ok (JObject [(''verificationId'', JString (''0x'' @ hex64 (unat vid))),
          (''contentType'', JString (content_type_names ! (unat i mod length content_type_names))),
          (''trustScore'', JInt (uint score)),
          (''result'', JString result),
          (''verifiedAt'', JInt (uint (sat_sub now age)))])))))"

definition qyn_get_recent_verifications :: "u64 \<Rightarrow> ('f, 'f json) handler" where
  "qyn_get_recent_verifications now =
     obind (omap (recent_verification now) (map of_nat [0 ..< 10])) (\<lambda>vs.
     Ok (JObject [(''verifications'', JArray vs)]))"

datatype content_type = Article | Image | Video | Document | SocialPost | Text | UnknownContent
datatype ai_generated_status = Human | AiGenerated | LikelyAiGenerated | UnknownAi
datatype credibility_score = HighCredibility | MediumCredibility | LowCredibility | UnknownCredibility

record content_verification =
  vf_verification_id :: b256
  vf_content_hash :: b256
  vf_content_url :: "string option"
  vf_content_type :: content_type
  vf_trust_score :: u8
  vf_ai_generated :: ai_generated_status
  vf_manipulation_detected :: bool
  vf_source_credibility :: credibility_score
  vf_original_source :: "string option"
  vf_alteration_history :: "string option"
  vf_verified_at :: u64

definition is_space :: "char \<Rightarrow> bool" where
  "is_space c \<longleftrightarrow> (let n = of_char c :: nat in 9 \<le> n \<and> n \<le> 13 \<or> n = 32)"

definition trim :: "string \<Rightarrow> string" where
  "trim s = rev (dropWhile is_space (rev (dropWhile is_space s)))"

definition parse_content_type :: "string \<Rightarrow> content_type" where
  "parse_content_type s =
     (if s = ''article'' then Article
      else if s = ''image'' then Image
      else if s = ''video'' then Video
      else if s = ''document'' then Document
      else if s = ''socialpost'' \<or> s = ''social_post'' \<or> s = ''post'' then SocialPost
      else if s = ''text'' then Text
      else UnknownContent)"

definition score_content :: "nat \<Rightarrow> u8 \<times> ai_generated_status \<times> bool \<times> credibility_score" where
  "score_content len =
     (if len < 32 then (50, UnknownAi, False, UnknownCredibility)
      else if len < 280 then (72, UnknownAi, False, MediumCredibility)
      else (88, LikelyAiGenerated, False, HighCredibility))"

definition verify_content :: "ext \<Rightarrow> u64 \<Rightarrow> string \<Rightarrow> content_type \<Rightarrow> content_verification" where
  "verify_content X verified_at input ctype =
     (let content_hash = keccak256 X (ascii input) in
      case score_content (length input) of (trust, ai, manipulated, credibility) \<Rightarrow>
      \<lparr>vf_verification_id = keccak256 X (b256_bytes content_hash @ u64_be verified_at),
       vf_content_hash = content_hash,
       vf_content_url = (if starts_with ''http://'' input \<or> starts_with ''https://'' input then Some input else None),
       vf_content_type = ctype, vf_trust_score = trust, vf_ai_generated = ai,
       vf_manipulation_detected = manipulated, vf_source_credibility = credibility,
       vf_original_source = None, vf_alteration_history = None, vf_verified_at = verified_at\<rparr>)"

definition string_or_null :: "string option \<Rightarrow> 'f json" where
  "string_or_null r = (case r of None \<Rightarrow> JNull | Some s \<Rightarrow> JString s)"

definition verification_json :: "ext \<Rightarrow> content_verification \<Rightarrow> 'f json" where
  "verification_json X v = JObject [
     (''verificationId'', JString (hex_data X (b256_bytes (vf_verification_id v)))),
     (''contentHash'', JString (hex_data X (b256_bytes (vf_content_hash v)))),
     (''contentUrl'', string_or_null (vf_content_url v)),
     (''contentType'', JString (case vf_content_type v of
        Article \<Rightarrow> ''ARTICLE'' | Image \<Rightarrow> ''IMAGE'' | Video \<Rightarrow> ''VIDEO'' | Document \<Rightarrow> ''DOCUMENT''
      | SocialPost \<Rightarrow> ''SOCIAL_POST'' | Text \<Rightarrow> ''TEXT'' | UnknownContent \<Rightarrow> ''UNKNOWN'')),
     (''trustScore'', JInt (uint (vf_trust_score v))),
     (''aiGenerated'', JString (case vf_ai_generated v of
        Human \<Rightarrow> ''HUMAN'' | AiGenerated \<Rightarrow> ''AI_GENERATED'' | LikelyAiGenerated \<Rightarrow> ''LIKELY_AI_GENERATED''
      | UnknownAi \<Rightarrow> ''UNKNOWN'')),
     (''manipulationDetected'', JBool (vf_manipulation_detected v)),
     (''sourceCredibility'', JString (case vf_source_credibility v of
        HighCredibility \<Rightarrow> ''HIGH'' | MediumCredibility \<Rightarrow> ''MEDIUM'' | LowCredibility \<Rightarrow> ''LOW''
      | UnknownCredibility \<Rightarrow> ''UNKNOWN'')),
     (''originalSource'', string_or_null (vf_original_source v)),
     (''alterationHistory'', string_or_null (vf_alteration_history v)),
     (''verifiedAt'', JInt (uint (vf_verified_at v)))]"

definition qyn_verify_content :: "ext \<Rightarrow> u64 \<Rightarrow> 'f json \<Rightarrow> ('f, 'f json) handler" where
  "qyn_verify_content X now params =
     obind (require_param_string params 0) (\<lambda>_.
     let input = trim (unwrap_str '''' (param_str params 0));
         ctype = parse_content_type (to_lowercase (unwrap_str ''unknown'' (param_str params 1)))
     in Ok (verification_json X (verify_content X now input ctype)))"

section \<open>Validators\<close>

definition qyn_get_validator_record :: "'f f64_ops \<Rightarrow> 'f json \<Rightarrow> ('f, 'f json) handler" where
  "qyn_get_validator_record F params =
     obind (require_param_string params 0) (\<lambda>_.
     Ok (JObject [(''address'', JString (unwrap_str '''' (param_str params 0))),
       (''totalBlocksProposed'', JInt 0), (''totalBlocksMissed'', JInt 0), (''totalInvalidBlocks'', JInt 0),
       (''averageResponseTimeMs'', JInt 0), (''lastSeenBlock'', JInt 0), (''slashCount'', JInt 0),
       (''uptimePercentage'', JFloat (f_lit F 0)), (''joinedBlock'', JInt 0), (''reputationScore'', JInt 0)]))"

section \<open>Gas\<close>

definition metrics_of :: "'f f64_ops \<Rightarrow> block \<Rightarrow> 'f block_metrics" where
  "metrics_of F b = (let tx_count = of_nat (length (b_body b)) :: u32 in
     \<lparr>bm_block_number = h_number (b_header b), bm_transaction_count = tx_count, bm_average_gas_used = 21000,
      bm_timestamp = h_timestamp (b_header b),
      bm_congestion_score = f_min F (f_div F (f_of_u128 F (ucast tx_count)) (f_lit F 100)) (f_lit F 1)\<rparr>)"

fun record_blocks ::
  "'d kv \<Rightarrow> ext \<Rightarrow> codec \<Rightarrow> 'f f64_ops \<Rightarrow> 'd \<Rightarrow> u64 list \<Rightarrow> 'f gas_optimiser \<Rightarrow> ('e, 'f gas_optimiser) outcome" where
  "record_blocks K X C F c [] g = Ok g"
| "record_blocks K X C F c (n # ns) g = (case get_block_by_number K X C c n of
       Ok (Some b) \<Rightarrow> record_blocks K X C F c ns (record_block (metrics_of F b) g)
     | Ok None \<Rightarrow> record_blocks K X C F c ns g
     | Err e \<Rightarrow> record_blocks K X C F c ns g
     | Panic \<Rightarrow> Panic | Diverge \<Rightarrow> Diverge)"

definition recent_history ::
  "'d kv \<Rightarrow> ext \<Rightarrow> codec \<Rightarrow> 'f f64_ops \<Rightarrow> 'd \<Rightarrow> ('e, u64 \<times> 'f gas_optimiser) outcome" where
  "recent_history K X C F c = obind (head_block K X C c) (\<lambda>head.
     let g = new_gas_optimiser (default_gas_config F) in
     case head of
       None \<Rightarrow> Ok (0, g)
     | Some latest \<Rightarrow>
         (let n = h_number (b_header latest) in
          obind (record_blocks K X C F c (map of_nat [unat (sat_sub n 99) ..< Suc (unat n)]) g)
            (\<lambda>g'. Ok (n, g'))))"

definition congestion_name :: "congestion_level \<Rightarrow> string" where
  "congestion_name l = (case l of LowCongestion \<Rightarrow> ''Low'' | MediumCongestion \<Rightarrow> ''Medium''
     | HighCongestion \<Rightarrow> ''High'' | CriticalCongestion \<Rightarrow> ''Critical'')"

definition trend :: "'f f64_ops \<Rightarrow> 'f block_metrics list \<Rightarrow> string" where
  "trend F history =
     (if 20 \<le> length history then
        (let score = (\<lambda>ms. f_div F (f_sum F (map bm_congestion_score ms)) (f_lit F 10));
             recent = score (take 10 (rev history));
             older = score (take 10 (drop 10 (rev history)))
         in if f_gt F recent (f_add F older (f_frac F 5 2)) then ''Rising''
            else if f_gt F (f_sub F older (f_frac F 5 2)) recent then ''Falling''
            else ''Stable'')
      else ''Stable'')"

definition qyn_get_gas_prediction :: "'d kv \<Rightarrow> ext \<Rightarrow> codec \<Rightarrow> 'f f64_ops \<Rightarrow> 'd \<Rightarrow> ('f, 'f json) handler" where
  "qyn_get_gas_prediction K X C F c = obind (recent_history K X C F c) (\<lambda>(current_block, g).
     let p = predict_gas_price F g current_block;
         gwei = f_div F (f_of_u64 F (gp_recommended_gas_price p)) (f_lit F 1000000000)
     in Ok (JObject [(''recommendedGasPrice'', JString (quantity (gp_recommended_gas_price p))),
          (''recommendedGasPriceGwei'', JString (f_fmt F 1 gwei)),
          (''confidence'', JFloat (gp_confidence p)),
          (''congestionLevel'', JString (congestion_name (gp_congestion_level p))),
          (''estimatedConfirmationBlocks'', JInt (uint (gp_estimated_confirmation_blocks p))),
          (''optimalSendWindow'', JString (gp_optimal_send_window p)),
          (''trend'', JString (trend F (get_fee_history g)))]))"

definition qyn_get_congestion_history :: "'d kv \<Rightarrow> ext \<Rightarrow> codec \<Rightarrow> 'f f64_ops \<Rightarrow> 'd \<Rightarrow> ('f, 'f json) handler" where
  "qyn_get_congestion_history K X C F c = obind (recent_history K X C F c) (\<lambda>(_, g).
     Ok (JObject [(''blocks'', JArray (map (\<lambda>b. JObject [
       (''blockNumber'', JInt (uint (bm_block_number b))),
       (''transactionCount'', JInt (uint (bm_transaction_count b))),
       (''congestionScore'', JFloat (bm_congestion_score b)),
       (''timestamp'', JInt (uint (bm_timestamp b)))]) (get_fee_history g)))]))"

section \<open>Contracts\<close>

definition parse_address_array :: "ext \<Rightarrow> string \<Rightarrow> ('f, address) handler" where
  "parse_address_array X s = map_err error_value (rpc_parse_address X s)"

text \<open>\<open>{:?}\<close> of the enumerations\<close>

definition factor_name :: "contract_risk_factor \<Rightarrow> string" where
  "factor_name f = (case f of
       UnlimitedMintFunction \<Rightarrow> ''UnlimitedMintFunction'' | InstantOwnerWithdraw \<Rightarrow> ''InstantOwnerWithdraw''
     | HiddenBackdoor \<Rightarrow> ''HiddenBackdoor'' | NoTimeLockOnWithdraw \<Rightarrow> ''NoTimeLockOnWithdraw''
     | HighOwnerConcentration \<Rightarrow> ''HighOwnerConcentration'' | NoLiquidityLock \<Rightarrow> ''NoLiquidityLock''
     | SuspiciousDeployer \<Rightarrow> ''SuspiciousDeployer'' | UnverifiedContract \<Rightarrow> ''UnverifiedContract''
     | RecentDeployment \<Rightarrow> ''RecentDeployment'' | MultipleRisksCombined \<Rightarrow> ''MultipleRisksCombined'')"

definition alert_type_name :: "rug_pull_alert_type \<Rightarrow> string" where
  "alert_type_name t = (case t of
       LargeSellDetected \<Rightarrow> ''LargeSellDetected'' | rug_pull_alert_type.LiquidityDrainAttempt \<Rightarrow> ''LiquidityDrainAttempt''
     | HighConcentrationSellAlert \<Rightarrow> ''HighConcentrationSellAlert''
     | ContractBackdoorDetected \<Rightarrow> ''ContractBackdoorDetected''
     | SuspiciousMintBeforeSell \<Rightarrow> ''SuspiciousMintBeforeSell''
     | RapidDeployAndSell \<Rightarrow> ''RapidDeployAndSell'' | CoordinatedDump \<Rightarrow> ''CoordinatedDump'')"

definition severity_name :: "alert_severity \<Rightarrow> string" where
  "severity_name s = (case s of Low \<Rightarrow> ''Low'' | Medium \<Rightarrow> ''Medium'' | High \<Rightarrow> ''High'' | Critical \<Rightarrow> ''Critical'')"

definition scan_recommendation_name :: "scan_recommendation \<Rightarrow> string" where
  "scan_recommendation_name r = (case r of Safe \<Rightarrow> ''Safe'' | Caution \<Rightarrow> ''Caution''
     | HighRisk \<Rightarrow> ''HighRisk'' | Dangerous \<Rightarrow> ''Dangerous'')"

definition concentration_name :: "concentration_risk \<Rightarrow> string" where
  "concentration_name r = (case r of CrLow \<Rightarrow> ''Low'' | CrMedium \<Rightarrow> ''Medium'' | CrHigh \<Rightarrow> ''High''
     | CrCritical \<Rightarrow> ''Critical'')"

definition risk_recommendation :: "u8 \<Rightarrow> string" where
  "risk_recommendation score = (if score \<le> 30 then ''Safe'' else if score \<le> 60 then ''Caution''
     else if score \<le> 85 then ''HighRisk'' else ''Dangerous'')"

definition qyn_get_contract_risk_profile ::
  "ext \<Rightarrow> 'f f64_ops \<Rightarrow> ('d, 'f) app_state \<Rightarrow> 'f json \<Rightarrow> ('f, 'f json) handler" where
  "qyn_get_contract_risk_profile X F app params =
     obind (parse_address_array X (param_or_field params 0 ''contract'' '''')) (\<lambda>contract.
     obind (detector_read app) (\<lambda>guard. case get_contract_profile guard contract of
       Some p \<Rightarrow> Ok (JObject [
         (''contractAddress'', JString (hex_data X (address_bytes (crp_contract_address p)))),
         (''deployer'', JString (hex_data X (address_bytes (crp_deployer p)))),
         (''deployBlock'', JInt (uint (crp_deploy_block p))),
         (''riskScore'', JInt (uint (crp_risk_score p))),
         (''riskFactors'', JArray (map (\<lambda>f. JString (factor_name f)) (crp_risk_factors p))),
         (''recommendation'', JString (risk_recommendation (crp_risk_score p))),
         (''isVerified'', JBool (crp_is_verified p)),
         (''liquidityLocked'', JBool (crp_liquidity_locked p)),
         (''lockExpiryBlock'', case crp_lock_expiry_block p of None \<Rightarrow> JNull | Some n \<Rightarrow> JInt (uint n)),
         (''topHolderPercent'', JFloat (crp_top_holder_percent p)),
         (''holderCount'', JInt (uint (crp_holder_count p)))])
     | None \<Rightarrow> Ok (JObject [
         (''contractAddress'', JString (hex_data X (address_bytes contract))),
         (''deployer'', JString (''0x'' @ replicate 40 CHR ''0'')),
         (''deployBlock'', JInt 0), (''riskScore'', JInt 0), (''riskFactors'', JArray []),
         (''recommendation'', JString ''Unknown''), (''isVerified'', JBool False),
         (''liquidityLocked'', JBool False), (''lockExpiryBlock'', JNull),
         (''topHolderPercent'', JFloat (f_lit F 0)), (''holderCount'', JInt 0)])))"

definition qyn_scan_contract :: "'f json \<Rightarrow> ('f, 'f json) handler" where
  "qyn_scan_contract params =
     (let result = scan_solidity (param_or_field params 0 ''sourceCode'' '''')
      in Ok (JObject [(''riskScore'', JInt (uint (cs_risk_score result))),
           (''riskFactors'', JArray (map (\<lambda>f. JString (factor_name f)) (cs_risk_factors result))),
           (''recommendation'', JString (scan_recommendation_name (cs_recommendation result))),
           (''details'', JArray (map JString (cs_details result)))]))"

definition qyn_get_token_concentration ::
  "ext \<Rightarrow> 'f f64_ops \<Rightarrow> hash_order \<Rightarrow> ('d, 'f) app_state \<Rightarrow> 'f json \<Rightarrow> ('f, 'f json) handler" where
  "qyn_get_token_concentration X F rank app params =
     obind (parse_address_array X (param_or_field params 0 ''token'' '''')) (\<lambda>token.
     obind (get_token_risk_summary F rank (as_concentration app) token) (\<lambda>summary.
     obind (get_top_holders F rank (as_concentration app) token 10) (\<lambda>holders.
     Ok (JObject [(''totalHolders'', JInt (uint (tr_total_holders summary))),
       (''topHolderPercent'', JFloat (tr_top_holder_percent summary)),
       (''top5HoldersPercent'', JFloat (tr_top_5_holders_percent summary)),
       (''isHighConcentration'', JBool (tr_is_high_concentration summary)),
       (''concentrationRisk'', JString (concentration_name (tr_concentration_risk summary))),
       (''topHolders'', JArray (map (\<lambda>(a, pct). JObject [
          (''address'', JString (hex_data X (address_bytes a))), (''percent'', JFloat pct)]) holders))]))))"

text \<open>\<open>amount_str\<close>: hexadecimal behind \<open>0x\<close>, else decimal; 0 when it does not parse.\<close>

definition lock_amount :: "string \<Rightarrow> u128" where
  "lock_amount s = (case (if starts_with ''0x'' s then u128_from_str_radix (trim_start_matches ''0x'' s) 16
       else u128_from_str_radix s 10) of None \<Rightarrow> 0 | Some n \<Rightarrow> n)"

definition lock_period :: "string \<Rightarrow> u64" where
  "lock_period s = (case u64_from_str_radix s 10 of None \<Rightarrow> 0 | Some n \<Rightarrow> n)"

text \<open>The lock is taken under the write lock: a panic there poisons it.\<close>

definition take_lock ::
  "ext \<Rightarrow> address \<Rightarrow> u128 \<Rightarrow> u64 \<Rightarrow> address \<Rightarrow> u64 \<Rightarrow> (('d, 'f) app_state, 'f json, 'f json) act" where
  "take_lock X contract amount period locker current_block app =
     (if as_rug_pull_poisoned app then (Panic, app)
      else case lock_liquidity contract amount period locker current_block (as_rug_pull app) of
          Ok (lock, rp) \<Rightarrow>
            (Ok (JObject [
               (''lockId'', JString (hex_data X (b256_bytes (keccak256 X
                  (address_bytes (ll_contract lock) @ u64_be (ll_lock_start_block lock)))))),
               (''contract'', JString (hex_data X (address_bytes (ll_contract lock)))),
               (''lockedAmount'', JString (dec (unat (ll_locked_amount lock)))),
               (''lockStartBlock'', JInt (uint (ll_lock_start_block lock))),
               (''lockExpiryBlock'', JInt (uint (ll_lock_expiry_block lock))),
               (''isActive'', JBool (ll_is_active lock))]), app\<lparr>as_rug_pull := rp\<rparr>)
        | Err e \<Rightarrow> (Err e, app)
        | Panic \<Rightarrow> (Panic, app\<lparr>as_rug_pull_poisoned := True\<rparr>)
        | Diverge \<Rightarrow> (Diverge, app))"

definition qyn_lock_liquidity ::
  "'d kv \<Rightarrow> ext \<Rightarrow> codec \<Rightarrow> 'f json \<Rightarrow> (('d, 'f) app_state, 'f json, 'f json) act" where
  "qyn_lock_liquidity K X C params =
     abind (alift (parse_address_array X (param_or_field params 0 ''contract'' ''''))) (\<lambda>contract.
     abind (alift (parse_address_array X (param_or_field params 3 ''locker'' ''''))) (\<lambda>locker.
     abind (aread (\<lambda>app. head_number K X C (as_chain app))) (\<lambda>current_block.
     take_lock X contract (lock_amount (param_or_field params 1 ''amount'' ''0''))
       (lock_period (param_or_field params 2 ''lockPeriodBlocks'' ''0'')) locker current_block)))"

definition qyn_get_rug_pull_alerts :: "ext \<Rightarrow> ('d, 'f) app_state \<Rightarrow> ('f, 'f json) handler" where
  "qyn_get_rug_pull_alerts X app = obind (detector_read app) (\<lambda>guard.
     Ok (JObject [(''alerts'', JArray (map (\<lambda>a. JObject [
       (''alertId'', JString (hex_data X (b256_bytes (ra_alert_id a)))),
       (''contract'', JString (hex_data X (address_bytes (ra_contract a)))),
       (''deployer'', JString (hex_data X (address_bytes (ra_deployer a)))),
       (''alertType'', JString (alert_type_name (ra_alert_type a))),
       (''severity'', JString (severity_name (ra_severity a))),
       (''description'', JString (ra_description a)),
       (''triggeredBlock'', JInt (uint (ra_triggered_block a)))]) (get_all_alerts guard)))]))"

end
