(* ===== verification/Quyn_RpcServer.thy ===== *)
theory Quyn_RpcServer
  imports Quyn_RpcIntel
begin

text \<open>
  rpc/src/server.rs, the server: the rate limiter, the table of methods and the JSON-RPC envelope,
  with the properties of whole runs of requests. axum, CORS, the body and time limits and the
  GET routes other than \<open>/rpc\<close> are not modelled.
\<close>

section \<open>Dispatch\<close>

definition RATE_LIMIT_PER_SEC :: u32 where "RATE_LIMIT_PER_SEC = 100"

record ('d, 'f) rpc_crates =
  rc_kv :: "'d kv"
  rc_ext :: ext
  rc_codec :: codec
  rc_f64 :: "'f f64_ops"
  rc_rank :: hash_order
  rc_de_tx :: "bytes \<Rightarrow> string + signed_transaction"
  rc_de_vs :: "bytes \<Rightarrow> string + validator_set"

type_synonym ('d, 'f) request = "'f json \<Rightarrow> (('d, 'f) app_state, 'f json, 'f json) act"

text \<open>The requests that only read.\<close>

definition readers :: "('d, 'f) rpc_crates \<Rightarrow> u64 \<Rightarrow>
    (string \<times> (('d, 'f) app_state \<Rightarrow> 'f json \<Rightarrow> ('f, 'f json) handler)) list" where
  "readers E now = (let K = rc_kv E; X = rc_ext E; C = rc_codec E; F = rc_f64 E in [
     (''eth_blockNumber'', \<lambda>app p. eth_block_number K X C (as_chain app)),
     (''eth_chainId'', \<lambda>app p. Ok (JString (quantity (as_chain_id app)))),
     (''net_version'', \<lambda>app p. Ok (JString (dec (unat (as_chain_id app))))),
     (''eth_gasPrice'', \<lambda>app p. Ok (JString ''0x3B9ACA00'')),
     (''eth_estimateGas'', \<lambda>app p. Ok (JString ''0x5208'')),
     (''eth_feeHistory'', \<lambda>app p. Ok (JObject [(''oldestBlock'', JString ''0x0''),
        (''gasUsedRatio'', JArray [JFloat (f_lit F 0)]), (''reward'', JArray [JArray [JString ''0x3B9ACA00'']])])),
     (''eth_maxPriorityFeePerGas'', \<lambda>app p. Ok (JString ''0x3B9ACA00'')),
     (''quyn_health'', \<lambda>app p. Ok (JString ''ok'')),
     (''eth_getBalance'', \<lambda>app p. eth_get_balance K X (as_state app) p),
     (''eth_getTransactionCount'', \<lambda>app p. eth_get_transaction_count K X (as_state app) p),
     (''eth_getCode'', \<lambda>app p. eth_get_code K X (as_state app) p),
     (''quyn_getBlockByNumber'', \<lambda>app p. eth_get_block_by_number K X C (as_chain app) p),
     (''eth_getBlockByNumber'', \<lambda>app p. eth_get_block_by_number K X C (as_chain app) p),
     (''quyn_getBlockByHash'', \<lambda>app p. eth_get_block_by_hash K X C (as_chain app) p),
     (''eth_getBlockByHash'', \<lambda>app p. eth_get_block_by_hash K X C (as_chain app) p),
     (''quyn_getTransactionByHash'', \<lambda>app p. eth_get_transaction_by_hash K X C (as_chain app) p),
     (''eth_getTransactionByHash'', \<lambda>app p. eth_get_transaction_by_hash K X C (as_chain app) p),
     (''quyn_getAddressTransactions'', \<lambda>app p. quyn_get_address_transactions K X C (as_chain app) p),
     (''quyn_getNetworkStats'', \<lambda>app p. quyn_get_network_stats K X C F (as_chain_id app) (as_chain app)),
     (''quyn_getValidatorList'', \<lambda>app p. quyn_get_validator_list K X (rc_de_vs E) (as_chain app)),
     (''quyn_getValidatorStats'', \<lambda>app p. quyn_get_validator_stats K X (rc_de_vs E) (as_chain app)),
     (''quyn_getTransactionReceipt'', \<lambda>app p. eth_get_transaction_receipt K X C (as_chain app) p),
     (''eth_getTransactionReceipt'', \<lambda>app p. eth_get_transaction_receipt K X C (as_chain app) p),
     (''qyn_getVerificationStats'', \<lambda>app p. qyn_get_verification_stats F now),
     (''qyn_getRecentVerifications'', \<lambda>app p. qyn_get_recent_verifications now),
     (''qyn_verifyContent'', \<lambda>app p. qyn_verify_content X now p),
     (''qyn_getValidatorScores'', \<lambda>app p. Ok (JObject [(''validators'', JArray [])])),
     (''qyn_getValidatorRecord'', \<lambda>app p. qyn_get_validator_record F p),
     (''qyn_getGasPrediction'', \<lambda>app p. qyn_get_gas_prediction K X C F (as_chain app)),
     (''qyn_getCongestionHistory'', \<lambda>app p. qyn_get_congestion_history K X C F (as_chain app)),
     (''qyn_getContractRiskProfile'', \<lambda>app p. qyn_get_contract_risk_profile X F app p),
     (''qyn_scanContract'', \<lambda>app p. qyn_scan_contract p),
     (''qyn_getTokenConcentration'', \<lambda>app p. qyn_get_token_concentration X F (rc_rank E) app p),
     (''qyn_getRugPullAlerts'', \<lambda>app p. qyn_get_rug_pull_alerts X app)])"

text \<open>The requests that change the server.\<close>

definition writers :: "('d, 'f) rpc_crates \<Rightarrow> (string \<times> ('d, 'f) request) list" where
  "writers E = (let K = rc_kv E; X = rc_ext E; C = rc_codec E in [
     (''eth_sendRawTransaction'', eth_send_raw_transaction K X (rc_de_tx E) (rc_rank E)),
     (''qyn_getFraudAnalysis'', qyn_get_fraud_analysis K X C (rc_f64 E)),
     (''qyn_lockLiquidity'', qyn_lock_liquidity K X C)])"

definition dispatch :: "('d, 'f) rpc_crates \<Rightarrow> u64 \<Rightarrow> string \<Rightarrow> ('d, 'f) request" where
  "dispatch E now method params = (case map_of (writers E) method of
       Some h \<Rightarrow> h params
     | None \<Rightarrow> (case map_of (readers E now) method of
           Some h \<Rightarrow> aread (\<lambda>app. h app params)
         | None \<Rightarrow> aret (JString (''method '' @ method @ '' not implemented''))))"

section \<open>The envelope\<close>

text \<open>One request counted against the limit of its address: whether it is refused.\<close>

definition rate_limit ::
  "nat \<Rightarrow> string \<Rightarrow> (string \<rightharpoonup> u32 \<times> nat) \<Rightarrow> ('e, bool \<times> (string \<rightharpoonup> u32 \<times> nat)) outcome" where
  "rate_limit now ip lr =
     (case (case lr ip of None \<Rightarrow> (0, now) | Some e \<Rightarrow> e) of (n, start) \<Rightarrow>
      case (if 1000000000 \<le> now - start then (0, now) else (n, start)) of (n', start') \<Rightarrow>
      obind (chk_add n' 1) (\<lambda>n''. Ok (RATE_LIMIT_PER_SEC < n'', lr(ip \<mapsto> (n'', start')))))"

definition or_null :: "'f json option \<Rightarrow> 'f json" where
  "or_null r = (case r of None \<Rightarrow> JNull | Some v \<Rightarrow> v)"

definition envelope :: "'f json option \<Rightarrow> 'f json \<Rightarrow> 'f json" where
  "envelope rid result = JObject [(''jsonrpc'', JString ''2.0''), (''id'', or_null rid),
     (case json_field result ''error'' of
        Some e \<Rightarrow> (''error'', e)
      | None \<Rightarrow> (''result'', result))]"

definition refused :: "'f json option \<Rightarrow> 'f json" where
  "refused rid = JObject [(''jsonrpc'', JString ''2.0''), (''id'', or_null rid),
     (''error'', JObject [(''code'', JInt (- 32005)), (''message'', JString ''rate limit exceeded'')])]"

text \<open>An early return and the value at the end of a handler are the same value of \<open>dispatch\<close>.\<close>

fun early :: "('a, 'a) outcome \<Rightarrow> (unit, 'a) outcome" where
  "early (Ok v) = Ok v"
| "early (Err v) = Ok v"
| "early Panic = Panic"
| "early Diverge = Diverge"

definition jsonrpc_handler ::
  "('d, 'f) rpc_crates \<Rightarrow> nat \<Rightarrow> u64 \<Rightarrow> string \<Rightarrow> 'f json \<Rightarrow> (('d, 'f) app_state, unit, nat \<times> 'f json) act" where
  "jsonrpc_handler E instant secs ip body app =
     (case rate_limit instant ip (as_rate_limiter app) of
        Ok (exceeded, lr) \<Rightarrow>
          (let app1 = app\<lparr>as_rate_limiter := lr\<rparr>; rid = json_field body ''id'' in
           if exceeded then (Ok (429, refused rid), app1)
           else (let method = unwrap_str '''' (obind_opt (json_field body ''method'') as_str);
                     params = (case json_field body ''params'' of None \<Rightarrow> JArray [] | Some p \<Rightarrow> p)
                 in case dispatch E secs method params app1 of (r, app2) \<Rightarrow>
                      (obind (early r) (\<lambda>result. Ok (200, envelope rid result)), app2)))
      | Err e \<Rightarrow> (Err e, app) | Panic \<Rightarrow> (Panic, app) | Diverge \<Rightarrow> (Diverge, app))"

definition rpc_chain_id_get :: "('d, 'f) app_state \<Rightarrow> 'f json" where
  "rpc_chain_id_get app = JObject [(''jsonrpc'', JString ''2.0''), (''id'', JInt 1),
     (''result'', JString (quantity (as_chain_id app)))]"

definition health :: "'f json" where
  "health = JObject [(''status'', JString ''ok''), (''network'', JString ''quyn'')]"

definition serve_state :: "'d \<Rightarrow> 'd \<Rightarrow> mempool \<Rightarrow> u64 \<Rightarrow> 'f f64_ops \<Rightarrow> ('d, 'f) app_state" where
  "serve_state chain state pool cid F = \<lparr>as_chain = chain, as_state = state, as_mempool = pool,
     as_chain_id = cid, as_rate_limiter = Map.empty,
     as_rug_pull = new_rug_pull_detector (default_rug_pull_config F), as_rug_pull_poisoned = False,
     as_concentration = new_concentration_monitor\<rparr>"

section \<open>What a request can change\<close>

text \<open>Databases and chain id stay; the pool is the old one or has one checked transaction inserted; the
  poison flag is never cleared.\<close>

definition request_step :: "('d, 'f) rpc_crates \<Rightarrow> ('d, 'f) app_state \<Rightarrow> ('d, 'f) app_state \<Rightarrow> bool" where
  "request_step E app app' \<longleftrightarrow>
     as_chain app' = as_chain app \<and> as_state app' = as_state app \<and> as_chain_id app' = as_chain_id app \<and>
     as_concentration app' = as_concentration app \<and>
     (as_rug_pull_poisoned app \<longrightarrow> as_rug_pull_poisoned app') \<and>
     (as_mempool app' = as_mempool app \<or>
      (\<exists>tx r. check_raw (rc_kv E) (rc_ext E) app tx = (Ok () :: ('f, unit) handler) \<and>
         insert_tx (rc_ext E) (rc_rank E) tx (as_mempool app) = (r, as_mempool app')))"

lemma request_step_refl [simp]: "request_step E app app"
  by (simp add: request_step_def)

lemma send_raw_step:
  "eth_send_raw_transaction (rc_kv E) (rc_ext E) de_tx (rc_rank E) params app = (r, app') \<Longrightarrow> request_step E app app'"
proof -
  assume s: "eth_send_raw_transaction (rc_kv E) (rc_ext E) de_tx (rc_rank E) params app = (r, app')"
  show ?thesis
  proof (cases "decode_raw (rc_ext E) de_tx params :: ('a, signed_transaction) handler")
    case (Ok tx)
    note d = Ok
    show ?thesis
    proof (cases "check_raw (rc_kv E) (rc_ext E) app tx")
      case (Ok u)
      obtain q p where ins: "insert_tx (rc_ext E) (rc_rank E) tx (as_mempool app) = (q, p)"
        by (cases "insert_tx (rc_ext E) (rc_rank E) tx (as_mempool app)")
      with s d Ok have "app' = app\<lparr>as_mempool := p\<rparr>"
        by (auto simp: eth_send_raw_transaction_def abind_alift athen_def abind_aread pool_insert_def)
      with Ok ins show ?thesis by (auto simp: request_step_def)
    qed (use s d in \<open>auto simp: eth_send_raw_transaction_def abind_alift athen_def abind_aread\<close>)
  qed (use s in \<open>auto simp: eth_send_raw_transaction_def abind_alift\<close>)
qed

lemma run_analysis_step: "run_analysis K X C F t app = (r, app') \<Longrightarrow> request_step E app app'"
  by (cases t) (auto simp: run_analysis_def Let_def request_step_def split: outcome.splits if_splits)

lemma fraud_analysis_step: "qyn_get_fraud_analysis K X C F params app = (r, app') \<Longrightarrow> request_step E app app'"
  by (auto simp: qyn_get_fraud_analysis_def athen_def abind_alift abind_aread
      intro: run_analysis_step split: outcome.splits)

lemma take_lock_step: "take_lock X a n p l b app = (r, app') \<Longrightarrow> request_step E app app'"
  by (auto simp: take_lock_def request_step_def split: outcome.splits if_splits)

lemma lock_liquidity_step: "qyn_lock_liquidity K X C params app = (r, app') \<Longrightarrow> request_step E app app'"
  by (auto simp: qyn_lock_liquidity_def abind_alift abind_aread intro: take_lock_step split: outcome.splits)

lemma dispatch_step: "dispatch E now method params app = (r, app') \<Longrightarrow> request_step E app app'"
  by (auto simp: dispatch_def writers_def aread_def aret_def Let_def send_raw_step fraud_analysis_step
      lock_liquidity_step split: option.splits if_splits)

lemma limiter_irrelevant [simp]:
  "request_step E (app\<lparr>as_rate_limiter := lr\<rparr>) app' \<longleftrightarrow> request_step E app app'"
  by (simp add: request_step_def check_raw_def)

lemma limiter_kept [simp]: "request_step E app (app\<lparr>as_rate_limiter := lr\<rparr>)"
  by (simp add: request_step_def)

lemma handler_step: "jsonrpc_handler E instant secs ip body app = (r, app') \<Longrightarrow> request_step E app app'"
  by (auto simp: jsonrpc_handler_def Let_def dest!: dispatch_step split: outcome.splits prod.splits if_splits)

text \<open>Runs of the server: requests that are answered, and requests whose handler panics.\<close>

inductive rpc_run :: "('d, 'f) rpc_crates \<Rightarrow> ('d, 'f) app_state \<Rightarrow> ('d, 'f) app_state \<Rightarrow> bool" for E app where
  start: "rpc_run E app app"
| request: "rpc_run E app app1 \<Longrightarrow> jsonrpc_handler E instant secs ip body app1 = (r, app2) \<Longrightarrow> rpc_run E app app2"

end
