(* ===== verification/Quyn_RpcLaws.thy ===== *)
theory Quyn_RpcLaws
  imports Quyn_RpcServer Quyn_Accept
begin

text \<open>
  Properties of the RPC server: the shape of its replies, what a run of requests can change, the
  exactness of account queries, the rate limiter, acceptance of a signed transaction, and the
  requests that do harm.
\<close>

lemma run_request_step: "rpc_run E app app' \<Longrightarrow>
    as_chain app' = as_chain app \<and> as_state app' = as_state app \<and> as_chain_id app' = as_chain_id app \<and>
    (as_rug_pull_poisoned app \<longrightarrow> as_rug_pull_poisoned app')"
  by (induction rule: rpc_run.induct) (auto dest!: handler_step simp: request_step_def)

section \<open>An example server\<close>

definition ref_crates :: "(mem_db, rat) rpc_crates" where
  "ref_crates = \<lparr>rc_kv = mem_kv, rc_ext = ref_ext, rc_codec = ref_codec, rc_f64 = ref_f64,
     rc_rank = (\<lambda>_ _. 0), rc_de_tx = (\<lambda>bs. Inl ''io error''), rc_de_vs = (\<lambda>bs. Inl ''io error'')\<rparr>"

definition funded_db :: mem_db where
  "funded_db = snd (set_balance mem_kv ref_ext 3 30000 [])"

lemma funded_db:
  "state_wf ref_ext (map_of funded_db)"
  "sv_balance (view_of ref_ext (map_of funded_db)) = (\<lambda>_. 0)(3 := 30000)"
  "sv_nonce (view_of ref_ext (map_of funded_db)) = (\<lambda>_. 0)"
proof -
  show "state_wf ref_ext (map_of funded_db)"
    unfolding funded_db_def by (rule mem_state.state_wf_writes(1)) simp
  show "sv_balance (view_of ref_ext (map_of funded_db)) = (\<lambda>_. 0)(3 := 30000)"
    "sv_nonce (view_of ref_ext (map_of funded_db)) = (\<lambda>_. 0)"
    unfolding funded_db_def by (simp_all add: mem_state.set_balance_view) (simp_all add: view_of_def)
qed

lemma funded_tx:
  assumes "sender ref_ext tx = Ok 3" and "nonce tx = 0" and "tx_cost tx \<le> 30000"
  shows "validate_tx_against_state mem_kv ref_ext tx funded_db = Ok ()"
  using assms by (simp add: validate_tx_against_state_def mem_state.get_balance_view [OF funded_db(1)]
      mem_state.get_nonce_view [OF funded_db(1)] funded_db Let_def not_less)

lemma example_tx_checks:
  assumes "unat v \<le> 9000"
  shows "validate_tx_basic ref_ext ((example_tx 0 1 v)\<lparr>st_hash_override := h\<rparr>) 7779 = Ok ()"
    and "validate_tx_against_state mem_kv ref_ext ((example_tx 0 1 v)\<lparr>st_hash_override := h\<rparr>) funded_db = Ok ()"
proof -
  let ?t = "(example_tx 0 1 v)\<lparr>st_hash_override := h\<rparr>"
  have s: "sender ref_ext ?t = Ok 3"
    using example_tx_sender [of 0 1 v] by (simp add: sender_def)
  then show "validate_tx_basic ref_ext ?t 7779 = Ok ()"
    by (simp add: validate_tx_basic_def accessor_defs example_tx_def)
  have "unat (tx_cost ?t) \<le> 30000"
    using assms by (simp add: tx_cost_def accessor_defs example_tx_def unat_sat_add unat_sat_mul)
  then have "tx_cost ?t \<le> 30000" by (simp add: word_le_nat_alt)
  with s show "validate_tx_against_state mem_kv ref_ext ?t funded_db = Ok ()"
    by (intro funded_tx) (simp_all add: nonce_def example_tx_def)
qed

definition example_server :: "(mem_db, rat) app_state" where
  "example_server = serve_state [] funded_db (with_capacity 10) 7779 ref_f64"

definition call_body :: "string \<Rightarrow> 'f json \<Rightarrow> 'f json" where
  "call_body method params = JObject [(''id'', JInt 1), (''method'', JString method), (''params'', params)]"

section \<open>Replies and runs\<close>

text \<open>C34: every reply is a JSON-RPC 2.0 response: an object with the version, the id of the request
  (null when it has none) and exactly one of a result and an error; status 429 comes with an
  error, and 200 with an error exactly when the method returned one. The handler has no other
  failure than a panic.\<close>

theorem rpc_response_shape:
  fixes body :: "'f json"
  assumes "jsonrpc_handler E instant secs ip body app = (r, app')"
  shows "(case r of Ok (status, reply) \<Rightarrow> \<exists>key v. reply = JObject [(''jsonrpc'', JString ''2.0''),
         (''id'', or_null (json_field body ''id'')), (key, v)] \<and>
       (status = 429 \<and> key = ''error'' \<or> status = 200 \<and> key = ''error'' \<or>
        status = 200 \<and> key = ''result'' \<and> json_field v ''error'' = None)
     | Err e \<Rightarrow> False | Panic \<Rightarrow> True | Diverge \<Rightarrow> True)"
proof (cases "rate_limit instant ip (as_rate_limiter app) :: (unit, _) outcome")
  case (Ok el)
  obtain exceeded lr where el: "el = (exceeded, lr)" by (cases el)
  show ?thesis
  proof (cases exceeded)
    case True
    with assms Ok el have "r = Ok (429, refused (json_field body ''id''))" by (simp add: jsonrpc_handler_def)
    then show ?thesis by (simp add: refused_def)
  next
    case False
    with assms Ok el obtain q :: "('f json, 'f json) outcome"
      where r: "r = obind (early q) (\<lambda>result. Ok (200, envelope (json_field body ''id'') result))"
      by (auto simp: jsonrpc_handler_def Let_def split: prod.splits)
    show ?thesis
      by (cases q) (auto simp: r envelope_def split: option.splits)
  qed
next
  case (Err e)
  then show ?thesis by (auto simp: rate_limit_def chk_add_def split: prod.splits option.splits if_splits)
qed (use assms in \<open>simp_all add: jsonrpc_handler_def\<close>)

theorem rpc_response_shape_witness:
  "fst (jsonrpc_handler ref_crates 0 0 ''127.0.0.1'' (call_body ''eth_chainId'' JNull) example_server) =
     Ok (200, JObject [(''jsonrpc'', JString ''2.0''), (''id'', JInt 1), (''result'', JString (quantity (7779 :: u64)))])"
proof -
  let ?h = "jsonrpc_handler ref_crates 0 0 ''127.0.0.1'' (call_body ''eth_chainId'' JNull) example_server"
  have v: "fst ?h = Ok (200, JObject [(''jsonrpc'', JString ''2.0''), (''id'', JInt 1), (''result'', JString (quantity (7779 :: u64)))])"
    by (simp add: jsonrpc_handler_def example_server_def serve_state_def rate_limit_def chk_add_def
        RATE_LIMIT_PER_SEC_def call_body_def dispatch_def writers_def readers_def Let_def unwrap_str_def
        aread_def envelope_def or_null_def)
  obtain r app' where h: "?h = (r, app')" by (cases ?h)
  from rpc_response_shape [OF h] v h show ?thesis by simp
qed

text \<open>C12: the server admits only valid transactions: in every run of requests from a server with an
  empty pool, panicking requests included, the databases and the chain id stay as they were, the
  pool is one reached by insertions, and every transaction in it passes the basic check for the
  server's chain and the check against the state.\<close>

theorem rpc_pool_validated:
  assumes "rpc_run E (serve_state c s (with_capacity k) cid F) app"
  shows "as_chain app = c \<and> as_state app = s \<and> as_chain_id app = cid \<and> pool_run (rc_ext E) (as_mempool app) \<and>
    (\<forall>a n tx. pool_tx (as_mempool app) a n = Some tx \<longrightarrow>
       validate_tx_basic (rc_ext E) tx cid = Ok () \<and>
       validate_tx_against_state (rc_kv E) (rc_ext E) tx s = Ok ())"
  using assms
proof (induction rule: rpc_run.induct)
  case start
  show ?case by (auto simp: serve_state_def with_capacity_def pool_tx_def intro: pool_run.new [unfolded with_capacity_def])
next
  case (request app1 instant secs ip body r app2)
  from handler_step [OF request(2)] have st: "request_step E app1 app2" .
  show ?case
  proof (cases "as_mempool app2 = as_mempool app1")
    case True
    with st request(3) show ?thesis by (simp add: request_step_def)
  next
    case False
    with st obtain tx q where chk: "check_raw (rc_kv E) (rc_ext E) app1 tx = (Ok () :: ('b, unit) handler)"
      and ins: "insert_tx (rc_ext E) (rc_rank E) tx (as_mempool app1) = (q, as_mempool app2)"
      by (auto simp: request_step_def)
    have run: "pool_run (rc_ext E) (as_mempool app1)" using request(3) by simp
    have tx: "validate_tx_basic (rc_ext E) tx cid = Ok ()"
      "validate_tx_against_state (rc_kv E) (rc_ext E) tx s = Ok ()"
      using chk request(3) by (auto simp: check_raw_def obind_eq_Ok)
    have "validate_tx_basic (rc_ext E) t cid = Ok () \<and> validate_tx_against_state (rc_kv E) (rc_ext E) t s = Ok ()"
      if "pool_tx (as_mempool app2) a n = Some t" for a n t
      using insert_pool_tx [OF pool_run_inv [OF run, THEN conjunct1] ins that] tx request(3) by blast
    with st request(3) pool_run.insert [OF run ins] show ?thesis by (simp add: request_step_def)
  qed
qed

section \<open>The rate limiter\<close>

fun limit_run :: "nat list \<Rightarrow> string \<Rightarrow> (string \<rightharpoonup> u32 \<times> nat) \<Rightarrow> (unit, bool list \<times> (string \<rightharpoonup> u32 \<times> nat)) outcome" where
  "limit_run [] ip lr = Ok ([], lr)"
| "limit_run (t # ts) ip lr = obind (rate_limit t ip lr) (\<lambda>(b, lr').
     obind (limit_run ts ip lr') (\<lambda>(bs, lr''). Ok (b # bs, lr'')))"

lemma limit_run_window:
  assumes "\<forall>t \<in> set ts. t < start + 1000000000" and "lr ip = Some (n, start)"
    and "unat n + length ts < 2 ^ 32"
  shows "\<exists>lr'. limit_run ts ip lr = Ok (map (\<lambda>i. 100 < unat n + Suc i) [0..<length ts], lr')"
  using assms
proof (induction ts arbitrary: n lr)
  case Nil
  then show ?case by simp
next
  case (Cons t ts)
  have n1: "unat (n + 1) = unat n + 1"
    using Cons.prems(3) by (simp add: unat_word_ariths)
  have one: "rate_limit t ip lr = (Ok (RATE_LIMIT_PER_SEC < n + 1, lr(ip \<mapsto> (n + 1, start))) :: (unit, _) outcome)"
  proof -
    have "t - start < 1000000000" using Cons.prems(1) by auto
    then show ?thesis using Cons.prems(2,3) by (simp add: rate_limit_def chk_add_def)
  qed
  have "\<exists>lr'. limit_run ts ip (lr(ip \<mapsto> (n + 1, start))) =
      Ok (map (\<lambda>i. 100 < unat (n + 1) + Suc i) [0..<length ts], lr')"
    by (rule Cons.IH) (use Cons.prems n1 in auto)
  then obtain lr' where "limit_run ts ip (lr(ip \<mapsto> (n + 1, start))) =
      Ok (map (\<lambda>i. 100 < unat (n + 1) + Suc i) [0..<length ts], lr')" by blast
  moreover have "[0..<Suc (length ts)] = 0 # map Suc [0..<length ts]"
    by (simp add: map_Suc_upt upt_conv_Cons del: upt_Suc)
  ultimately show ?case
    using n1 by (simp add: one RATE_LIMIT_PER_SEC_def word_less_nat_alt del: upt_Suc)
qed

text \<open>C36: the limiter is exact within a window: of the requests of one address in the second that starts
  with its first request, the first hundred pass and every later one is refused.\<close>

theorem rate_limit_window:
  assumes "lr ip = None \<or> (\<exists>n start. lr ip = Some (n, start) \<and> start + 1000000000 \<le> t0)"
    and "\<forall>t \<in> set ts. t < t0 + 1000000000" and "length ts + 1 < 2 ^ 32"
  shows "\<exists>lr'. limit_run (t0 # ts) ip lr = Ok (map (\<lambda>i. 100 \<le> i) [0..<Suc (length ts)], lr')"
proof -
  have one: "rate_limit t0 ip lr = (Ok (False, lr(ip \<mapsto> (1, t0))) :: (unit, _) outcome)"
    using assms(1) by (auto simp: rate_limit_def chk_add_def RATE_LIMIT_PER_SEC_def)
  have "\<exists>lr'. limit_run ts ip (lr(ip \<mapsto> (1, t0))) =
      Ok (map (\<lambda>i. 100 < unat (1 :: u32) + Suc i) [0..<length ts], lr')"
    by (rule limit_run_window [where start = t0]) (use assms(2,3) in auto)
  moreover have "[0..<Suc (length ts)] = 0 # map Suc [0..<length ts]"
    by (simp add: map_Suc_upt upt_conv_Cons del: upt_Suc)
  ultimately show ?thesis by (auto simp: one less_Suc_eq_le simp del: upt_Suc)
qed

theorem rate_limit_window_witness:
  "\<exists>lr'. limit_run (5 # replicate 100 7) ''127.0.0.1'' Map.empty = Ok (replicate 100 False @ [True], lr')"
proof -
  have "map (\<lambda>i. 100 \<le> i) [0..<Suc 100] = replicate 100 False @ [True]"
    by (simp add: list_eq_iff_nth_eq nth_append)
  then show ?thesis
    using rate_limit_window [of Map.empty "''127.0.0.1''" 5 "replicate 100 7"] by (simp del: upt_Suc)
qed

section \<open>Account queries\<close>

lemma trim_hex_encoded:
  assumes "hex_crate X" shows "trim_start_matches ''0x'' (hex_data X b) = hex_encode X b"
proof -
  show ?thesis using hex_digits_no_prefix [of b]
    by (subst trim_start_matches.simps)
      (simp add: hex_data_def starts_with_def hex_crate.hex_encode_digits [OF assms] trim_start_matches_id)
qed

text \<open>Account queries are exact, and a client can read the number back: over a working state store
  the balance and nonce requests for an address in hexadecimal answer with its balance and
  nonce as quantities, which parse to the same numbers, and the code request with its code.\<close>

theorem account_queries_exact:
  assumes "state_store K contents X" and "hex_crate X" and "state_wf X (contents s)"
    and "params = JArray [JString (hex_data X (address_bytes a))]"
  shows "eth_get_balance K X s params = Ok (JString (quantity (sv_balance (view_of X (contents s)) a))) \<and>
    eth_get_transaction_count K X s params = Ok (JString (quantity (sv_nonce (view_of X (contents s)) a))) \<and>
    eth_get_code K X s params = Ok (JString (hex_data X (sv_code (view_of X (contents s)) a))) \<and>
    from_str_radix 256 16 (trim_start_matches ''0x'' (quantity (sv_balance (view_of X (contents s)) a))) =
      Some (unat (sv_balance (view_of X (contents s)) a)) \<and>
    u64_from_str_radix (trim_start_matches ''0x'' (quantity (sv_nonce (view_of X (contents s)) a))) 16 =
      Some (sv_nonce (view_of X (contents s)) a)"
proof -
  have p: "param_address X params = (Ok a :: ('b, address) handler)"
    using hex_crate.hex_roundtrip [OF assms(2), of "address_bytes a"]
      trim_hex_encoded [OF assms(2), of "address_bytes a"]
    by (simp add: param_address_def param_str_def assms(4) rpc_parse_address_def unwrap_str_def)
  have r: "require_param_string params 0 = (Ok () :: ('b, unit) handler)"
    by (simp add: require_param_string_def require_param_count_def require_params_array_def param_str_def assms(4))
  have q: "trim_start_matches ''0x'' (quantity w) = lower_hex (unat w)" for w :: "'w::len word"
    by (simp add: quantity_def trim_hex_prefix del: append_Cons)
  note views = state_store.get_balance_view [OF assms(1,3)] state_store.get_nonce_view [OF assms(1,3)]
    state_store.get_code_view [OF assms(1)]
  show ?thesis
    using unat_less [of "sv_balance (view_of X (contents s)) a"] unat_less [of "sv_nonce (view_of X (contents s)) a"]
    by (simp add: eth_get_balance_def eth_get_transaction_count_def eth_get_code_def p r views q
        u64_from_str_radix_def from_str_radix_lower_hex)
qed

theorem account_queries_exact_witness:
  "eth_get_balance mem_kv ref_ext funded_db (JArray [JString (hex_data ref_ext (address_bytes 3))] :: rat json) =
     Ok (JString (''0x'' @ lower_hex 30000))"
  using account_queries_exact [OF mem_state.state_store_axioms ref_hex.hex_crate_axioms funded_db(1) refl,
      where a = 3 and ?'b = rat] by (simp add: funded_db quantity_def)

section \<open>Sending transactions\<close>

lemma decode_raw_hex:
  assumes "hex_crate X" and "bs \<noteq> []"
  shows "decode_raw X de_tx (JArray [JString (hex_data X bs)]) =
    map_err (\<lambda>e. error_value (''Failed to parse tx: '' @ e)) (parse_raw X de_tx bs)"
  by (simp add: decode_raw_def require_param_string_def require_param_count_def require_params_array_def
      param_str_def unwrap_str_def trim_hex_encoded [OF assms(1)] hex_crate.hex_length [OF assms(1)]
      hex_crate.hex_roundtrip [OF assms(1)] assms(2))

lemma checks_same:
  assumes "sender X t = sender X st" and "st_tx t = st_tx st"
  shows "validate_tx_basic X t cid = validate_tx_basic X st cid"
    and "validate_tx_against_state K X t s = validate_tx_against_state K X st s"
    and "nonce t = nonce st"
  using assms by (simp_all add: validate_tx_basic_def validate_tx_against_state_def tx_cost_def accessor_defs nonce_def Let_def cong: if_cong)

lemma send_raw_Ok:
  assumes "decode_raw X de_tx params = Ok tx" and "check_raw K X app tx = Ok ()"
    and "insert_tx X rank tx (as_mempool app) = (Ok q, p)"
  shows "eth_send_raw_transaction K X de_tx rank params app =
    (Ok (JString (hex_data X (b256_bytes (tx_hash X tx)))), app\<lparr>as_mempool := p\<rparr>)"
  using assms by (simp add: eth_send_raw_transaction_def abind_alift athen_def abind_aread pool_insert_def)

text \<open>A legacy transaction as the server reads it from its encoding: with the hash of the bytes recorded.\<close>

definition received :: "ext \<Rightarrow> signed_transaction \<Rightarrow> bytes \<Rightarrow> signed_transaction" where
  "received X st raw = st\<lparr>st_v := (if st_v st < 27 then st_v st + 27 else st_v st),
     st_hash_override := Some (keccak256 X raw)\<rparr>"

lemma legacy_raw_decoded:
  assumes "rlp_crate X" and "hex_crate X"
    and "unat (chain_id st) < 2 ^ 62" and "st_v st \<in> {0, 1, 27, 28}"
    and "to_legacy_rlp X st = (Ok raw :: bytes parse_result)"
  shows "decode_raw X de_tx (JArray [JString (hex_data X raw)] :: 'f json) = Ok (received X st raw)"
    and "st_tx (received X st raw) = st_tx st" and "sender X (received X st raw) = sender X st"
    and "tx_hash X (received X st raw) = keccak256 X raw"
proof -
  from parse_to_legacy_rlp [OF assms(1,3,4)] assms(5)
  have t: "parse_legacy_tx X raw = Ok (received X st raw)" "sender X (received X st raw) = sender X st"
    "tx_hash X (received X st raw) = keccak256 X raw"
    by (force simp: received_def)+
  from assms(5) obtain v where "raw = rlp_stream_out X (signed_items (st_tx st) v (st_r st) (st_s st))"
    unfolding to_legacy_rlp_def obind_eq_Ok by blast
  then obtain b bs where "raw = b # bs" "0xc0 \<le> b"
    using rlp_crate.rlp_out_head [OF assms(1)] by blast
  then have raw: "raw \<noteq> []" "hd raw \<noteq> 2" by (auto simp: word_le_nat_alt)
  show "decode_raw X de_tx (JArray [JString (hex_data X raw)] :: 'f json) = Ok (received X st raw)"
    by (simp add: decode_raw_hex [OF assms(2) raw(1)] parse_raw_def raw(2) t)
  show "st_tx (received X st raw) = st_tx st" by (simp add: received_def)
qed (use parse_to_legacy_rlp [OF assms(1,3,4)] assms(5) in \<open>force simp: received_def\<close>)+

lemma legacy_raw_accepted:
  assumes "rlp_crate X" and "hex_crate X"
    and "unat (chain_id st) < 2 ^ 62" and "st_v st \<in> {0, 1, 27, 28}"
    and "to_legacy_rlp X st = (Ok raw :: bytes parse_result)" and "sender X st = Ok a"
    and "validate_tx_basic X st (as_chain_id app) = Ok ()"
    and "validate_tx_against_state K X st (as_state app) = Ok ()"
    and "pool_run X (as_mempool app)" and "mp_by_hash (as_mempool app) (keccak256 X raw) = None"
    and "\<not> gap_exceeded (as_mempool app) a (nonce st)"
    and "pool_total (mp_by_sender (as_mempool app)) < mp_max_size (as_mempool app)"
  shows "\<exists>app' t. eth_send_raw_transaction K X de_tx rank (JArray [JString (hex_data X raw)]) app =
      (Ok (JString (hex_data X (b256_bytes (keccak256 X raw)))), app') \<and>
    get_by_hash (as_mempool app') (keccak256 X raw) = Ok (Some t) \<and> st_tx t = st_tx st \<and> sender X t = Ok a"
proof -
  let ?t = "received X st raw"
  note t = legacy_raw_decoded [OF assms(1-5)]
  have c: "check_raw K X app ?t = (Ok () :: ('b, unit) handler)"
    using assms(6-8) by (simp add: check_raw_def t(3) checks_same [OF t(3,2)])
  have "\<exists>p'. insert_tx X rank ?t (as_mempool app) = (Ok None, p') \<and>
      get_by_hash p' (tx_hash X ?t) = Ok (Some ?t) \<and>
      (\<forall>q k. pool_tx p' q k = (if q = a \<and> k = nonce ?t then Some ?t else pool_tx (as_mempool app) q k))"
    by (rule insert_stored) (use assms(6,10-12) pool_run_inv [OF assms(9)] t checks_same(3) [OF t(3,2)] in simp_all)
  with send_raw_Ok [OF t(1) c] t assms(6) show ?thesis by fastforce
qed

text \<open>C27: a signed transaction is accepted: sent as the hexadecimal of its legacy encoding to a server
  whose chain and state it is valid for, and whose pool has room, no transaction with its hash and
  no nonce gap, it is answered with the hash of the encoding, and the pool then finds it by that
  hash, with the content and the sender it was signed with.\<close>

theorem raw_tx_accepted:
  assumes "rlp_crate X" and "hex_crate X"
    and "unat (chain_id st) < 2 ^ 62" and "st_v st \<in> {0, 1, 27, 28}"
    and "to_legacy_rlp X st = (Ok raw :: bytes parse_result)" and "sender X st = Ok a"
    and "validate_tx_basic X st (as_chain_id app) = Ok ()"
    and "validate_tx_against_state K X st (as_state app) = Ok ()"
    and "pool_run X (as_mempool app)" and "mp_by_hash (as_mempool app) (keccak256 X raw) = None"
    and "\<not> gap_exceeded (as_mempool app) a (nonce st)"
    and "pool_total (mp_by_sender (as_mempool app)) < mp_max_size (as_mempool app)"
  shows "\<exists>app' t. eth_send_raw_transaction K X de_tx rank (JArray [JString (hex_data X raw)]) app =
      (Ok (JString (hex_data X (b256_bytes (keccak256 X raw)))), app') \<and>
    get_by_hash (as_mempool app') (keccak256 X raw) = Ok (Some t) \<and> st_tx t = st_tx st \<and> sender X t = Ok a"
  by (rule legacy_raw_accepted [OF assms])

text \<open>The example server is sent the example transaction.\<close>

lemma example_sent:
  assumes "app = example_server\<lparr>as_rate_limiter := lr\<rparr>"
  obtains raw app' t where "to_legacy_rlp ref_ext (example_tx 0 1 5) = (Ok raw :: bytes parse_result)"
    and "eth_send_raw_transaction mem_kv ref_ext (\<lambda>_. Inl ''io error'') (\<lambda>_ _. 0)
       (JArray [JString (hex_data ref_ext raw)] :: rat json) app =
     (Ok (JString (hex_data ref_ext (b256_bytes (keccak256 ref_ext raw)))), app')"
    and "get_by_hash (as_mempool app') (keccak256 ref_ext raw) = Ok (Some t)" and "sender ref_ext t = Ok 3"
proof -
  have c: "unat (chain_id (example_tx 0 1 5)) < 2 ^ 62" "st_v (example_tx 0 1 5) \<in> {0, 1, 27, 28}"
    by (simp_all add: chain_id_def example_tx_def)
  obtain raw where raw: "to_legacy_rlp ref_ext (example_tx 0 1 5) = (Ok raw :: bytes parse_result)"
    using parse_to_legacy_rlp [OF ref_rlp.rlp_crate_axioms c] by blast
  have chk: "validate_tx_basic ref_ext (example_tx 0 1 5) (as_chain_id app) = Ok ()"
    "validate_tx_against_state mem_kv ref_ext (example_tx 0 1 5) (as_state app) = Ok ()"
    using example_tx_checks [of 5 None]
    by (simp_all add: assms example_server_def serve_state_def example_tx_def)
  have pool: "pool_run ref_ext (as_mempool app)" "mp_by_hash (as_mempool app) h = None"
    "\<not> gap_exceeded (as_mempool app) 3 (nonce (example_tx 0 1 5))"
    "pool_total (mp_by_sender (as_mempool app)) < mp_max_size (as_mempool app)" for h
    using pool_run.new [of ref_ext 10]
    by (simp_all add: assms example_server_def serve_state_def gap_exceeded_def pool_tx_def with_capacity_def pool_total_def)
  from legacy_raw_accepted [OF ref_rlp.rlp_crate_axioms ref_hex.hex_crate_axioms c raw example_tx_sender chk pool]
  show ?thesis using raw that by blast
qed

theorem raw_tx_accepted_witness:
  "\<exists>raw app' t. to_legacy_rlp ref_ext (example_tx 0 1 5) = (Ok raw :: bytes parse_result) \<and>
     eth_send_raw_transaction mem_kv ref_ext (\<lambda>_. Inl ''io error'') (\<lambda>_ _. 0)
       (JArray [JString (hex_data ref_ext raw)] :: rat json) example_server =
     (Ok (JString (hex_data ref_ext (b256_bytes (keccak256 ref_ext raw)))), app') \<and>
     get_by_hash (as_mempool app') (keccak256 ref_ext raw) = Ok (Some t) \<and> sender ref_ext t = Ok 3"
proof -
  have c: "unat (chain_id (example_tx 0 1 5)) < 2 ^ 62" "st_v (example_tx 0 1 5) \<in> {0, 1, 27, 28}"
    by (simp_all add: chain_id_def example_tx_def)
  obtain raw where raw: "to_legacy_rlp ref_ext (example_tx 0 1 5) = (Ok raw :: bytes parse_result)"
    using parse_to_legacy_rlp [OF ref_rlp.rlp_crate_axioms c] by blast
  have chk: "validate_tx_basic ref_ext (example_tx 0 1 5) (as_chain_id example_server) = Ok ()"
    "validate_tx_against_state mem_kv ref_ext (example_tx 0 1 5) (as_state example_server) = Ok ()"
    using example_tx_checks [of 5 None]
    by (simp_all add: example_server_def serve_state_def example_tx_def)
  have pool: "pool_run ref_ext (as_mempool example_server)" "mp_by_hash (as_mempool example_server) h = None"
    "\<not> gap_exceeded (as_mempool example_server) 3 (nonce (example_tx 0 1 5))"
    "pool_total (mp_by_sender (as_mempool example_server)) < mp_max_size (as_mempool example_server)" for h
    using pool_run.new [of ref_ext 10]
    by (simp_all add: example_server_def serve_state_def gap_exceeded_def pool_tx_def with_capacity_def pool_total_def)
  from raw_tx_accepted [OF ref_rlp.rlp_crate_axioms ref_hex.hex_crate_axioms c raw example_tx_sender chk pool]
  show ?thesis using raw by blast
qed

text \<open>A run of two requests, the second of which puts a transaction into the pool.\<close>

lemma ref_crates_simps [simp]:
  "rc_kv ref_crates = mem_kv" "rc_ext ref_crates = ref_ext" "rc_rank ref_crates = (\<lambda>_ _. 0)"
  "rc_de_tx ref_crates = (\<lambda>_. Inl ''io error'')"
  by (simp_all add: ref_crates_def)

lemma example_requests:
  obtains app h t where "rpc_run ref_crates example_server app" and "get_by_hash (as_mempool app) h = Ok (Some t)"
proof -
  let ?lr1 = "Map.empty(''127.0.0.1'' \<mapsto> (1 :: u32, 0 :: nat))" and ?lr2 = "Map.empty(''127.0.0.1'' \<mapsto> (2 :: u32, 0 :: nat))"
  let ?app1 = "example_server\<lparr>as_rate_limiter := ?lr1\<rparr>" and ?app2 = "example_server\<lparr>as_rate_limiter := ?lr2\<rparr>"
  have one: "\<exists>r. jsonrpc_handler ref_crates 0 0 ''127.0.0.1'' (call_body ''eth_chainId'' JNull) example_server = (r, ?app1)"
    by (simp add: jsonrpc_handler_def example_server_def serve_state_def rate_limit_def chk_add_def
        RATE_LIMIT_PER_SEC_def call_body_def dispatch_def writers_def readers_def Let_def unwrap_str_def aread_def)
  obtain raw app' t where sent: "eth_send_raw_transaction mem_kv ref_ext (\<lambda>_. Inl ''io error'') (\<lambda>_ _. 0)
       (JArray [JString (hex_data ref_ext raw)] :: rat json) ?app2 =
     (Ok (JString (hex_data ref_ext (b256_bytes (keccak256 ref_ext raw)))), app')"
    and t: "get_by_hash (as_mempool app') (keccak256 ref_ext raw) = Ok (Some t)"
    by (rule example_sent [OF refl, of ?lr2])
  have "rate_limit 0 ''127.0.0.1'' ?lr1 = (Ok (False, ?lr2) :: (unit, _) outcome)"
    by (simp add: rate_limit_def chk_add_def RATE_LIMIT_PER_SEC_def)
  with sent have two: "\<exists>r. jsonrpc_handler ref_crates 0 0 ''127.0.0.1''
      (call_body ''eth_sendRawTransaction'' (JArray [JString (hex_data ref_ext raw)])) ?app1 = (r, app')"
    by (simp add: jsonrpc_handler_def call_body_def dispatch_def writers_def Let_def unwrap_str_def)
  from one two obtain r1 r2 where "jsonrpc_handler ref_crates 0 0 ''127.0.0.1'' (call_body ''eth_chainId'' JNull) example_server = (r1, ?app1)"
    "jsonrpc_handler ref_crates 0 0 ''127.0.0.1''
      (call_body ''eth_sendRawTransaction'' (JArray [JString (hex_data ref_ext raw)])) ?app1 = (r2, app')" by blast
  from rpc_run.request [OF rpc_run.request [OF rpc_run.start this(1)] this(2)] t show ?thesis by (rule that)
qed

theorem rpc_pool_validated_witness:
  "\<exists>app a n tx. rpc_run ref_crates example_server app \<and> pool_tx (as_mempool app) a n = Some tx \<and> as_state app = funded_db \<and>
     validate_tx_basic ref_ext tx 7779 = Ok () \<and> validate_tx_against_state mem_kv ref_ext tx funded_db = Ok ()"
proof -
  obtain app h tx where run: "rpc_run ref_crates example_server app" and g: "get_by_hash (as_mempool app) h = Ok (Some tx)"
    by (rule example_requests)
  from g obtain a n where "pool_tx (as_mempool app) a n = Some tx"
    by (auto simp: get_by_hash_def split: option.splits)
  with rpc_pool_validated [OF run [unfolded example_server_def]] run show ?thesis by force
qed

text \<open>A hash can be squatted: bytes that are not RLP are read by bincode, which lets the sender choose
  the recorded hash of its transaction freely. Once a transaction with the hash of another one is in the
  pool, the honest transaction is answered with its hash as if it were accepted, but it never enters
  the pool.\<close>

theorem hash_squatting:
  assumes "hex_crate X" and "bs \<noteq> []" and "hd bs \<noteq> 2" and "\<not> rlp_is_list X bs"
    and "de_tx bs = Inr evil" and "st_hash_override evil = Some (tx_hash X tx)"
    and "check_raw K X app evil = (Ok () :: ('f, unit) handler)" and "sender X evil = Ok e"
    and "pool_run X (as_mempool app)" and "mp_by_hash (as_mempool app) (tx_hash X tx) = None"
    and "\<not> gap_exceeded (as_mempool app) e (nonce evil)"
    and "pool_total (mp_by_sender (as_mempool app)) < mp_max_size (as_mempool app)"
    and "decode_raw X de_tx params = Ok tx" and "check_raw K X app tx = (Ok () :: ('f, unit) handler)"
    and "tx \<noteq> evil"
  shows "\<exists>app1. eth_send_raw_transaction K X de_tx rank (JArray [JString (hex_data X bs)] :: 'f json) app =
      (Ok (JString (hex_data X (b256_bytes (tx_hash X tx)))), app1) \<and>
    eth_send_raw_transaction K X de_tx rank params app1 =
      (Ok (JString (hex_data X (b256_bytes (tx_hash X tx)))), app1) \<and>
    (\<forall>a n. pool_tx (as_mempool app1) a n \<noteq> Some tx)"
proof -
  have h: "tx_hash X evil = tx_hash X tx" using assms(6) by (simp add: tx_hash_def)
  have d: "decode_raw X de_tx (JArray [JString (hex_data X bs)]) = (Ok evil :: ('f, signed_transaction) handler)"
    using assms(3-5) by (simp add: decode_raw_hex [OF assms(1,2)] parse_raw_def parse_legacy_tx_def)
  obtain p' where ins: "insert_tx X rank evil (as_mempool app) = (Ok None, p')"
    and g: "get_by_hash p' (tx_hash X evil) = Ok (Some evil)"
    using insert_stored [OF conjunct1 [OF pool_run_inv [OF assms(9)]] assms(8), of rank] assms(10-12) by (auto simp: h)
  let ?app1 = "app\<lparr>as_mempool := p'\<rparr>"
  have taken: "mp_by_hash p' (tx_hash X tx) \<noteq> None" using g by (cases "mp_by_hash p' (tx_hash X tx)") (simp_all add: get_by_hash_def h)
  have inv: "pool_inv X p'" using pool_run_inv [OF pool_run.insert [OF assms(9) ins]] by simp
  from assms(14) obtain a where a: "sender X tx = Ok a" by (auto simp: check_raw_def obind_eq_Ok)
  then have ins2: "insert_tx X rank tx p' = (Ok None, p')" using taken by (simp add: insert_tx_def Let_def)
  have "pool_tx p' q n \<noteq> Some tx" for q n
  proof
    assume t: "pool_tx p' q n = Some tx"
    then have "get_by_hash p' (tx_hash X tx) = Ok (Some tx)"
      using pool_tx_entry [OF inv t] by (simp add: get_by_hash_def)
    with g h assms(15) show False by simp
  qed
  moreover have "check_raw K X ?app1 tx = (Ok () :: ('f, unit) handler)" using assms(14) by (simp add: check_raw_def)
  then have "eth_send_raw_transaction K X de_tx rank params ?app1 =
      (Ok (JString (hex_data X (b256_bytes (tx_hash X tx)))), ?app1)"
    using send_raw_Ok [OF assms(13), where app = ?app1 and p = p' and q = None] ins2 by simp
  ultimately show ?thesis
    using send_raw_Ok [OF d assms(7) ins] by (auto simp: h)
qed

definition squatting_reader :: "bytes \<Rightarrow> string + signed_transaction" where
  "squatting_reader bs =
     Inr (if bs = [1] then (example_tx 0 1 6)\<lparr>st_hash_override := Some 100\<rparr>
          else (example_tx 0 1 5)\<lparr>st_hash_override := Some 100\<rparr>)"

theorem hash_squatting_witness:
  "\<exists>app1. eth_send_raw_transaction mem_kv ref_ext squatting_reader (\<lambda>_ _. 0)
       (JArray [JString (hex_data ref_ext [3])] :: rat json) app1 =
     (Ok (JString (hex_data ref_ext (b256_bytes 100))), app1) \<and>
     (\<forall>a n. pool_tx (as_mempool app1) a n \<noteq> Some ((example_tx 0 1 5)\<lparr>st_hash_override := Some 100\<rparr>))"
proof -
  let ?evil = "(example_tx 0 1 6)\<lparr>st_hash_override := Some 100\<rparr>"
  let ?tx = "(example_tx 0 1 5)\<lparr>st_hash_override := Some 100\<rparr>"
  have nl: "\<not> rlp_is_list ref_ext [b]" if "b < 0xc0" for b
    using that by (simp add: ref_ext_def not_le)
  have h: "tx_hash ref_ext ?tx = 100" by (simp add: tx_hash_def)
  have s: "sender ref_ext ?evil = Ok 3" "sender ref_ext ?tx = Ok 3"
    using example_tx_sender [of 0 1 6] example_tx_sender [of 0 1 5] by (simp_all add: sender_def)
  have chk: "check_raw mem_kv ref_ext example_server ?evil = (Ok () :: (rat, unit) handler)"
    "check_raw mem_kv ref_ext example_server ?tx = (Ok () :: (rat, unit) handler)"
    using example_tx_checks [of 6 "Some 100"] example_tx_checks [of 5 "Some 100"] s
    by (simp_all add: check_raw_def example_server_def serve_state_def)
  have pool: "pool_run ref_ext (as_mempool example_server)" "mp_by_hash (as_mempool example_server) k = None"
    "\<not> gap_exceeded (as_mempool example_server) 3 (nonce ?evil)"
    "pool_total (mp_by_sender (as_mempool example_server)) < mp_max_size (as_mempool example_server)" for k
    using pool_run.new [of ref_ext 10]
    by (simp_all add: example_server_def serve_state_def gap_exceeded_def pool_tx_def with_capacity_def pool_total_def)
  have d: "decode_raw ref_ext squatting_reader (JArray [JString (hex_data ref_ext [3])]) =
      (Ok ?tx :: (rat, signed_transaction) handler)"
    using nl [of 3] by (simp add: decode_raw_hex [OF ref_hex.hex_crate_axioms] parse_raw_def parse_legacy_tx_def
        squatting_reader_def)
  have ov: "st_hash_override ?evil = Some (tx_hash ref_ext ?tx)" by (simp add: h)
  have ne: "?tx \<noteq> ?evil" by (simp add: example_tx_def)
  have r: "squatting_reader [1] = Inr ?evil" by (simp add: squatting_reader_def)
  from hash_squatting [OF ref_hex.hex_crate_axioms _ _ nl r ov chk(1) s(1) pool d chk(2) ne, of "\<lambda>_ _. 0"]
  show ?thesis by (auto simp: h)
qed

section \<open>The detector's lock\<close>

text \<open>One request disables the detector for good: on a chain past its genesis block, a request to
  lock liquidity for the longest period overflows the expiry block and panics while it holds the
  lock of the detector; in every later run of requests, those for alerts, for the profile of a
  contract and for locks panic.\<close>

theorem lock_request_disables_detector:
  fixes E :: "('d, 'f) rpc_crates"
  assumes "rc_kv E = K" and "rc_ext E = X" and "rc_codec E = C"
    and "head_number K X C (as_chain app) = (Ok n :: ('f, u64) handler)" and "0 < n"
    and "rpc_parse_address X contract = Ok ca" and "rpc_parse_address X locker = Ok la"
    and "params = JArray [JString contract, JString amount, JString ''18446744073709551615'', JString locker]"
    and "dispatch E now ''qyn_lockLiquidity'' params app = (r, app1)" and "rpc_run E app1 app2"
  shows "r = Panic \<and> fst (dispatch E now ''qyn_getRugPullAlerts'' p app2) = Panic \<and>
    fst (dispatch E now ''qyn_lockLiquidity'' params app2) = Panic \<and>
    fst (dispatch E now ''qyn_getContractRiskProfile'' (JArray [JString contract]) app2) = Panic"
proof -
  have period: "lock_period ''18446744073709551615'' = - 1"
    by (simp add: lock_period_def u64_from_str_radix_def from_str_radix_def digit_value_def)
  have over: "lock_liquidity ca m (- 1) la n rp = Panic" for m rp
    using assms(5) by (simp add: lock_liquidity_def chk_add_def unat_max word_less_nat_alt)
  have lock: "dispatch E now ''qyn_lockLiquidity'' params a = (Panic, a\<lparr>as_rug_pull_poisoned := True\<rparr>)"
    if "as_chain a = as_chain app" for a
    using assms(1-4,6-8) that
    by (simp add: dispatch_def writers_def qyn_lock_liquidity_def parse_address_array_def param_or_field_def
        param_str_def abind_alift abind_aread take_lock_def period over Let_def)
  with assms(9) have r: "r = Panic" and p1: "as_rug_pull_poisoned app1" "as_chain app1 = as_chain app" by auto
  from run_request_step [OF assms(10)] p1 have p2: "as_rug_pull_poisoned app2" "as_chain app2 = as_chain app"
    by auto
  have "fst (dispatch E now ''qyn_getRugPullAlerts'' p app2) = Panic"
    using p2 by (simp add: dispatch_def writers_def readers_def Let_def aread_def qyn_get_rug_pull_alerts_def
        detector_read_def)
  moreover have "fst (dispatch E now ''qyn_getContractRiskProfile'' (JArray [JString contract]) app2) = Panic"
    using p2 assms(2,6)
    by (simp add: dispatch_def writers_def readers_def Let_def aread_def detector_read_def
        qyn_get_contract_risk_profile_def parse_address_array_def param_or_field_def param_str_def)
  ultimately show ?thesis using r by (simp add: lock [OF p2(2)])
qed

lemma one_block_store:
  "\<exists>c. head_number mem_kv ref_ext ref_codec c = (Ok 1 :: ('f, u64) handler)"
proof -
  have "chain_wf ref_ext ref_codec (map_of [])" "chain_view_of ref_ext ref_codec (map_of []) = empty_view"
    by simp_all
  from mem_chain.put_block_refines [OF this(1) example_block_encodable [of 204 1 20 7 1] this(2)] obtain c1 where
    c1: "chain_wf ref_ext ref_codec (map_of c1)"
      "chain_view_of ref_ext ref_codec (map_of c1) = view_put_block ref_ext example_left empty_view"
    by blast
  from mem_chain.set_head_refines [OF c1(1), of 205] c1 obtain c where
    c: "chain_wf ref_ext ref_codec (map_of c)"
      "chain_view_of ref_ext ref_codec (map_of c) = (view_put_block ref_ext example_left empty_view)\<lparr>cv_head := Some 205\<rparr>"
    by auto
  have "head_number mem_kv ref_ext ref_codec c = (Ok 1 :: ('f, u64) handler)"
    using mem_chain.get_block_view [OF c(1)]
    by (simp add: head_number_def head_block_def mem_chain.reads_view(6) c(2))
  then show ?thesis by blast
qed

theorem lock_request_disables_detector_witness:
  "\<exists>c params. fst (dispatch ref_crates 0 ''qyn_lockLiquidity'' params
       (serve_state c funded_db (with_capacity 10) 7779 ref_f64)) = Panic \<and>
     (\<forall>app2. rpc_run ref_crates (snd (dispatch ref_crates 0 ''qyn_lockLiquidity'' params
         (serve_state c funded_db (with_capacity 10) 7779 ref_f64))) app2 \<longrightarrow>
       fst (dispatch ref_crates 0 ''qyn_getRugPullAlerts'' JNull app2) = Panic)"
proof -
  obtain c where c: "head_number mem_kv ref_ext ref_codec c = (Ok 1 :: (rat, u64) handler)"
    using one_block_store by blast
  let ?app = "serve_state c funded_db (with_capacity 10) 7779 ref_f64"
  let ?a = "hex_data ref_ext (address_bytes 5)"
  let ?p = "JArray [JString ?a, JString ''7'', JString ''18446744073709551615'', JString ?a] :: rat json"
  let ?d = "dispatch ref_crates 0 ''qyn_lockLiquidity'' ?p ?app"
  have h: "head_number mem_kv ref_ext ref_codec (as_chain ?app) = (Ok 1 :: (rat, u64) handler)"
    using c by (simp add: serve_state_def)
  have e: "rc_kv ref_crates = mem_kv" "rc_ext ref_crates = ref_ext" "rc_codec ref_crates = ref_codec"
    by (simp_all add: ref_crates_def)
  have a: "rpc_parse_address ref_ext ?a = Ok 5"
    using ref_hex.hex_roundtrip [of "address_bytes 5"] trim_hex_encoded [OF ref_hex.hex_crate_axioms, of "address_bytes 5"]
    by (simp add: rpc_parse_address_def)
  have d: "?d = (fst ?d, snd ?d)" by simp
  note disabled = lock_request_disables_detector [OF e h _ a a refl d]
  from disabled [OF _ rpc_run.start] disabled show ?thesis by (metis zero_neq_one word_gt_0)
qed

section \<open>Receipts\<close>

text \<open>Whatever happened in the interpreter, the receipt of an indexed transaction has status \<open>0x1\<close>.\<close>

lemma receipt_json_status [simp]:
  "json_field (receipt_json X txh bh n i g a b) ''status'' = Some (JString ''0x1'')"
  by (simp add: receipt_json_def)

lemma receipt_status_constant:
  "eth_get_transaction_receipt K X C c params = Ok j \<Longrightarrow>
    j = JNull \<or> json_field j ''status'' = Some (JString ''0x1'')"
  by (auto simp: eth_get_transaction_receipt_def obind_eq_Ok split: option.splits)

end
