(* ===== verification/Quyn_Node.thy ===== *)
theory Quyn_Node
  imports Quyn_RpcServer Quyn_Accept Quyn_VmLaws Quyn_Wallet
begin

text \<open>
  node/src/runner.rs and node/src/main.rs: the full node, the genesis of the devnet and the block
  producer. The crates are the record of the RPC server with the interpreter, the writers of
  bincode and the wallet's crates added. The two clocks that one production reads are
  arguments. A round of the producer is one function here; \<open>Quyn_Devnet\<close> cuts it into steps between
  which requests reach the pool. Logging is not modelled.
\<close>

section \<open>The node\<close>

record ('d, 'f) node_crates = "('d, 'f) rpc_crates" +
  nc_revm :: revm
  nc_ser_vs :: "validator_set \<Rightarrow> string + bytes"
  nc_ser_evidence :: "slash_evidence \<Rightarrow> string + bytes"
  nc_wallet :: wallet_ext

record 'd full_node =
  fn_chain :: 'd
  fn_state :: 'd
  fn_mempool :: mempool

text \<open>\<open>FullNode::open\<close> on two opened databases\<close>

definition open_node :: "'d \<Rightarrow> 'd \<Rightarrow> 'd full_node" where
  "open_node chain state = \<lparr>fn_chain = chain, fn_state = state, fn_mempool = new_mempool\<rparr>"

text \<open>\<open>Box<dyn Error>\<close>, made from a core error or from a text.\<close>

datatype node_error = CoreErr core_error | TextErr string

type_synonym ('d, 'a) node_act = "('d full_node, node_error, 'a) act"

definition in_chain :: "('d, core_error, 'a) act \<Rightarrow> ('d, 'a) node_act" where
  "in_chain m nd = (case m (fn_chain nd) of (r, c) \<Rightarrow> (map_err CoreErr r, nd\<lparr>fn_chain := c\<rparr>))"

definition in_state :: "('d, core_error, 'a) act \<Rightarrow> ('d, 'a) node_act" where
  "in_state m nd = (case m (fn_state nd) of (r, s) \<Rightarrow> (map_err CoreErr r, nd\<lparr>fn_state := s\<rparr>))"

definition in_pool :: "(mempool, core_error, 'a) act \<Rightarrow> ('d, 'a) node_act" where
  "in_pool m nd = (case m (fn_mempool nd) of (r, p) \<Rightarrow> (map_err CoreErr r, nd\<lparr>fn_mempool := p\<rparr>))"

text \<open>\<open>let _ = r;\<close> and \<open>match r { Ok(x) => .., Err(_) => continue }\<close>\<close>

definition discard :: "('s, 'e, 'a) act \<Rightarrow> ('s, 'g, unit) act" where
  "discard m s = (case m s of
       (Ok _, s') \<Rightarrow> (Ok (), s')
     | (Err _, s') \<Rightarrow> (Ok (), s')
     | (Panic, s') \<Rightarrow> (Panic, s')
     | (Diverge, s') \<Rightarrow> (Diverge, s'))"

fun ok_opt :: "('e, 'a) outcome \<Rightarrow> ('g, 'a option) outcome" where
  "ok_opt (Ok x) = Ok (Some x)"
| "ok_opt (Err e) = Ok None"
| "ok_opt Panic = Panic"
| "ok_opt Diverge = Diverge"

section \<open>Genesis of the devnet\<close>

definition devnet_validator :: address where "devnet_validator = 1"

definition devnet_faucet_keypair :: "wallet_ext \<Rightarrow> ('e, key_pair) outcome" where
  "devnet_faucet_keypair W =
     (case from_secret W ([0xde, 0xad, 0xbe, 0xef, 0x11] @ replicate 27 0) of
        Ok kp \<Rightarrow> Ok kp | Err e \<Rightarrow> Panic | Panic \<Rightarrow> Panic | Diverge \<Rightarrow> Diverge)"

definition FOUNDER_ADDR :: string where
  "FOUNDER_ADDR = ''0x034ADBD563043B1ba028691839Adc37d07C08909''"

text \<open>The map of allocations, as its entries in the order of insertion.\<close>

definition devnet_alloc :: "ext \<Rightarrow> address \<Rightarrow> (string \<times> string) list" where
  "devnet_alloc X faucet_addr = (let one_qyn = 10 ^ 18 :: nat in
     AList.update FOUNDER_ADDR (''0x'' @ lower_hex (200000000 * one_qyn))
       (AList.update (hex_data X (address_bytes faucet_addr)) (''0x'' @ lower_hex (100000000 * one_qyn))
         (AList.update (hex_data X (address_bytes devnet_validator)) (''0x'' @ lower_hex (1000000000 * one_qyn)) [])))"

definition devnet_genesis :: "b256 \<Rightarrow> block" where
  "devnet_genesis state_root = \<lparr>b_header = \<lparr>
     h_parent_hash = 0, h_state_root = state_root, h_transactions_root = 0, h_receipts_root = 0,
     h_timestamp = 0, h_number = 0, h_validator = devnet_validator, h_signature = [],
     h_extra_data = [], h_gas_limit = 30000000, h_base_fee_per_gas = 0\<rparr>, b_body = []\<rparr>"

definition consensus_text :: "consensus_error \<Rightarrow> string" where
  "consensus_text e = (case e of
       InvalidValidator s \<Rightarrow> ''Invalid validator: '' @ s
     | Slashing s \<Rightarrow> ''Slashing: '' @ s
     | Staking s \<Rightarrow> ''Staking: '' @ s
     | BlockProduction s \<Rightarrow> ''Block production: '' @ s)"

text \<open>The validator set of one validator with the minimal stake, registered and stored.\<close>

definition store_validator :: "('d, 'f) node_crates \<Rightarrow> ('d, unit) node_act" where
  "store_validator E = (case register devnet_validator (ucast MIN_STAKE) 0 new_validator_set of (r, vset) \<Rightarrow>
     athen (alift (map_err (\<lambda>e. TextErr (''validator set register: '' @ consensus_text e)) r)) (
     abind (alift (of_sum TextErr (nc_ser_vs E vset))) (\<lambda>bytes.
     in_chain (put_validator_set_bytes (rc_kv E) (rc_ext E) bytes))))"

text \<open>\<open>order\<close> is the order in which the map of allocations is walked.\<close>

definition write_genesis ::
  "('d, 'f) node_crates \<Rightarrow> ((string \<times> string) list \<Rightarrow> (string \<times> string) list) \<Rightarrow> ('d, unit) node_act" where
  "write_genesis E order = (let K = rc_kv E; X = rc_ext E; C = rc_codec E in
     abind (alift (devnet_faucet_keypair (nc_wallet E))) (\<lambda>kp.
     athen (in_state (apply_genesis_alloc K X (order (devnet_alloc X (kp_address X kp))))) (
     abind (aread (\<lambda>nd. map_err CoreErr (compute_state_root K X (fn_state nd)))) (\<lambda>state_root.
     let genesis = devnet_genesis state_root in
     athen (in_chain (put_block K X C genesis)) (
     athen (in_chain (set_head K X (block_hash X genesis))) (
     athen (in_state (save_state_root K (block_hash X genesis) state_root))
       (store_validator E)))))))"

definition init_devnet ::
  "('d, 'f) node_crates \<Rightarrow> ((string \<times> string) list \<Rightarrow> (string \<times> string) list) \<Rightarrow> ('d, unit) node_act" where
  "init_devnet E order = (let K = rc_kv E; X = rc_ext E in
     abind (aread (\<lambda>nd. map_err CoreErr (get_head K X (fn_chain nd)))) (\<lambda>head.
     athen (case head of None \<Rightarrow> write_genesis E order | Some _ \<Rightarrow> aret ()) (
     abind (aread (\<lambda>nd. map_err CoreErr (get_validator_set_bytes K X (fn_chain nd)))) (\<lambda>bytes.
     case bytes of None \<Rightarrow> store_validator E | Some _ \<Rightarrow> aret ()))))"

section \<open>Candidates\<close>

text \<open>The proposer of the next block, when a validator set is stored and can be read.\<close>

definition selected_proposer ::
  "('d, 'f) node_crates \<Rightarrow> 'd \<Rightarrow> b256 \<Rightarrow> u64 \<Rightarrow> (node_error, address option) outcome" where
  "selected_proposer E c parent_hash next_number =
     obind (map_err CoreErr (get_validator_set_bytes (rc_kv E) (rc_ext E) c)) (\<lambda>bytes. case bytes of
       None \<Rightarrow> Ok None
     | Some bs \<Rightarrow> (case rc_de_vs E bs of
           Inl _ \<Rightarrow> Ok None
         | Inr vset \<Rightarrow> map_err (\<lambda>e. TextErr (consensus_text e)) (obind (active_validators vset) (\<lambda>active.
             select_proposer (rc_ext E) active next_number parent_hash))))"

text \<open>The checks of a candidate and the recommendation; \<open>None\<close> when a check fails.\<close>

definition screen_tx ::
  "('d, 'f) node_crates \<Rightarrow> u64 \<Rightarrow> u64 \<Rightarrow> signed_transaction \<Rightarrow> 'd full_node \<Rightarrow>
    (node_error, fraud_recommendation option) outcome" where
  "screen_tx E cid next_number tx nd = (let K = rc_kv E; X = rc_ext E in
     obind (ok_opt (validate_tx_basic X tx cid)) (\<lambda>r. case r of None \<Rightarrow> Ok None | Some _ \<Rightarrow>
     obind (ok_opt (validate_tx_against_state K X tx (fn_state nd))) (\<lambda>r. case r of None \<Rightarrow> Ok None | Some _ \<Rightarrow>
     obind (ok_opt (analyse_transaction K X (rc_codec E) (rc_f64 E) (new_detector default_fraud_config) tx
       (fn_chain nd) (fn_state nd) next_number)) (\<lambda>r.
     Ok (map_option (\<lambda>(analysis, _). fa_recommendation analysis) r)))))"

text \<open>Each execution has a fresh adapter, with an empty cache of code.\<close>

definition execute_candidate ::
  "('d, 'f) node_crates \<Rightarrow> vm_block_env \<Rightarrow> u64 \<Rightarrow> signed_transaction \<Rightarrow> ('d, u64 option) node_act" where
  "execute_candidate E blk cid tx nd =
     (case execute_tx (nc_revm E) (rc_kv E) (rc_ext E) tx blk cid (fn_state nd, Map.empty) of (r, (s, _)) \<Rightarrow>
        (obind (ok_opt r) (\<lambda>res. Ok (map_option er_gas_used res)), nd\<lparr>fn_state := s\<rparr>))"

text \<open>One candidate: the gas it used when it was executed.\<close>

definition include_tx ::
  "('d, 'f) node_crates \<Rightarrow> vm_block_env \<Rightarrow> u64 \<Rightarrow> u64 \<Rightarrow> signed_transaction \<Rightarrow> ('d, u64 option) node_act" where
  "include_tx E blk cid next_number tx =
     abind (aread (screen_tx E cid next_number tx)) (\<lambda>r. case r of
       None \<Rightarrow> aret None
     | Some Reject \<Rightarrow> athen (discard (in_pool (remove_tx (tx_hash (rc_ext E) tx)))) (aret None)
     | Some Delay \<Rightarrow> aret None
     | Some IncludeWithLog \<Rightarrow> execute_candidate E blk cid tx
     | Some Include \<Rightarrow> execute_candidate E blk cid tx)"

fun apply_candidates ::
  "('d, 'f) node_crates \<Rightarrow> vm_block_env \<Rightarrow> u64 \<Rightarrow> u64 \<Rightarrow> signed_transaction list \<Rightarrow>
    ('d, (signed_transaction \<times> u64) list) node_act" where
  "apply_candidates E blk cid next_number [] = aret []"
| "apply_candidates E blk cid next_number (tx # txs) =
     abind (include_tx E blk cid next_number tx) (\<lambda>gas.
     abind (apply_candidates E blk cid next_number txs) (\<lambda>rest.
     aret (case gas of None \<Rightarrow> rest | Some gas_used \<Rightarrow> (tx, gas_used) # rest)))"

section \<open>The block\<close>

definition total_gas_fees :: "(signed_transaction \<times> u64) list \<Rightarrow> u256" where
  "total_gas_fees to_apply =
     foldl sat_add 0 (map (\<lambda>(tx, gas_used). sat_mul (gas_price tx) (ucast gas_used)) to_apply)"

definition burn_fees :: "('d, 'f) node_crates \<Rightarrow> address \<Rightarrow> u256 \<Rightarrow> ('d, unit) node_act" where
  "burn_fees E validator burn =
     (if burn = 0 then aret ()
      else abind (aread (\<lambda>nd. map_err CoreErr (get_balance (rc_kv E) (rc_ext E) (fn_state nd) validator))) (\<lambda>bal.
        in_state (set_balance (rc_kv E) (rc_ext E) validator (sat_sub bal burn))))"

definition slash_double_sign ::
  "('d, 'f) node_crates \<Rightarrow> address \<Rightarrow> u64 \<Rightarrow> b256 \<Rightarrow> ('d, unit) node_act" where
  "slash_double_sign E v at_height second_block = (let K = rc_kv E; X = rc_ext E;
       evidence = \<lparr>se_validator = v, se_reason = DoubleSignReason, se_block_number = at_height,
         se_payload = b256_bytes second_block\<rparr>;
       evidence_bytes = (case nc_ser_evidence E evidence of Inl _ \<Rightarrow> [] | Inr bs \<Rightarrow> bs)
     in athen (discard (in_chain (put_slash_evidence K X v at_height evidence_bytes)))
         (abind (aread (\<lambda>nd. ok_opt (get_balance K X (fn_state nd) v))) (\<lambda>r. case r of
            None \<Rightarrow> aret ()
          | Some bal \<Rightarrow> discard (in_state (set_balance K X v
              (sat_sub bal (bal * ucast (slash_penalty_bps DoubleSignReason) div 10000)))))))"

definition accept_sealed :: "('d, 'f) node_crates \<Rightarrow> block \<Rightarrow> u64 \<Rightarrow> ('d, unit) node_act" where
  "accept_sealed E b now nd =
     (case accept_block (rc_kv E) (rc_ext E) (rc_codec E) b now (fn_chain nd, fn_state nd) of (r, (c, s)) \<Rightarrow>
       (let nd' = nd\<lparr>fn_chain := c, fn_state := s\<rparr> in case r of
          Ok u \<Rightarrow> (Ok u, nd')
        | Err e \<Rightarrow> (case e of
              DoubleSign v at_height _ second_block \<Rightarrow>
                athen (slash_double_sign E v at_height second_block) (afail (CoreErr e)) nd'
            | _ \<Rightarrow> (Err (CoreErr e), nd'))
        | Panic \<Rightarrow> (Panic, nd')
        | Diverge \<Rightarrow> (Diverge, nd')))"

fun index_receipts ::
  "('d, 'f) node_crates \<Rightarrow> block \<Rightarrow> nat \<Rightarrow> (signed_transaction \<times> u64) list \<Rightarrow> ('d, unit) node_act" where
  "index_receipts E b i [] = aret ()"
| "index_receipts E b i ((tx, gas_used) # rest) = (let K = rc_kv E; X = rc_ext E in
     athen (in_chain (put_tx_receipt_index K X (tx_hash X tx) (block_hash X b) (h_number (b_header b)) (of_nat i) gas_used)) (
     athen (discard (in_pool (remove_tx (tx_hash X tx))))
       (index_receipts E b (i + 1) rest)))"

text \<open>From the executed transactions to the stored block\<close>

definition seal_block ::
  "('d, 'f) node_crates \<Rightarrow> address \<Rightarrow> b256 \<Rightarrow> u64 \<Rightarrow> u64 \<Rightarrow> string + u64 \<Rightarrow> (signed_transaction \<times> u64) list \<Rightarrow>
    ('d, unit) node_act" where
  "seal_block E validator parent_hash next_number now clock to_apply = (let K = rc_kv E; X = rc_ext E in
     athen (burn_fees E validator (fst (split_fees (total_gas_fees to_apply)))) (
     abind (aread (\<lambda>nd. map_err CoreErr (compute_state_root K X (fn_state nd)))) (\<lambda>state_root.
     abind (alift (map_err CoreErr (new_block X clock parent_hash next_number state_root 0 (map fst to_apply)
       validator [] 30000000 0))) (\<lambda>b.
     athen (accept_sealed E b now) (index_receipts E b 0 to_apply)))))"

definition produce_block ::
  "('d, 'f) node_crates \<Rightarrow> address \<Rightarrow> u64 \<Rightarrow> string + u64 \<Rightarrow> string + u64 \<Rightarrow> ('d, unit) node_act" where
  "produce_block E validator cid clock1 clock2 = (let K = rc_kv E; X = rc_ext E; C = rc_codec E in
     abind (aread (\<lambda>nd. map_err CoreErr (get_head K X (fn_chain nd)))) (\<lambda>head. case head of None \<Rightarrow> aret () | Some h \<Rightarrow>
     abind (aread (\<lambda>nd. map_err CoreErr (get_block K X C (fn_chain nd) h))) (\<lambda>p. case p of None \<Rightarrow> aret () | Some parent \<Rightarrow>
     abind (alift (chk_add (h_number (b_header parent)) 1)) (\<lambda>next_number.
     abind (aread (\<lambda>nd. selected_proposer E (fn_chain nd) (block_hash X parent) next_number)) (\<lambda>proposer.
     if (case proposer of Some a \<Rightarrow> a \<noteq> validator | None \<Rightarrow> False) then aret ()
     else abind (alift (of_sum (\<lambda>e. TextErr (''system time before UNIX_EPOCH: '' @ e)) clock1)) (\<lambda>now.
       abind (aread (\<lambda>nd. map_err CoreErr (get_best (rc_rank E) (fn_mempool nd) 100))) (\<lambda>candidates.
       abind (apply_candidates E (block_env X next_number now 30000000 0 validator) cid next_number candidates)
         (seal_block E validator (block_hash X parent) next_number now clock2))))))))"

text \<open>
  The task of the block producer: the error of a round is logged and dropped, a panic ends the
  task for good.
\<close>

definition producer_round ::
  "('d, 'f) node_crates \<Rightarrow> string + u64 \<Rightarrow> string + u64 \<Rightarrow> bool \<times> 'd full_node \<Rightarrow> bool \<times> 'd full_node" where
  "producer_round E clock1 clock2 = (\<lambda>(alive, nd).
     if alive then (case produce_block E devnet_validator CHAIN_ID_TESTNET clock1 clock2 nd of (r, nd') \<Rightarrow>
       (case r of Ok _ \<Rightarrow> True | Err _ \<Rightarrow> True | Panic \<Rightarrow> False | Diverge \<Rightarrow> False, nd'))
     else (False, nd))"

end
