(* ===== verification/Quyn_NodeLaws.thy ===== *)
theory Quyn_NodeLaws
  imports Quyn_Node Quyn_RpcLaws "HOL-Library.Sublist"
begin

text \<open>
  Properties of the block producer and the genesis of the devnet: what the candidates that are
  executed satisfy, what a successful round stores, that a round on a working node advances the
  head, that a failed round keeps the executions, and that a head that cannot be read stops the
  chain.
\<close>

section \<open>Combinators\<close>

lemma discard_Ok [simp]: "m s = (Ok x, s') \<Longrightarrow> discard m s = (Ok (), s')"
  by (simp add: discard_def)

lemma ok_opt_Ok: "ok_opt r = Ok x \<longleftrightarrow> (\<exists>y. r = Ok y \<and> x = Some y) \<or> (\<exists>e. r = Err e \<and> x = None)"
  by (cases r) auto

lemma ok_opt_no_Err [simp]: "ok_opt r \<noteq> Err e"
  by (cases r) auto

lemma obind_eq_Err: "obind r f = Err e \<longleftrightarrow> r = Err e \<or> (\<exists>x. r = Ok x \<and> f x = Err e)"
  by (cases r) auto

lemma subseq_set: "subseq xs ys \<Longrightarrow> set xs \<subseteq> set ys"
  by (induction rule: list_emb.induct) auto

lemma remove_tx_Ok: "\<exists>b p'. remove_tx h p = (Ok b, p')"
  by (auto simp: remove_tx_def Let_def split: option.splits prod.splits)

lemma be_nat_split: "be_nat (m + n) x = be_nat m (x div 256 ^ n) @ be_nat n x"
  by (induction n arbitrary: x) (simp_all add: div_mult2_eq mult.commute)

section \<open>The interpreter and the stores of a node\<close>

text \<open>
  revm reports every changed account once, and every changed slot of an account once (it returns
  maps).
\<close>

locale devnet_store = chain_store "rc_kv E" contents "rc_ext E" "rc_codec E"
  for E :: "('d, 'f) node_crates" and contents :: "'d \<Rightarrow> bytes \<rightharpoonup> bytes" +
  assumes transact_changes: "rv_transact (nc_revm E) ops env cache = (Inr (res, chs), cache') \<Longrightarrow> changes_ok chs"
begin

lemma execute_tx_ok:
  assumes "state_wf (rc_ext E) (contents s)"
  shows "\<exists>r s' cache'. execute_tx (nc_revm E) (rc_kv E) (rc_ext E) tx blk cid (s, cache) = (r, (s', cache')) \<and>
    state_wf (rc_ext E) (contents s') \<and> ((\<exists>x. r = Ok x) \<or> (\<exists>e. r = Err e))"
proof (cases rule: sender_cases [of "rc_ext E" tx])
  case (1 a)
  let ?t = "rv_transact (nc_revm E) (adapter_ops (rc_kv E) (rc_ext E) s) (exec_env tx a blk cid) cache"
  show ?thesis
  proof (cases "fst ?t")
    case (Inl e)
    then obtain cache' where "?t = (Inl e, cache')" by (metis prod.collapse)
    with 1 assms show ?thesis by (simp add: execute_tx_def)
  next
    case (Inr y)
    then obtain res chs cache' where t: "?t = (Inr (res, chs), cache')" by (metis prod.collapse)
    from commit_refines [OF assms transact_changes [OF t], of cache'] 1 t show ?thesis
      by (auto simp: execute_tx_def aret_def)
  qed
qed (use assms in \<open>simp add: execute_tx_def\<close>)

lemma execute_candidate_ok:
  assumes "state_wf (rc_ext E) (contents (fn_state nd))"
  shows "\<exists>g s'. execute_candidate E blk cid tx nd = (Ok g, nd\<lparr>fn_state := s'\<rparr>) \<and> state_wf (rc_ext E) (contents s')"
proof -
  obtain r s' cache' where "execute_tx (nc_revm E) (rc_kv E) (rc_ext E) tx blk cid (fn_state nd, Map.empty) = (r, (s', cache'))"
    "state_wf (rc_ext E) (contents s')" "(\<exists>x. r = Ok x) \<or> (\<exists>e. r = Err e)"
    using execute_tx_ok [OF assms, of tx blk cid Map.empty] by blast
  then show ?thesis by (auto simp: execute_candidate_def)
qed

end

text \<open>What a candidate that was executed passed, against some state of the run.\<close>

definition screened :: "('d, 'f) node_crates \<Rightarrow> u64 \<Rightarrow> u64 \<Rightarrow> 'd \<Rightarrow> signed_transaction \<Rightarrow> 'd \<Rightarrow> bool" where
  "screened E cid n c tx s \<longleftrightarrow>
     validate_tx_basic (rc_ext E) tx cid = Ok () \<and>
     validate_tx_against_state (rc_kv E) (rc_ext E) tx s = Ok () \<and>
     (\<exists>analysis rp. analyse_transaction (rc_kv E) (rc_ext E) (rc_codec E) (rc_f64 E)
        (new_detector default_fraud_config) tx c s n = Ok (analysis, rp) \<and>
        fa_recommendation analysis \<in> {Include, IncludeWithLog})"

definition admitted :: "('d, 'f) node_crates \<Rightarrow> u64 \<Rightarrow> u64 \<Rightarrow> 'd \<Rightarrow> signed_transaction \<Rightarrow> bool" where
  "admitted E cid n c tx \<longleftrightarrow> (\<exists>s. screened E cid n c tx s)"

lemma admittedI: "screened E cid n c tx s \<Longrightarrow> admitted E cid n c tx"
  by (auto simp: admitted_def)

lemma screen_tx_Ok:
  assumes "screen_tx E cid n tx nd = Ok (Some r)" and "r \<in> {Include, IncludeWithLog}"
  shows "screened E cid n (fn_chain nd) tx (fn_state nd)"
  using assms by (auto simp: screen_tx_def screened_def Let_def obind_eq_Ok ok_opt_Ok split: option.splits)

lemma screen_tx_no_Err [simp]: "screen_tx E cid n tx nd \<noteq> Err e"
proof
  assume "screen_tx E cid n tx nd = Err e"
  then show False
    by (auto simp: screen_tx_def Let_def obind_eq_Err split: option.splits)
qed

context devnet_store
begin

text \<open>One candidate: the chain stays, the pool loses at most a rejected transaction.\<close>

lemma include_tx_ok:
  assumes "state_wf (rc_ext E) (contents (fn_state nd))" and "include_tx E blk cid n tx nd = (r, nd')"
  shows "fn_chain nd' = fn_chain nd \<and> state_wf (rc_ext E) (contents (fn_state nd')) \<and>
    (fn_mempool nd' = fn_mempool nd \<or> (\<exists>b. remove_tx (tx_hash (rc_ext E) tx) (fn_mempool nd) = (b, fn_mempool nd'))) \<and>
    (\<forall>g. r = Ok (Some g) \<longrightarrow> screened E cid n (fn_chain nd) tx (fn_state nd) \<and> fn_mempool nd' = fn_mempool nd) \<and>
    (\<forall>e. r \<noteq> Err e)"
proof (cases "screen_tx E cid n tx nd")
  case (Ok d)
  note s = Ok
  show ?thesis
  proof (cases d)
    case None
    with s assms show ?thesis by (auto simp: include_tx_def abind_aread aret_def)
  next
    case (Some k)
    obtain b p' where rm: "remove_tx (tx_hash (rc_ext E) tx) (fn_mempool nd) = (Ok b, p')"
      using remove_tx_Ok by blast
    obtain g s' where ex: "execute_candidate E blk cid tx nd = (Ok g, nd\<lparr>fn_state := s'\<rparr>)"
      and wf: "state_wf (rc_ext E) (contents s')"
      using execute_candidate_ok [OF assms(1)] by blast
    have d: "discard (in_pool (remove_tx (tx_hash (rc_ext E) tx))) nd =
        (Ok () :: (node_error, unit) outcome, nd\<lparr>fn_mempool := p'\<rparr>)"
      by (simp add: discard_def in_pool_def rm)
    from s Some assms ex wf d rm screen_tx_Ok [of E cid n tx nd k] show ?thesis
      by (cases k) (auto simp: include_tx_def abind_aread aret_def athen_def)
  qed
qed (use assms in \<open>auto simp: include_tx_def abind_aread\<close>)

end

text \<open>The pool only shrinks.\<close>

inductive pool_removed :: "mempool \<Rightarrow> mempool \<Rightarrow> bool" where
  same: "pool_removed p p"
| remove: "pool_removed p q \<Longrightarrow> remove_tx h q = (b, q') \<Longrightarrow> pool_removed p q'"

lemma pool_removed_trans: "pool_removed q r \<Longrightarrow> pool_removed p q \<Longrightarrow> pool_removed p r"
  by (induction rule: pool_removed.induct) (auto intro: pool_removed.remove)

lemma pool_removed_run: "pool_removed p q \<Longrightarrow> pool_run X p \<Longrightarrow> pool_run X q"
  by (induction rule: pool_removed.induct) (auto intro: pool_run.remove)

context devnet_store
begin

lemma apply_candidates_ok:
  assumes "state_wf (rc_ext E) (contents (fn_state nd))" and "apply_candidates E blk cid n txs nd = (r, nd')"
  shows "fn_chain nd' = fn_chain nd \<and> state_wf (rc_ext E) (contents (fn_state nd')) \<and>
    pool_removed (fn_mempool nd) (fn_mempool nd') \<and> (\<forall>e. r \<noteq> Err e) \<and>
    (\<forall>ta. r = Ok ta \<longrightarrow> subseq (map fst ta) txs \<and>
       list_all (\<lambda>(tx, _). admitted E cid n (fn_chain nd) tx) ta)"
  using assms
proof (induction txs arbitrary: nd r nd')
  case Nil
  then show ?case by (auto simp: aret_def intro: pool_removed.same)
next
  case (Cons tx txs)
  obtain q nd1 where inc: "include_tx E blk cid n tx nd = (q, nd1)" by (cases "include_tx E blk cid n tx nd")
  note one = include_tx_ok [OF Cons.prems(1) inc]
  have rm: "pool_removed (fn_mempool nd) (fn_mempool nd1)"
    using one by (auto intro: pool_removed.intros)
  show ?case
  proof (cases q)
    case (Ok g)
    obtain q2 nd2 where app: "apply_candidates E blk cid n txs nd1 = (q2, nd2)"
      by (cases "apply_candidates E blk cid n txs nd1")
    from one have "state_wf (rc_ext E) (contents (fn_state nd1))" by simp
    note rest = Cons.IH [OF this app]
    show ?thesis
      using Cons.prems(2) one rest rm inc app Ok
      by (cases q2; cases g) (auto simp: abind_def aret_def intro: pool_removed_trans admittedI)
  qed (use Cons.prems(2) one rm inc in \<open>auto simp: abind_def\<close>)
qed

text \<open>The executed candidates stay in the pool, and so does whatever was no candidate.\<close>

lemma apply_candidates_kept:
  assumes "state_wf (rc_ext E) (contents (fn_state nd))" and "apply_candidates E blk cid n txs nd = (Ok ta, nd')"
    and "pool_inv (rc_ext E) (fn_mempool nd)" and "distinct txs" and "\<forall>tx \<in> set txs. \<exists>s k. pool_tx (fn_mempool nd) s k = Some tx"
  shows "pool_inv (rc_ext E) (fn_mempool nd') \<and> (\<forall>s k t. pool_tx (fn_mempool nd) s k = Some t \<and>
    (t \<in> set txs \<longrightarrow> t \<in> fst ` set ta) \<longrightarrow> pool_tx (fn_mempool nd') s k = Some t)"
  using assms
proof (induction txs arbitrary: nd ta)
  case Nil
  then show ?case by (auto simp: aret_def)
next
  case (Cons tx txs)
  obtain q nd1 where inc: "include_tx E blk cid n tx nd = (q, nd1)" by (cases "include_tx E blk cid n tx nd")
  note one = include_tx_ok [OF Cons.prems(1) inc]
  obtain g ta1 where q: "q = Ok g" and rest: "apply_candidates E blk cid n txs nd1 = (Ok ta1, nd')"
    and ta: "ta = (case g of None \<Rightarrow> ta1 | Some gas \<Rightarrow> (tx, gas) # ta1)"
    using Cons.prems(2) inc by (auto simp: abind_def aret_def split: outcome.splits prod.splits)
  have st1: "state_wf (rc_ext E) (contents (fn_state nd1))" using one by simp
  obtain s0 k0 where at: "pool_tx (fn_mempool nd) s0 k0 = Some tx" using Cons.prems(5) by auto
  have inv1: "pool_inv (rc_ext E) (fn_mempool nd1)"
    using one remove_keeps [OF Cons.prems(3), of "tx_hash (rc_ext E) tx"] Cons.prems(3) by auto
  have keep: "pool_tx (fn_mempool nd1) s k = Some t" if "pool_tx (fn_mempool nd) s k = Some t" "t \<noteq> tx" for s k t
    using one that at pool_tx_removed [OF Cons.prems(3) at, where q = s and k = k] by fastforce
  have "\<forall>t \<in> set txs. \<exists>s k. pool_tx (fn_mempool nd1) s k = Some t"
    using Cons.prems(4,5) keep by (metis distinct.simps(2) list.set_intros(2))
  note ih = Cons.IH [OF st1 rest inv1 _ this]
  have "subseq (map fst ta1) txs" using apply_candidates_ok [OF st1 rest] by simp
  then have sub: "fst ` set ta1 \<subseteq> set txs" using subseq_set by fastforce
  have "pool_tx (fn_mempool nd') s k = Some t"
    if t: "pool_tx (fn_mempool nd) s k = Some t" "t \<in> set (tx # txs) \<longrightarrow> t \<in> fst ` set ta" for s k t
  proof (cases "t = tx")
    case True
    with t(2) ta sub Cons.prems(4) obtain gas where "g = Some gas" by (cases g) auto
    with one q have "fn_mempool nd1 = fn_mempool nd" by auto
    with ih t(1) True Cons.prems(4) show ?thesis by auto
  next
    case False
    with t(2) ta have "t \<in> set txs \<longrightarrow> t \<in> fst ` set ta1" by (auto split: option.splits)
    with ih keep [OF t(1) False] Cons.prems(4) show ?thesis by auto
  qed
  with ih Cons.prems(4) show ?case by simp
qed

lemma burn_fees_ok:
  assumes "state_wf (rc_ext E) (contents (fn_state nd))"
  shows "\<exists>s'. burn_fees E a burn nd = (Ok (), nd\<lparr>fn_state := s'\<rparr>) \<and> state_wf (rc_ext E) (contents s') \<and>
    view_of (rc_ext E) (contents s') = (view_of (rc_ext E) (contents (fn_state nd)))
      \<lparr>sv_balance := (sv_balance (view_of (rc_ext E) (contents (fn_state nd))))
        (a := sat_sub (sv_balance (view_of (rc_ext E) (contents (fn_state nd))) a) burn)\<rparr>"
proof (cases "burn = 0")
  case True
  then show ?thesis using assms
    by (intro exI [of _ "fn_state nd"]) (simp add: burn_fees_def aret_def sat_sub_def)
next
  case False
  let ?b = "sv_balance (view_of (rc_ext E) (contents (fn_state nd))) a"
  have "burn_fees E a burn nd =
      (Ok (), nd\<lparr>fn_state := snd (set_balance (rc_kv E) (rc_ext E) a (sat_sub ?b burn) (fn_state nd))\<rparr>)"
    using False assms by (simp add: burn_fees_def abind_aread get_balance_view in_state_def split_beta set_balance_Ok)
  with set_balance_view state_wf_writes(1) [OF assms] show ?thesis by blast
qed

text \<open>Receipts: the chain's blocks stay, every transaction gets its position.\<close>

lemma put_receipt_ok:
  assumes "chain_wf (rc_ext E) (rc_codec E) (contents c)"
  shows "\<exists>c'. put_tx_receipt_index (rc_kv E) (rc_ext E) t bh n i g c = (Ok (), c') \<and>
    chain_wf (rc_ext E) (rc_codec E) (contents c') \<and>
    (\<exists>w. chain_view_of (rc_ext E) (rc_codec E) (contents c') =
      (chain_view_of (rc_ext E) (rc_codec E) (contents c))\<lparr>cv_receipt := w\<rparr>) \<and>
    (\<forall>u. get_tx_receipt_index (rc_kv E) (rc_ext E) c' u =
      (if u = t then Ok (Some (bh, n, i, g)) else get_tx_receipt_index (rc_kv E) (rc_ext E) c u))"
proof -
  obtain c' where c': "put_tx_receipt_index (rc_kv E) (rc_ext E) t bh n i g c = (Ok (), c')"
    using receipt_roundtrip by blast
  then have eq: "c' = snd (put_tx_receipt_index (rc_kv E) (rc_ext E) t bh n i g c)" by simp
  have "chain_wf (rc_ext E) (rc_codec E) (contents c')"
    "\<exists>w. chain_view_of (rc_ext E) (rc_codec E) (contents c') =
      (chain_view_of (rc_ext E) (rc_codec E) (contents c))\<lparr>cv_receipt := w\<rparr>"
    unfolding eq using wf_other_key [OF assms, of "TxReceiptKey t"]
    by (auto simp: put_tx_receipt_index_def put_contents put_view simp del: fun_upd_apply)
  moreover have "get_tx_receipt_index (rc_kv E) (rc_ext E) c' u =
      (if u = t then Ok (Some (bh, n, i, g)) else get_tx_receipt_index (rc_kv E) (rc_ext E) c u)" for u
    using receipt_roundtrip [of t bh n i g c u] c' by auto
  ultimately show ?thesis using c' by blast
qed

end

lemma remove_tx_hash: "remove_tx h p = (b, p') \<Longrightarrow> mp_by_hash p' h = None"
  by (auto simp: remove_tx_def Let_def split: option.splits prod.splits)

lemma remove_tx_keeps_None: "remove_tx h p = (b, p') \<Longrightarrow> mp_by_hash p u = None \<Longrightarrow> mp_by_hash p' u = None"
  by (auto simp: remove_tx_def Let_def split: option.splits prod.splits)

lemma pool_removed_None: "pool_removed p q \<Longrightarrow> mp_by_hash p u = None \<Longrightarrow> mp_by_hash q u = None"
  by (induction rule: pool_removed.induct) (auto dest: remove_tx_keeps_None)

context devnet_store
begin

lemma index_receipts_step:
  assumes "chain_wf (rc_ext E) (rc_codec E) (contents (fn_chain nd))"
  shows "\<exists>c' p'. index_receipts E b i ((tx, g) # rest) nd =
      index_receipts E b (i + 1) rest (nd\<lparr>fn_chain := c', fn_mempool := p'\<rparr>) \<and>
    chain_wf (rc_ext E) (rc_codec E) (contents c') \<and>
    (\<exists>w. chain_view_of (rc_ext E) (rc_codec E) (contents c') =
      (chain_view_of (rc_ext E) (rc_codec E) (contents (fn_chain nd)))\<lparr>cv_receipt := w\<rparr>) \<and>
    (\<forall>u. get_tx_receipt_index (rc_kv E) (rc_ext E) c' u = (if u = tx_hash (rc_ext E) tx
      then Ok (Some (block_hash (rc_ext E) b, h_number (b_header b), of_nat i, g))
      else get_tx_receipt_index (rc_kv E) (rc_ext E) (fn_chain nd) u)) \<and>
    pool_removed (fn_mempool nd) p' \<and> mp_by_hash p' (tx_hash (rc_ext E) tx) = None"
proof -
  let ?h = "tx_hash (rc_ext E) tx"
  obtain c' where c': "put_tx_receipt_index (rc_kv E) (rc_ext E) ?h (block_hash (rc_ext E) b)
      (h_number (b_header b)) (of_nat i) g (fn_chain nd) = (Ok (), c')"
    and facts: "chain_wf (rc_ext E) (rc_codec E) (contents c')"
      "\<exists>w. chain_view_of (rc_ext E) (rc_codec E) (contents c') =
        (chain_view_of (rc_ext E) (rc_codec E) (contents (fn_chain nd)))\<lparr>cv_receipt := w\<rparr>"
      "\<forall>u. get_tx_receipt_index (rc_kv E) (rc_ext E) c' u = (if u = ?h
        then Ok (Some (block_hash (rc_ext E) b, h_number (b_header b), of_nat i, g))
        else get_tx_receipt_index (rc_kv E) (rc_ext E) (fn_chain nd) u)"
    using put_receipt_ok [OF assms, of ?h] by blast
  obtain q p' where p': "remove_tx ?h (fn_mempool nd) = (Ok q, p')" using remove_tx_Ok by blast
  have "discard (in_pool (remove_tx ?h)) (nd\<lparr>fn_chain := c'\<rparr>) =
      (Ok () :: (node_error, unit) outcome, nd\<lparr>fn_chain := c', fn_mempool := p'\<rparr>)"
    by (simp add: discard_def in_pool_def p')
  then have "index_receipts E b i ((tx, g) # rest) nd =
      index_receipts E b (i + 1) rest (nd\<lparr>fn_chain := c', fn_mempool := p'\<rparr>)"
    by (simp add: Let_def athen_def in_chain_def c')
  with facts remove_tx_hash [OF p'] pool_removed.remove [OF pool_removed.same p'] show ?thesis by blast
qed

lemma index_receipts_ok:
  assumes "chain_wf (rc_ext E) (rc_codec E) (contents (fn_chain nd))"
  shows "\<exists>c' p'. index_receipts E b i ta nd = (Ok (), nd\<lparr>fn_chain := c', fn_mempool := p'\<rparr>) \<and>
    chain_wf (rc_ext E) (rc_codec E) (contents c') \<and>
    (\<exists>w. chain_view_of (rc_ext E) (rc_codec E) (contents c') =
      (chain_view_of (rc_ext E) (rc_codec E) (contents (fn_chain nd)))\<lparr>cv_receipt := w\<rparr>) \<and>
    (\<forall>u. u \<notin> tx_hash (rc_ext E) ` fst ` set ta \<longrightarrow> get_tx_receipt_index (rc_kv E) (rc_ext E) c' u =
       get_tx_receipt_index (rc_kv E) (rc_ext E) (fn_chain nd) u) \<and>
    (distinct (map (\<lambda>t. tx_hash (rc_ext E) (fst t)) ta) \<longrightarrow> (\<forall>j < length ta.
       get_tx_receipt_index (rc_kv E) (rc_ext E) c' (tx_hash (rc_ext E) (fst (ta ! j))) =
         Ok (Some (block_hash (rc_ext E) b, h_number (b_header b), of_nat (i + j), snd (ta ! j))))) \<and>
    pool_removed (fn_mempool nd) p' \<and> (\<forall>t \<in> set ta. mp_by_hash p' (tx_hash (rc_ext E) (fst t)) = None)"
  using assms
proof (induction ta arbitrary: i nd)
  case Nil
  then show ?case
    by (intro exI [of _ "fn_chain nd"] exI [of _ "fn_mempool nd"])
      (auto simp: aret_def pool_removed.same intro: exI [of _ "cv_receipt (chain_view_of (rc_ext E) (rc_codec E) (contents (fn_chain nd)))"])
next
  case (Cons t ta)
  obtain tx g where t: "t = (tx, g)" by (cases t)
  from index_receipts_step [OF Cons.prems, of b i tx g ta] obtain c1 p1 where
    one: "index_receipts E b i (t # ta) nd = index_receipts E b (i + 1) ta (nd\<lparr>fn_chain := c1, fn_mempool := p1\<rparr>)"
      "chain_wf (rc_ext E) (rc_codec E) (contents c1)"
      "\<exists>w. chain_view_of (rc_ext E) (rc_codec E) (contents c1) =
        (chain_view_of (rc_ext E) (rc_codec E) (contents (fn_chain nd)))\<lparr>cv_receipt := w\<rparr>"
    and idx1: "\<forall>u. get_tx_receipt_index (rc_kv E) (rc_ext E) c1 u = (if u = tx_hash (rc_ext E) tx
        then Ok (Some (block_hash (rc_ext E) b, h_number (b_header b), of_nat i, g))
        else get_tx_receipt_index (rc_kv E) (rc_ext E) (fn_chain nd) u)"
    and pool1: "pool_removed (fn_mempool nd) p1" "mp_by_hash p1 (tx_hash (rc_ext E) tx) = None"
    unfolding t by blast
  let ?nd1 = "nd\<lparr>fn_chain := c1, fn_mempool := p1\<rparr>"
  have wf1: "chain_wf (rc_ext E) (rc_codec E) (contents (fn_chain ?nd1))" using one(2) by simp
  from Cons.IH [OF wf1, of "i + 1"] obtain c' p' where
    rest: "index_receipts E b (i + 1) ta ?nd1 = (Ok (), nd\<lparr>fn_chain := c', fn_mempool := p'\<rparr>)"
      "chain_wf (rc_ext E) (rc_codec E) (contents c')"
      "\<exists>w. chain_view_of (rc_ext E) (rc_codec E) (contents c') =
        (chain_view_of (rc_ext E) (rc_codec E) (contents c1))\<lparr>cv_receipt := w\<rparr>"
    and idx: "\<forall>u. u \<notin> tx_hash (rc_ext E) ` fst ` set ta \<longrightarrow> get_tx_receipt_index (rc_kv E) (rc_ext E) c' u =
        get_tx_receipt_index (rc_kv E) (rc_ext E) c1 u"
      "distinct (map (\<lambda>t. tx_hash (rc_ext E) (fst t)) ta) \<longrightarrow> (\<forall>j < length ta.
        get_tx_receipt_index (rc_kv E) (rc_ext E) c' (tx_hash (rc_ext E) (fst (ta ! j))) =
          Ok (Some (block_hash (rc_ext E) b, h_number (b_header b), of_nat (i + 1 + j), snd (ta ! j))))"
    and pool: "pool_removed p1 p'" "\<forall>t \<in> set ta. mp_by_hash p' (tx_hash (rc_ext E) (fst t)) = None"
    by auto
  have view: "\<exists>w. chain_view_of (rc_ext E) (rc_codec E) (contents c') =
      (chain_view_of (rc_ext E) (rc_codec E) (contents (fn_chain nd)))\<lparr>cv_receipt := w\<rparr>"
    using one(3) rest(3) by auto
  have pos: "get_tx_receipt_index (rc_kv E) (rc_ext E) c' (tx_hash (rc_ext E) (fst ((t # ta) ! j))) =
      Ok (Some (block_hash (rc_ext E) b, h_number (b_header b), of_nat (i + j), snd ((t # ta) ! j)))"
    if "distinct (map (\<lambda>t. tx_hash (rc_ext E) (fst t)) (t # ta))" "j < length (t # ta)" for j
    using that idx idx1 t by (cases j) (auto simp: image_image)
  show ?case
    using one(1) rest(1,2) view pos idx(1) idx1 t pool pool1
      pool_removed_trans [OF pool(1) pool1(1)] pool_removed_None [OF pool(1)]
    by (intro exI [of _ c'] exI [of _ p']) auto
qed

end

section \<open>A round\<close>

definition sealed_block ::
  "ext \<Rightarrow> b256 \<Rightarrow> u64 \<Rightarrow> u64 \<Rightarrow> b256 \<Rightarrow> signed_transaction list \<Rightarrow> address \<Rightarrow> block" where
  "sealed_block X parent_hash n ts sroot txs validator = \<lparr>b_header = \<lparr>
     h_parent_hash = parent_hash, h_state_root = sroot, h_transactions_root = transactions_root X txs,
     h_receipts_root = 0, h_timestamp = ts, h_number = n, h_validator = validator, h_signature = [],
     h_extra_data = [], h_gas_limit = 30000000, h_base_fee_per_gas = 0\<rparr>, b_body = txs\<rparr>"

lemma new_sealed_block:
  "new_block X (Inr ts) parent_hash n sroot 0 txs validator [] 30000000 0 =
     Ok (sealed_block X parent_hash n ts sroot txs validator)"
  by (simp add: new_block_def sealed_block_def validate_self_Ok [THEN iffD2] Let_def)

text \<open>The head is the newest block, and nobody signed a block above it.\<close>

definition tip :: "ext \<Rightarrow> chain_view \<Rightarrow> block \<Rightarrow> bool" where
  "tip X v p \<longleftrightarrow> cv_head v = Some (block_hash X p) \<and> cv_block v (block_hash X p) = Some p \<and>
     cv_number v (h_number (b_header p)) = Some (block_hash X p) \<and>
     (\<forall>a n h. cv_signed v a n = Some h \<longrightarrow> n \<le> h_number (b_header p))"

lemma accept_view_simps [simp]:
  "cv_head (accept_view X b v) = Some (block_hash X b)"
  "cv_block (accept_view X b v) = (cv_block v)(block_hash X b \<mapsto> b)"
  "cv_number (accept_view X b v) = (cv_number v)(h_number (b_header b) \<mapsto> block_hash X b)"
  "cv_signed (accept_view X b v) = (cv_signed v)(h_validator (b_header b) :=
      (cv_signed v (h_validator (b_header b)))(h_number (b_header b) \<mapsto> block_hash X b))"
  by (simp_all add: accept_view_def finalize_view_def split: option.splits)

lemma accept_view_tip:
  assumes "tip X v p" and "h_number (b_header p) \<le> h_number (b_header b)"
  shows "tip X (accept_view X b v) b"
proof -
  have "n \<le> h_number (b_header b)" if "cv_signed (accept_view X b v) a n = Some h" for a n h
    using that assms unfolding tip_def by (auto split: if_splits dest: order_trans)
  then show ?thesis by (simp add: tip_def)
qed

lemma sealed_decision:
  assumes "tip X v p" and "chain_inv v" and "unat (h_number (b_header p)) + 1 < 2 ^ 64"
    and "h_timestamp (b_header p) < ts" and "unat ts \<le> unat now + 3" and "unat now + 3 < 2 ^ 64"
    and "\<exists>ss. map (sender X) txs = map Ok ss \<and> distinct ss"
  shows "accept_decision X v
    (sealed_block X (block_hash X p) (h_number (b_header p) + 1) ts sroot txs a) now = Ok ()"
proof -
  let ?b = "sealed_block X (block_hash X p) (h_number (b_header p) + 1) ts sroot txs a"
  have n: "unat (h_number (b_header p) + 1) = unat (h_number (b_header p)) + 1"
    using assms(3) by (simp add: unat_word_ariths)
  have b: "validate_block X ?b = Ok ()"
    using check_senders_iff [of X "{}" txs] assms(7)
    by (simp add: validate_block_def validate_self_Ok [THEN iffD2] sealed_block_def)
  have "view_parent v (h_number (b_header ?b)) = Some p"
    using assms(1) n by (auto simp: view_parent_def sealed_block_def tip_def)
  moreover have "validate_block_header X (b_header ?b) (Some (b_header p)) now = Ok ()"
    using assms(4-6) n by (simp add: header_ok_iff sealed_block_def block_hash_def word_less_nat_alt)
  ultimately have c: "check_parent X ?b (view_parent v (h_number (b_header ?b))) now = Ok ()"
    by (simp add: check_parent_def)
  have f: "finality_view X v ?b = Ok ()"
    using assms(1) by (simp add: finality_view_def sealed_block_def tip_def split: option.splits)
  have "cv_signed v a (h_number (b_header p) + 1) = None"
    using assms(1) n unfolding tip_def by (metis add.commute not_less_eq_eq option.exhaust order_refl plus_1_eq_Suc word_le_nat_alt)
  then have "double_sign_view X v ?b = Ok ()" by (simp add: double_sign_view_Ok sealed_block_def)
  with b c f show ?thesis by (simp add: accept_decision_def)
qed

text \<open>The senders of executed transactions recover.\<close>

lemma validate_basic_sender: "validate_tx_basic X tx cid = Ok u \<Longrightarrow> \<exists>a. sender X tx = Ok a"
  by (cases rule: sender_cases [of X tx]) (auto simp: validate_tx_basic_def split: if_splits)

lemma admitted_senders:
  assumes "list_all (\<lambda>(tx, _). admitted E cid n c tx) ta"
    and "distinct (map (\<lambda>(tx, _). sender (rc_ext E) tx) ta)"
  shows "\<exists>ss. map (sender (rc_ext E)) (map fst ta) = map Ok ss \<and> distinct ss"
  using assms
proof (induction ta)
  case Nil
  then show ?case by simp
next
  case (Cons t ta)
  then obtain ss where ss: "map (sender (rc_ext E)) (map fst ta) = map Ok ss" "distinct ss" by auto
  obtain a where a: "sender (rc_ext E) (fst t) = Ok a"
    using Cons.prems(1) validate_basic_sender by (auto simp: admitted_def screened_def split: prod.splits)
  have "a \<notin> set ss"
  proof
    assume "a \<in> set ss"
    then have "Ok a \<in> set (map (sender (rc_ext E)) (map fst ta))" unfolding ss(1) by simp
    with a Cons.prems(2) show False by (auto split: prod.splits)
  qed
  with ss a show ?case by (intro exI [of _ "a # ss"]) simp
qed

context devnet_store
begin

lemma seal_block_ok:
  assumes wf: "chain_wf (rc_ext E) (rc_codec E) (contents (fn_chain nd))"
    and v: "v = chain_view_of (rc_ext E) (rc_codec E) (contents (fn_chain nd))" and inv: "chain_inv v"
    and st: "state_wf (rc_ext E) (contents (fn_state nd))"
    and burn: "burn_fees E a (fst (split_fees (total_gas_fees ta))) nd = (Ok (), nd1)"
    and root: "compute_state_root (rc_kv E) (rc_ext E) (fn_state nd1) = Ok sroot"
    and b: "b = sealed_block (rc_ext E) p n ts sroot (map fst ta) a"
    and dec: "accept_decision (rc_ext E) v b now = Ok ()" and sto: "storable (rc_ext E) v b"
  shows "\<exists>nd' w. seal_block E a p n now (Inr ts) ta nd = (Ok (), nd') \<and>
    chain_wf (rc_ext E) (rc_codec E) (contents (fn_chain nd')) \<and>
    chain_view_of (rc_ext E) (rc_codec E) (contents (fn_chain nd')) = (accept_view (rc_ext E) b v)\<lparr>cv_receipt := w\<rparr> \<and>
    contents (fn_state nd') = (contents (fn_state nd1))(state_root_key (block_hash (rc_ext E) b) \<mapsto> b256_bytes sroot) \<and>
    (distinct (map (\<lambda>t. tx_hash (rc_ext E) (fst t)) ta) \<longrightarrow> (\<forall>j < length ta.
       get_tx_receipt_index (rc_kv E) (rc_ext E) (fn_chain nd') (tx_hash (rc_ext E) (fst (ta ! j))) =
         Ok (Some (block_hash (rc_ext E) b, n, of_nat j, snd (ta ! j))))) \<and>
    pool_removed (fn_mempool nd) (fn_mempool nd') \<and>
    (\<forall>t \<in> set ta. mp_by_hash (fn_mempool nd') (tx_hash (rc_ext E) (fst t)) = None)"
proof -
  let ?X = "rc_ext E"
  obtain s1 where nd1: "nd1 = nd\<lparr>fn_state := s1\<rparr>" and st1: "state_wf ?X (contents s1)"
    using burn_fees_ok [OF st, of a "fst (split_fees (total_gas_fees ta))"] burn by auto
  have hb: "h_state_root (b_header b) = sroot" "h_number (b_header b) = n"
    by (simp_all add: b sealed_block_def)
  from accept_block_refines [OF wf v inv, of b now s1] dec sto obtain c' s' where
    acc: "accept_block (rc_kv E) ?X (rc_codec E) b now (fn_chain nd, s1) = (Ok (), (c', s'))"
    and c': "chain_wf ?X (rc_codec E) (contents c')"
      "chain_view_of ?X (rc_codec E) (contents c') = accept_view ?X b v"
    and s': "contents s' = (contents s1)(state_root_key (block_hash ?X b) \<mapsto> b256_bytes sroot)"
    using hb by auto
  have sealed: "accept_sealed E b now nd1 = (Ok (), nd\<lparr>fn_chain := c', fn_state := s'\<rparr>)"
    using acc by (simp add: accept_sealed_def nd1)
  have step: "seal_block E a p n now (Inr ts) ta nd =
      index_receipts E b 0 ta (nd\<lparr>fn_chain := c', fn_state := s'\<rparr>)"
    using burn root by (simp add: seal_block_def Let_def athen_def abind_aread abind_alift new_sealed_block sealed flip: b)
  have wf2: "chain_wf ?X (rc_codec E) (contents (fn_chain (nd\<lparr>fn_chain := c', fn_state := s'\<rparr>)))"
    using c'(1) by simp
  from index_receipts_ok [OF wf2, of b 0 ta] c'(2) hb s' nd1 step show ?thesis by fastforce
qed

lemma tip_receipt [simp]:
  "tip X (v\<lparr>cv_receipt := w\<rparr>) b = tip X v b"
  by (simp add: tip_def)

lemma produce_block_ok:
  assumes wf: "chain_wf (rc_ext E) (rc_codec E) (contents (fn_chain nd))"
    and v: "v = chain_view_of (rc_ext E) (rc_codec E) (contents (fn_chain nd))" and inv: "chain_inv v"
    and t: "tip (rc_ext E) v p" and st: "state_wf (rc_ext E) (contents (fn_state nd))"
    and num: "unat (h_number (b_header p)) + 1 < 2 ^ 64"
    and sel: "selected_proposer E (fn_chain nd) (block_hash (rc_ext E) p) (h_number (b_header p) + 1) \<in> {Ok None, Ok (Some a)}"
    and clocks: "h_timestamp (b_header p) < ts" "unat ts \<le> unat now + 3" "unat now + 3 < 2 ^ 64"
    and best: "get_best (rc_rank E) (fn_mempool nd) 100 = Ok candidates"
    and app: "apply_candidates E (block_env (rc_ext E) (h_number (b_header p) + 1) now 30000000 0 a) cid
      (h_number (b_header p) + 1) candidates nd = (Ok ta, nd1)"
    and senders: "distinct (map (\<lambda>(tx, _). sender (rc_ext E) tx) ta)"
    and burn: "burn_fees E a (fst (split_fees (total_gas_fees ta))) nd1 = (Ok (), nd2)"
    and root: "compute_state_root (rc_kv E) (rc_ext E) (fn_state nd2) = Ok sroot"
    and b: "b = sealed_block (rc_ext E) (block_hash (rc_ext E) p) (h_number (b_header p) + 1) ts sroot (map fst ta) a"
    and sto: "storable (rc_ext E) v b"
  shows "\<exists>nd'. produce_block E a cid (Inr now) (Inr ts) nd = (Ok (), nd') \<and>
    chain_wf (rc_ext E) (rc_codec E) (contents (fn_chain nd')) \<and>
    chain_inv (chain_view_of (rc_ext E) (rc_codec E) (contents (fn_chain nd'))) \<and>
    tip (rc_ext E) (chain_view_of (rc_ext E) (rc_codec E) (contents (fn_chain nd'))) b \<and>
    contents (fn_state nd') = (contents (fn_state nd2))(state_root_key (block_hash (rc_ext E) b) \<mapsto> b256_bytes sroot) \<and>
    (distinct (map (\<lambda>t. tx_hash (rc_ext E) (fst t)) ta) \<longrightarrow> (\<forall>j < length ta.
       get_tx_receipt_index (rc_kv E) (rc_ext E) (fn_chain nd') (tx_hash (rc_ext E) (fst (ta ! j))) =
         Ok (Some (block_hash (rc_ext E) b, h_number (b_header p) + 1, of_nat j, snd (ta ! j))))) \<and>
    pool_removed (fn_mempool nd) (fn_mempool nd') \<and>
    (\<forall>t \<in> set ta. mp_by_hash (fn_mempool nd') (tx_hash (rc_ext E) (fst t)) = None) \<and>
    subseq (map fst ta) candidates \<and>
    list_all (\<lambda>(tx, _). admitted E cid (h_number (b_header p) + 1) (fn_chain nd) tx) ta"
proof -
  let ?X = "rc_ext E" and ?n = "h_number (b_header p) + 1"
  note one = apply_candidates_ok [OF st app]
  then have c1: "fn_chain nd1 = fn_chain nd" and st1: "state_wf ?X (contents (fn_state nd1))"
    and rm1: "pool_removed (fn_mempool nd) (fn_mempool nd1)"
    and adm: "subseq (map fst ta) candidates" "list_all (\<lambda>(tx, _). admitted E cid ?n (fn_chain nd) tx) ta"
    by auto
  have dec: "accept_decision ?X v b now = Ok ()"
    unfolding b by (rule sealed_decision [OF t inv num clocks admitted_senders [OF adm(2) senders]])
  have wf1: "chain_wf ?X (rc_codec E) (contents (fn_chain nd1))"
    and v1: "v = chain_view_of ?X (rc_codec E) (contents (fn_chain nd1))" using wf v c1 by simp_all
  from seal_block_ok [OF wf1 v1 inv st1 burn root b dec sto] obtain nd' w where
    sl: "seal_block E a (block_hash ?X p) ?n now (Inr ts) ta nd1 = (Ok (), nd')"
    and nd': "chain_wf ?X (rc_codec E) (contents (fn_chain nd'))"
      "chain_view_of ?X (rc_codec E) (contents (fn_chain nd')) = (accept_view ?X b v)\<lparr>cv_receipt := w\<rparr>"
    and facts: "contents (fn_state nd') = (contents (fn_state nd2))(state_root_key (block_hash ?X b) \<mapsto> b256_bytes sroot)"
      "distinct (map (\<lambda>t. tx_hash ?X (fst t)) ta) \<longrightarrow> (\<forall>j < length ta.
         get_tx_receipt_index (rc_kv E) ?X (fn_chain nd') (tx_hash ?X (fst (ta ! j))) =
           Ok (Some (block_hash ?X b, ?n, of_nat j, snd (ta ! j))))"
      "pool_removed (fn_mempool nd1) (fn_mempool nd')"
      "\<forall>t \<in> set ta. mp_by_hash (fn_mempool nd') (tx_hash ?X (fst t)) = None"
    by blast
  have "get_head (rc_kv E) ?X (fn_chain nd) = Ok (Some (block_hash ?X p))"
    "get_block (rc_kv E) ?X (rc_codec E) (fn_chain nd) (block_hash ?X p) = Ok (Some p)"
    using t v reads_view(6) [of "fn_chain nd"] get_block_view [OF wf] by (simp_all add: tip_def)
  moreover have "chk_add (h_number (b_header p)) 1 = (Ok ?n :: (node_error, u64) outcome)"
    using num by (simp add: chk_add_def)
  ultimately have prod: "produce_block E a cid (Inr now) (Inr ts) nd = (Ok (), nd')"
    using sel best app sl by (auto simp: produce_block_def Let_def abind_aread abind_alift)
  have nz: "h_number (b_header b) \<noteq> 0" and le: "h_number (b_header p) \<le> h_number (b_header b)"
    using num by (auto simp: b sealed_block_def word_le_nat_alt unat_word_ariths word_unat_eq_iff)
  have "chain_inv (accept_view ?X b v)" "tip ?X (accept_view ?X b v) b"
    using chain_inv_accept [OF inv wf_hashed [OF wf v] sto dec nz] accept_view_tip [OF t le] by simp_all
  with prod nd' facts pool_removed_trans [OF facts(3) rm1] adm show ?thesis by auto
qed

text \<open>A round that reached the block returns what the sealing returns.\<close>

lemma produce_block_seals:
  assumes "get_head (rc_kv E) (rc_ext E) (fn_chain nd) = Ok (Some h)"
    and "get_block (rc_kv E) (rc_ext E) (rc_codec E) (fn_chain nd) h = Ok (Some p)"
    and "unat (h_number (b_header p)) + 1 < 2 ^ 64"
    and "selected_proposer E (fn_chain nd) (block_hash (rc_ext E) p) (h_number (b_header p) + 1) \<in> {Ok None, Ok (Some a)}"
    and "get_best (rc_rank E) (fn_mempool nd) 100 = Ok candidates"
    and "apply_candidates E (block_env (rc_ext E) (h_number (b_header p) + 1) now 30000000 0 a) cid
      (h_number (b_header p) + 1) candidates nd = (Ok ta, nd1)"
  shows "produce_block E a cid (Inr now) clock2 nd =
    seal_block E a (block_hash (rc_ext E) p) (h_number (b_header p) + 1) now clock2 ta nd1"
proof -
  have "chk_add (h_number (b_header p)) 1 = (Ok (h_number (b_header p) + 1) :: (node_error, u64) outcome)"
    using assms(3) by (simp add: chk_add_def)
  then show ?thesis
    using assms by (auto simp: produce_block_def Let_def abind_aread abind_alift)
qed

lemma seal_block_steps:
  assumes "burn_fees E a (fst (split_fees (total_gas_fees ta))) nd = (Ok (), nd2)"
    and "compute_state_root (rc_kv E) (rc_ext E) (fn_state nd2) = Ok sroot"
    and "b = sealed_block (rc_ext E) p n ts sroot (map fst ta) a"
  shows "seal_block E a p n now (Inr ts) ta nd = athen (accept_sealed E b now) (index_receipts E b 0 ta) nd2"
  using assms by (simp add: seal_block_def Let_def athen_def [of "burn_fees _ _ _"] abind_aread abind_alift new_sealed_block)

text \<open>A refusal that is no double signing leaves the databases as the execution left them.\<close>

lemma accept_sealed_refused:
  assumes "chain_wf (rc_ext E) (rc_codec E) (contents (fn_chain nd))"
    and "v = chain_view_of (rc_ext E) (rc_codec E) (contents (fn_chain nd))" and "chain_inv v"
    and "accept_decision (rc_ext E) v b now = Err e" and "\<nexists>x y z u. e = DoubleSign x y z u"
  shows "athen (accept_sealed E b now) m nd = (Err (CoreErr e), nd)"
proof -
  have "accept_block (rc_kv E) (rc_ext E) (rc_codec E) b now (fn_chain nd, fn_state nd) = (Err e, (fn_chain nd, fn_state nd))"
    using accept_block_refines [OF assms(1-3), of b now "fn_state nd"] assms(4) by simp
  then have "accept_sealed E b now nd = (Err (CoreErr e), nd)"
    using assms(5) by (cases e) (auto simp: accept_sealed_def)
  then show ?thesis by (simp add: athen_def)
qed

end

text \<open>A working node on the tip \<open>p\<close> of its chain.\<close>

definition working ::
  "('d, 'f) node_crates \<Rightarrow> ('d \<Rightarrow> bytes \<rightharpoonup> bytes) \<Rightarrow> 'd full_node \<Rightarrow> block \<Rightarrow> bool" where
  "working E contents nd p \<longleftrightarrow>
     chain_wf (rc_ext E) (rc_codec E) (contents (fn_chain nd)) \<and>
     chain_inv (chain_view_of (rc_ext E) (rc_codec E) (contents (fn_chain nd))) \<and>
     tip (rc_ext E) (chain_view_of (rc_ext E) (rc_codec E) (contents (fn_chain nd))) p \<and>
     state_wf (rc_ext E) (contents (fn_state nd))"

context devnet_store
begin

lemma save_root_wf:
  "state_wf (rc_ext E) (contents s) \<Longrightarrow> contents s' = (contents s)(state_root_key h \<mapsto> b256_bytes r) \<Longrightarrow>
    state_wf (rc_ext E) (contents s')"
  using state_wf_writes(5) [of s h r] by (simp add: save_state_root_contents)

lemma nodes_wf:
  assumes "state_wf (rc_ext E) (contents (fn_state nd))" and "apply_candidates E blk cid n txs nd = (r, nd1)"
    and "burn_fees E a x nd1 = (q, nd2)"
  shows "state_wf (rc_ext E) (contents (fn_state nd2))"
proof -
  have "state_wf (rc_ext E) (contents (fn_state nd1))" using apply_candidates_ok [OF assms(1,2)] by simp
  from burn_fees_ok [OF this, of a x] assms(3) show ?thesis by auto
qed

lemma state_root_Ok: "\<exists>r. compute_state_root (rc_kv E) (rc_ext E) s = Ok r"
  using compute_root_preimage by blast

lemma working_head:
  assumes "working E contents nd p"
  shows "get_head (rc_kv E) (rc_ext E) (fn_chain nd) = Ok (Some (block_hash (rc_ext E) p))"
    and "get_block (rc_kv E) (rc_ext E) (rc_codec E) (fn_chain nd) (block_hash (rc_ext E) p) = Ok (Some p)"
  using assms reads_view(6) [of "fn_chain nd"] get_block_view [of "fn_chain nd"]
  by (simp_all add: working_def tip_def)

end

section \<open>The genesis of the devnet\<close>

lemma foldl_assign:
  "distinct (map fst ps) \<Longrightarrow> foldl (\<lambda>f (a, b). f(a := b)) f ps = (\<lambda>a. case map_of ps a of None \<Rightarrow> f a | Some b \<Rightarrow> b)"
proof (induction ps arbitrary: f)
  case (Cons p ps)
  then show ?case
    by (cases p) (auto simp: fun_eq_iff map_of_eq_None_iff image_iff split: option.splits dest: map_of_SomeD)
qed simp

lemma foldl_zero: "foldl (\<lambda>f (a, b). f(a := 0)) (\<lambda>_. 0) ps = (\<lambda>_. 0 :: u64)"
  by (induction ps) (auto simp: fun_eq_iff split: prod.splits)

lemma map_of_mset_eq:
  assumes "mset ps = mset qs" and "distinct (map fst qs)"
  shows "map_of ps = map_of qs" and "distinct (map fst ps)"
proof -
  have m: "mset (map fst ps) = mset (map fst qs)" using assms(1) by (simp only: mset_map)
  then show d: "distinct (map fst ps)" using assms(2) mset_eq_imp_distinct_iff by blast
  have "set ps = set qs" using assms(1) by (rule mset_eq_setD)
  with d assms(2) have "map_of ps x = Some b \<longleftrightarrow> map_of qs x = Some b" for x b
    by (simp add: map_of_eq_Some_iff)
  then show "map_of ps = map_of qs" by (intro ext) (metis not_Some_eq)
qed

definition devnet_set :: validator_set where
  "devnet_set = \<lparr>vs_validators = [(devnet_validator, \<lparr>vi_address = devnet_validator, vi_stake = ucast MIN_STAKE,
     vi_delegated = 0, vi_commission_bps = 0, vi_active = True\<rparr>)], vs_delegations = []\<rparr>"

lemma register_devnet: "register devnet_validator (ucast MIN_STAKE) 0 new_validator_set = (Ok (), devnet_set)"
proof -
  have "to_u128 (ucast MIN_STAKE) = (Ok MIN_STAKE :: (consensus_error, u128) outcome)"
    by (simp add: to_u128_def MIN_STAKE_def)
  then show ?thesis
    by (simp add: register_def new_validator_set_def devnet_set_def MAX_VALIDATORS_def delegated_to_def)
qed

lemma devnet_proposer:
  "obind (active_validators devnet_set) (\<lambda>active. select_proposer X active n h) = Ok (Some devnet_validator)"
proof -
  let ?v = "\<lparr>vi_address = devnet_validator, vi_stake = ucast MIN_STAKE, vi_delegated = 0,
    vi_commission_bps = 0, vi_active = True\<rparr>"
  have t: "to_u128 (total_stake ?v) = (Ok MIN_STAKE :: (consensus_error, u128) outcome)"
    by (simp add: total_stake_def to_u128_def MIN_STAKE_def)
  have "active_validators devnet_set = Ok [?v]"
    by (simp add: active_validators_def devnet_set_def t)
  moreover have "chk_add 0 MIN_STAKE = (Ok MIN_STAKE :: (consensus_error, u128) outcome)"
    by (simp add: chk_add_def MIN_STAKE_def)
  ultimately show ?thesis
    by (simp add: select_proposer_def t cong: if_cong)
qed

definition founder :: address where "founder = 0x034ADBD563043B1ba028691839Adc37d07C08909"

locale devnet_genesis_store = devnet_store E contents + genesis_store "rc_kv E" contents "rc_ext E"
  for E :: "('d, 'f) node_crates" and contents :: "'d \<Rightarrow> bytes \<rightharpoonup> bytes"
begin

lemma parse_hex_data: "parse_address (rc_ext E) (hex_data (rc_ext E) (address_bytes a)) = Ok a"
  using parse_address_hex by (simp add: hex_data_def hex_encode_digits)

lemma devnet_alloc_entries:
  assumes "fa \<noteq> devnet_validator" and "fa \<noteq> founder" and "parse_address (rc_ext E) FOUNDER_ADDR = Ok founder"
  shows "devnet_alloc (rc_ext E) fa =
    [(hex_data (rc_ext E) (address_bytes devnet_validator), ''0x'' @ lower_hex (1000000000 * 10 ^ 18)),
     (hex_data (rc_ext E) (address_bytes fa), ''0x'' @ lower_hex (100000000 * 10 ^ 18)),
     (FOUNDER_ADDR, ''0x'' @ lower_hex (200000000 * 10 ^ 18))]"
proof -
  let ?h = "\<lambda>a. hex_data (rc_ext E) (address_bytes a)"
  have "?h fa \<noteq> ?h devnet_validator" using assms(1) parse_hex_data by (metis outcome.inject(1))
  moreover have "FOUNDER_ADDR \<noteq> ?h fa" "FOUNDER_ADDR \<noteq> ?h devnet_validator"
    using assms(2,3) parse_hex_data [of fa] parse_hex_data [of devnet_validator]
    by (auto simp: devnet_validator_def founder_def)
  ultimately show ?thesis by (auto simp: devnet_alloc_def Let_def)
qed

lemma devnet_alloc_view:
  assumes "fa \<noteq> devnet_validator" and "fa \<noteq> founder" and "parse_address (rc_ext E) FOUNDER_ADDR = Ok founder"
    and perm: "mset alloc = mset (devnet_alloc (rc_ext E) fa)" and empty: "contents s = Map.empty"
  shows "\<exists>s'. apply_genesis_alloc (rc_kv E) (rc_ext E) alloc s = (Ok (), s') \<and> state_wf (rc_ext E) (contents s') \<and>
    sv_balance (view_of (rc_ext E) (contents s')) = (\<lambda>_. 0)(devnet_validator := 1000000000 * 10 ^ 18,
      fa := 100000000 * 10 ^ 18, founder := 200000000 * 10 ^ 18) \<and>
    sv_nonce (view_of (rc_ext E) (contents s')) = (\<lambda>_. 0)"
proof -
  let ?X = "rc_ext E"
  define g :: "string \<times> string \<Rightarrow> address \<times> u256" where
    "g = (\<lambda>(s, t). (case parse_address ?X s of Ok a \<Rightarrow> a | _ \<Rightarrow> 0, case parse_u256 ?X t of Ok b \<Rightarrow> b | _ \<Rightarrow> 0))"
  let ?ps = "[(devnet_validator, 1000000000 * 10 ^ 18), (fa, 100000000 * 10 ^ 18),
    (founder, 200000000 * 10 ^ 18)] :: (address \<times> u256) list"
  note entries = devnet_alloc_entries [OF assms(1-3)]
  have u: "parse_u256 ?X (''0x'' @ lower_hex n) = Ok (of_nat n)" if "n < 2 ^ 256" for n
    using parse_u256_lower_hex that by blast
  note us = u [of "1000000000 * 10 ^ 18"] u [of "100000000 * 10 ^ 18"] u [of "200000000 * 10 ^ 18"]
  have entry: "(case e of (s, t) \<Rightarrow> (parse_address ?X s, parse_u256 ?X t)) = (case g e of (a, b) \<Rightarrow> (Ok a, Ok b))"
    if "e \<in> set (devnet_alloc ?X fa)" for e
    using that us by (auto simp: entries g_def parse_hex_data assms(3))
  have img: "map g (devnet_alloc ?X fa) = ?ps"
    using us by (simp add: entries g_def parse_hex_data assms(3))
  have "set alloc = set (devnet_alloc ?X fa)" using perm by (rule mset_eq_setD)
  then have parsed: "map (\<lambda>(s, t). (parse_address ?X s, parse_u256 ?X t)) alloc = map (\<lambda>(a, b). (Ok a, Ok b)) (map g alloc)"
    using entry by (auto intro!: map_cong simp: comp_def)
  have "mset (map g alloc) = mset ?ps" using perm img by (metis mset_map)
  moreover have "distinct (map fst ?ps)" using assms(1,2) by (auto simp: devnet_validator_def founder_def)
  ultimately have m: "map_of (map g alloc) = map_of ?ps" "distinct (map fst (map g alloc))"
    by (rule map_of_mset_eq)+
  have wf: "state_wf ?X (contents s)" using empty by (simp add: state_wf_def)
  have zero: "sv_balance (view_of ?X (contents s)) = (\<lambda>_. 0)" "sv_nonce (view_of ?X (contents s)) = (\<lambda>_. 0)"
    using empty by (simp_all add: view_of_def)
  from apply_genesis_view [OF wf parsed] obtain s' where
    s': "apply_genesis_alloc (rc_kv E) ?X alloc s = (Ok (), s')" "state_wf ?X (contents s')"
    and v: "view_of ?X (contents s') = (view_of ?X (contents s))\<lparr>
      sv_balance := foldl (\<lambda>bal (a, b). bal(a := b)) (\<lambda>_. 0) (map g alloc),
      sv_nonce := foldl (\<lambda>non (a, b). non(a := 0)) (\<lambda>_. 0) (map g alloc)\<rparr>"
    unfolding zero by blast
  have "foldl (\<lambda>bal (a, b). bal(a := b)) (\<lambda>_. 0) (map g alloc) = (\<lambda>_. 0)(devnet_validator := 1000000000 * 10 ^ 18,
      fa := 100000000 * 10 ^ 18, founder := 200000000 * 10 ^ 18)"
    unfolding foldl_assign [OF m(2)] m(1) using assms(1,2)
    by (auto simp: fun_eq_iff devnet_validator_def founder_def)
  with s' v show ?thesis by (simp add: foldl_zero)
qed

lemma store_validator_ok:
  assumes "chain_wf (rc_ext E) (rc_codec E) (contents (fn_chain nd))" and "nc_ser_vs E devnet_set = Inr bs"
  shows "\<exists>c'. store_validator E nd = (Ok (), nd\<lparr>fn_chain := c'\<rparr>) \<and>
    chain_wf (rc_ext E) (rc_codec E) (contents c') \<and>
    chain_view_of (rc_ext E) (rc_codec E) (contents c') =
      (chain_view_of (rc_ext E) (rc_codec E) (contents (fn_chain nd)))\<lparr>cv_validators := Some bs\<rparr>"
proof -
  let ?c' = "snd (kv_put (rc_kv E) (fn_chain nd) (chain_key_bytes (rc_ext E) ValidatorSetKey) bs)"
  have "store_validator E nd = (Ok (), nd\<lparr>fn_chain := ?c'\<rparr>)"
    using assms(2) by (simp add: store_validator_def register_devnet athen_def abind_alift in_chain_def
        put_validator_set_bytes_def)
  with wf_other_key [OF assms(1), of ValidatorSetKey bs] show ?thesis
    by (intro exI [of _ ?c']) (simp add: put_contents put_view)
qed

lemma genesis_store_ok:
  assumes "contents c = Map.empty" and "block_hash (rc_ext E) (devnet_genesis r) \<noteq> 0"
  shows "\<exists>c1 c2. put_block (rc_kv E) (rc_ext E) (rc_codec E) (devnet_genesis r) c = (Ok (), c1) \<and>
    set_head (rc_kv E) (rc_ext E) (block_hash (rc_ext E) (devnet_genesis r)) c1 = (Ok (), c2) \<and>
    chain_wf (rc_ext E) (rc_codec E) (contents c2) \<and>
    cv_block (chain_view_of (rc_ext E) (rc_codec E) (contents c2)) = [block_hash (rc_ext E) (devnet_genesis r) \<mapsto> devnet_genesis r] \<and>
    cv_number (chain_view_of (rc_ext E) (rc_codec E) (contents c2)) = [0 \<mapsto> block_hash (rc_ext E) (devnet_genesis r)] \<and>
    (\<forall>vs. chain_inv ((chain_view_of (rc_ext E) (rc_codec E) (contents c2))\<lparr>cv_validators := vs\<rparr>) \<and>
      tip (rc_ext E) ((chain_view_of (rc_ext E) (rc_codec E) (contents c2))\<lparr>cv_validators := vs\<rparr>) (devnet_genesis r))"
proof -
  let ?g = "devnet_genesis r" and ?X = "rc_ext E" and ?C = "rc_codec E"
  have "chain_wf ?X ?C (contents c)" "chain_view_of ?X ?C (contents c) = empty_view"
    using assms(1) by simp_all
  moreover have "encodable (b_body ?g)" by (simp add: devnet_genesis_def encodable_def)
  ultimately obtain c1 where c1: "put_block (rc_kv E) ?X ?C ?g c = (Ok (), c1)" "chain_wf ?X ?C (contents c1)"
    "chain_view_of ?X ?C (contents c1) = view_put_block ?X ?g empty_view"
    using put_block_refines by blast
  from set_head_refines [OF c1(2), of "block_hash ?X ?g"] obtain c2 where
    c2: "set_head (rc_kv E) ?X (block_hash ?X ?g) c1 = (Ok (), c2)" "chain_wf ?X ?C (contents c2)"
    "chain_view_of ?X ?C (contents c2) = (view_put_block ?X ?g empty_view)\<lparr>cv_head := Some (block_hash ?X ?g)\<rparr>"
    using c1(3) by auto
  have g: "h_number (b_header ?g) = 0" "h_parent_hash (b_header ?g) = 0" by (simp_all add: devnet_genesis_def)
  have "chain_inv (chain_view_of ?X ?C (contents c2))"
    unfolding c2(3) by (rule chain_inv_genesis [OF g assms(2)])
  then have "chain_inv ((chain_view_of ?X ?C (contents c2))\<lparr>cv_validators := vs\<rparr>)" for vs
    by simp
  moreover have "tip ?X (chain_view_of ?X ?C (contents c2)) ?g"
    unfolding c2(3) by (simp add: tip_def g) (simp add: empty_view_def)
  then have "tip ?X ((chain_view_of ?X ?C (contents c2))\<lparr>cv_validators := vs\<rparr>) ?g" for vs
    by (simp add: tip_def)
  moreover have "cv_block (chain_view_of ?X ?C (contents c2)) = [block_hash ?X ?g \<mapsto> ?g]"
    "cv_number (chain_view_of ?X ?C (contents c2)) = [0 \<mapsto> block_hash ?X ?g]"
    unfolding c2(3) by (simp_all add: g) (simp_all add: empty_view_def)
  ultimately show ?thesis using c1(1) c2(1,2) by blast
qed

lemma write_genesis_ok:
  assumes fresh: "contents (fn_chain nd) = Map.empty" "contents (fn_state nd) = Map.empty"
    and kp: "devnet_faucet_keypair (nc_wallet E) = (Ok kp :: (node_error, key_pair) outcome)"
    and other: "kp_address (rc_ext E) kp \<noteq> devnet_validator" "kp_address (rc_ext E) kp \<noteq> founder"
      "parse_address (rc_ext E) FOUNDER_ADDR = Ok founder"
    and order: "\<And>alloc. mset (order alloc) = mset alloc"
    and bs: "nc_ser_vs E devnet_set = Inr bs"
    and hash: "\<And>r. block_hash (rc_ext E) (devnet_genesis r) \<noteq> 0"
  shows "\<exists>nd' r. write_genesis E order nd = (Ok (), nd') \<and> fn_mempool nd' = fn_mempool nd \<and>
    working E contents nd' (devnet_genesis r) \<and> compute_state_root (rc_kv E) (rc_ext E) (fn_state nd') = Ok r \<and>
    cv_validators (chain_view_of (rc_ext E) (rc_codec E) (contents (fn_chain nd'))) = Some bs \<and>
    cv_block (chain_view_of (rc_ext E) (rc_codec E) (contents (fn_chain nd'))) =
      [block_hash (rc_ext E) (devnet_genesis r) \<mapsto> devnet_genesis r] \<and>
    cv_number (chain_view_of (rc_ext E) (rc_codec E) (contents (fn_chain nd'))) = [0 \<mapsto> block_hash (rc_ext E) (devnet_genesis r)] \<and>
    sv_balance (view_of (rc_ext E) (contents (fn_state nd'))) = (\<lambda>_. 0)(devnet_validator := 1000000000 * 10 ^ 18,
      kp_address (rc_ext E) kp := 100000000 * 10 ^ 18, founder := 200000000 * 10 ^ 18) \<and>
    sv_nonce (view_of (rc_ext E) (contents (fn_state nd'))) = (\<lambda>_. 0)"
proof -
  let ?X = "rc_ext E" and ?K = "rc_kv E"
  obtain s1 where s1: "apply_genesis_alloc ?K ?X (order (devnet_alloc ?X (kp_address ?X kp))) (fn_state nd) = (Ok (), s1)"
    and wf: "state_wf ?X (contents s1)"
    and view: "sv_balance (view_of ?X (contents s1)) = (\<lambda>_. 0)(devnet_validator := 1000000000 * 10 ^ 18,
      kp_address ?X kp := 100000000 * 10 ^ 18, founder := 200000000 * 10 ^ 18)"
      "sv_nonce (view_of ?X (contents s1)) = (\<lambda>_. 0)"
    using devnet_alloc_view [OF other order fresh(2)] by blast
  obtain r where r: "compute_state_root ?K ?X s1 = Ok r" using state_root_Ok by blast
  let ?h = "block_hash ?X (devnet_genesis r)"
  obtain s2 where s2: "save_state_root ?K ?h r s1 = (Ok (), s2)" and s2': "s2 = snd (save_state_root ?K ?h r s1)"
    by (simp add: save_state_root_def)
  have wf2: "state_wf ?X (contents s2)" unfolding s2' using wf by (rule state_wf_writes(5))
  have view2: "view_of ?X (contents s2) = view_of ?X (contents s1)" unfolding s2' by (rule save_state_root_view)
  have r2: "compute_state_root ?K ?X s2 = Ok r" unfolding s2' using root_frame [of s1] r by auto
  from genesis_store_ok [OF fresh(1) hash [of r]] obtain c1 c2 where
    c1: "put_block ?K ?X (rc_codec E) (devnet_genesis r) (fn_chain nd) = (Ok (), c1)"
    and c2: "set_head ?K ?X ?h c1 = (Ok (), c2)" "chain_wf ?X (rc_codec E) (contents c2)"
    and one: "cv_block (chain_view_of ?X (rc_codec E) (contents c2)) = [?h \<mapsto> devnet_genesis r]"
      "cv_number (chain_view_of ?X (rc_codec E) (contents c2)) = [0 \<mapsto> ?h]"
    and inv: "\<And>vs. chain_inv ((chain_view_of ?X (rc_codec E) (contents c2))\<lparr>cv_validators := vs\<rparr>) \<and>
      tip ?X ((chain_view_of ?X (rc_codec E) (contents c2))\<lparr>cv_validators := vs\<rparr>) (devnet_genesis r)"
    by blast
  let ?nd = "nd\<lparr>fn_chain := c2, fn_state := s2\<rparr>"
  have "chain_wf ?X (rc_codec E) (contents (fn_chain ?nd))" using c2(2) by simp
  from store_validator_ok [OF this bs] obtain c3 where c3: "store_validator E ?nd = (Ok (), ?nd\<lparr>fn_chain := c3\<rparr>)"
    "chain_wf ?X (rc_codec E) (contents c3)"
    "chain_view_of ?X (rc_codec E) (contents c3) = (chain_view_of ?X (rc_codec E) (contents c2))\<lparr>cv_validators := Some bs\<rparr>"
    by auto
  have "write_genesis E order nd = (Ok (), ?nd\<lparr>fn_chain := c3\<rparr>)"
    using s1 r c1 c2(1) s2 c3(1)
    by (simp add: write_genesis_def Let_def kp abind_alift abind_aread athen_def in_state_def in_chain_def)
  moreover have "working E contents (?nd\<lparr>fn_chain := c3\<rparr>) (devnet_genesis r)"
    using c3(2,3) inv [of "Some bs"] wf2 by (simp add: working_def)
  ultimately show ?thesis
    using r2 view c3(3) view2 one by (intro exI [of _ "?nd\<lparr>fn_chain := c3\<rparr>"] exI [of _ r]) simp
qed

lemma init_devnet_again:
  assumes "cv_head (chain_view_of (rc_ext E) (rc_codec E) (contents (fn_chain nd))) = Some h"
    and "cv_validators (chain_view_of (rc_ext E) (rc_codec E) (contents (fn_chain nd))) = Some bs"
  shows "init_devnet E order nd = (Ok (), nd)"
  using assms by (simp add: init_devnet_def Let_def abind_aread reads_view athen_def aret_def)

end

section \<open>An example node\<close>

text \<open>An interpreter that moves the value, counts the nonce and charges nothing.\<close>

definition ref_transact :: "db_ops \<Rightarrow> vm_env \<Rightarrow> code_cache \<Rightarrow> (string + vm_result \<times> changes) \<times> code_cache" where
  "ref_transact ops env cache = (let tx = ve_tx env in case te_transact_to tx of
       Create \<Rightarrow> (Inl ''unsupported'', cache)
     | Call to_a \<Rightarrow> (case (fst (op_basic ops (te_caller tx) cache), fst (op_basic ops to_a cache)) of
           (Ok (Some from_i), Ok (Some to_i)) \<Rightarrow>
             if te_caller tx = to_a \<or> ai_balance from_i < te_value tx then (Inl ''refused'', cache)
             else (Inr (\<lparr>vr_gas_used = 21000, vr_success = True, vr_output = None, vr_logs = []\<rparr>,
               [(te_caller tx, \<lparr>ac_info = from_i\<lparr>ai_balance := ai_balance from_i - te_value tx, ai_nonce := sat_add (ai_nonce from_i) 1\<rparr>,
                   ac_storage = [], ac_selfdestructed = False\<rparr>),
                (to_a, \<lparr>ac_info = to_i\<lparr>ai_balance := ai_balance to_i + te_value tx\<rparr>,
                   ac_storage = [], ac_selfdestructed = False\<rparr>)]), cache)
         | _ \<Rightarrow> (Inl ''database'', cache)))"

lemma ref_transact_changes: "ref_transact ops env cache = (Inr (res, chs), cache') \<Longrightarrow> changes_ok chs"
  by (auto simp: ref_transact_def Let_def changes_ok_def split: transact_to.splits outcome.splits option.splits if_splits)

definition ref_node :: "(mem_db, rat) node_crates" where
  "ref_node = \<lparr>rc_kv = mem_kv, rc_ext = ref_ext, rc_codec = ref_codec, rc_f64 = ref_f64,
     rc_rank = (\<lambda>_ _. 0), rc_de_tx = (\<lambda>bs. Inl ''io error''), rc_de_vs = (\<lambda>bs. if bs = [1] then Inr devnet_set else Inl ''io error''),
     nc_revm = \<lparr>rv_transact = ref_transact\<rparr>, nc_ser_vs = (\<lambda>_. Inr [1]), nc_ser_evidence = (\<lambda>_. Inr []),
     nc_wallet = ref_wallet\<rparr>"

lemma ref_node_simps [simp]:
  "rc_kv ref_node = mem_kv" "rc_ext ref_node = ref_ext" "rc_codec ref_node = ref_codec"
  "rc_f64 ref_node = ref_f64" "rc_rank ref_node = (\<lambda>_ _. 0)" "nc_revm ref_node = \<lparr>rv_transact = ref_transact\<rparr>"
  by (simp_all add: ref_node_def)

interpretation ref_devnet: devnet_store ref_node map_of
proof -
  have "chain_store (rc_kv ref_node) map_of (rc_ext ref_node) (rc_codec ref_node)"
    by (simp add: mem_chain.chain_store_axioms)
  moreover have "rv_transact (nc_revm ref_node) ops env cache = (Inr (res, chs), cache') \<Longrightarrow> changes_ok chs"
    for ops env cache res chs cache'
    using ref_transact_changes by simp
  ultimately show "devnet_store ref_node map_of"
    by (simp add: devnet_store_def devnet_store_axioms_def)
qed

interpretation ref_devnet_genesis: devnet_genesis_store ref_node map_of
proof -
  have "genesis_store (rc_kv ref_node) map_of (rc_ext ref_node)" by (simp add: mem_genesis.genesis_store_axioms)
  then show "devnet_genesis_store ref_node map_of"
    by (simp add: devnet_genesis_store_def ref_devnet.devnet_store_axioms)
qed

lemma ref_node_faucet:
  obtains kp where "devnet_faucet_keypair (nc_wallet ref_node) = Ok kp" and "kp_address ref_ext kp = 1682"
proof
  let ?s = "[0xde, 0xad, 0xbe, 0xef, 0x11] @ replicate 27 0 :: bytes"
  have "length ?s = 32" by simp
  then show "devnet_faucet_keypair (nc_wallet ref_node) = Ok \<lparr>kp_secret = ?s, kp_public = 4 # ?s @ ?s\<rparr>"
    by (simp add: devnet_faucet_keypair_def ref_node_def ref_wallet_def from_secret_def)
  have "take 64 (drop 1 (4 # ?s @ ?s)) = ?s @ ?s" by simp
  moreover have "sum_list (map unat (?s @ ?s)) = 1682" by (simp add: sum_list_replicate)
  ultimately have "keccak256 ref_ext (take 64 (drop 1 (4 # ?s @ ?s))) = 1682"
    by (simp only: ref_ext_def ext.simps of_nat_numeral)
  moreover have "of_be (drop 12 (b256_bytes 1682)) = (1682 :: address)"
    using be_nat_split [of 12 20 1682] by (simp add: b256_bytes_def of_be_def nat_of_be_be_nat)
  ultimately show "kp_address ref_ext \<lparr>kp_secret = ?s, kp_public = 4 # ?s @ ?s\<rparr> = 1682"
    by (simp only: kp_address_def key_pair.simps)
qed

lemma ref_founder: "parse_address ref_ext FOUNDER_ADDR = Ok founder"
proof -
  have dec: "hex_decode ref_ext ''034ADBD563043B1ba028691839Adc37d07C08909'' = Inr [3, 74, 219, 213, 99, 4, 59, 27, 160, 40, 105, 24, 57, 173, 195, 125, 7, 192, 137, 9]"
    by (simp add: ref_ext_def ref_digit_def)
  have strip: "strip_prefix_or ''0x'' FOUNDER_ADDR = ''034ADBD563043B1ba028691839Adc37d07C08909''"
    by (simp add: FOUNDER_ADDR_def strip_prefix_or_def starts_with_def)
  have "nat_of_be [3, 74, 219, 213, 99, 4, 59, 27, 160, 40, 105, 24, 57, 173, 195, 125, 7, 192, 137, 9] = 0x034ADBD563043B1ba028691839Adc37d07C08909"
    by (simp add: nat_of_be_def)
  then have word: "of_be [3, 74, 219, 213, 99, 4, 59, 27, 160, 40, 105, 24, 57, 173, 195, 125, 7, 192, 137, 9] = founder"
    by (simp only: of_be_def founder_def of_nat_numeral)
  show ?thesis unfolding parse_address_def strip dec of_sum.simps obind.simps word by simp
qed

definition small_tx :: "u64 \<Rightarrow> b256 option \<Rightarrow> signed_transaction" where
  "small_tx k h = (example_tx k 1 5)\<lparr>st_hash_override := h\<rparr>"

lemma small_tx_simps [simp]:
  "sender ref_ext (small_tx k h) = Ok 3" "nonce (small_tx k h) = k" "tx_value (small_tx k h) = 5"
  "gas_price (small_tx k h) = 1" "gas_limit (small_tx k h) = 21000" "to_addr (small_tx k h) = Some 5"
  "validate_tx_basic ref_ext (small_tx k h) 7779 = Ok ()"
  using example_tx_sender [of k 1 5]
  by (simp_all add: small_tx_def sender_def validate_tx_basic_def accessor_defs nonce_def example_tx_def)

lemma small_tx_analysis:
  assumes "state_wf ref_ext (map_of s)" and "sv_balance (view_of ref_ext (map_of s)) 3 = bal"
    and "6 < unat bal" and "unat bal \<le> 30000"
  shows "\<exists>an. analyse_transaction mem_kv ref_ext ref_codec ref_f64 (new_detector default_fraud_config)
      (small_tx k h) c s 1 = Ok (an, None) \<and> fa_recommendation an = Include"
proof -
  let ?tx = "small_tx k h"
  have b: "get_balance mem_kv ref_ext s 3 = Ok bal" and n: "get_nonce mem_kv ref_ext s 3 = Ok (sv_nonce (view_of ref_ext (map_of s)) 3)"
    using mem_state.get_balance_view [OF assms(1)] mem_state.get_nonce_view [OF assms(1)] assms(2) by simp_all
  have i: "invalid_sender ref_ext ?tx = Ok 3" by (simp add: invalid_sender_def)
  have v: "to_u128 (tx_value ?tx) = (Ok 5 :: (core_error, u128) outcome)" by (simp add: to_u128_def)
  have bu: "to_u128 bal = (Ok (ucast bal) :: (core_error, u128) outcome)" using assms(4) by (simp add: to_u128_def)
  have ub: "unat (ucast bal :: u128) = unat bal" using assms(4) by (simp add: unsigned_ucast_eq take_bit_nat_eq_self)
  then have ub0: "(ucast bal :: u128) \<noteq> 0" "\<not> (ucast bal :: u128) \<le> 5"
    using assms(3) by (auto simp: word_le_nat_alt)
  have "chk_mul (5 :: u128) 100 = (Ok 500 :: (core_error, u128) outcome)" by (simp add: chk_mul_def)
  moreover have "chk_mul (ucast bal :: u128) 80 = (Ok (ucast bal * 80) :: (core_error, u128) outcome)"
    using assms(4) ub by (simp add: chk_mul_def)
  moreover have "unat ((ucast bal :: u128) * 80) = unat bal * 80"
    using assms(4) ub by (simp add: unat_word_ariths)
  then have "\<not> (ucast bal :: u128) * 80 \<le> 500" using assms(3) by (simp add: word_le_nat_alt)
  ultimately have c3: "check_large_value mem_kv ref_ext ?tx s = Ok (0, [])"
    by (simp add: check_large_value_def i b bu v ub0 del: small_tx_simps(3))
  have c1: "check_new_wallet mem_kv ref_ext default_fraud_config ?tx s = Ok (0, [])"
    by (simp add: check_new_wallet_def n v default_fraud_config_def del: small_tx_simps(3))
  have c2: "check_velocity mem_kv ref_ext ref_codec c 3 1 = Ok (0, [])" by (simp add: check_velocity_def)
  have c4: "check_round_numbers ?tx = Ok (0, [])"
    by (simp add: check_round_numbers_def v ONE_QYN_WEI_def del: small_tx_simps(3))
  have c5: "check_dust_attack mem_kv ref_ext ref_codec c ?tx 1 = Ok (0, [])"
    by (simp add: check_dust_attack_def v i del: small_tx_simps(3))
  have c6: "check_rapid_drain mem_kv ref_ext ref_codec c s ?tx 1 = Ok (0, [])"
    by (simp add: check_rapid_drain_def RAPID_DRAIN_WINDOW_BLOCKS_def)
  have c7: "check_known_patterns new_pattern_db ?tx = Ok (0, [])"
    by (simp add: check_known_patterns_def is_suspicious_def new_pattern_db_def)
  show ?thesis
    by (simp add: analyse_transaction_def i new_detector_def c1 c2 c3 c4 c5 c6 c7 check_rug_pull_def
        add_check_def chk_add_def get_recommendation_def default_fraud_config_def Let_def
        flip: default_fraud_config_def)
qed

lemma small_tx_executes:
  assumes "state_wf ref_ext (map_of s)" and "5 \<le> sv_balance (view_of ref_ext (map_of s)) 3"
    and "sv_nonce (view_of ref_ext (map_of s)) 3 = k"
  shows "\<exists>s'. execute_candidate ref_node blk 7779 (small_tx k h) (nd\<lparr>fn_state := s\<rparr>) =
      (Ok (Some 21000), nd\<lparr>fn_state := s'\<rparr>) \<and> state_wf ref_ext (map_of s') \<and>
    sv_balance (view_of ref_ext (map_of s')) 3 = sv_balance (view_of ref_ext (map_of s)) 3 - 5 \<and>
    sv_nonce (view_of ref_ext (map_of s')) 3 = sat_add k 1"
proof -
  let ?v = "view_of ref_ext (map_of s)" and ?tx = "small_tx k h"
  have info: "\<exists>i. fst (op_basic (adapter_ops mem_kv ref_ext s) a Map.empty) = Ok (Some i) \<and>
      ai_balance i = sv_balance ?v a \<and> ai_nonce i = sv_nonce ?v a" for a
    by (auto simp: adapter_ops_def basic_def abind_alift mem_state.get_balance_view [OF assms(1)]
        mem_state.get_nonce_view [OF assms(1)] mem_state.get_code_view aret_def)
  obtain i where i: "fst (op_basic (adapter_ops mem_kv ref_ext s) 3 Map.empty) = Ok (Some i)"
    "ai_balance i = sv_balance ?v 3" "ai_nonce i = k" using info [of 3] assms(3) by auto
  obtain j where j: "fst (op_basic (adapter_ops mem_kv ref_ext s) 5 Map.empty) = Ok (Some j)"
    using info [of 5] by blast
  obtain res chs where t: "ref_transact (adapter_ops mem_kv ref_ext s) (exec_env ?tx 3 blk 7779) Map.empty =
      (Inr (res, chs), Map.empty)" and gas: "vr_gas_used res = 21000"
    and chs: "\<exists>x y. chs = [(3, x), (5, y)] \<and> ai_balance (ac_info x) = ai_balance i - 5 \<and> ai_nonce (ac_info x) = sat_add k 1"
    using i j assms(2) by (auto simp: ref_transact_def exec_env_def tx_env_def not_less Let_def)
  from mem_state.commit_refines [OF assms(1) ref_transact_changes [OF t], of Map.empty] obtain s' cache' where
    c: "commit mem_kv ref_ext chs (s, Map.empty) = (Ok (), (s', cache'))" "state_wf ref_ext (map_of s')"
    "view_of ref_ext (map_of s') = committed (map_of chs) ?v" by blast
  have "execute_tx (nc_revm ref_node) mem_kv ref_ext ?tx blk 7779 (s, Map.empty) =
      (Ok \<lparr>er_gas_used = 21000, er_success = vr_success res,
        er_output = (case vr_output res of None \<Rightarrow> [] | Some o' \<Rightarrow> o'), er_logs = vr_logs res\<rparr>, (s', cache'))"
    by (simp add: execute_tx_def t c(1) gas aret_def)
  then have "execute_candidate ref_node blk 7779 ?tx (nd\<lparr>fn_state := s\<rparr>) = (Ok (Some 21000), nd\<lparr>fn_state := s'\<rparr>)"
    by (simp add: execute_candidate_def)
  with c(2,3) chs i show ?thesis by (auto simp: committed_def)
qed

lemma small_tx_included:
  assumes "state_wf ref_ext (map_of s)" and "21005 \<le> unat (sv_balance (view_of ref_ext (map_of s)) 3)"
    and "unat (sv_balance (view_of ref_ext (map_of s)) 3) \<le> 30000"
    and "sv_nonce (view_of ref_ext (map_of s)) 3 = k"
  shows "\<exists>s'. include_tx ref_node blk 7779 1 (small_tx k h) (nd\<lparr>fn_state := s\<rparr>) =
      (Ok (Some 21000), nd\<lparr>fn_state := s'\<rparr>) \<and> state_wf ref_ext (map_of s') \<and>
    sv_balance (view_of ref_ext (map_of s')) 3 = sv_balance (view_of ref_ext (map_of s)) 3 - 5 \<and>
    sv_nonce (view_of ref_ext (map_of s')) 3 = sat_add k 1"
proof -
  let ?v = "view_of ref_ext (map_of s)"
  have lt: "6 < unat (sv_balance ?v 3)" using assms(2) by simp
  have "unat (tx_cost (small_tx k h)) = 21005" by (simp add: tx_cost_def unat_sat_add unat_sat_mul)
  then have "validate_tx_against_state mem_kv ref_ext (small_tx k h) s = Ok ()"
    using assms by (simp add: validate_tx_against_state_def mem_state.get_balance_view
        mem_state.get_nonce_view Let_def word_less_nat_alt)
  moreover obtain an where "analyse_transaction mem_kv ref_ext ref_codec ref_f64 (new_detector default_fraud_config)
      (small_tx k h) (fn_chain nd) s 1 = Ok (an, None)" "fa_recommendation an = Include"
    using small_tx_analysis [OF assms(1) refl lt assms(3)] by blast
  ultimately have "screen_tx ref_node 7779 1 (small_tx k h) (nd\<lparr>fn_state := s\<rparr>) = Ok (Some Include)"
    by (simp add: screen_tx_def)
  then have inc: "include_tx ref_node blk 7779 1 (small_tx k h) (nd\<lparr>fn_state := s\<rparr>) =
      execute_candidate ref_node blk 7779 (small_tx k h) (nd\<lparr>fn_state := s\<rparr>)"
    by (simp add: include_tx_def abind_aread)
  show ?thesis
    unfolding inc by (rule small_tx_executes [OF assms(1) _ assms(4)]) (use assms(2) in \<open>simp add: word_le_nat_alt\<close>)
qed

text \<open>A node on a genesis block with hash 211, with the funded account and a given pool.\<close>

abbreviation node_genesis :: block where "node_genesis \<equiv> example_block 0 0 10 6 7"

definition pool_of :: "(u64 \<times> signed_transaction) list \<Rightarrow> mempool" where
  "pool_of txs = \<lparr>mp_by_sender = [(3, txs)],
     mp_by_hash = map_of (map (\<lambda>(n, tx). (tx_hash ref_ext tx, (3, n))) txs), mp_max_size = 10\<rparr>"

lemma pool_of_run: "pool_run ref_ext (pool_of [(0, small_tx 0 (Some 100)), (1, small_tx 1 (Some 101))])"
proof -
  have h: "tx_hash ref_ext (small_tx k (Some g)) = g" for k g by (simp add: tx_hash_def small_tx_def)
  have "insert_tx ref_ext (\<lambda>_ _. 0) (small_tx 0 (Some 100)) (with_capacity 10) = (Ok None, pool_of [(0, small_tx 0 (Some 100))])"
    by (simp add: insert_tx_def with_capacity_def pool_of_def h max_key_def pool_total_def)
  moreover have "insert_tx ref_ext (\<lambda>_ _. 0) (small_tx 1 (Some 101)) (pool_of [(0, small_tx 0 (Some 100))]) =
      (Ok None, pool_of [(0, small_tx 0 (Some 100)), (1, small_tx 1 (Some 101))])"
    by (simp add: insert_tx_def with_capacity_def pool_of_def h max_key_def pool_total_def MAX_NONCE_GAP_def sat_sub_def fun_eq_iff)
  ultimately show ?thesis using pool_run.insert [OF pool_run.insert [OF pool_run.new]] by blast
qed

lemma example_node:
  "\<exists>c. \<forall>p. working ref_node map_of \<lparr>fn_chain = c, fn_state = funded_db, fn_mempool = p\<rparr> node_genesis \<and>
     selected_proposer ref_node c h n = Ok None \<and>
     cv_block (chain_view_of ref_ext ref_codec (map_of c)) = [211 \<mapsto> node_genesis]"
proof -
  have "chain_wf ref_ext ref_codec (map_of [])" "chain_view_of ref_ext ref_codec (map_of []) = empty_view"
    by simp_all
  from mem_chain.put_block_refines [OF this(1) example_block_encodable this(2)] obtain c1 where
    c1: "chain_wf ref_ext ref_codec (map_of c1)"
      "chain_view_of ref_ext ref_codec (map_of c1) = view_put_block ref_ext node_genesis empty_view"
    by blast
  let ?v = "(view_put_block ref_ext node_genesis empty_view)\<lparr>cv_head := Some 211\<rparr>"
  from mem_chain.set_head_refines [OF c1(1), of 211] c1 obtain c where
    c: "chain_wf ref_ext ref_codec (map_of c)" "chain_view_of ref_ext ref_codec (map_of c) = ?v" by auto
  have inv: "chain_inv ?v" using chain_inv_genesis [of node_genesis ref_ext] by simp
  have t: "tip ref_ext ?v node_genesis" by (simp add: tip_def) (simp add: empty_view_def)
  have "get_validator_set_bytes mem_kv ref_ext c = Ok None"
    by (simp add: mem_chain.reads_view c(2)) (simp add: empty_view_def view_put_block_def Let_def)
  then have sel: "selected_proposer ref_node c h n = Ok None" by (simp add: selected_proposer_def)
  from c inv t sel funded_db(1) show ?thesis
    by (intro exI [of _ c]) (simp add: working_def, simp add: empty_view_def)
qed

lemma get_best_pool_of:
  "get_best (\<lambda>_ _. 0) (pool_of txs) 100 = Ok (take 100 (sort_key (\<lambda>tx. - uint (gas_price tx)) (map snd txs)))"
  by (simp add: get_best_def all_txs_def iter_order_def pool_of_def)

lemma sealed_hash: "block_hash ref_ext (sealed_block ref_ext p n ts sroot txs a) = 204"
  by (simp add: block_hash_def header_hash_def length_header_preimage ref_ext_def sealed_block_def)

lemma one_candidate:
  "\<exists>s1. apply_candidates ref_node blk 7779 1 [small_tx 0 h] \<lparr>fn_chain = c, fn_state = funded_db, fn_mempool = p\<rparr> =
      (Ok [(small_tx 0 h, 21000)], \<lparr>fn_chain = c, fn_state = s1, fn_mempool = p\<rparr>) \<and> state_wf ref_ext (map_of s1)"
proof -
  from small_tx_included [OF funded_db(1), of 0 blk h "\<lparr>fn_chain = c, fn_state = funded_db, fn_mempool = p\<rparr>"]
  obtain s1 where "include_tx ref_node blk 7779 1 (small_tx 0 h) \<lparr>fn_chain = c, fn_state = funded_db, fn_mempool = p\<rparr> =
      (Ok (Some 21000), \<lparr>fn_chain = c, fn_state = s1, fn_mempool = p\<rparr>)" "state_wf ref_ext (map_of s1)"
    by (auto simp: funded_db)
  then show ?thesis by (simp add: aret_def)
qed

lemma two_candidates:
  "\<exists>s2. apply_candidates ref_node blk 7779 1 [small_tx 0 h, small_tx 1 g] \<lparr>fn_chain = c, fn_state = funded_db, fn_mempool = p\<rparr> =
      (Ok [(small_tx 0 h, 21000), (small_tx 1 g, 21000)], \<lparr>fn_chain = c, fn_state = s2, fn_mempool = p\<rparr>) \<and>
    state_wf ref_ext (map_of s2) \<and> sv_nonce (view_of ref_ext (map_of s2)) 3 = 2"
proof -
  let ?nd = "\<lambda>s. \<lparr>fn_chain = c, fn_state = s, fn_mempool = p\<rparr>"
  from small_tx_included [OF funded_db(1), of 0 blk h "?nd funded_db"]
  obtain s1 where s1: "include_tx ref_node blk 7779 1 (small_tx 0 h) (?nd funded_db) = (Ok (Some 21000), ?nd s1)"
    "state_wf ref_ext (map_of s1)" "sv_balance (view_of ref_ext (map_of s1)) 3 = 29995"
    "sv_nonce (view_of ref_ext (map_of s1)) 3 = 1"
    by (auto simp: funded_db)
  have "sat_add 1 1 = (2 :: u64)" by (simp add: sat_add_def)
  with small_tx_included [OF s1(2), of 1 blk g "?nd s1"] s1(3,4)
  obtain s2 where s2: "include_tx ref_node blk 7779 1 (small_tx 1 g) (?nd s1) = (Ok (Some 21000), ?nd s2)"
    "state_wf ref_ext (map_of s2)" "sv_nonce (view_of ref_ext (map_of s2)) 3 = 2"
    by auto
  with s1 show ?thesis by (simp add: aret_def)
qed

section \<open>Properties\<close>

text \<open>C18: a round on a working node makes progress: when the validator is selected, the clocks are
  ahead of the tip and agree within three seconds, the executed candidates have distinct
  senders and the new block does not collide with a stored hash, the round succeeds. The
  new head is a child of the old tip that carries the executed transactions and the state root after
  execution and burn; the executed transactions are candidates that passed both checks and the fraud
  analysis; each has a receipt with its position and its gas, and none stays in the pool; and
  the node is a working node again, so the next round can follow.\<close>

theorem produce_block_advances:
  assumes "devnet_store E contents" and "X = rc_ext E" and "working E contents nd p"
    and "n = h_number (b_header p) + 1" and "unat (h_number (b_header p)) + 1 < 2 ^ 64"
    and "selected_proposer E (fn_chain nd) (block_hash X p) n \<in> {Ok None, Ok (Some a)}"
    and "h_timestamp (b_header p) < ts" and "unat ts \<le> unat now + 3" and "unat now + 3 < 2 ^ 64"
    and "get_best (rc_rank E) (fn_mempool nd) 100 = Ok candidates"
    and "apply_candidates E (block_env X n now 30000000 0 a) cid n candidates nd = (Ok ta, nd1)"
    and "distinct (map (\<lambda>(tx, _). sender X tx) ta)" and "distinct (map (\<lambda>t. tx_hash X (fst t)) ta)"
    and "burn_fees E a (fst (split_fees (total_gas_fees ta))) nd1 = (Ok (), nd2)"
    and "compute_state_root (rc_kv E) X (fn_state nd2) = Ok sroot"
    and "b = sealed_block X (block_hash X p) n ts sroot (map fst ta) a"
    and "storable X (chain_view_of X (rc_codec E) (contents (fn_chain nd))) b"
  shows "\<exists>nd'. produce_block E a cid (Inr now) (Inr ts) nd = (Ok (), nd') \<and> working E contents nd' b \<and>
    get_head (rc_kv E) X (fn_chain nd') = Ok (Some (block_hash X b)) \<and>
    contents (fn_state nd') = (contents (fn_state nd2))(state_root_key (block_hash X b) \<mapsto> b256_bytes sroot) \<and>
    subseq (map fst ta) candidates \<and> list_all (\<lambda>(tx, _). admitted E cid n (fn_chain nd) tx) ta \<and>
    (\<forall>j < length ta. get_tx_receipt_index (rc_kv E) X (fn_chain nd') (tx_hash X (fst (ta ! j))) =
       Ok (Some (block_hash X b, n, of_nat j, snd (ta ! j)))) \<and>
    (\<forall>t \<in> set ta. mp_by_hash (fn_mempool nd') (tx_hash X (fst t)) = None)"
proof -
  have w: "chain_wf (rc_ext E) (rc_codec E) (contents (fn_chain nd))"
    "chain_inv (chain_view_of (rc_ext E) (rc_codec E) (contents (fn_chain nd)))"
    "tip (rc_ext E) (chain_view_of (rc_ext E) (rc_codec E) (contents (fn_chain nd))) p"
    "state_wf (rc_ext E) (contents (fn_state nd))"
    using assms(3) by (simp_all add: working_def)
  note laws = devnet_store.save_root_wf [OF assms(1)] devnet_store.working_head(1) [OF assms(1)]
    devnet_store.nodes_wf [OF assms(1)]
  from devnet_store.produce_block_ok [OF assms(1) w(1) refl w(2-4) assms(5-12,14-17) [unfolded assms(2) assms(4)]] assms(13)
  obtain nd' where nd': "produce_block E a cid (Inr now) (Inr ts) nd = (Ok (), nd')"
    "chain_wf X (rc_codec E) (contents (fn_chain nd'))"
    "chain_inv (chain_view_of X (rc_codec E) (contents (fn_chain nd')))"
    "tip X (chain_view_of X (rc_codec E) (contents (fn_chain nd'))) b"
    "contents (fn_state nd') = (contents (fn_state nd2))(state_root_key (block_hash X b) \<mapsto> b256_bytes sroot)"
    "\<forall>j < length ta. get_tx_receipt_index (rc_kv E) X (fn_chain nd') (tx_hash X (fst (ta ! j))) =
       Ok (Some (block_hash X b, n, of_nat j, snd (ta ! j)))"
    "\<forall>t \<in> set ta. mp_by_hash (fn_mempool nd') (tx_hash X (fst t)) = None"
    "subseq (map fst ta) candidates" "list_all (\<lambda>(tx, _). admitted E cid n (fn_chain nd) tx) ta"
    unfolding assms(2) assms(4) by blast
  have "state_wf X (contents (fn_state nd2))"
    using laws(3) assms(11,14) w by (auto simp: assms(2))
  then have "working E contents nd' b" using nd' laws(1) by (auto simp: working_def assms(2))
  with nd' laws(2) show ?thesis by (auto simp: assms(2))
qed

theorem produce_block_advances_witness:
  "\<exists>nd nd'. get_head mem_kv ref_ext (fn_chain nd) = Ok (Some 211) \<and>
     produce_block ref_node 1 7779 (Inr 20) (Inr 20) nd = (Ok (), nd') \<and>
     get_head mem_kv ref_ext (fn_chain nd') = Ok (Some 204) \<and>
     get_tx_receipt_index mem_kv ref_ext (fn_chain nd') 100 = Ok (Some (204, 1, 0, 21000))"
proof -
  let ?p = "pool_of [(0, small_tx 0 (Some 100))]" and ?ta = "[(small_tx 0 (Some 100), 21000 :: u64)]"
  obtain c where c: "\<forall>p. working ref_node map_of \<lparr>fn_chain = c, fn_state = funded_db, fn_mempool = p\<rparr> node_genesis"
    "selected_proposer ref_node c 211 1 = Ok None"
    "cv_block (chain_view_of ref_ext ref_codec (map_of c)) = [211 \<mapsto> node_genesis]"
    using example_node by blast
  let ?nd = "\<lparr>fn_chain = c, fn_state = funded_db, fn_mempool = ?p\<rparr>"
  have w: "working ref_node map_of ?nd node_genesis" using c(1) by blast
  have best: "get_best (rc_rank ref_node) (fn_mempool ?nd) 100 = Ok [small_tx 0 (Some 100)]"
    by (simp add: get_best_pool_of)
  obtain s1 where app: "apply_candidates ref_node (block_env ref_ext 1 20 30000000 0 1) 7779 1 [small_tx 0 (Some 100)] ?nd =
      (Ok ?ta, \<lparr>fn_chain = c, fn_state = s1, fn_mempool = ?p\<rparr>)" "state_wf ref_ext (map_of s1)"
    using one_candidate by blast
  let ?nd1 = "\<lparr>fn_chain = c, fn_state = s1, fn_mempool = ?p\<rparr>"
  obtain nd2 where burn: "burn_fees ref_node 1 (fst (split_fees (total_gas_fees ?ta))) ?nd1 = (Ok (), nd2)"
    using ref_devnet.burn_fees_ok [of ?nd1 1] app(2) by auto
  obtain sroot where sroot: "compute_state_root mem_kv ref_ext (fn_state nd2) = Ok sroot"
    using ref_devnet.state_root_Ok by auto
  have h: "tx_hash ref_ext (small_tx 0 (Some 100)) = 100" by (simp add: tx_hash_def small_tx_def)
  have "storable ref_ext (chain_view_of ref_ext ref_codec (map_of c))
      (sealed_block ref_ext 211 1 20 sroot [small_tx 0 (Some 100)] 1)"
    using sealed_hash by (auto simp: storable_def c(3) encodable_def small_tx_def) (simp add: sealed_block_def)
  then have sto: "storable ref_ext (chain_view_of ref_ext ref_codec (map_of c))
      (sealed_block ref_ext 211 1 20 sroot (map fst ?ta) 1)" by simp
  have d: "distinct (map (\<lambda>(tx, _). sender ref_ext tx) ?ta)" "distinct (map (\<lambda>t. tx_hash ref_ext (fst t)) ?ta)"
    by simp_all
  from produce_block_advances [OF ref_devnet.devnet_store_axioms refl w, of 1 1 20 20, simplified,
      OF disjI1 [OF c(2)] best [simplified] app(1) d burn sroot refl sto]
  obtain nd' where nd': "produce_block ref_node 1 7779 (Inr 20) (Inr 20) ?nd = (Ok (), nd')"
    "get_head mem_kv ref_ext (fn_chain nd') = Ok (Some 204)"
    "\<forall>j < length ?ta. get_tx_receipt_index mem_kv ref_ext (fn_chain nd') (tx_hash ref_ext (fst (?ta ! j))) =
       Ok (Some (204, 1, of_nat j, snd (?ta ! j)))"
    unfolding sealed_hash by blast
  from nd'(3) have "get_tx_receipt_index mem_kv ref_ext (fn_chain nd') 100 = Ok (Some (204, 1, 0, 21000))"
    using h by simp
  moreover have "get_head mem_kv ref_ext (fn_chain ?nd) = Ok (Some 211)"
    using ref_devnet.working_head(1) [OF w] by simp
  ultimately show ?thesis using nd'(1,2) by blast
qed

text \<open>C22: a failed round keeps its executions: when two of the executed candidates have the same
  sender, the block is refused after they were executed; the round fails with the chain as it
  was, but the state is the one after all executions and the burn, and every executed candidate,
  and every transaction that was no candidate, is still in the pool, where the next round finds it by
  its hash.\<close>

theorem failed_round_keeps_execution:
  assumes "devnet_store E contents" and "X = rc_ext E" and "working E contents nd p"
    and "n = h_number (b_header p) + 1" and "unat (h_number (b_header p)) + 1 < 2 ^ 64"
    and "selected_proposer E (fn_chain nd) (block_hash X p) n \<in> {Ok None, Ok (Some a)}"
    and "get_best (rc_rank E) (fn_mempool nd) 100 = Ok candidates"
    and "apply_candidates E (block_env X n now 30000000 0 a) cid n candidates nd = (Ok ta, nd1)"
    and "\<not> distinct (map (\<lambda>(tx, _). sender X tx) ta)"
    and "burn_fees E a (fst (split_fees (total_gas_fees ta))) nd1 = (Ok (), nd2)"
    and "pool_run X (fn_mempool nd)"
  shows "\<exists>e. produce_block E a cid (Inr now) (Inr ts) nd = (Err (CoreErr e), nd2) \<and>
    fn_chain nd2 = fn_chain nd \<and> pool_removed (fn_mempool nd) (fn_mempool nd2) \<and> fn_mempool nd2 = fn_mempool nd1 \<and>
    (\<forall>(tx, _) \<in> set ta. get_by_hash (fn_mempool nd2) (tx_hash X tx) = Ok (Some tx)) \<and>
    (\<forall>s k tx. pool_tx (fn_mempool nd) s k = Some tx \<and> (tx \<in> set candidates \<longrightarrow> tx \<in> fst ` set ta) \<longrightarrow>
       pool_tx (fn_mempool nd2) s k = Some tx)"
proof -
  have w: "chain_wf (rc_ext E) (rc_codec E) (contents (fn_chain nd))"
    "chain_inv (chain_view_of (rc_ext E) (rc_codec E) (contents (fn_chain nd)))"
    "state_wf (rc_ext E) (contents (fn_state nd))"
    using assms(3) by (simp_all add: working_def)
  note one = devnet_store.apply_candidates_ok [OF assms(1) w(3) assms(8)]
  then have st1: "state_wf (rc_ext E) (contents (fn_state nd1))" and c1: "fn_chain nd1 = fn_chain nd"
    and rm: "pool_removed (fn_mempool nd) (fn_mempool nd1)" by simp_all
  obtain s2 where nd2: "nd2 = nd1\<lparr>fn_state := s2\<rparr>"
    using devnet_store.burn_fees_ok [OF assms(1) st1, of a "fst (split_fees (total_gas_fees ta))"] assms(10) by auto
  obtain sroot where root: "compute_state_root (rc_kv E) (rc_ext E) (fn_state nd2) = Ok sroot"
    using devnet_store.state_root_Ok [OF assms(1)] by blast
  define b where "b = sealed_block (rc_ext E) (block_hash (rc_ext E) p) n ts sroot (map fst ta) a"
  have "check_senders X {} (b_body b) \<noteq> Ok ()"
  proof
    assume "check_senders X {} (b_body b) = Ok ()"
    then obtain ss where ss: "map (sender X) (map fst ta) = map Ok ss" "distinct ss"
      unfolding check_senders_iff by (auto simp: b_def sealed_block_def)
    have "map (\<lambda>(tx, _). sender X tx) ta = map (sender X) (map fst ta)" by (simp add: split_beta comp_def)
    with ss have "distinct (map (\<lambda>(tx, _). sender X tx) ta)" by (simp add: distinct_map inj_on_def)
    with assms(9) show False by contradiction
  qed
  then obtain e where e: "check_senders X {} (b_body b) = Err e"
    "\<nexists>x y z u. e = DoubleSign x y z u"
    using check_senders_err [of X "{}" "b_body b"] by auto
  then have "accept_decision (rc_ext E) (chain_view_of (rc_ext E) (rc_codec E) (contents (fn_chain nd2))) b now = Err e"
    using assms(2)
    by (simp add: accept_decision_def validate_block_def validate_self_Ok [THEN iffD2] b_def sealed_block_def)
  then have "athen (accept_sealed E b now) (index_receipts E b 0 ta) nd2 = (Err (CoreErr e), nd2)"
    by (intro devnet_store.accept_sealed_refused [OF assms(1) _ refl _ _ e(2)]) (use w c1 nd2 in simp_all)
  moreover have "produce_block E a cid (Inr now) (Inr ts) nd =
      athen (accept_sealed E b now) (index_receipts E b 0 ta) nd2"
    using devnet_store.produce_block_seals [OF assms(1) devnet_store.working_head [OF assms(1,3)] assms(5)
        assms(6-8) [unfolded assms(2) assms(4)], of "Inr ts"]
      devnet_store.seal_block_steps [OF assms(1,10) root, of b "block_hash (rc_ext E) p" n ts now] b_def assms(4)
    by simp
  moreover have inv: "pool_inv (rc_ext E) (fn_mempool nd)" using pool_run_inv [OF assms(11)] assms(2) by simp
  then have pool: "pool_inv (rc_ext E) (fn_mempool nd1) \<and> (\<forall>s k t. pool_tx (fn_mempool nd) s k = Some t \<and>
      (t \<in> set candidates \<longrightarrow> t \<in> fst ` set ta) \<longrightarrow> pool_tx (fn_mempool nd1) s k = Some t)"
    using devnet_store.apply_candidates_kept [OF assms(1) w(3) assms(8)] get_best_distinct [OF inv assms(7)] by blast
  have "get_by_hash (fn_mempool nd1) (tx_hash X tx) = Ok (Some tx)" if "(tx, g) \<in> set ta" for tx g
  proof -
    have "set (map fst ta) \<subseteq> set candidates" using one subseq_set by blast
    then have "tx \<in> set candidates" using that by force
    then obtain s k where "pool_tx (fn_mempool nd) s k = Some tx" using get_best_distinct [OF inv assms(7)] by blast
    with pool that have "pool_tx (fn_mempool nd1) s k = Some tx" by force
    with pool pool_tx_entry assms(2) show ?thesis by (fastforce simp: get_by_hash_def)
  qed
  ultimately show ?thesis using rm c1 nd2 pool by fastforce
qed

theorem failed_round_keeps_execution_witness:
  "\<exists>nd e nd'. produce_block ref_node 1 7779 (Inr 20) (Inr 20) nd = (Err (CoreErr e), nd') \<and>
     sv_nonce (view_of ref_ext (map_of (fn_state nd))) 3 = 0 \<and>
     sv_nonce (view_of ref_ext (map_of (fn_state nd'))) 3 = 2 \<and> fn_chain nd' = fn_chain nd \<and>
     get_by_hash (fn_mempool nd') 100 = Ok (Some (small_tx 0 (Some 100))) \<and>
     get_by_hash (fn_mempool nd') 101 = Ok (Some (small_tx 1 (Some 101)))"
proof -
  let ?p = "pool_of [(0, small_tx 0 (Some 100)), (1, small_tx 1 (Some 101))]"
  let ?ta = "[(small_tx 0 (Some 100), 21000 :: u64), (small_tx 1 (Some 101), 21000)]"
  obtain c where c: "\<forall>p. working ref_node map_of \<lparr>fn_chain = c, fn_state = funded_db, fn_mempool = p\<rparr> node_genesis"
    "selected_proposer ref_node c 211 1 = Ok None"
    using example_node by blast
  let ?nd = "\<lparr>fn_chain = c, fn_state = funded_db, fn_mempool = ?p\<rparr>"
  have w: "working ref_node map_of ?nd node_genesis" using c(1) by blast
  have best: "get_best (rc_rank ref_node) (fn_mempool ?nd) 100 = Ok [small_tx 0 (Some 100), small_tx 1 (Some 101)]"
    by (simp add: get_best_pool_of)
  obtain s2 where app: "apply_candidates ref_node (block_env ref_ext 1 20 30000000 0 1) 7779 1
      [small_tx 0 (Some 100), small_tx 1 (Some 101)] ?nd = (Ok ?ta, \<lparr>fn_chain = c, fn_state = s2, fn_mempool = ?p\<rparr>)"
    "state_wf ref_ext (map_of s2)" "sv_nonce (view_of ref_ext (map_of s2)) 3 = 2"
    using two_candidates by blast
  let ?nd1 = "\<lparr>fn_chain = c, fn_state = s2, fn_mempool = ?p\<rparr>"
  obtain nd2 where burn: "burn_fees ref_node 1 (fst (split_fees (total_gas_fees ?ta))) ?nd1 = (Ok (), nd2)"
    and non: "sv_nonce (view_of ref_ext (map_of (fn_state nd2))) 3 = 2"
    using ref_devnet.burn_fees_ok [of ?nd1 1] app(2,3) by fastforce
  from failed_round_keeps_execution [OF ref_devnet.devnet_store_axioms refl w, of 1 1, simplified,
      OF disjI1 [OF c(2)] best [simplified] app(1) _ burn pool_of_run, of 20]
  obtain e where e: "produce_block ref_node 1 7779 (Inr 20) (Inr 20) ?nd = (Err (CoreErr e), nd2)" "fn_chain nd2 = c"
    "\<forall>(tx, _) \<in> set ?ta. get_by_hash (fn_mempool nd2) (tx_hash ref_ext tx) = Ok (Some tx)"
    by auto
  have h: "tx_hash ref_ext (small_tx k (Some g)) = g" for k g by (simp add: tx_hash_def small_tx_def)
  show ?thesis
    by (intro exI [of _ ?nd] exI [of _ e] exI [of _ nd2]) (use e non h in \<open>auto simp: funded_db\<close>)
qed

text \<open>C21: one transaction can stop the chain for good: when the new block passes all checks but its
  body cannot be read back (one of its transactions does not carry its hash, as when it was
  sent in bincode's encoding), the round stores the block as the head and fails, and
  every later round, whatever the clocks say, fails without any effect.\<close>

theorem unreadable_block_stops_producer:
  assumes "devnet_store E contents" and "X = rc_ext E" and "working E contents nd p"
    and "n = h_number (b_header p) + 1" and "unat (h_number (b_header p)) + 1 < 2 ^ 64"
    and "selected_proposer E (fn_chain nd) (block_hash X p) n \<in> {Ok None, Ok (Some devnet_validator)}"
    and "h_timestamp (b_header p) < ts" and "unat ts \<le> unat now + 3" and "unat now + 3 < 2 ^ 64"
    and "get_best (rc_rank E) (fn_mempool nd) 100 = Ok candidates"
    and "apply_candidates E (block_env X n now 30000000 0 devnet_validator) CHAIN_ID_TESTNET n candidates nd = (Ok ta, nd1)"
    and "distinct (map (\<lambda>(tx, _). sender X tx) ta)"
    and "burn_fees E devnet_validator (fst (split_fees (total_gas_fees ta))) nd1 = (Ok (), nd2)"
    and "compute_state_root (rc_kv E) X (fn_state nd2) = Ok sroot"
    and "ser_body (rc_codec E) (map fst ta) = Inr bs" and "de_body (rc_codec E) bs = Inl e"
  shows "\<exists>nd'. producer_round E (Inr now) (Inr ts) (True, nd) = (True, nd') \<and>
    get_head (rc_kv E) X (fn_chain nd') = Ok (Some (block_hash X
      (sealed_block X (block_hash X p) n ts sroot (map fst ta) devnet_validator))) \<and>
    (\<forall>clocks. fold (\<lambda>(t1, t2). producer_round E t1 t2) clocks (True, nd') = (True, nd'))"
proof -
  have w: "chain_wf (rc_ext E) (rc_codec E) (contents (fn_chain nd))"
    "chain_inv (chain_view_of (rc_ext E) (rc_codec E) (contents (fn_chain nd)))"
    "tip (rc_ext E) (chain_view_of (rc_ext E) (rc_codec E) (contents (fn_chain nd))) p"
    "state_wf (rc_ext E) (contents (fn_state nd))"
    using assms(3) by (simp_all add: working_def)
  note one = devnet_store.apply_candidates_ok [OF assms(1) w(4) assms(11)]
  then have st1: "state_wf (rc_ext E) (contents (fn_state nd1))" and c1: "fn_chain nd1 = fn_chain nd"
    and adm: "list_all (\<lambda>(tx, _). admitted E CHAIN_ID_TESTNET n (fn_chain nd) tx) ta" by simp_all
  obtain s2 where nd2: "nd2 = nd1\<lparr>fn_state := s2\<rparr>"
    using devnet_store.burn_fees_ok [OF assms(1) st1, of devnet_validator "fst (split_fees (total_gas_fees ta))"]
      assms(13) by auto
  define b where "b = sealed_block X (block_hash X p) n ts sroot (map fst ta) devnet_validator"
  have dec: "accept_decision X (chain_view_of X (rc_codec E) (contents (fn_chain nd))) b now = Ok ()"
    unfolding b_def assms(2,4)
    by (rule sealed_decision [OF w(3,2) assms(5,7-9) admitted_senders [OF adm assms(12) [unfolded assms(2)]]])
  have cs: "chain_store (rc_kv E) contents (rc_ext E) (rc_codec E)"
    using assms(1) by (simp add: devnet_store_def)
  have "b_body b = map fst ta" by (simp add: b_def sealed_block_def)
  then have "de_body (rc_codec E) (chain_store.body_code (rc_codec E) (b_body b)) = Inl e"
    using assms(15,16) chain_store.codec_simps(3) [OF cs, of "b_body b"] by simp
  from chain_store.accept_undecodable [OF cs w(1) refl w(2) dec [unfolded assms(2)] this, of s2] obtain c' where
    acc: "accept_block (rc_kv E) (rc_ext E) (rc_codec E) b now (fn_chain nd, s2) = (Err (Serialization e), (c', s2))"
    and head: "get_head (rc_kv E) (rc_ext E) c' = Ok (Some (block_hash (rc_ext E) b))"
      "get_block (rc_kv E) (rc_ext E) (rc_codec E) c' (block_hash (rc_ext E) b) = Err (Serialization e)"
    by blast
  let ?nd' = "nd2\<lparr>fn_chain := c'\<rparr>"
  have "athen (accept_sealed E b now) (index_receipts E b 0 ta) nd2 = (Err (CoreErr (Serialization e)), ?nd')"
    using acc by (simp add: athen_def accept_sealed_def nd2 c1)
  moreover have "produce_block E devnet_validator CHAIN_ID_TESTNET (Inr now) (Inr ts) nd =
      athen (accept_sealed E b now) (index_receipts E b 0 ta) nd2"
    using devnet_store.produce_block_seals [OF assms(1) devnet_store.working_head [OF assms(1,3)] assms(5)
        assms(6,10,11) [unfolded assms(2) assms(4)], of "Inr ts"]
      devnet_store.seal_block_steps [OF assms(1,13) assms(14) [unfolded assms(2)], of b "block_hash (rc_ext E) p" n ts now]
      b_def assms(2,4)
    by simp
  ultimately have first: "producer_round E (Inr now) (Inr ts) (True, nd) = (True, ?nd')"
    by (simp add: producer_round_def)
  have later: "producer_round E t1 t2 (True, ?nd') = (True, ?nd')" for t1 t2
    using head by (simp add: producer_round_def produce_block_def Let_def abind_aread)
  have "fold (\<lambda>(t1, t2). producer_round E t1 t2) clocks (True, ?nd') = (True, ?nd')" for clocks
    by (induction clocks) (auto simp: later)
  with first head(1) show ?thesis unfolding b_def assms(2) by auto
qed

theorem unreadable_block_stops_producer_witness:
  "\<exists>nd nd'. producer_round ref_node (Inr 20) (Inr 20) (True, nd) = (True, nd') \<and>
     get_head mem_kv ref_ext (fn_chain nd') = Ok (Some 204) \<and>
     producer_round ref_node (Inr 23) (Inr 23) (True, nd') = (True, nd')"
proof -
  let ?p = "pool_of [(0, small_tx 0 None)]" and ?ta = "[(small_tx 0 None, 21000 :: u64)]"
  obtain c where c: "\<forall>p. working ref_node map_of \<lparr>fn_chain = c, fn_state = funded_db, fn_mempool = p\<rparr> node_genesis"
    "selected_proposer ref_node c 211 1 = Ok None"
    using example_node by blast
  let ?nd = "\<lparr>fn_chain = c, fn_state = funded_db, fn_mempool = ?p\<rparr>"
  have w: "working ref_node map_of ?nd node_genesis" using c(1) by blast
  have best: "get_best (rc_rank ref_node) (fn_mempool ?nd) 100 = Ok [small_tx 0 None]"
    by (simp add: get_best_pool_of)
  obtain s1 where app: "apply_candidates ref_node (block_env ref_ext 1 20 30000000 0 1) 7779 1 [small_tx 0 None] ?nd =
      (Ok ?ta, \<lparr>fn_chain = c, fn_state = s1, fn_mempool = ?p\<rparr>)" "state_wf ref_ext (map_of s1)"
    using one_candidate by blast
  let ?nd1 = "\<lparr>fn_chain = c, fn_state = s1, fn_mempool = ?p\<rparr>"
  obtain nd2 where burn: "burn_fees ref_node 1 (fst (split_fees (total_gas_fees ?ta))) ?nd1 = (Ok (), nd2)"
    using ref_devnet.burn_fees_ok [of ?nd1 1] app(2) by auto
  obtain sroot where sroot: "compute_state_root mem_kv ref_ext (fn_state nd2) = Ok sroot"
    using ref_devnet.state_root_Ok by auto
  obtain bs where bs: "ser_body ref_codec [small_tx 0 None] = Inr bs"
    "de_body ref_codec bs = Inl ''io error: unexpected end of file''"
    by (simp add: ref_codec_def comp_def ref_tx_roundtrip encodable_def small_tx_def example_tx_def)
  then have code: "mem_chain.body_code (map fst ?ta) = bs" by simp
  have v: "devnet_validator = 1" "CHAIN_ID_TESTNET = 7779" by (simp_all add: devnet_validator_def CHAIN_ID_TESTNET_def)
  from unreadable_block_stops_producer [OF ref_devnet.devnet_store_axioms refl w, of 1 20 20, unfolded v, simplified,
      OF disjI1 [OF c(2)] best [simplified] app(1) _ burn sroot code bs(2)] sealed_hash
  obtain nd' where "producer_round ref_node (Inr 20) (Inr 20) (True, ?nd) = (True, nd')"
    "get_head mem_kv ref_ext (fn_chain nd') = Ok (Some 204)"
    "\<forall>clocks. fold (\<lambda>(t1, t2). producer_round ref_node t1 t2) clocks (True, nd') = (True, nd')"
    by auto
  moreover from this(3) have "producer_round ref_node (Inr 23) (Inr 23) (True, nd') = (True, nd')"
    by (auto dest: spec [of _ "[(Inr 23, Inr 23)]"])
  ultimately show ?thesis by blast
qed

text \<open>C23: the first start of the devnet writes a genesis from which blocks can be produced: on two
  empty databases it succeeds, leaves the genesis block with the root of the written state as the
  head of a consistent chain, funds exactly the validator, the faucet and the founder with
  1,000, 100 and 200 million QYN, so that the balances add up to 1.3 times the total supply,
  and stores a validator set that selects the devnet's validator at every height. A second start
  changes nothing.\<close>

theorem devnet_genesis_exact:
  assumes "devnet_genesis_store E contents"
    and "contents (fn_chain nd) = Map.empty" and "contents (fn_state nd) = Map.empty"
    and "devnet_faucet_keypair (nc_wallet E) = (Ok kp :: (node_error, key_pair) outcome)" and "fa = kp_address (rc_ext E) kp"
    and "fa \<noteq> devnet_validator" and "fa \<noteq> founder" and "parse_address (rc_ext E) FOUNDER_ADDR = Ok founder"
    and "\<And>alloc. mset (order alloc) = mset alloc"
    and "nc_ser_vs E devnet_set = Inr bs" and "rc_de_vs E bs = Inr devnet_set"
    and "\<And>r. block_hash (rc_ext E) (devnet_genesis r) \<noteq> 0"
  shows "\<exists>nd' r. init_devnet E order nd = (Ok (), nd') \<and> init_devnet E order nd' = (Ok (), nd') \<and>
    working E contents nd' (devnet_genesis r) \<and> compute_state_root (rc_kv E) (rc_ext E) (fn_state nd') = Ok r \<and>
    (\<forall>a. unat (sv_balance (view_of (rc_ext E) (contents (fn_state nd'))) a) =
       (if a = devnet_validator then TOTAL_SUPPLY else if a = fa then TOTAL_SUPPLY div 10
        else if a = founder then TOTAL_SUPPLY div 5 else 0)) \<and>
    total_balance (sv_balance (view_of (rc_ext E) (contents (fn_state nd')))) = TOTAL_SUPPLY * 13 div 10 \<and>
    (\<forall>a. sv_nonce (view_of (rc_ext E) (contents (fn_state nd'))) a = 0) \<and>
    (\<forall>h n. selected_proposer E (fn_chain nd') h n = Ok (Some devnet_validator))"
proof -
  let ?X = "rc_ext E" and ?C = "rc_codec E"
  have dev: "devnet_store E contents" and chain: "chain_store (rc_kv E) contents ?X ?C"
    using assms(1) by (simp_all add: devnet_genesis_store_def devnet_store_def)
  from devnet_genesis_store.write_genesis_ok [OF assms(1-4) assms(6,7) [unfolded assms(5)] assms(8-10,12)]
  obtain nd' r where w: "write_genesis E order nd = (Ok (), nd')" "working E contents nd' (devnet_genesis r)"
      "compute_state_root (rc_kv E) ?X (fn_state nd') = Ok r"
    and vs: "cv_validators (chain_view_of ?X ?C (contents (fn_chain nd'))) = Some bs"
    and bal: "sv_balance (view_of ?X (contents (fn_state nd'))) = (\<lambda>_. 0)(devnet_validator := 1000000000 * 10 ^ 18,
      fa := 100000000 * 10 ^ 18, founder := 200000000 * 10 ^ 18)"
    and non: "sv_nonce (view_of ?X (contents (fn_state nd'))) = (\<lambda>_. 0)"
    unfolding assms(5) by blast
  note reads = chain_store.reads_view [OF chain]
  have fresh: "cv_head (chain_view_of ?X ?C (contents (fn_chain nd))) = None"
    using assms(2) by simp (simp add: empty_view_def)
  have "init_devnet E order nd = (Ok (), nd')"
    using w(1) vs fresh by (simp add: init_devnet_def Let_def abind_aread reads athen_def aret_def)
  moreover have "init_devnet E order nd' = (Ok (), nd')"
    by (rule devnet_genesis_store.init_devnet_again [OF assms(1) _ vs]) (use w(2) in \<open>simp add: working_def tip_def\<close>)
  moreover have "selected_proposer E (fn_chain nd') h n = Ok (Some devnet_validator)" for h n
    using devnet_proposer by (simp add: selected_proposer_def reads vs assms(11))
  moreover have "total_balance (sv_balance (view_of ?X (contents (fn_state nd')))) = TOTAL_SUPPLY * 13 div 10"
    using assms(6,7) by (simp add: bal total_balance_new TOTAL_SUPPLY_def devnet_validator_def founder_def)
  ultimately show ?thesis
    using w(2,3) non assms(6,7)
    by (intro exI [of _ nd'] exI [of _ r]) (simp add: bal TOTAL_SUPPLY_def devnet_validator_def founder_def)
qed

theorem devnet_genesis_exact_witness:
  "\<exists>nd' r. init_devnet ref_node rev (open_node [] []) = (Ok (), nd') \<and>
     working ref_node map_of nd' (devnet_genesis r) \<and>
     unat (sv_balance (view_of ref_ext (map_of (fn_state nd'))) 1682) = 10 ^ 26"
proof -
  obtain kp where kp: "devnet_faucet_keypair (nc_wallet ref_node) = (Ok kp :: (node_error, key_pair) outcome)" "kp_address ref_ext kp = 1682"
    by (rule ref_node_faucet)
  have "block_hash ref_ext (devnet_genesis r) \<noteq> 0" for r
    by (simp add: block_hash_def header_hash_def length_header_preimage ref_ext_def devnet_genesis_def)
  with devnet_genesis_exact [OF ref_devnet_genesis.devnet_genesis_store_axioms, of "open_node [] []" kp 1682 rev "[1]"] kp
  show ?thesis by (auto simp: open_node_def devnet_validator_def founder_def ref_founder ref_node_def TOTAL_SUPPLY_def)
qed

end
