(* ===== verification/Quyn_Client.thy ===== *)
theory Quyn_Client
  imports Quyn_NodeLaws
begin

text \<open>
  node/src/main.rs, the clients: the faucet and the wallet commands, which talk to a node over
  JSON-RPC. The HTTP client is the parameter \<open>post\<close>: it sends a request to an address and decodes
  the reply, or fails with a text. The variable QYN_RPC_URL and the entropy of a new mnemonic are
  arguments; what a command prints is its result. The last part connects the clients to the
  model of the server.
\<close>

section \<open>Requests\<close>

type_synonym ('w, 'f) post = "string \<Rightarrow> 'f json \<Rightarrow> ('w, string, 'f json) act"

datatype client_error = HttpErr string | ClientText string | ClientWallet wallet_error

definition rpc_body :: "string \<Rightarrow> 'f json list \<Rightarrow> 'f json" where
  "rpc_body method params = JObject [(''jsonrpc'', JString ''2.0''), (''method'', JString method),
     (''params'', JArray params), (''id'', JInt 1)]"

definition rpc_url :: "string option \<Rightarrow> string" where
  "rpc_url env = (let url = unwrap_str ''http://127.0.0.1:8545'' env in
     if url \<noteq> [] \<and> last url = CHR ''/'' then url @ ''rpc''
     else if \<not> contains url ''/rpc'' then url @ ''/rpc'' else url)"

text \<open>\<open>j.get("result").and_then(|r| r.as_str())\<close>\<close>

definition result_str :: "'f json \<Rightarrow> string option" where
  "result_str j = obind_opt (json_field j ''result'') as_str"

text \<open>\<open>client.post(url).json(body).send().await?.json().await?\<close>\<close>

definition call :: "('w, 'f) post \<Rightarrow> string \<Rightarrow> 'f json \<Rightarrow> ('w, client_error, 'f json) act" where
  "call post url body w = (case post url body w of (r, w') \<Rightarrow> (map_err HttpErr r, w'))"

definition hex_u64_or :: "u64 \<Rightarrow> string \<Rightarrow> u64" where
  "hex_u64_or d s = (case u64_from_str_radix (trim_start_matches ''0x'' s) 16 of None \<Rightarrow> d | Some n \<Rightarrow> n)"

text \<open>A node that cannot be reached or answers no text counts as chain 0x1e61, an unreadable text as 7777.\<close>

definition fetch_chain_id :: "('w, 'f) post \<Rightarrow> string \<Rightarrow> ('w, client_error, u64) act" where
  "fetch_chain_id post url w = (case post url (rpc_body ''eth_chainId'' []) w of (r, w') \<Rightarrow>
     (obind (ok_opt r) (\<lambda>j. Ok (hex_u64_or 7777 (unwrap_str ''0x1e61'' (obind_opt j result_str)))), w'))"

definition fetch_nonce :: "('w, 'f) post \<Rightarrow> string \<Rightarrow> string \<Rightarrow> ('w, client_error, u64) act" where
  "fetch_nonce post url from_a =
     abind (call post url (rpc_body ''eth_getTransactionCount'' [JString from_a, JString ''latest''])) (\<lambda>j.
     aret (hex_u64_or 0 (unwrap_str ''0x0'' (result_str j))))"

definition error_message :: "'f json \<Rightarrow> string option" where
  "error_message e = obind_opt (json_field e ''message'') as_str"

section \<open>The faucet\<close>

definition faucet_amount :: "ext \<Rightarrow> string \<Rightarrow> (client_error, u256) outcome" where
  "faucet_amount X amount =
     (if starts_with ''0x'' amount
      then of_sum (\<lambda>_. ClientText ''invalid hex amount'') (u256_from_str_radix X (trim_start_matches ''0x'' amount) 16)
      else case u128_from_str_radix amount 10 of
          None \<Rightarrow> Err (ClientText ''invalid amount'')
        | Some n \<Rightarrow> Ok (ucast n))"

definition faucet_tx :: "u64 \<Rightarrow> address \<Rightarrow> u256 \<Rightarrow> u64 \<Rightarrow> transaction" where
  "faucet_tx nce to_a v cid = \<lparr>t_nonce = nce, t_gas_price = 0, t_gas_limit = 21000, t_to = Some to_a,
     t_value = v, t_data = [], t_chain_id = cid\<rparr>"

definition faucet_reply :: "'f json \<Rightarrow> string" where
  "faucet_reply j = (case result_str j of
       Some s \<Rightarrow> s
     | None \<Rightarrow> unwrap_str ''error'' (obind_opt (json_field j ''error'') error_message))"

definition run_faucet ::
  "('w, 'f) post \<Rightarrow> wallet_ext \<Rightarrow> ext \<Rightarrow> string option \<Rightarrow> string \<Rightarrow> string \<Rightarrow> ('w, client_error, string) act" where
  "run_faucet post W X env to_s amount = (let url = rpc_url env in
     abind (fetch_chain_id post url) (\<lambda>cid.
     abind (alift (devnet_faucet_keypair W)) (\<lambda>kp.
     abind (fetch_nonce post url (hex_address X kp)) (\<lambda>nce.
     abind (alift (faucet_amount X amount)) (\<lambda>value_wei.
     abind (alift (map_err ClientWallet
       (address_from_str W (if starts_with ''0x'' to_s then to_s else ''0x'' @ to_s)))) (\<lambda>to_a.
     abind (alift (map_err ClientWallet (sign_transaction W X (faucet_tx nce to_a value_wei cid) kp))) (\<lambda>signed.
     abind (alift (to_legacy_rlp X signed)) (\<lambda>raw.
     abind (call post url (rpc_body ''eth_sendRawTransaction'' [JString (hex_data X raw)])) (\<lambda>j.
     aret (''Faucet sent '' @ dec (unat value_wei) @ '' wei to '' @ to_s @ ''. Tx hash: '' @
       faucet_reply j @ newline))))))))))"

section \<open>The wallet\<close>

datatype wallet_sub =
    WalletNew
  | WalletBalance string
  | WalletSend string string "string option" u32

definition is_hexdigit :: "char \<Rightarrow> bool" where
  "is_hexdigit c \<longleftrightarrow> digit_value 16 c \<noteq> None"

definition send_amount :: "ext \<Rightarrow> string \<Rightarrow> (client_error, u256) outcome" where
  "send_amount X amount =
     (if list_all is_hexdigit (trim_start_matches ''0x'' amount)
      then of_sum (\<lambda>_. ClientText ''invalid hex value'') (u256_from_str_radix X (trim_start_matches ''0x'' amount) 16)
      else case u128_from_str_radix amount 10 of
          None \<Rightarrow> Err (ClientText ''invalid amount'')
        | Some n \<Rightarrow> Ok (ucast n))"

definition send_reply :: "'f json \<Rightarrow> string" where
  "send_reply j = (case result_str j of
       Some s \<Rightarrow> s
     | None \<Rightarrow> (case json_field j ''error'' of
           None \<Rightarrow> ''unknown''
         | Some e \<Rightarrow> unwrap_str ''error'' (error_message e)))"

definition wallet_balance :: "('w, 'f) post \<Rightarrow> string option \<Rightarrow> string \<Rightarrow> ('w, client_error, string) act" where
  "wallet_balance post env addr =
     abind (call post (rpc_url env) (rpc_body ''eth_getBalance'' [JString addr, JString ''latest''])) (\<lambda>j.
     aret (''Balance: '' @ unwrap_str ''0x0'' (result_str j) @ newline))"

definition wallet_send ::
  "('w, 'f) post \<Rightarrow> wallet_ext \<Rightarrow> ext \<Rightarrow> string option \<Rightarrow> string \<Rightarrow> string \<Rightarrow> string option \<Rightarrow> u32 \<Rightarrow>
    ('w, client_error, string) act" where
  "wallet_send post W X env to_s amount phrase_opt index = (let url = rpc_url env in case phrase_opt of
       None \<Rightarrow> afail (ClientText ''wallet send requires --mnemonic'')
     | Some phrase \<Rightarrow>
     abind (fetch_chain_id post url) (\<lambda>cid.
     abind (alift (map_err ClientWallet (address_for_mnemonic W X phrase index))) (\<lambda>from_a.
     abind (fetch_nonce post url from_a) (\<lambda>nce.
     abind (alift (send_amount X amount)) (\<lambda>value_wei.
     abind (alift (map_err ClientWallet (run_sign_tx W X nce ''0x0'' 21000 (Some to_s)
       (quantity value_wei) '''' cid phrase index))) (\<lambda>signed_bytes.
     abind (call post url (rpc_body ''eth_sendRawTransaction'' [JString (hex_data X signed_bytes)])) (\<lambda>j.
     aret (''Tx hash: '' @ send_reply j @ newline))))))))"

definition run_wallet ::
  "('w, 'f) post \<Rightarrow> wallet_ext \<Rightarrow> ext \<Rightarrow> string option \<Rightarrow> bytes \<Rightarrow> wallet_sub \<Rightarrow> ('w, client_error, string) act" where
  "run_wallet post W X env entropy sub = (case sub of
       WalletNew \<Rightarrow> alift (map_err ClientWallet (run_new W X entropy))
     | WalletBalance addr \<Rightarrow> wallet_balance post env addr
     | WalletSend to_s amount phrase_opt index \<Rightarrow> wallet_send post W X env to_s amount phrase_opt index)"

end
