(* ===== verification/Quyn_Bincode.thy ===== *)
theory Quyn_Bincode
  imports Quyn_Transaction
begin

text \<open>
  core/src/transaction.rs, what \<open>#[derive(Serialize, Deserialize)]\<close> makes of the two structures with bincode: the
  fields one after the other, in the order of the declaration. The last field, \<open>hash_override\<close>, has the attributes
  \<open>default\<close> and \<open>skip_serializing_if = "Option::is_none"\<close>: without a hash nothing is written for it, but
  bincode does not mark fields, so the reader always expects the tag of the option. The encodings
  of the fields' types are bincode's and alloy's: the parameter \<open>B\<close>.
\<close>

section \<open>Encodings of the fields\<close>

type_synonym 'a reader = "bytes \<Rightarrow> string + 'a \<times> bytes"

record bincode =
  bc_u8 :: "u8 \<Rightarrow> bytes"            rd_u8 :: "u8 reader"
  bc_u64 :: "u64 \<Rightarrow> bytes"          rd_u64 :: "u64 reader"
  bc_u256 :: "u256 \<Rightarrow> bytes"        rd_u256 :: "u256 reader"
  bc_address :: "address \<Rightarrow> bytes"  rd_address :: "address reader"
  bc_vec :: "bytes \<Rightarrow> bytes"        rd_vec :: "bytes reader"
  bc_array :: "b256 \<Rightarrow> bytes"       rd_array :: "b256 reader"
  bc_b256 :: "b256 \<Rightarrow> bytes"        rd_b256 :: "b256 reader"
  bc_eof :: string                  bc_bad_tag :: "u8 \<Rightarrow> string"

text \<open>bincode reads back what it writes, whatever follows; integers are written with the lowest byte
  first; reading a byte at the end of the input fails.\<close>

locale bincode_format =
  fixes B :: bincode
  assumes read_u8: "rd_u8 B (bc_u8 B x @ r) = Inr (x, r)"
    and read_u64: "rd_u64 B (bc_u64 B n @ r) = Inr (n, r)"
    and read_u256: "rd_u256 B (bc_u256 B u @ r) = Inr (u, r)"
    and read_address: "rd_address B (bc_address B a @ r) = Inr (a, r)"
    and read_vec: "length v < 2 ^ 64 \<Longrightarrow> rd_vec B (bc_vec B v @ r) = Inr (v, r)"
    and read_array: "rd_array B (bc_array B h @ r) = Inr (h, r)"
    and read_b256: "rd_b256 B (bc_b256 B h @ r) = Inr (h, r)"
    and read_end: "rd_u8 B [] = Inl (bc_eof B)"
    and little_endian: "bc_u64 B n = rev (u64_be n)"

definition rbind :: "'a reader \<Rightarrow> ('a \<Rightarrow> 'b reader) \<Rightarrow> 'b reader" where
  "rbind m f bs = (case m bs of Inl e \<Rightarrow> Inl e | Inr (x, rest) \<Rightarrow> f x rest)"

definition rret :: "'a \<Rightarrow> 'a reader" where
  "rret x bs = Inr (x, bs)"

text \<open>\<open>Option\<close>: a tag, then the content.\<close>

definition ser_option :: "bincode \<Rightarrow> ('a \<Rightarrow> bytes) \<Rightarrow> 'a option \<Rightarrow> bytes" where
  "ser_option B f x = (case x of None \<Rightarrow> bc_u8 B 0 | Some y \<Rightarrow> bc_u8 B 1 @ f y)"

definition de_option :: "bincode \<Rightarrow> 'a reader \<Rightarrow> 'a option reader" where
  "de_option B m = rbind (rd_u8 B) (\<lambda>tag.
     if tag = 0 then rret None
     else if tag = 1 then rbind m (\<lambda>x. rret (Some x))
     else (\<lambda>_. Inl (bc_bad_tag B tag)))"

section \<open>Transactions\<close>

definition ser_transaction :: "bincode \<Rightarrow> transaction \<Rightarrow> bytes" where
  "ser_transaction B t = bc_u64 B (t_nonce t) @ bc_u256 B (t_gas_price t) @ bc_u64 B (t_gas_limit t) @
     ser_option B (bc_address B) (t_to t) @ bc_u256 B (t_value t) @ bc_vec B (t_data t) @ bc_u64 B (t_chain_id t)"

definition de_transaction :: "bincode \<Rightarrow> transaction reader" where
  "de_transaction B =
     rbind (rd_u64 B) (\<lambda>nonce. rbind (rd_u256 B) (\<lambda>gas_price. rbind (rd_u64 B) (\<lambda>gas_limit.
     rbind (de_option B (rd_address B)) (\<lambda>to_a. rbind (rd_u256 B) (\<lambda>value.
     rbind (rd_vec B) (\<lambda>data. rbind (rd_u64 B) (\<lambda>chain_id.
     rret \<lparr>t_nonce = nonce, t_gas_price = gas_price, t_gas_limit = gas_limit, t_to = to_a, t_value = value,
       t_data = data, t_chain_id = chain_id\<rparr>)))))))"

text \<open>The field \<open>hash_override\<close> is skipped when it is \<open>None\<close>; reading does not know.\<close>

definition ser_signed :: "bincode \<Rightarrow> signed_transaction \<Rightarrow> bytes" where
  "ser_signed B st = ser_transaction B (st_tx st) @ bc_array B (st_r st) @ bc_array B (st_s st) @ bc_u8 B (st_v st) @
     (case st_hash_override st of None \<Rightarrow> [] | Some h \<Rightarrow> ser_option B (bc_b256 B) (Some h))"

definition read_signed :: "bincode \<Rightarrow> signed_transaction reader" where
  "read_signed B =
     rbind (de_transaction B) (\<lambda>t. rbind (rd_array B) (\<lambda>r. rbind (rd_array B) (\<lambda>s. rbind (rd_u8 B) (\<lambda>v.
     rbind (de_option B (rd_b256 B)) (\<lambda>h.
     rret \<lparr>st_tx = t, st_r = r, st_s = s, st_v = v, st_hash_override = h\<rparr>)))))"

text \<open>\<open>bincode::deserialize\<close> ignores what follows.\<close>

definition de_signed :: "bincode \<Rightarrow> bytes \<Rightarrow> string + signed_transaction" where
  "de_signed B bs = (case read_signed B bs of Inl e \<Rightarrow> Inl e | Inr (st, _) \<Rightarrow> Inr st)"

context bincode_format
begin

lemmas reads = rbind_def rret_def read_u8 read_u64 read_u256 read_address read_vec read_array read_b256

lemma read_option: "(\<And>y. m (f y @ r) = Inr (y, r)) \<Longrightarrow> de_option B m (ser_option B f x @ r) = Inr (x, r)"
  by (cases x) (simp_all add: de_option_def ser_option_def reads)

lemma read_transaction:
  "length (t_data t) < 2 ^ 64 \<Longrightarrow> de_transaction B (ser_transaction B t @ r) = Inr (t, r)"
  by (cases t) (simp add: de_transaction_def ser_transaction_def reads read_option)

text \<open>With a hash the transaction comes back; without one the reader runs out of input.\<close>

lemma signed_roundtrip:
  assumes "st_hash_override st = Some h" and "length (t_data (st_tx st)) < 2 ^ 64"
  shows "de_signed B (ser_signed B st) = Inr st"
  using assms read_option [of "rd_b256 B" "bc_b256 B" "[]" "Some h"] read_b256 [of _ "[]"]
  by (cases st) (simp add: de_signed_def read_signed_def ser_signed_def reads read_transaction)

lemma signed_without_hash:
  assumes "st_hash_override st = None" and "length (t_data (st_tx st)) < 2 ^ 64"
  shows "de_signed B (ser_signed B st) = Inl (bc_eof B)"
  using assms read_u8 [of _ "[]"]
  by (cases st) (simp add: de_signed_def read_signed_def ser_signed_def reads read_transaction de_option_def read_end)

text \<open>The form starts with the bytes of the nonce.\<close>

lemma signed_head:
  assumes "unat (t_nonce (st_tx st)) < 256"
  shows "\<exists>rest. ser_signed B st = of_nat (unat (t_nonce (st_tx st))) # 0 # 0 # rest"
proof -
  have "u64_be (t_nonce (st_tx st)) = replicate 7 0 @ [of_nat (unat (t_nonce (st_tx st)))]"
    using be_nat_small [OF assms, of 7] by (simp add: u64_be_def)
  then show ?thesis by (simp add: ser_signed_def ser_transaction_def little_endian numeral_eq_Suc)
qed

end

section \<open>A reference encoding\<close>

text \<open>Fixed widths, with the length in front of a vector.\<close>

definition fixed_reader :: "nat \<Rightarrow> (bytes \<Rightarrow> 'a) \<Rightarrow> 'a reader" where
  "fixed_reader n f bs = (if length bs < n then Inl ''io error: '' else Inr (f (take n bs), drop n bs))"

lemma fixed_reader_append: "length xs = n \<Longrightarrow> fixed_reader n f (xs @ r) = Inr (f xs, r)"
  by (simp add: fixed_reader_def)

definition ref_bincode :: bincode where
  "ref_bincode = \<lparr>bc_u8 = (\<lambda>x. [x]), rd_u8 = fixed_reader 1 hd,
     bc_u64 = (\<lambda>n. rev (u64_be n)), rd_u64 = fixed_reader 8 (\<lambda>bs. of_be (rev bs)),
     bc_u256 = u256_be, rd_u256 = fixed_reader 32 of_be,
     bc_address = address_bytes, rd_address = fixed_reader 20 of_be,
     bc_vec = (\<lambda>v. rev (u64_be (of_nat (length v))) @ v),
     rd_vec = rbind (fixed_reader 8 (\<lambda>bs. unat (of_be (rev bs) :: u64))) (\<lambda>n. fixed_reader n id),
     bc_array = b256_bytes, rd_array = fixed_reader 32 of_be,
     bc_b256 = b256_bytes, rd_b256 = fixed_reader 32 of_be,
     bc_eof = ''io error: '', bc_bad_tag = (\<lambda>_. ''tag for enum is not valid'')\<rparr>"

interpretation ref_bincode: bincode_format ref_bincode
proof
  show "rd_vec ref_bincode (bc_vec ref_bincode v @ r) = Inr (v, r)" if "length v < 2 ^ 64" for v r
  proof -
    have "unat (of_nat (length v) :: u64) = length v" using that by (simp add: unat_of_nat)
    then show ?thesis by (simp add: ref_bincode_def rbind_def fixed_reader_append)
  qed
qed (simp_all add: ref_bincode_def fixed_reader_append fixed_reader_def)

end
