(* ===== verification/Quyn_ClientLaws.thy ===== *)
theory Quyn_ClientLaws
  imports Quyn_Client Quyn_Bincode
begin

text \<open>
  The clients against the server: what the faucet and the wallet achieve at a node that runs the
  modelled server, and how they read amounts.
\<close>

section \<open>Amounts\<close>

lemma from_str_radix_dec: "n < 2 ^ w \<Longrightarrow> from_str_radix w 10 (dec n) = Some n"
proof -
  assume n: "n < 2 ^ w"
  obtain c t where s: "dec n = c # t"
    using radix_string_nonempty unfolding dec_def by (metis neq_Nil_conv)
  have "c \<in> set (radix_string 16 (read_as_hex n))"
    using s by (simp add: dec_is_lower_hex lower_hex_def)
  with radix_string_digits obtain d where "d < 16" "c = digit_char d" by blast
  then have "c \<noteq> CHR ''+''" using digit_char_not_plus by simp
  with s n digits_value_radix_string [of 10 n] show ?thesis
    by (simp add: from_str_radix_def dec_def)
qed

lemma dec_no_prefix: "\<not> starts_with ''0x'' (dec n)"
  by (simp add: dec_is_lower_hex lower_hex_no_prefix)

lemma faucet_amount_dec: "n < 2 ^ 128 \<Longrightarrow> faucet_amount X (dec n) = Ok (of_nat n)"
  by (simp add: faucet_amount_def dec_no_prefix u128_from_str_radix_def from_str_radix_dec
      unsigned_of_nat take_bit_nat_eq_self)

section \<open>A node behind the client\<close>

text \<open>The server answers at the other end; a panicking handler drops the connection.\<close>

definition server_post ::
  "('d, 'f) rpc_crates \<Rightarrow> nat \<Rightarrow> u64 \<Rightarrow> string \<Rightarrow> (('d, 'f) app_state, 'f) post" where
  "server_post E t secs ip url body app = (case jsonrpc_handler E t secs ip body app of (r, app') \<Rightarrow>
     (case r of Ok (status, reply) \<Rightarrow> Ok reply | Err e \<Rightarrow> Err ''connection closed''
      | Panic \<Rightarrow> Err ''connection closed'' | Diverge \<Rightarrow> Diverge, app'))"

definition requests_of :: "nat \<Rightarrow> nat \<Rightarrow> (u32 \<times> nat) option" where
  "requests_of t n = (if n = 0 then None else Some (of_nat n, t))"

lemma rate_limit_pass:
  assumes "lr ip = requests_of t n" and "n < 100"
  shows "rate_limit t ip lr = (Ok (False, lr(ip := requests_of t (Suc n))) :: ('e, _) outcome)"
proof (cases "n = 0")
  case True
  then show ?thesis using assms by (simp add: rate_limit_def requests_of_def chk_add_def RATE_LIMIT_PER_SEC_def)
next
  case False
  have "n < 2 ^ 32" using assms(2) by simp
  then have u: "unat (of_nat n :: u32) = n" by (simp add: unsigned_of_nat take_bit_nat_eq_self)
  then have "unat (of_nat n + 1 :: u32) = Suc n" using assms(2) by (simp add: unat_word_ariths)
  then have "\<not> RATE_LIMIT_PER_SEC < of_nat n + 1" using assms(2) by (simp add: RATE_LIMIT_PER_SEC_def word_less_nat_alt)
  moreover have "chk_add (of_nat n) 1 = (Ok (of_nat (Suc n)) :: ('e, u32) outcome)"
    using u assms(2) by (simp add: chk_add_def add.commute [of 1])
  moreover have "lr ip = Some (of_nat n, t)" using False assms(1) by (simp add: requests_of_def)
  ultimately show ?thesis by (simp add: rate_limit_def requests_of_def add.commute [of 1])
qed

text \<open>The server after \<open>n\<close> counted requests.\<close>

definition counted :: "('d, 'f) app_state \<Rightarrow> nat \<Rightarrow> string \<Rightarrow> nat \<Rightarrow> ('d, 'f) app_state" where
  "counted app t ip n = app\<lparr>as_rate_limiter := (as_rate_limiter app)(ip := requests_of t n)\<rparr>"

lemma counted_simps [simp]:
  "as_chain (counted app t ip n) = as_chain app" "as_state (counted app t ip n) = as_state app"
  "as_mempool (counted app t ip n) = as_mempool app" "as_chain_id (counted app t ip n) = as_chain_id app"
  by (simp_all add: counted_def)

lemma counted_0: "as_rate_limiter app ip = None \<Longrightarrow> counted app t ip 0 = app"
  by (cases app) (auto simp: counted_def requests_of_def)

lemma server_call:
  assumes "n < 100" and "dispatch E secs method (JArray ps) (counted app t ip (Suc n)) = (r, app')"
    and "early r = Ok v"
  shows "server_post E t secs ip url (rpc_body method ps) (counted app t ip n) =
    (Ok (envelope (Some (JInt 1)) v), app')"
proof -
  have "rate_limit t ip (as_rate_limiter (counted app t ip n)) =
      (Ok (False, as_rate_limiter (counted app t ip (Suc n))) :: (unit, _) outcome)"
    by (simp add: counted_def rate_limit_pass [where n = n] assms(1))
  with assms(2,3) show ?thesis
    by (simp add: server_post_def jsonrpc_handler_def rpc_body_def unwrap_str_def) (simp add: counted_def)
qed

lemma result_str_envelope: "result_str (envelope rid (JString s)) = Some s"
  by (simp add: result_str_def envelope_def)

lemma dispatch_reader:
  "map_of (writers E) method = None \<Longrightarrow> map_of (readers E secs) method = Some h \<Longrightarrow>
    dispatch E secs method params app = (h app params, app)"
  by (simp add: dispatch_def aread_def)

lemma dispatch_chain_id: "dispatch E secs ''eth_chainId'' ps app = (Ok (JString (quantity (as_chain_id app))), app)"
  by (rule trans [OF dispatch_reader]) (simp_all add: writers_def readers_def Let_def)

lemma dispatch_nonce:
  "dispatch E secs ''eth_getTransactionCount'' ps app = (eth_get_transaction_count (rc_kv E) (rc_ext E) (as_state app) ps, app)"
  by (rule trans [OF dispatch_reader]) (simp_all add: writers_def readers_def Let_def)

lemma dispatch_send:
  "dispatch E secs ''eth_sendRawTransaction'' ps =
     eth_send_raw_transaction (rc_kv E) (rc_ext E) (rc_de_tx E) (rc_rank E) ps"
  by (simp add: fun_eq_iff dispatch_def writers_def Let_def)

lemma hex_u64_or_quantity: "hex_u64_or d (quantity (n :: u64)) = n"
  using unat_less [of n]
  by (simp add: hex_u64_or_def quantity_def trim_hex_prefix u64_from_str_radix_def from_str_radix_lower_hex del: append_Cons)

section \<open>The faucet\<close>

lemma faucet_key:
  "devnet_faucet_keypair W = (Ok kp :: ('e, key_pair) outcome) \<longleftrightarrow>
     from_secret W ([0xde, 0xad, 0xbe, 0xef, 0x11] @ replicate 27 0) = Ok kp"
  by (simp add: devnet_faucet_keypair_def split: outcome.splits)

lemma to_legacy_rlp_any:
  "to_legacy_rlp X st = (Ok raw :: ('a, bytes) outcome) \<Longrightarrow> to_legacy_rlp X st = (Ok raw :: ('b, bytes) outcome)"
  by (auto simp: to_legacy_rlp_def v_eip155_def chk_mul_def chk_add_def obind_eq_Ok split: if_splits)

text \<open>The transaction of the faucet passes the checks of the server.\<close>

lemma faucet_tx_valid:
  assumes "state_store K contents X" and "state_wf X (contents s)" and "sender X st = Ok fa"
    and "st_tx st = faucet_tx (sv_nonce (view_of X (contents s)) fa) a v cid"
    and "v \<le> sv_balance (view_of X (contents s)) fa"
  shows "validate_tx_basic X st cid = Ok ()" and "validate_tx_against_state K X st s = Ok ()"
proof -
  have acc: "chain_id st = cid" "nonce st = sv_nonce (view_of X (contents s)) fa" "tx_value st = v" "gas_price st = 0"
    using assms(4) by (simp_all add: accessor_defs nonce_def faucet_tx_def)
  then show "validate_tx_basic X st cid = Ok ()" using assms(3) by (simp add: validate_tx_basic_def)
  have "unat (tx_cost st) = unat v" using acc unat_less [of v] by (simp add: tx_cost_def unat_sat_add unat_sat_mul)
  then have "tx_cost st = v" by (simp add: word_unat_eq_iff)
  then show "validate_tx_against_state K X st s = Ok ()"
    using assms(3,5) acc by (simp add: validate_tx_against_state_def Let_def
        state_store.get_balance_view [OF assms(1,2)] state_store.get_nonce_view [OF assms(1,2)])
qed

lemma nonce_query:
  assumes "state_store K contents X" and "state_wf X (contents s)"
  shows "eth_get_transaction_count K X s (JArray (JString (hex_data X (address_bytes a)) # ps)) =
    Ok (JString (quantity (sv_nonce (view_of X (contents s)) a)))"
proof -
  have h: "hex_crate X" using assms(1) by (rule state_store.axioms(2))
  have "param_address X (JArray (JString (hex_data X (address_bytes a)) # ps)) = (Ok a :: ('b, address) handler)"
    using hex_crate.hex_roundtrip [OF h, of "address_bytes a"] trim_hex_encoded [OF h, of "address_bytes a"]
    by (simp add: param_address_def param_str_def rpc_parse_address_def unwrap_str_def)
  then show ?thesis
    by (simp add: eth_get_transaction_count_def require_param_string_def require_param_count_def
        require_params_array_def param_str_def state_store.get_nonce_view [OF assms])
qed

lemma chain_id_fetched:
  assumes "as_rate_limiter app ip = None"
  shows "fetch_chain_id (server_post E t secs ip) url app = (Ok (as_chain_id app), counted app t ip (Suc 0))"
proof -
  have "fetch_chain_id (server_post E t secs ip) url (counted app t ip 0) = (Ok (as_chain_id app), counted app t ip (Suc 0))"
    by (simp add: fetch_chain_id_def server_call [OF _ dispatch_chain_id] result_str_envelope unwrap_str_def
        hex_u64_or_quantity)
  then show ?thesis by (simp add: counted_0 assms)
qed

lemma nonce_fetched:
  assumes "state_store (rc_kv E) contents (rc_ext E)" and "state_wf (rc_ext E) (contents (as_state app))"
  shows "fetch_nonce (server_post E t secs ip) url (hex_address (rc_ext E) kp) (counted app t ip (Suc 0)) =
    (Ok (sv_nonce (view_of (rc_ext E) (contents (as_state app))) (kp_address (rc_ext E) kp)), counted app t ip 2)"
proof -
  let ?a = "hex_address (rc_ext E) kp"
  have "dispatch E secs ''eth_getTransactionCount'' (JArray [JString ?a, JString ''latest'']) (counted app t ip (Suc (Suc 0))) =
      (Ok (JString (quantity (sv_nonce (view_of (rc_ext E) (contents (as_state app))) (kp_address (rc_ext E) kp)))),
       counted app t ip (Suc (Suc 0)))"
    using nonce_query [OF assms, of "kp_address (rc_ext E) kp" "[JString ''latest'']"]
    by (simp add: dispatch_nonce hex_address_def hex_data_def)
  from server_call [OF _ this] show ?thesis
    by (simp add: fetch_nonce_def call_def result_str_envelope unwrap_str_def hex_u64_or_quantity numeral_2_eq_2 aret_def)
qed

text \<open>C24: the faucet pays out: against a server with a fresh pool on a state in which the faucet has
  the amount, the command with a decimal amount succeeds and prints the hash of the transaction
  it made, and the pool of the server then holds a transaction under this hash that is sent by
  the faucet, carries exactly the amount to the given address, and has the account's nonce and
  the server's chain id.\<close>

theorem faucet_pays_out:
  fixes E :: "('d, 'f) rpc_crates"
  assumes "state_store K contents X" and "rlp_crate X" and "ecdsa_crate X W" and "K = rc_kv E" and "X = rc_ext E"
    and "state_wf X (contents (as_state app))"
    and "devnet_faucet_keypair W = (Ok kp :: (client_error, key_pair) outcome)" and "fa = kp_address X kp"
    and "parse_address_str W to_s = Inr a" and "starts_with ''0x'' to_s" and "n < 2 ^ 128"
    and "n \<le> unat (sv_balance (view_of X (contents (as_state app))) fa)"
    and "unat (as_chain_id app) < 2 ^ 62" and "as_rate_limiter app ip = None"
    and "as_mempool app = with_capacity k" and "0 < k"
    and "sign_transaction W X (faucet_tx (sv_nonce (view_of X (contents (as_state app))) fa) a (of_nat n)
      (as_chain_id app)) kp = Ok st" and "st_v st \<in> {0, 1}"
  shows "\<exists>app' h t. run_faucet (server_post E secs_ns secs ip) W X env to_s (dec n) app =
      (Ok (''Faucet sent '' @ dec n @ '' wei to '' @ to_s @ ''. Tx hash: '' @ hex_data X (b256_bytes h) @ newline), app') \<and>
    get_by_hash (as_mempool app') h = Ok (Some t) \<and> sender X t = Ok fa \<and>
    st_tx t = faucet_tx (sv_nonce (view_of X (contents (as_state app))) fa) a (of_nat n) (as_chain_id app)"
proof -
  let ?nce = "sv_nonce (view_of X (contents (as_state app))) fa" and ?post = "server_post E secs_ns secs ip"
  let ?at = "counted app secs_ns ip"
  have n256: "n < 2 ^ 256" using assms(11) by (rule order.strict_trans) simp
  then have un: "unat (of_nat n :: u256) = n" by (simp add: unsigned_of_nat take_bit_nat_eq_self)
  have hex: "hex_crate X" using assms(1) by (rule state_store.axioms(2))
  from ecdsa_crate.sign_recovers [OF assms(3) assms(7) [unfolded faucet_key] assms(17)]
  have st: "st_tx st = faucet_tx ?nce a (of_nat n) (as_chain_id app)" "sender X st = Ok fa"
    by (simp_all add: assms(8))
  have v: "st_v st \<in> {0, 1, 27, 28}" and cid: "unat (chain_id st) < 2 ^ 62"
    using assms(13,18) st(1) by (auto simp: chain_id_def faucet_tx_def)
  obtain raw where raw: "to_legacy_rlp X st = (Ok raw :: bytes parse_result)"
    using parse_to_legacy_rlp [OF assms(2) cid v] by blast
  have le: "of_nat n \<le> sv_balance (view_of X (contents (as_state app))) fa"
    using assms(12) un by (simp add: word_le_nat_alt)
  note ok = faucet_tx_valid [OF assms(1,6) st(2,1) le]
  have "\<exists>app3 t. eth_send_raw_transaction K X (rc_de_tx E) (rc_rank E) (JArray [JString (hex_data X raw)]) (?at 3) =
      (Ok (JString (hex_data X (b256_bytes (keccak256 X raw)))), app3) \<and>
    get_by_hash (as_mempool app3) (keccak256 X raw) = Ok (Some t) \<and> st_tx t = st_tx st \<and> sender X t = Ok fa"
    by (rule legacy_raw_accepted [OF assms(2) hex cid v raw st(2)])
      (use ok assms(15,16) pool_run.new [of X k] in \<open>simp_all add: gap_exceeded_def pool_tx_def with_capacity_def pool_total_def\<close>)
  then obtain app3 t where sent: "eth_send_raw_transaction K X (rc_de_tx E) (rc_rank E) (JArray [JString (hex_data X raw)])
      (?at 3) = (Ok (JString (hex_data X (b256_bytes (keccak256 X raw)))), app3)"
    and t: "get_by_hash (as_mempool app3) (keccak256 X raw) = Ok (Some t)" "st_tx t = st_tx st" "sender X t = Ok fa"
    by blast
  have c1: "fetch_chain_id ?post (rpc_url env) app = (Ok (as_chain_id app), ?at (Suc 0))"
    by (rule chain_id_fetched) (rule assms(14))
  have c2: "fetch_nonce ?post (rpc_url env) (hex_address X kp) (?at (Suc 0)) = (Ok ?nce, ?at 2)"
    unfolding assms(4,5,8) by (rule nonce_fetched [OF assms(1,6) [unfolded assms(4,5)]])
  have c3: "call ?post (rpc_url env) (rpc_body ''eth_sendRawTransaction'' [JString (hex_data X raw)]) (?at 2) =
      (Ok (envelope (Some (JInt 1)) (JString (hex_data X (b256_bytes (keccak256 X raw))))), app3)"
    using server_call [OF _ trans [OF fun_cong [OF dispatch_send] sent [unfolded assms(4,5) numeral_3_eq_3]]]
    by (simp add: call_def assms(4,5) numeral_2_eq_2)
  have raw': "to_legacy_rlp X st = (Ok raw :: (client_error, bytes) outcome)"
    using raw by (rule to_legacy_rlp_any)
  have "run_faucet ?post W X env to_s (dec n) app =
      (Ok (''Faucet sent '' @ dec n @ '' wei to '' @ to_s @ ''. Tx hash: '' @ hex_data X (b256_bytes (keccak256 X raw)) @ newline), app3)"
    using assms(9,10)
    by (simp add: run_faucet_def Let_def c1 assms(7) abind_alift c2 faucet_amount_dec [OF assms(11)] assms(17) address_from_str_def
        raw' c3 un faucet_reply_def result_str_envelope aret_def)
  with t st(1) show ?thesis
    by (intro exI [of _ app3] exI [of _ "keccak256 X raw"] exI [of _ t] conjI) (simp_all only:)
qed

definition faucet_server :: "(mem_db, rat) app_state" where
  "faucet_server = serve_state [] (snd (set_balance mem_kv ref_ext 1682 30000 [])) (with_capacity 10) 7779 ref_f64"

theorem faucet_pays_out_witness:
  "\<exists>app' h t. run_faucet (server_post ref_crates 0 0 ''127.0.0.1'') ref_wallet ref_ext None ''0x05'' (dec 1000) faucet_server =
      (Ok (''Faucet sent '' @ dec 1000 @ '' wei to 0x05. Tx hash: '' @ hex_data ref_ext (b256_bytes h) @ newline), app') \<and>
    get_by_hash (as_mempool app') h = Ok (Some t) \<and> sender ref_ext t = Ok 1682 \<and> tx_value t = 1000 \<and> to_addr t = Some 5"
proof -
  let ?s = "as_state faucet_server"
  obtain kp where kp: "devnet_faucet_keypair (nc_wallet ref_node) = (Ok kp :: (client_error, key_pair) outcome)"
    "kp_address ref_ext kp = 1682" by (rule ref_node_faucet)
  have key: "devnet_faucet_keypair ref_wallet = (Ok kp :: (client_error, key_pair) outcome)"
    using kp(1) by (simp add: ref_node_def)
  have wf: "state_wf ref_ext (map_of ?s)"
    unfolding faucet_server_def serve_state_def by (simp add: mem_state.state_wf_writes(1))
  have bal: "sv_balance (view_of ref_ext (map_of ?s)) 1682 = 30000"
    by (simp add: faucet_server_def serve_state_def mem_state.set_balance_view)
  have non: "sv_nonce (view_of ref_ext (map_of ?s)) 1682 = 0"
    by (simp add: faucet_server_def serve_state_def mem_state.set_balance_view) (simp add: view_of_def)
  have sec: "kp_secret kp = [0xde, 0xad, 0xbe, 0xef, 0x11] @ replicate 27 0"
    using key by (auto simp: faucet_key from_secret_def obind_eq_Ok)
  then obtain st where st: "sign_transaction ref_wallet ref_ext (faucet_tx 0 5 (of_nat 1000) 7779) kp = Ok st" "st_v st = 0"
    by (simp add: sign_transaction_def sign_hash_def ref_wallet_def)
  have app: "as_chain_id faucet_server = 7779" "as_rate_limiter faucet_server ip = None"
    "as_mempool faucet_server = with_capacity 10" for ip
    by (simp_all add: faucet_server_def serve_state_def)
  have crates: "mem_kv = rc_kv ref_crates" "ref_ext = rc_ext ref_crates" by (simp_all add: ref_crates_def)
  have to5: "parse_address_str ref_wallet ''0x05'' = Inr 5" "starts_with ''0x'' ''0x05''"
    by (simp_all add: ref_wallet_def starts_with_def)
  obtain app' h t where r: "run_faucet (server_post ref_crates 0 0 ''127.0.0.1'') ref_wallet ref_ext None ''0x05'' (dec 1000)
      faucet_server = (Ok (''Faucet sent '' @ dec 1000 @ '' wei to '' @ ''0x05'' @ ''. Tx hash: '' @
        hex_data ref_ext (b256_bytes h) @ newline), app')"
    and t: "get_by_hash (as_mempool app') h = Ok (Some t)" "sender ref_ext t = Ok 1682" "st_tx t = faucet_tx 0 5 (of_nat 1000) 7779"
    using faucet_pays_out [OF mem_state.state_store_axioms ref_rlp.rlp_crate_axioms ref_ecdsa.ecdsa_crate_axioms
      crates wf key kp(2) [symmetric] to5, of 1000 "''127.0.0.1''" 10 st 0 0 None] app bal non st by auto
  from t(3) have "tx_value t = 1000" "to_addr t = Some 5" by (simp_all add: tx_value_def to_addr_def faucet_tx_def)
  with r t show ?thesis by (intro exI [of _ app'] exI [of _ h] exI [of _ t]) simp
qed

section \<open>The wallet\<close>

text \<open>The two clients disagree on decimal amounts: the wallet takes the digits for hexadecimal ones.\<close>

lemma digit_value_hex: "d < 16 \<Longrightarrow> is_hexdigit (digit_char d)"
  by (simp add: is_hexdigit_def digit_value_digit_char)

lemma trim_dec: "trim_start_matches ''0x'' (dec n) = dec n"
  by (rule trim_start_matches_id) (rule dec_no_prefix)

lemma send_amount_dec:
  assumes "radix_crate X" and "read_as_hex n < 2 ^ 256"
  shows "send_amount X (dec n) = Ok (of_nat (read_as_hex n))"
proof -
  have "list_all is_hexdigit (dec n)"
    using radix_string_digits digit_value_hex
    by (fastforce simp: dec_is_lower_hex lower_hex_def list_all_iff)
  moreover have "u256_from_str_radix X (dec n) 16 = Inr (of_nat (read_as_hex n))"
    using radix_crate.from_lower_hex [OF assms] by (simp add: dec_is_lower_hex)
  ultimately show ?thesis by (simp add: send_amount_def trim_dec)
qed

text \<open>The first byte of an RLP list is at least \<open>0xc0\<close>.\<close>

locale rlp_first_byte =
  fixes X :: ext
  assumes list_first: "rlp_is_list X bs \<Longrightarrow> 0xc0 \<le> hd bs"
begin

text \<open>A form that starts with a small number and a zero is neither of the two kinds the server reads itself.\<close>

lemma small_first_refused:
  assumes "n < 192" and "rest \<noteq> []"
  shows "parse_raw X de_tx (of_nat n # 0 # rest) =
    (if n = 2 then Err ''EIP-1559 expected RLP list'' else of_sum id (de_tx (of_nat n # 0 # rest)))"
proof -
  have u: "unat (of_nat n :: u8) = n" using assms(1) by (simp add: unsigned_of_nat take_bit_nat_eq_self)
  have l: "\<not> rlp_is_list X (of_nat n # 0 # rest)" "\<not> rlp_is_list X (0 # rest)"
    using list_first [of "of_nat n # 0 # rest"] list_first [of "0 # rest"] assms(1) u
    by (auto simp: word_le_nat_alt)
  have two: "(of_nat n :: u8) = 2 \<longleftrightarrow> n = 2" using u by auto
  have "2 \<le> length (0 # rest)" using assms(2) by (cases rest) auto
  then show ?thesis using assms(2)
    by (simp add: parse_raw_def two parse_eip1559_tx_def eip1559_payload_def l parse_legacy_tx_def Let_def
        split: sum.splits)
qed

end

interpretation ref_first: rlp_first_byte ref_ext
  by unfold_locales (simp add: ref_ext_def)

text \<open>What the wallet sends: the form of a transaction without a recorded hash and without data.\<close>

lemma sent_form:
  assumes "\<And>st. ser_tx W st = Inr (ser_signed B st)"
    and "run_sign_tx W X k gas_pr gas_lim to_str val_str '''' cid phrase index = Ok bs"
  shows "\<exists>st. bs = ser_signed B st \<and> st_hash_override st = None \<and> t_nonce (st_tx st) = k \<and> t_data (st_tx st) = []"
  using assms(2) by (auto simp: run_sign_tx_def sign_transaction_def obind_eq_Ok assms(1))

lemma send_raw_refused:
  assumes "hex_crate X" and "bs \<noteq> []" and "parse_raw X de_tx bs = Err e"
  shows "eth_send_raw_transaction K X de_tx rank (JArray [JString (hex_data X bs)]) app =
    (Err (error_value (''Failed to parse tx: '' @ e)), app)"
  by (simp add: eth_send_raw_transaction_def abind_alift decode_raw_hex [OF assms(1,2)] assms(3))

lemma send_reply_error: "send_reply (envelope rid (error_value m)) = m"
  by (simp add: send_reply_def result_str_def envelope_def error_value_def error_message_def unwrap_str_def)

text \<open>C40: a transfer by the wallet command never reaches the pool: it sends the bincode form of the
  transaction it signed, in which the missing hash is skipped, so that bincode runs out of input
  when the server reads it; the server answers with an error, the command prints the error as if it were
  a transaction hash and ends successfully, and nothing of the server but the count of requests has
  changed. For an account with the nonce 2 the form starts like an EIP-1559 transaction and the error is
  the one of that reader; from the nonce 192 on the form can start like an RLP list, which is left out.\<close>

theorem wallet_send_never_arrives:
  fixes E :: "('d, 'f) rpc_crates"
  assumes "state_store K contents X" and "radix_crate X" and "rlp_first_byte X" and "bincode_format B"
    and "K = rc_kv E" and "X = rc_ext E" and "\<And>st. ser_tx W st = Inr (ser_signed B st)" and "rc_de_tx E = de_signed B"
    and "state_wf X (contents (as_state app))" and "as_rate_limiter app ip = None"
    and "derive_keypair W phrase index = Ok kp" and "read_as_hex n < 2 ^ 256"
    and "k = sv_nonce (view_of X (contents (as_state app))) (kp_address X kp)" and "unat k < 192"
    and "run_sign_tx W X k ''0x0'' 21000 (Some to_s) (quantity (of_nat (read_as_hex n) :: u256)) ''''
      (as_chain_id app) phrase index = Ok bs"
  shows "\<exists>app'. run_wallet (server_post E t secs ip) W X env entropy (WalletSend to_s (dec n) (Some phrase) index) app =
      (Ok (''Tx hash: Failed to parse tx: '' @
        (if k = 2 then ''EIP-1559 expected RLP list'' else bc_eof B) @ newline), app') \<and>
    app' = app\<lparr>as_rate_limiter := as_rate_limiter app'\<rparr>"
proof -
  let ?post = "server_post E t secs ip" and ?e = "if k = 2 then ''EIP-1559 expected RLP list'' else bc_eof B"
  have hex: "hex_crate X" using assms(1) by (rule state_store.axioms(2))
  obtain st where st: "bs = ser_signed B st" "st_hash_override st = None" "t_nonce (st_tx st) = k" "t_data (st_tx st) = []"
    using sent_form [OF assms(7,15)] by blast
  then have eof: "de_signed B bs = Inl (bc_eof B)" by (simp add: bincode_format.signed_without_hash [OF assms(4)])
  obtain rest where "bs = of_nat (unat k) # 0 # 0 # rest"
    using bincode_format.signed_head [OF assms(4), of st] assms(14) by (auto simp: st(1,3))
  then obtain rest where bs: "bs = of_nat (unat k) # 0 # rest" "rest \<noteq> []" by blast
  have "unat k = 2 \<longleftrightarrow> k = 2" by (simp add: word_unat_eq_iff)
  then have refused: "parse_raw X (rc_de_tx E) bs = Err ?e"
    using rlp_first_byte.small_first_refused [OF assms(3,14) bs(2), of "rc_de_tx E", folded bs(1)]
    by (simp add: assms(8) eof)
  have d3: "dispatch E secs ''eth_sendRawTransaction'' (JArray [JString (hex_data X bs)]) (counted app t ip (Suc 2)) =
      (Err (error_value (''Failed to parse tx: '' @ ?e)), counted app t ip (Suc 2))"
    unfolding dispatch_send assms(6) [symmetric] by (rule send_raw_refused [OF hex _ refused]) (simp add: bs(1))
  have c1: "fetch_chain_id ?post (rpc_url env) app = (Ok (as_chain_id app), counted app t ip (Suc 0))"
    by (rule chain_id_fetched) (rule assms(10))
  have c2: "fetch_nonce ?post (rpc_url env) (hex_address X kp) (counted app t ip (Suc 0)) = (Ok k, counted app t ip 2)"
    unfolding assms(5,6,13) by (rule nonce_fetched [OF assms(1,9) [unfolded assms(5,6)]])
  have c3: "call ?post (rpc_url env) (rpc_body ''eth_sendRawTransaction'' [JString (hex_data X bs)]) (counted app t ip 2) =
      (Ok (envelope (Some (JInt 1)) (error_value (''Failed to parse tx: '' @ ?e))), counted app t ip (Suc 2))"
    using server_call [OF _ d3] by (simp add: call_def)
  have "run_wallet ?post W X env entropy (WalletSend to_s (dec n) (Some phrase) index) app =
      (Ok (''Tx hash: Failed to parse tx: '' @ ?e @ newline), counted app t ip (Suc 2))"
    using assms(15)
    by (simp add: run_wallet_def wallet_send_def Let_def c1 abind_alift address_for_mnemonic_def assms(11) c2
        send_amount_dec [OF assms(2,12)] c3 send_reply_error aret_def)
  then show ?thesis by (auto simp: counted_def)
qed

text \<open>The reference wallet and server with the reference encoding.\<close>

definition bincode_wallet :: wallet_ext where
  "bincode_wallet = ref_wallet\<lparr>ser_tx := (\<lambda>st. Inr (ser_signed ref_bincode st))\<rparr>"

definition bincode_server :: "(mem_db, rat) rpc_crates" where
  "bincode_server = ref_crates\<lparr>rc_de_tx := de_signed ref_bincode\<rparr>"

lemma ref_amount:
  assumes "n < 2 ^ 256"
  shows "parse_amount bincode_wallet ref_ext msg (''0x'' @ lower_hex n) = Ok (of_nat n)"
  using ref_radix.from_lower_hex [OF assms]
  by (simp add: parse_amount_def trim_hex_prefix del: append_Cons)

theorem wallet_send_never_arrives_witness:
  "\<exists>app'. run_wallet (server_post bincode_server 0 0 ''127.0.0.1'') bincode_wallet ref_ext None []
      (WalletSend ''0x05'' (dec 1000) (Some ''abandon about'') 0) faucet_server =
    (Ok (''Tx hash: Failed to parse tx: io error: '' @ newline), app') \<and>
    as_mempool app' = with_capacity 10"
proof -
  note wallet = bincode_wallet_def ref_wallet_def
  have wf: "state_wf ref_ext (map_of (as_state faucet_server))"
    unfolding faucet_server_def serve_state_def by (simp add: mem_state.state_wf_writes(1))
  have crates: "mem_kv = rc_kv bincode_server" "ref_ext = rc_ext bincode_server" "rc_de_tx bincode_server = de_signed ref_bincode"
    by (simp_all add: bincode_server_def ref_crates_def)
  have lr: "as_rate_limiter faucet_server ip = None" for ip by (simp add: faucet_server_def serve_state_def)
  have hexn: "read_as_hex 1000 = 4096" by (simp add: read_as_hex.simps)
  have zero: "''0x0'' = ''0x'' @ lower_hex 0"
    by code_simp
  have kp: "\<exists>kp. derive_keypair_for_chain bincode_wallet ''abandon about'' 0 cid = Ok kp \<and>
      from_secret bincode_wallet (kp_secret kp) = Ok kp" for cid
    by (simp add: derive_keypair_for_chain_def wallet from_secret_def)
  then obtain kp where kp0: "derive_keypair bincode_wallet ''abandon about'' 0 = Ok kp"
    unfolding derive_keypair_def by blast
  obtain kq where kq: "derive_keypair_for_chain bincode_wallet ''abandon about'' 0 (as_chain_id faucet_server) = Ok kq"
    "from_secret bincode_wallet (kp_secret kq) = Ok kq" using kp by blast
  have sign: "\<exists>st. sign_transaction bincode_wallet ref_ext tx kq = Ok st" for tx
    using kq(2) by (auto simp: sign_transaction_def sign_hash_def from_secret_def wallet split: if_splits)
  have addr: "address_from_str bincode_wallet ''0x05'' = Ok 5" by (simp add: address_from_str_def wallet)
  have ser: "ser_tx bincode_wallet st = Inr (ser_signed ref_bincode st)" for st by (simp add: bincode_wallet_def)
  have run: "\<exists>bs. run_sign_tx bincode_wallet ref_ext k ''0x0'' 21000 (Some ''0x05'') (quantity (of_nat 4096 :: u256)) ''''
      (as_chain_id faucet_server) ''abandon about'' 0 = Ok bs" for k
    using sign unfolding run_sign_tx_def kq(1) obind.simps option.case addr
    by (auto simp: zero ref_amount quantity_def ser obind_eq_Ok simp del: append_Cons)
  let ?k = "sv_nonce (view_of ref_ext (map_of (as_state faucet_server))) (kp_address ref_ext kp)"
  obtain bs where bs: "run_sign_tx bincode_wallet ref_ext ?k ''0x0'' 21000 (Some ''0x05'')
      (quantity (of_nat (read_as_hex 1000) :: u256)) '''' (as_chain_id faucet_server) ''abandon about'' 0 = Ok bs"
    using run [of ?k] by (auto simp: hexn)
  have k: "?k = 0"
    by (simp add: faucet_server_def serve_state_def mem_state.set_balance_view) (simp add: view_of_def)
  have "\<exists>app'. run_wallet (server_post bincode_server 0 0 ''127.0.0.1'') bincode_wallet ref_ext None []
      (WalletSend ''0x05'' (dec 1000) (Some ''abandon about'') 0) faucet_server =
    (Ok (''Tx hash: Failed to parse tx: '' @
      (if ?k = 2 then ''EIP-1559 expected RLP list'' else bc_eof ref_bincode) @ newline), app') \<and>
    app' = faucet_server\<lparr>as_rate_limiter := as_rate_limiter app'\<rparr>"
    by (rule wallet_send_never_arrives [OF mem_state.state_store_axioms ref_radix.radix_crate_axioms
        ref_first.rlp_first_byte_axioms ref_bincode.bincode_format_axioms crates(1,2) ser crates(3) wf lr kp0 _ refl _ bs])
      (simp_all add: hexn k)
  then obtain app' where app': "run_wallet (server_post bincode_server 0 0 ''127.0.0.1'') bincode_wallet ref_ext None []
      (WalletSend ''0x05'' (dec 1000) (Some ''abandon about'') 0) faucet_server =
    (Ok (''Tx hash: Failed to parse tx: io error: '' @ newline), app')"
    "app' = faucet_server\<lparr>as_rate_limiter := as_rate_limiter app'\<rparr>"
    by (auto simp: k ref_bincode_def)
  have "as_mempool app' = with_capacity 10"
    by (subst app'(2)) (simp add: faucet_server_def serve_state_def)
  with app'(1) show ?thesis by blast
qed

end
