(* ===== verification/Quyn_Reputation.thy ===== *)
theory Quyn_Reputation
  imports Quyn_Gas Quyn_Concentration
begin

text \<open>
  quyn-intelligence/src/reputation_db.rs and validator_scorer.rs: what is recorded about the
  blocks of a validator, and the reputation score computed from it. \<open>f64\<close> arithmetic is the
  argument \<open>F\<close>, the order of the records an argument. Lemmas: the counters count, an update
  touches one record, and the score lies between 0 and 1000 and is computed without a panic as
  long as the counters of faults are small.
\<close>

section \<open>Records\<close>

record 'f validator_record =
  vr_address :: address
  vr_total_blocks_proposed :: u64
  vr_total_blocks_missed :: u64
  vr_total_invalid_blocks :: u64
  vr_average_response_time_ms :: u64
  vr_last_seen_block :: u64
  vr_slash_count :: u32
  vr_uptime_percentage :: 'f
  vr_joined_block :: u64

type_synonym 'f reputation_database = "(address \<times> 'f validator_record) list"

definition new_reputation_database :: "'f reputation_database" where
  "new_reputation_database = []"

definition fresh_record :: "'f f64_ops \<Rightarrow> address \<Rightarrow> u64 \<Rightarrow> 'f validator_record" where
  "fresh_record F a n = \<lparr>vr_address = a, vr_total_blocks_proposed = 0, vr_total_blocks_missed = 0,
     vr_total_invalid_blocks = 0, vr_average_response_time_ms = 0, vr_last_seen_block = 0,
     vr_slash_count = 0, vr_uptime_percentage = f_lit F 0, vr_joined_block = n\<rparr>"

text \<open>A change of the entry of an address, which is made first when there is none.\<close>

definition entry_mut ::
  "'f f64_ops \<Rightarrow> address \<Rightarrow> u64 \<Rightarrow> ('f validator_record \<Rightarrow> 'f validator_record) \<Rightarrow>
    'f reputation_database \<Rightarrow> 'f reputation_database" where
  "entry_mut F a n f db =
     AList.update a (f (case map_of db a of None \<Rightarrow> fresh_record F a n | Some rec \<Rightarrow> rec)) db"

definition recompute_uptime :: "'f f64_ops \<Rightarrow> 'f validator_record \<Rightarrow> 'f validator_record" where
  "recompute_uptime F rec =
     (let total = sat_add (vr_total_blocks_proposed rec) (vr_total_blocks_missed rec)
      in rec\<lparr>vr_uptime_percentage := (if total = 0 then f_lit F 0
           else f_mul F (f_div F (f_of_u64 F (vr_total_blocks_proposed rec)) (f_of_u64 F total)) (f_lit F 100))\<rparr>)"

definition running_average :: "u64 \<Rightarrow> u64 \<Rightarrow> u64" where
  "running_average avg rt =
     (if avg = 0 then rt else ucast (((ucast avg :: u128) * 3 + ucast rt) div 4))"

definition update_proposed ::
  "'f f64_ops \<Rightarrow> address \<Rightarrow> u64 \<Rightarrow> u64 \<Rightarrow> 'f reputation_database \<Rightarrow> 'f reputation_database" where
  "update_proposed F a n response_time_ms = entry_mut F a n (\<lambda>rec. recompute_uptime F
     (rec\<lparr>vr_total_blocks_proposed := sat_add (vr_total_blocks_proposed rec) 1,
        vr_average_response_time_ms := running_average (vr_average_response_time_ms rec) response_time_ms,
        vr_last_seen_block := n\<rparr>))"

definition update_missed :: "'f f64_ops \<Rightarrow> address \<Rightarrow> u64 \<Rightarrow> 'f reputation_database \<Rightarrow> 'f reputation_database" where
  "update_missed F a n = entry_mut F a n (\<lambda>rec. recompute_uptime F
     (rec\<lparr>vr_total_blocks_missed := sat_add (vr_total_blocks_missed rec) 1, vr_last_seen_block := n\<rparr>))"

definition update_invalid :: "'f f64_ops \<Rightarrow> address \<Rightarrow> u64 \<Rightarrow> 'f reputation_database \<Rightarrow> 'f reputation_database" where
  "update_invalid F a n = entry_mut F a n (\<lambda>rec. recompute_uptime F
     (rec\<lparr>vr_total_invalid_blocks := sat_add (vr_total_invalid_blocks rec) 1, vr_last_seen_block := n\<rparr>))"

definition get_record :: "'f reputation_database \<Rightarrow> address \<Rightarrow> 'f validator_record option" where
  "get_record db a = map_of db a"

definition all_records :: "hash_order \<Rightarrow> 'f reputation_database \<Rightarrow> 'f validator_record list" where
  "all_records rank db = map snd (iter_order rank db)"

section \<open>The score\<close>

text \<open>Checked \<open>i32\<close> arithmetic, on the integers the words stand for, and the cast of a float.\<close>

definition chk_i32 :: "int \<Rightarrow> ('e, int) outcome" where
  "chk_i32 i = (if - (2 ^ 31) \<le> i \<and> i < 2 ^ 31 then Ok i else Panic)"

definition f_to_i32 :: "'f f64_ops \<Rightarrow> 'f \<Rightarrow> int" where
  "f_to_i32 F x = max (- (2 ^ 31)) (min (2 ^ 31 - 1) (f_to_int F x))"

definition u64_as_i32 :: "u64 \<Rightarrow> int" where
  "u64_as_i32 n = sint (ucast n :: 32 word)"

definition uptime_score :: "'f f64_ops \<Rightarrow> 'f validator_record \<Rightarrow> int" where
  "uptime_score F rec = f_to_i32 F (f_round F (f_mul F
     (f_clamp F (f_lit F 0) (f_lit F 100) (vr_uptime_percentage rec)) (f_lit F 2)))"

definition success_score :: "'f f64_ops \<Rightarrow> 'f validator_record \<Rightarrow> int" where
  "success_score F rec =
     (let total = sat_add (vr_total_blocks_proposed rec) (vr_total_blocks_missed rec)
      in if 0 < total
         then f_to_i32 F (f_round F (f_mul F
           (f_div F (f_of_u64 F (vr_total_blocks_proposed rec)) (f_of_u64 F total)) (f_lit F 200)))
         else 0)"

definition experience_bonus :: "'f validator_record \<Rightarrow> u64 \<Rightarrow> int" where
  "experience_bonus rec n =
     (if vr_joined_block rec < n
      then (let active_blocks = n - vr_joined_block rec
            in if 10000 < active_blocks then 100 else if 1000 < active_blocks then 50 else 0)
      else 0)"

definition response_score :: "'f validator_record \<Rightarrow> int" where
  "response_score rec = (let rt = vr_average_response_time_ms rec
     in if 0 < rt \<and> rt < 100 then 100 else if 100 \<le> rt \<and> rt < 500 then 50 else 0)"

definition recency_bonus :: "'f validator_record \<Rightarrow> u64 \<Rightarrow> int" where
  "recency_bonus rec n =
     (if vr_last_seen_block rec < n
      then (let diff = n - vr_last_seen_block rec in if diff \<le> 10 then 100 else if diff \<le> 100 then 50 else 0)
      else 0)"

definition calculate_score :: "'f f64_ops \<Rightarrow> 'f validator_record \<Rightarrow> u64 \<Rightarrow> ('e, u32) outcome" where
  "calculate_score F rec current_block =
     obind (chk_i32 (500 + uptime_score F rec)) (\<lambda>score.
     obind (chk_i32 (score + success_score F rec)) (\<lambda>score.
     obind (chk_i32 (u64_as_i32 (vr_total_invalid_blocks rec) * 50)) (\<lambda>invalid_penalty.
     obind (chk_i32 (score - min invalid_penalty 300)) (\<lambda>score.
     obind (chk_i32 (sint (vr_slash_count rec) * 100)) (\<lambda>slash_penalty.
     obind (chk_i32 (score - min slash_penalty 200)) (\<lambda>score.
     obind (chk_i32 (score + experience_bonus rec current_block)) (\<lambda>score.
     obind (chk_i32 (score + response_score rec)) (\<lambda>score.
     obind (chk_i32 (score + recency_bonus rec current_block)) (\<lambda>score.
     Ok (of_int (max 0 (min 1000 score))))))))))))"

section \<open>Laws of the score\<close>

lemma unat_widen [simp]: "unat (ucast (x :: u64) :: u128) = unat x"
  by transfer (simp add: take_bit_nat_def)

text \<open>
  What the score needs of \<open>f64\<close>: a percentage clamped to 0..100 and doubled rounds into 0..200,
  and so does a quotient of at most one times 200 (a NaN is cast to 0).
\<close>

locale f64_scores =
  fixes F :: "'f f64_ops"
  assumes clamped_percent: "0 \<le> f_to_int F (f_round F (f_mul F (f_clamp F (f_lit F 0) (f_lit F 100) x) (f_lit F 2)))"
      "f_to_int F (f_round F (f_mul F (f_clamp F (f_lit F 0) (f_lit F 100) x) (f_lit F 2))) \<le> 200"
    and quotient: "p \<le> t \<Longrightarrow> 0 < t \<Longrightarrow>
        0 \<le> f_to_int F (f_round F (f_mul F (f_div F (f_of_u128 F p) (f_of_u128 F t)) (f_lit F 200)))"
      "p \<le> t \<Longrightarrow> 0 < t \<Longrightarrow>
        f_to_int F (f_round F (f_mul F (f_div F (f_of_u128 F p) (f_of_u128 F t)) (f_lit F 200))) \<le> 200"
begin

lemma uptime_score_range: "0 \<le> uptime_score F rec" "uptime_score F rec \<le> 200"
  using clamped_percent [of "vr_uptime_percentage rec"] by (simp_all add: uptime_score_def f_to_i32_def)

lemma success_score_range: "0 \<le> success_score F rec" "success_score F rec \<le> 200"
proof -
  let ?p = "vr_total_blocks_proposed rec" and ?t = "sat_add (vr_total_blocks_proposed rec) (vr_total_blocks_missed rec)"
  have "?p \<le> ?t" using unat_less [of ?p] by (simp add: word_le_nat_alt unat_sat_add)
  then have "(ucast ?p :: u128) \<le> ucast ?t" by (simp add: word_le_nat_alt unat_widen)
  moreover have "0 < ?t \<Longrightarrow> 0 < (ucast ?t :: u128)" by (simp add: word_less_nat_alt unat_widen)
  ultimately show "0 \<le> success_score F rec" "success_score F rec \<le> 200"
    using quotient [of "ucast ?p" "ucast ?t"]
    by (auto simp: success_score_def Let_def f_to_i32_def f_of_u64_def)
qed

end

lemma experience_range: "0 \<le> experience_bonus rec n" "experience_bonus rec n \<le> 100"
  by (simp_all add: experience_bonus_def Let_def)

lemma response_range: "0 \<le> response_score rec" "response_score rec \<le> 100"
  by (simp_all add: response_score_def Let_def)

lemma recency_range: "0 \<le> recency_bonus rec n" "recency_bonus rec n \<le> 100"
  by (simp_all add: recency_bonus_def Let_def)

lemma sint_small: "unat (x :: 32 word) < 2 ^ 31 \<Longrightarrow> sint x = int (unat x)"
proof -
  assume "unat x < 2 ^ 31"
  then have "unat x < 2147483648" by simp
  then have "int (unat x) < 2147483648" by linarith
  then have "signed_take_bit 31 (uint x) = uint x"
    by (intro signed_take_bit_int_eq_self) (simp_all add: order.trans [OF _ uint_ge_0])
  then show ?thesis by (simp add: sint_uint)
qed

lemma u64_as_i32_small: "unat n < 2 ^ 31 \<Longrightarrow> u64_as_i32 n = int (unat n)"
proof -
  assume "unat n < 2 ^ 31"
  then have "unat (ucast n :: 32 word) = unat n" by (simp add: unsigned_ucast_eq take_bit_nat_eq_self)
  with \<open>unat n < 2 ^ 31\<close> show ?thesis by (simp add: u64_as_i32_def sint_small)
qed

lemma chk_i32_Ok: "- (2 ^ 31) \<le> i \<Longrightarrow> i < 2 ^ 31 \<Longrightarrow> chk_i32 i = Ok i"
  by (simp add: chk_i32_def)

lemma chk_i32_small: "- 10000 \<le> i \<Longrightarrow> i \<le> 10000 \<Longrightarrow> chk_i32 i = Ok i"
  by (simp add: chk_i32_def)

text \<open>The score before it is clamped, as a reader of the code would add it up.\<close>

definition score_sum :: "'f f64_ops \<Rightarrow> 'f validator_record \<Rightarrow> u64 \<Rightarrow> int" where
  "score_sum F rec n = 500 + uptime_score F rec + success_score F rec
     - min 300 (50 * int (unat (vr_total_invalid_blocks rec)))
     - min 200 (100 * int (unat (vr_slash_count rec)))
     + experience_bonus rec n + response_score rec + recency_bonus rec n"

definition few_faults :: "'f validator_record \<Rightarrow> bool" where
  "few_faults rec \<longleftrightarrow> unat (vr_total_invalid_blocks rec) \<le> 42949672 \<and> unat (vr_slash_count rec) \<le> 21474836"

context f64_scores
begin

lemma calculate_score_sum:
  assumes "few_faults rec"
  shows "calculate_score F rec n = Ok (of_int (max 0 (min 1000 (score_sum F rec n))))"
proof -
  let ?u = "uptime_score F rec" and ?c = "success_score F rec"
  let ?i = "vr_total_invalid_blocks rec" and ?l = "vr_slash_count rec"
  note u = uptime_score_range [of rec] and c = success_score_range [of rec]
  note rest = experience_range [of rec n] response_range [of rec] recency_range [of rec n]
  have small: "unat ?i \<le> 42949672" "unat ?l \<le> 21474836" using assms by (simp_all add: few_faults_def)
  have i: "u64_as_i32 ?i = int (unat ?i)" by (rule u64_as_i32_small) (use small in simp)
  have l: "sint ?l = int (unat ?l)" by (rule sint_small) (use small in simp)
  define m where "m = int (unat ?i)"
  define k where "k = int (unat ?l)"
  have mk: "0 \<le> m" "m \<le> 42949672" "0 \<le> k" "k \<le> 21474836" using small unfolding m_def k_def by linarith+
  have chk: "chk_i32 (500 + ?u) = Ok (500 + ?u)" "chk_i32 (500 + ?u + ?c) = Ok (500 + ?u + ?c)"
    "chk_i32 (m * 50) = Ok (m * 50)" "chk_i32 (k * 100) = Ok (k * 100)"
    using u c mk by (auto intro!: chk_i32_Ok)
  define q where "q = 500 + ?u + ?c - min (m * 50) 300 - min (k * 100) 200"
  have caps: "0 \<le> min (m * 50) 300" "min (m * 50) 300 \<le> 300" "0 \<le> min (k * 100) 200" "min (k * 100) 200 \<le> 200"
    using mk by simp_all
  note bounds = u c rest caps
  have first: "chk_i32 (500 + ?u + ?c - min (m * 50) 300) = Ok (500 + ?u + ?c - min (m * 50) 300)"
    using bounds by - (rule chk_i32_small; linarith)
  have sums: "chk_i32 q = Ok q" "chk_i32 (q + experience_bonus rec n) = Ok (q + experience_bonus rec n)"
    "chk_i32 (q + experience_bonus rec n + response_score rec) = Ok (q + experience_bonus rec n + response_score rec)"
    "chk_i32 (q + experience_bonus rec n + response_score rec + recency_bonus rec n) = Ok (score_sum F rec n)"
    unfolding q_def score_sum_def m_def [symmetric] k_def [symmetric] min.commute [of 300] min.commute [of 200]
      mult.commute [of 50] mult.commute [of 100]
    using bounds by - (rule chk_i32_small; linarith)+
  show ?thesis
    unfolding calculate_score_def i l m_def [symmetric] k_def [symmetric]
    by (simp only: chk first q_def [symmetric] sums obind.simps)
qed

lemma calculate_score_overflow:
  assumes "42949672 < unat (vr_total_invalid_blocks rec)" and "unat (vr_total_invalid_blocks rec) < 2 ^ 31"
  shows "calculate_score F rec n = Panic"
proof -
  let ?i = "vr_total_invalid_blocks rec"
  from assms(2) have i: "u64_as_i32 ?i = int (unat ?i)" by (rule u64_as_i32_small)
  have "2147483648 \<le> int (unat ?i) * 50" using assms(1) by linarith
  then have over: "chk_i32 (int (unat ?i) * 50) = Panic" by (simp add: chk_i32_def)
  have chk: "chk_i32 (500 + uptime_score F rec) = Ok (500 + uptime_score F rec)"
    "chk_i32 (500 + uptime_score F rec + success_score F rec) = Ok (500 + uptime_score F rec + success_score F rec)"
    using uptime_score_range [of rec] success_score_range [of rec] by - (rule chk_i32_small; linarith)+
  show ?thesis unfolding calculate_score_def i by (simp only: chk over obind.simps)
qed

end

lemma clamped_score: "int (unat (of_int (max 0 (min 1000 t)) :: u32)) = max 0 (min 1000 t)"
  by (simp add: unsigned_of_int take_bit_int_eq_self)

text \<open>The reputation score is between 0 and 1000: with at most 42,949,672 invalid blocks and
  21,474,836 slashes on record it is computed without a panic and is exactly the sum of a base of
  500 and the bonuses less the capped penalties, clamped to that range; one more invalid block and
  every score of the validator panics, as the penalty is multiplied before it is capped.\<close>

theorem score_in_range:
  assumes "f64_scores F"
  shows "(few_faults rec \<longrightarrow> (\<exists>s. calculate_score F rec n = (Ok s :: ('e, u32) outcome) \<and> unat s \<le> 1000 \<and>
      int (unat s) = max 0 (min 1000 (score_sum F rec n)))) \<and>
    (42949672 < unat (vr_total_invalid_blocks rec) \<longrightarrow> unat (vr_total_invalid_blocks rec) < 2 ^ 31 \<longrightarrow>
      calculate_score F rec n = (Panic :: ('e, u32) outcome))"
proof (intro conjI impI)
  let ?s = "of_int (max 0 (min 1000 (score_sum F rec n))) :: u32"
  assume "few_faults rec"
  then have "calculate_score F rec n = (Ok ?s :: ('e, u32) outcome)"
    by (rule f64_scores.calculate_score_sum [OF assms])
  moreover have "unat ?s \<le> 1000" using clamped_score [of "score_sum F rec n"] by linarith
  ultimately show "\<exists>s. calculate_score F rec n = (Ok s :: ('e, u32) outcome) \<and> unat s \<le> 1000 \<and>
      int (unat s) = max 0 (min 1000 (score_sum F rec n))"
    using clamped_score by blast
qed (rule f64_scores.calculate_score_overflow [OF assms])

lemma quotient_range:
  assumes "(0 :: rat) \<le> a" and "a \<le> b" and "0 < b"
  shows "0 \<le> a / b * 200" and "a / b * 200 \<le> 200"
  using assms by (simp_all add: divide_le_eq)

interpretation ref_scores: f64_scores ref_f64
proof
  fix x :: rat
  let ?y = "f_clamp ref_f64 (f_lit ref_f64 0) (f_lit ref_f64 100) x"
  have y: "0 \<le> ?y" "?y \<le> 100" by (simp_all add: f_clamp_def ref_f64_def)
  have "?y * 2 + 1 / 2 < 201" using y by simp
  then have "\<lfloor>?y * 2 + 1 / 2\<rfloor> \<le> 200" by linarith
  with y show "0 \<le> f_to_int ref_f64 (f_round ref_f64 (f_mul ref_f64 ?y (f_lit ref_f64 2)))"
    "f_to_int ref_f64 (f_round ref_f64 (f_mul ref_f64 ?y (f_lit ref_f64 2))) \<le> 200"
    by (simp_all add: ref_f64_def)
next
  fix p t :: u128
  assume le: "p \<le> t" "0 < t"
  let ?q = "(of_nat (unat p) / of_nat (unat t)) * 200 :: rat"
  have nn: "(0 :: rat) \<le> of_nat (unat p)" by (rule of_nat_0_le_iff)
  have "(of_nat (unat p) :: rat) \<le> of_nat (unat t)" "(0 :: rat) < of_nat (unat t)"
    using le unfolding word_le_nat_alt word_less_nat_alt
    by (simp_all only: of_nat_le_iff of_nat_0_less_iff unsigned_0)
  then have "0 \<le> ?q" "?q \<le> 200" by (rule quotient_range [OF nn])+
  moreover from this have "\<lfloor>?q + 1 / 2\<rfloor> \<le> 200" by linarith
  ultimately show "0 \<le> f_to_int ref_f64 (f_round ref_f64 (f_mul ref_f64 (f_div ref_f64 (f_of_u128 ref_f64 p)
      (f_of_u128 ref_f64 t)) (f_lit ref_f64 200)))"
    "f_to_int ref_f64 (f_round ref_f64 (f_mul ref_f64 (f_div ref_f64 (f_of_u128 ref_f64 p)
      (f_of_u128 ref_f64 t)) (f_lit ref_f64 200))) \<le> 200"
    by (simp_all add: ref_f64_def)
qed

theorem score_in_range_witness:
  "(\<exists>s. calculate_score ref_f64 (fresh_record ref_f64 7 3) 20000 = (Ok s :: (unit, u32) outcome) \<and> unat s \<le> 1000) \<and>
   calculate_score ref_f64 ((fresh_record ref_f64 7 3)\<lparr>vr_total_invalid_blocks := 42949673\<rparr>) 20000 =
     (Panic :: (unit, u32) outcome)"
  using score_in_range [OF ref_scores.f64_scores_axioms, of "fresh_record ref_f64 7 3" 20000, where ?'e = unit]
    score_in_range [OF ref_scores.f64_scores_axioms,
      of "(fresh_record ref_f64 7 3)\<lparr>vr_total_invalid_blocks := 42949673\<rparr>" 20000, where ?'e = unit]
  by (auto simp: fresh_record_def few_faults_def)

section \<open>What is recorded\<close>

text \<open>The three kinds of reports, with their block.\<close>

datatype report = Proposed address u64 u64 | Missed address u64 | Invalid address u64

primrec report_of :: "report \<Rightarrow> address" where
  "report_of (Proposed a n rt) = a"
| "report_of (Missed a n) = a"
| "report_of (Invalid a n) = a"

primrec report_block :: "report \<Rightarrow> u64" where
  "report_block (Proposed a n rt) = n"
| "report_block (Missed a n) = n"
| "report_block (Invalid a n) = n"

primrec apply_report :: "'f f64_ops \<Rightarrow> report \<Rightarrow> 'f reputation_database \<Rightarrow> 'f reputation_database" where
  "apply_report F (Proposed a n rt) = update_proposed F a n rt"
| "apply_report F (Missed a n) = update_missed F a n"
| "apply_report F (Invalid a n) = update_invalid F a n"

definition is_proposed :: "report \<Rightarrow> bool" where "is_proposed r \<longleftrightarrow> (\<exists>a n rt. r = Proposed a n rt)"
definition is_missed :: "report \<Rightarrow> bool" where "is_missed r \<longleftrightarrow> (\<exists>a n. r = Missed a n)"
definition is_invalid :: "report \<Rightarrow> bool" where "is_invalid r \<longleftrightarrow> (\<exists>a n. r = Invalid a n)"

lemma report_kinds [simp]:
  "is_proposed (Proposed a n rt)" "\<not> is_missed (Proposed a n rt)" "\<not> is_invalid (Proposed a n rt)"
  "\<not> is_proposed (Missed a n)" "is_missed (Missed a n)" "\<not> is_invalid (Missed a n)"
  "\<not> is_proposed (Invalid a n)" "\<not> is_missed (Invalid a n)" "is_invalid (Invalid a n)"
  by (simp_all add: is_proposed_def is_missed_def is_invalid_def)

lemma recompute_uptime_simps [simp]:
  "vr_address (recompute_uptime F rec) = vr_address rec"
  "vr_total_blocks_proposed (recompute_uptime F rec) = vr_total_blocks_proposed rec"
  "vr_total_blocks_missed (recompute_uptime F rec) = vr_total_blocks_missed rec"
  "vr_total_invalid_blocks (recompute_uptime F rec) = vr_total_invalid_blocks rec"
  "vr_last_seen_block (recompute_uptime F rec) = vr_last_seen_block rec"
  "vr_slash_count (recompute_uptime F rec) = vr_slash_count rec"
  "vr_joined_block (recompute_uptime F rec) = vr_joined_block rec"
  by (simp_all add: recompute_uptime_def Let_def)

lemma unat_sat_add_one: "unat (x :: 'a::len word) < 2 ^ LENGTH('a) - 1 \<Longrightarrow> unat (sat_add x 1) = Suc (unat x)"
  by (cases "LENGTH('a) = 1") (auto simp: unat_sat_add)

text \<open>The reports on one validator determine its record.\<close>

definition recorded :: "report list \<Rightarrow> address \<Rightarrow> 'f validator_record \<Rightarrow> bool" where
  "recorded rs a rec \<longleftrightarrow> rs \<noteq> [] \<and> vr_address rec = a \<and> vr_slash_count rec = 0 \<and>
     unat (vr_total_blocks_proposed rec) = length (filter is_proposed rs) \<and>
     unat (vr_total_blocks_missed rec) = length (filter is_missed rs) \<and>
     unat (vr_total_invalid_blocks rec) = length (filter is_invalid rs) \<and>
     vr_joined_block rec = report_block (hd rs) \<and> vr_last_seen_block rec = report_block (last rs)"

lemma apply_report_other:
  "report_of r \<noteq> a \<Longrightarrow> get_record (apply_report F r db) a = get_record db a"
  by (cases r) (simp_all add: update_proposed_def update_missed_def update_invalid_def entry_mut_def
      get_record_def update_conv')

lemma apply_report_same:
  assumes "report_of r = a" and "length rs < 2 ^ 64 - 1"
    and "case get_record db a of None \<Rightarrow> rs = [] | Some rec \<Rightarrow> recorded rs a rec"
  shows "\<exists>rec. get_record (apply_report F r db) a = Some rec \<and> recorded (rs @ [r]) a rec"
proof -
  have le: "length (filter P rs) < 2 ^ 64 - 1" for P
    by (rule le_less_trans [OF length_filter_le assms(2)])
  let ?old = "case map_of db a of None \<Rightarrow> fresh_record F a (report_block r) | Some rec \<Rightarrow> rec"
  obtain old where old: "?old = old" "vr_address old = a" "vr_slash_count old = 0"
    "unat (vr_total_blocks_proposed old) = length (filter is_proposed rs)"
    "unat (vr_total_blocks_missed old) = length (filter is_missed rs)"
    "unat (vr_total_invalid_blocks old) = length (filter is_invalid rs)"
    "vr_joined_block old = report_block (hd (rs @ [r]))"
    using assms(3) by (auto simp: get_record_def recorded_def fresh_record_def split: option.splits)
  note one = unat_sat_add_one [where ?'a = 64, simplified]
  show ?thesis
  proof (cases r)
    case (Proposed b n rt)
    show ?thesis
      using assms(1) [unfolded Proposed] old [unfolded Proposed report_block.simps] le [of is_proposed] unfolding Proposed
      by (simp add: update_proposed_def entry_mut_def get_record_def update_conv' recorded_def one)
  next
    case (Missed b n)
    show ?thesis
      using assms(1) [unfolded Missed] old [unfolded Missed report_block.simps] le [of is_missed] unfolding Missed
      by (simp add: update_missed_def entry_mut_def get_record_def update_conv' recorded_def one)
  next
    case (Invalid b n)
    show ?thesis
      using assms(1) [unfolded Invalid] old [unfolded Invalid report_block.simps] le [of is_invalid] unfolding Invalid
      by (simp add: update_invalid_def entry_mut_def get_record_def update_conv' recorded_def one)
  qed
qed

text \<open>The database counts: after fewer than 2^64 reports to an empty database a validator has a
  record exactly when some report was about it, and its record then holds the numbers of its
  proposed, missed and invalid blocks, the block of its first report as the one it joined at and
  that of its last as the one it was last seen at, untouched by the reports on others. No
  report ever counts a slash.\<close>

theorem reputation_counts:
  assumes "length rs < 2 ^ 64"
  shows "case get_record (fold (apply_report F) rs new_reputation_database) a of
      None \<Rightarrow> \<forall>r \<in> set rs. report_of r \<noteq> a
    | Some rec \<Rightarrow> recorded (filter (\<lambda>r. report_of r = a) rs) a rec"
  using assms
proof (induction rs rule: rev_induct)
  case Nil
  then show ?case by (simp add: get_record_def new_reputation_database_def)
next
  case (snoc r rs)
  let ?db = "fold (apply_report F) rs new_reputation_database" and ?rs = "filter (\<lambda>r. report_of r = a) rs"
  from snoc have IH: "case get_record ?db a of None \<Rightarrow> ?rs = [] | Some rec \<Rightarrow> recorded ?rs a rec"
    by (simp split: option.splits add: filter_empty_conv)
  show ?case
  proof (cases "report_of r = a")
    case True
    have "length rs < 2 ^ 64 - 1" using snoc.prems by simp
    then have "length ?rs < 2 ^ 64 - 1" by (rule le_less_trans [OF length_filter_le])
    from apply_report_same [OF True this IH, of F] True show ?thesis by auto
  next
    case False
    with IH show ?thesis by (simp add: apply_report_other filter_empty_conv split: option.splits)
  qed
qed

theorem reputation_counts_witness:
  "\<exists>rec. get_record (fold (apply_report ref_f64) [Proposed 7 3 120, Missed 8 4, Missed 7 5] new_reputation_database) 7 =
      Some rec \<and> vr_total_blocks_proposed rec = 1 \<and> vr_joined_block rec = 3 \<and> vr_last_seen_block rec = 5"
proof -
  have "length [Proposed 7 3 120, Missed 8 4, Missed 7 5] < 2 ^ 64" by simp
  from reputation_counts [OF this, where F = ref_f64 and a = 7] show ?thesis
    by (auto simp: recorded_def word_unat_eq_iff split: option.splits)
qed

end
