(* ===== verification/Quyn_Selection.thy ===== *)
theory Quyn_Selection
  imports Quyn_Reputation
begin

text \<open>
  quyn-intelligence/src/validator_selection.rs: the selection of a block producer by stake and
  reputation. \<open>f64\<close> arithmetic is the argument \<open>F\<close>. Lemmas: the selection always returns, it returns
  an eligible candidate, and each eligible candidate is hit by exactly as many seeds as its weight.
\<close>

section \<open>Definitions\<close>

record 'f selector_config =
  sc_reputation_weight :: 'f
  sc_stake_weight :: 'f
  sc_min_reputation_score :: u32
  sc_grace_period_blocks :: u64

record validator_candidate =
  vc_address :: address
  vc_stake_amount :: u128

record 'f validator_score =
  vs_address :: address
  vs_reputation_score :: u32
  vs_stake_score :: u32
  vs_combined_score :: u32
  vs_uptime_percentage :: 'f
  vs_blocks_proposed :: u64
  vs_blocks_missed :: u64
  vs_slash_count :: u32

record 'f ai_validator_selector =
  av_reputation_db :: "'f reputation_database"
  av_config :: "'f selector_config"

definition default_selector_config :: "'f f64_ops \<Rightarrow> 'f selector_config" where
  "default_selector_config F = \<lparr>sc_reputation_weight = f_frac F 5 1, sc_stake_weight = f_frac F 5 1,
     sc_min_reputation_score = 100, sc_grace_period_blocks = 100\<rparr>"

definition new_selector :: "'f selector_config \<Rightarrow> 'f ai_validator_selector" where
  "new_selector cfg = \<lparr>av_reputation_db = new_reputation_database, av_config = cfg\<rparr>"

text \<open>The cast of a float to \<open>u32\<close>, and of a \<open>u32\<close> to a float.\<close>

definition f_to_u32 :: "'f f64_ops \<Rightarrow> 'f \<Rightarrow> u32" where
  "f_to_u32 F x = of_int (max 0 (min (2 ^ 32 - 1) (f_to_int F x)))"

definition f_of_u32 :: "'f f64_ops \<Rightarrow> u32 \<Rightarrow> 'f" where
  "f_of_u32 F x = f_of_u128 F (ucast x)"

definition max_stake :: "validator_candidate list \<Rightarrow> u128" where
  "max_stake cs = max 1 (foldl max 0 (map vc_stake_amount cs))"

definition stake_score :: "'f f64_ops \<Rightarrow> u128 \<Rightarrow> validator_candidate \<Rightarrow> u32" where
  "stake_score F biggest cand =
     (if 0 < vc_stake_amount cand
      then f_to_u32 F (f_round F (f_mul F
        (f_div F (f_of_u128 F (vc_stake_amount cand)) (f_of_u128 F biggest)) (f_lit F 1000)))
      else 0)"

definition in_grace :: "'f ai_validator_selector \<Rightarrow> u64 \<Rightarrow> validator_candidate \<Rightarrow> bool" where
  "in_grace S n cand = (case get_record (av_reputation_db S) (vc_address cand) of
       None \<Rightarrow> True
     | Some rec \<Rightarrow> sat_sub n (vr_joined_block rec) \<le> sc_grace_period_blocks (av_config S))"

definition reputation_of ::
  "'f f64_ops \<Rightarrow> 'f ai_validator_selector \<Rightarrow> u64 \<Rightarrow> validator_candidate \<Rightarrow> ('e, u32) outcome" where
  "reputation_of F S n cand = (case get_record (av_reputation_db S) (vc_address cand) of
       None \<Rightarrow> Ok 0
     | Some rec \<Rightarrow> calculate_score F rec n)"

definition combined_score ::
  "'f f64_ops \<Rightarrow> 'f selector_config \<Rightarrow> bool \<Rightarrow> u32 \<Rightarrow> u32 \<Rightarrow> u32" where
  "combined_score F cfg grace stake_sc rep_sc =
     (if grace then f_to_u32 F (f_round F (f_of_u32 F stake_sc))
      else f_to_u32 F (f_clamp F (f_lit F 0) (f_lit F 1000) (f_round F
        (f_add F (f_mul F (f_of_u32 F stake_sc) (sc_stake_weight cfg))
          (f_mul F (f_of_u32 F rep_sc) (sc_reputation_weight cfg))))))"

text \<open>The loop over the candidates: those that stay, with their weights.\<close>

fun scored_candidates ::
  "'f f64_ops \<Rightarrow> 'f ai_validator_selector \<Rightarrow> u64 \<Rightarrow> u128 \<Rightarrow> validator_candidate list \<Rightarrow>
    ('e, (validator_candidate \<times> u64) list) outcome" where
  "scored_candidates F S n biggest [] = Ok []"
| "scored_candidates F S n biggest (cand # cs) =
     obind (reputation_of F S n cand) (\<lambda>rep.
     obind (scored_candidates F S n biggest cs) (\<lambda>rest.
     let grace = in_grace S n cand;
         combined = combined_score F (av_config S) grace (stake_score F biggest cand) rep
     in if \<not> grace \<and> rep < sc_min_reputation_score (av_config S) then Ok rest
        else if combined = 0 then Ok rest
        else Ok ((cand, ucast combined) # rest)))"

fun highest_stake :: "validator_candidate \<Rightarrow> validator_candidate list \<Rightarrow> validator_candidate" where
  "highest_stake best [] = best"
| "highest_stake best (cand # cs) =
     highest_stake (if vc_stake_amount best < vc_stake_amount cand then cand else best) cs"

fun pick_weighted :: "u64 \<Rightarrow> (validator_candidate \<times> u64) list \<Rightarrow> ('e, validator_candidate option) outcome" where
  "pick_weighted target [] = Ok None"
| "pick_weighted target ((cand, weight) # rest) =
     (if target < weight then Ok (Some cand)
      else obind (chk_sub target weight) (\<lambda>target'. pick_weighted target' rest))"

definition seed_of :: "b256 \<Rightarrow> u64" where
  "seed_of h = of_be (take 8 (b256_bytes h))"

definition select_validator ::
  "'f f64_ops \<Rightarrow> 'f ai_validator_selector \<Rightarrow> validator_candidate list \<Rightarrow> u64 \<Rightarrow> b256 \<Rightarrow> ('e, address) outcome" where
  "select_validator F S candidates current_block h = (case candidates of
       [] \<Rightarrow> Ok 0
     | first # _ \<Rightarrow>
         obind (scored_candidates F S current_block (max_stake candidates) candidates) (\<lambda>scored.
         case scored of
           [] \<Rightarrow> Ok (vc_address (highest_stake first candidates))
         | (c0, _) # _ \<Rightarrow>
             obind (chk_sum 0 (map snd scored)) (\<lambda>total_weight.
             obind (pick_weighted (seed_of h mod max total_weight 1) scored) (\<lambda>picked.
             Ok (vc_address (case picked of Some c \<Rightarrow> c | None \<Rightarrow> c0))))))"

definition record_block_produced ::
  "'f f64_ops \<Rightarrow> address \<Rightarrow> u64 \<Rightarrow> u64 \<Rightarrow> 'f ai_validator_selector \<Rightarrow> 'f ai_validator_selector" where
  "record_block_produced F a n rt S = S\<lparr>av_reputation_db := update_proposed F a n rt (av_reputation_db S)\<rparr>"

definition record_block_missed ::
  "'f f64_ops \<Rightarrow> address \<Rightarrow> u64 \<Rightarrow> 'f ai_validator_selector \<Rightarrow> 'f ai_validator_selector" where
  "record_block_missed F a n S = S\<lparr>av_reputation_db := update_missed F a n (av_reputation_db S)\<rparr>"

definition record_invalid_block ::
  "'f f64_ops \<Rightarrow> address \<Rightarrow> u64 \<Rightarrow> 'f ai_validator_selector \<Rightarrow> 'f ai_validator_selector" where
  "record_invalid_block F a n S = S\<lparr>av_reputation_db := update_invalid F a n (av_reputation_db S)\<rparr>"

fun score_records :: "'f f64_ops \<Rightarrow> u64 \<Rightarrow> 'f validator_record list \<Rightarrow> ('e, 'f validator_score list) outcome" where
  "score_records F n [] = Ok []"
| "score_records F n (rec # recs) =
     obind (calculate_score F rec n) (\<lambda>rep.
     obind (score_records F n recs) (\<lambda>rest.
     Ok (\<lparr>vs_address = vr_address rec, vs_reputation_score = rep, vs_stake_score = 0, vs_combined_score = rep,
          vs_uptime_percentage = vr_uptime_percentage rec, vs_blocks_proposed = vr_total_blocks_proposed rec,
          vs_blocks_missed = vr_total_blocks_missed rec, vs_slash_count = vr_slash_count rec\<rparr> # rest)))"

definition get_validator_scores ::
  "'f f64_ops \<Rightarrow> hash_order \<Rightarrow> 'f ai_validator_selector \<Rightarrow> u64 \<Rightarrow> ('e, 'f validator_score list) outcome" where
  "get_validator_scores F rank S n = score_records F n (all_records rank (av_reputation_db S))"

section \<open>The weights\<close>

lemma unat_u32_u64 [simp]: "unat (ucast (x :: u32) :: u64) = unat x"
  by transfer (simp add: take_bit_nat_def)

text \<open>The reputation of a candidate, in closed form.\<close>

definition reputation_value :: "'f f64_ops \<Rightarrow> 'f ai_validator_selector \<Rightarrow> u64 \<Rightarrow> validator_candidate \<Rightarrow> u32" where
  "reputation_value F S n cand = (case get_record (av_reputation_db S) (vc_address cand) of
       None \<Rightarrow> 0
     | Some rec \<Rightarrow> of_int (max 0 (min 1000 (score_sum F rec n))))"

text \<open>The weight a candidate enters the draw with; 0 when it is left out.\<close>

definition candidate_weight ::
  "'f f64_ops \<Rightarrow> 'f ai_validator_selector \<Rightarrow> u64 \<Rightarrow> u128 \<Rightarrow> validator_candidate \<Rightarrow> u64" where
  "candidate_weight F S n biggest cand =
     (let rep = reputation_value F S n cand;
          grace = in_grace S n cand
      in if \<not> grace \<and> rep < sc_min_reputation_score (av_config S) then 0
         else ucast (combined_score F (av_config S) grace (stake_score F biggest cand) rep))"

definition draw :: "(validator_candidate \<Rightarrow> u64) \<Rightarrow> validator_candidate list \<Rightarrow> validator_candidate list" where
  "draw w cs = concat (map (\<lambda>c. replicate (unat (w c)) c) cs)"

lemma length_draw: "length (draw w cs) = sum_list (map (unat \<circ> w) cs)"
  by (simp add: draw_def length_concat comp_def)

lemma set_draw: "c \<in> set (draw w cs) \<longleftrightarrow> c \<in> set cs \<and> w c \<noteq> 0"
  by (auto simp: draw_def unat_eq_0 split: if_splits)

lemma draw_filter: "draw w (filter (\<lambda>c. w c \<noteq> 0) cs) = draw w cs"
  by (induction cs) (auto simp: draw_def)

lemma pick_weighted_draw:
  "pick_weighted t (map (\<lambda>c. (c, w c)) cs) =
     Ok (if unat t < length (draw w cs) then Some (draw w cs ! unat t) else None)"
proof (induction cs arbitrary: t)
  case Nil
  then show ?case by (simp add: draw_def)
next
  case (Cons c cs)
  have d: "draw w (c # cs) = replicate (unat (w c)) c @ draw w cs" by (simp add: draw_def)
  show ?case
  proof (cases "t < w c")
    case True
    then show ?thesis by (simp add: d word_less_nat_alt nth_append)
  next
    case False
    then have "w c \<le> t" by simp
    then have u: "unat (t - w c) = unat t - unat (w c)" "unat (w c) \<le> unat t"
      by (simp_all add: unat_sub word_le_nat_alt)
    have sub: "chk_sub t (w c) = Ok (t - w c)" using \<open>w c \<le> t\<close> by (simp add: chk_sub_def)
    show ?thesis using False u by (auto simp: d nth_append sub Cons.IH)
  qed
qed

text \<open>The candidates whose score is computed without a panic.\<close>

definition scorable :: "'f ai_validator_selector \<Rightarrow> validator_candidate list \<Rightarrow> bool" where
  "scorable S cs \<longleftrightarrow> (\<forall>c \<in> set cs. \<forall>rec. get_record (av_reputation_db S) (vc_address c) = Some rec \<longrightarrow> few_faults rec)"

context f64_scores
begin

lemma reputation_of_value:
  "scorable S cs \<Longrightarrow> c \<in> set cs \<Longrightarrow> reputation_of F S n c = Ok (reputation_value F S n c)"
  by (auto simp: reputation_of_def reputation_value_def scorable_def calculate_score_sum split: option.splits)

lemma scored_candidates_weights:
  "scorable S cs \<Longrightarrow> scored_candidates F S n b cs =
     Ok (map (\<lambda>c. (c, candidate_weight F S n b c)) (filter (\<lambda>c. candidate_weight F S n b c \<noteq> 0) cs))"
proof (induction cs)
  case (Cons c cs)
  have "scorable S cs" using Cons.prems by (simp add: scorable_def)
  note IH = Cons.IH [OF this]
  have r: "reputation_of F S n c = Ok (reputation_value F S n c)"
    by (rule reputation_of_value [OF Cons.prems]) simp
  have z: "(ucast x :: u64) = 0 \<longleftrightarrow> x = 0" for x :: u32
    by (simp flip: unat_eq_0)
  show ?case by (simp add: IH r candidate_weight_def Let_def z)
qed simp

end

lemma highest_stake_best:
  "vc_stake_amount b \<le> vc_stake_amount (highest_stake b cs) \<and> highest_stake b cs \<in> insert b (set cs) \<and>
    (\<forall>c \<in> set cs. vc_stake_amount c \<le> vc_stake_amount (highest_stake b cs))"
proof (induction cs arbitrary: b)
  case (Cons c cs)
  from Cons.IH [of c] Cons.IH [of b] show ?case
    by (cases "vc_stake_amount b < vc_stake_amount c") auto
qed simp

lemma sum_weights_bound:
  fixes w :: "validator_candidate \<Rightarrow> u64"
  assumes "\<forall>c \<in> set cs. unat (w c) < 2 ^ 32"
  shows "sum_list (map (unat \<circ> w) cs) \<le> length cs * 2 ^ 32"
  using assms by (induction cs) auto

lemma candidate_weight_bound: "unat (candidate_weight F S n b c) < 2 ^ 32"
  using unat_less [where ?'a = 32] by (auto simp: candidate_weight_def Let_def)

text \<open>The address the code should return: the candidate drawn by the seed, or the first of the
  largest stakes when nobody has a weight.\<close>

definition drawn :: "(validator_candidate \<Rightarrow> u64) \<Rightarrow> validator_candidate list \<Rightarrow> b256 \<Rightarrow> validator_candidate" where
  "drawn w cs h = (if draw w cs = [] then highest_stake (hd cs) cs
     else draw w cs ! (unat (seed_of h) mod length (draw w cs)))"

lemma select_validator_nonempty:
  "cs \<noteq> [] \<Longrightarrow> select_validator F S cs n h =
     obind (scored_candidates F S n (max_stake cs) cs) (\<lambda>scored. case scored of
       [] \<Rightarrow> Ok (vc_address (highest_stake (hd cs) cs))
     | (c0, _) # _ \<Rightarrow>
         obind (chk_sum 0 (map snd scored)) (\<lambda>total_weight.
         obind (pick_weighted (seed_of h mod max total_weight 1) scored) (\<lambda>picked.
         Ok (vc_address (case picked of Some c \<Rightarrow> c | None \<Rightarrow> c0)))))"
  by (cases cs) (simp, simp only: select_validator_def list.case list.sel)

lemma select_validator_draws:
  assumes "f64_scores F" and "scorable S cs" and "cs \<noteq> []" and "length cs < 2 ^ 32"
  shows "select_validator F S cs n h = Ok (vc_address (drawn (candidate_weight F S n (max_stake cs)) cs h))"
proof -
  define w where "w = candidate_weight F S n (max_stake cs)"
  let ?ws = "map (\<lambda>c. (c, w c)) (filter (\<lambda>c. w c \<noteq> 0) cs)" and ?T = "length (draw w cs)"
  have scored: "scored_candidates F S n (max_stake cs) cs = Ok ?ws"
    using f64_scores.scored_candidates_weights [OF assms(1,2), of n "max_stake cs"] by (simp add: w_def)
  have "sum_list (map (unat \<circ> w) cs) \<le> length cs * 2 ^ 32"
    by (rule sum_weights_bound) (use candidate_weight_bound in \<open>auto simp only: w_def\<close>)
  also have "\<dots> < 2 ^ 64" using assms(4) by simp
  finally have T: "?T < 2 ^ 64" by (simp add: length_draw)
  have sum: "sum_list (map (unat \<circ> w) (filter (\<lambda>c. w c \<noteq> 0) cs)) = ?T"
    using length_draw [of w "filter (\<lambda>c. w c \<noteq> 0) cs"] by (simp add: draw_filter)
  have total: "chk_sum 0 (map snd ?ws) = Ok (of_nat ?T)"
  proof -
    have u: "sum_list (map unat (map snd ?ws)) = ?T" using sum by (simp add: comp_def)
    have "of_nat (sum_list (map unat xs)) = sum_list xs" for xs :: "u64 list" by (induction xs) simp_all
    from this [of "map snd ?ws"] u have "sum_list (map snd ?ws) = of_nat ?T" by metis
    with u T show ?thesis by (simp add: chk_sum_eq)
  qed
  show ?thesis
  proof (cases "draw w cs = []")
    case True
    then have "?ws = []" using set_draw [of _ w cs] by (auto simp: filter_empty_conv)
    with True show ?thesis
      by (simp add: select_validator_nonempty [OF assms(3)] scored drawn_def flip: w_def)
  next
    case False
    then have pos: "0 < ?T" by simp
    have "?ws \<noteq> []"
    proof
      assume "?ws = []"
      then have "filter (\<lambda>c. w c \<noteq> 0) cs = []" by simp
      then have "draw w cs = draw w []" using draw_filter [of w cs] by (simp only:)
      with False show False by (simp add: draw_def)
    qed
    then obtain c0 v rest where ws: "?ws = (c0, v) # rest" by (cases ?ws) auto
    have uT: "unat (of_nat ?T :: u64) = ?T" using T by (simp add: unsigned_of_nat take_bit_nat_eq_self)
    have mx: "max (of_nat ?T) 1 = (of_nat ?T :: u64)"
      by (rule max_absorb1) (use pos uT in \<open>simp add: word_le_nat_alt Suc_le_eq\<close>)
    have "unat (seed_of h mod of_nat ?T) = unat (seed_of h) mod ?T" by (simp add: unat_mod uT)
    moreover have "unat (seed_of h) mod ?T < ?T" using pos by simp
    ultimately have pick: "pick_weighted (seed_of h mod of_nat ?T) ?ws = Ok (Some (draw w cs ! (unat (seed_of h) mod ?T)))"
      by (simp add: pick_weighted_draw draw_filter)
    show ?thesis
      using False
      by (simp only: select_validator_nonempty [OF assms(3)] scored obind.simps ws list.case prod.case
          total [unfolded ws] mx pick [unfolded ws] option.case drawn_def if_False flip: w_def)
  qed
qed

text \<open>C33: the selection is a fair draw among the eligible: for candidates with few recorded faults it
  always returns, and the result is the position given by the seed, reduced modulo the total
  weight, in the list that repeats each candidate as often as its weight. So a selected candidate
  has a positive weight, and hence is in its grace period or has the minimum reputation; and when
  nobody has a weight the first of the largest stakes is selected.\<close>

theorem selection_is_weighted_draw:
  assumes "f64_scores F" and "scorable S cs" and "cs \<noteq> []" and "length cs < 2 ^ 32"
    and "w = candidate_weight F S n (max_stake cs)"
  shows "\<exists>c \<in> set cs. select_validator F S cs n h = (Ok (vc_address c) :: ('e, address) outcome) \<and>
    (if \<forall>d \<in> set cs. w d = 0 then \<forall>d \<in> set cs. vc_stake_amount d \<le> vc_stake_amount c
     else c = draw w cs ! (unat (seed_of h) mod sum_list (map (unat \<circ> w) cs)) \<and> w c \<noteq> 0 \<and>
       (in_grace S n c \<or> sc_min_reputation_score (av_config S) \<le> reputation_value F S n c))"
proof -
  let ?c = "drawn w cs h"
  have sel: "select_validator F S cs n h = (Ok (vc_address ?c) :: ('e, address) outcome)"
    using select_validator_draws [OF assms(1-4)] by (simp add: assms(5))
  have none: "draw w cs = [] \<longleftrightarrow> (\<forall>d \<in> set cs. w d = 0)"
    using set_draw [of _ w cs] by (metis list.set_sel(1) empty_iff list.set(1))
  show ?thesis
  proof (cases "draw w cs = []")
    case True
    have "hd cs \<in> set cs" using assms(3) by simp
    with highest_stake_best [of "hd cs" cs] have "?c \<in> set cs" "\<forall>d \<in> set cs. vc_stake_amount d \<le> vc_stake_amount ?c"
      using True by (auto simp: drawn_def)
    with sel True none show ?thesis by (intro bexI [of _ ?c]) auto
  next
    case False
    then have c: "?c = draw w cs ! (unat (seed_of h) mod length (draw w cs))" by (simp add: drawn_def)
    have "unat (seed_of h) mod length (draw w cs) < length (draw w cs)" using False by simp
    then have "?c \<in> set (draw w cs)" unfolding c by (rule nth_mem)
    then have m: "?c \<in> set cs" "w ?c \<noteq> 0" by (simp_all add: set_draw)
    from m(2) have "in_grace S n ?c \<or> sc_min_reputation_score (av_config S) \<le> reputation_value F S n ?c"
      by (auto simp: assms(5) candidate_weight_def Let_def not_less split: if_splits)
    with sel m c False none show ?thesis by (intro bexI [of _ ?c]) (auto simp: length_draw)
  qed
qed

definition example_candidates :: "validator_candidate list" where
  "example_candidates = [\<lparr>vc_address = 7, vc_stake_amount = 300\<rparr>, \<lparr>vc_address = 8, vc_stake_amount = 100\<rparr>]"

theorem selection_is_weighted_draw_witness:
  "\<exists>c \<in> set example_candidates. select_validator ref_f64 (new_selector (default_selector_config ref_f64))
      example_candidates 5 1000 = (Ok (vc_address c) :: (unit, address) outcome)"
proof -
  let ?S = "new_selector (default_selector_config ref_f64)"
  have "scorable ?S example_candidates"
    by (simp add: scorable_def new_selector_def new_reputation_database_def get_record_def)
  from selection_is_weighted_draw [OF ref_scores.f64_scores_axioms this _ _ refl, of 5 1000]
  show ?thesis by (auto simp: example_candidates_def)
qed

end
