(* ===== verification/Quyn_Locks.thy ===== *)
theory Quyn_Locks
  imports Quyn_Mempool
begin

text \<open>
  core/src/mempool.rs, the locks: the pool is shared by the block producer and the requests of the
  server, and its two tables have a lock each, which an operation takes one after the other. Here
  the operations run in threads that take locks and answer in any order. Lemmas: whatever
  the order, answers and pool are those of the operations run one at a time, in the order in which
  they return; operations that take the locks in the order of the tables always finish; and
  \<open>get_by_hash\<close>, which takes them the other way round, can block the pool for good. The code between
  taking the last lock and returning is one step, as it runs under the locks. A reader's lock is
  granted whenever no writer holds it (the standard library may be stricter).
\<close>

section \<open>Threads\<close>

datatype pool_lock = Senders | Hashes
datatype lock_mode = ReadLock | WriteLock

type_synonym guard = "pool_lock \<times> lock_mode"

datatype pool_op =
    InsertOp hash_order signed_transaction
  | RemoveOp b256
  | GetByHashOp b256
  | GetBestOp hash_order nat
  | LenOp

datatype pool_answer =
    Inserted "nat option core_result"
  | Removed "bool core_result"
  | Found "signed_transaction option core_result"
  | Best "signed_transaction list core_result"
  | Counted "nat core_result"

text \<open>The locks of an operation, in the order in which it takes them: an insertion recovers the
  sender before it takes any.\<close>

fun pool_locks :: "ext \<Rightarrow> pool_op \<Rightarrow> guard list" where
  "pool_locks X (InsertOp rank tx) =
     (case sender X tx of Ok _ \<Rightarrow> [(Senders, WriteLock), (Hashes, WriteLock)] | _ \<Rightarrow> [])"
| "pool_locks X (RemoveOp h) = [(Senders, WriteLock), (Hashes, WriteLock)]"
| "pool_locks X (GetByHashOp h) = [(Hashes, ReadLock), (Senders, ReadLock)]"
| "pool_locks X (GetBestOp rank limit) = [(Senders, ReadLock)]"
| "pool_locks X LenOp = [(Senders, ReadLock)]"

text \<open>A thread in the middle of an operation: the locks it has to take, the ones it holds, and what
  \<open>get_by_hash\<close> read from the index.\<close>

datatype pool_thread =
    Running pool_op "guard list" "guard list" "(address \<times> u64) option"
  | Returned pool_answer

definition pool_call :: "ext \<Rightarrow> pool_op \<Rightarrow> pool_thread" where
  "pool_call X c = Running c (pool_locks X c) [] None"

fun held :: "pool_thread \<Rightarrow> guard list" where
  "held (Running c todo gs entry) = gs"
| "held (Returned a) = []"

definition compatible :: "guard \<Rightarrow> guard \<Rightarrow> bool" where
  "compatible g g' \<longleftrightarrow> fst g \<noteq> fst g' \<or> snd g = ReadLock \<and> snd g' = ReadLock"

definition grantable :: "pool_thread list \<Rightarrow> nat \<Rightarrow> guard \<Rightarrow> bool" where
  "grantable ts i g \<longleftrightarrow> (\<forall>j < length ts. j \<noteq> i \<longrightarrow> list_all (compatible g) (held (ts ! j)))"

text \<open>Taking a lock; \<open>get_by_hash\<close> then looks at the index, and returns when the hash is unknown.\<close>

fun take_guard :: "mempool \<Rightarrow> pool_op \<Rightarrow> guard \<Rightarrow> guard list \<Rightarrow> guard list \<Rightarrow> (address \<times> u64) option \<Rightarrow> pool_thread" where
  "take_guard p (GetByHashOp h) (Hashes, m) todo gs entry = (case mp_by_hash p h of
       None \<Rightarrow> Running (GetByHashOp h) [] ((Hashes, m) # gs) None
     | Some e \<Rightarrow> Running (GetByHashOp h) todo ((Hashes, m) # gs) (Some e))"
| "take_guard p c g todo gs entry = Running c todo (g # gs) entry"

text \<open>The operations one at a time, and under the locks.\<close>

fun whole_op :: "ext \<Rightarrow> pool_op \<Rightarrow> mempool \<Rightarrow> pool_answer \<times> mempool" where
  "whole_op X (InsertOp rank tx) p = (case insert_tx X rank tx p of (r, p') \<Rightarrow> (Inserted r, p'))"
| "whole_op X (RemoveOp h) p = (case remove_tx h p of (r, p') \<Rightarrow> (Removed r, p'))"
| "whole_op X (GetByHashOp h) p = (Found (get_by_hash p h), p)"
| "whole_op X (GetBestOp rank limit) p = (Best (get_best rank p limit), p)"
| "whole_op X LenOp p = (Counted (pool_len p), p)"

fun locked_op :: "ext \<Rightarrow> pool_op \<Rightarrow> (address \<times> u64) option \<Rightarrow> mempool \<Rightarrow> pool_answer \<times> mempool" where
  "locked_op X (GetByHashOp h) entry p =
     (Found (Ok (case entry of None \<Rightarrow> None | Some (s, n) \<Rightarrow> pool_tx p s n)), p)"
| "locked_op X c entry p = whole_op X c p"

text \<open>A step of some thread; the label is the thread that returned.\<close>

inductive pool_step ::
  "ext \<Rightarrow> mempool \<times> pool_thread list \<Rightarrow> nat option \<Rightarrow> mempool \<times> pool_thread list \<Rightarrow> bool" for X where
  lock: "i < length ts \<Longrightarrow> ts ! i = Running c (g # todo) gs entry \<Longrightarrow> grantable ts i g \<Longrightarrow>
    pool_step X (p, ts) None (p, ts[i := take_guard p c g todo gs entry])"
| return: "i < length ts \<Longrightarrow> ts ! i = Running c [] gs entry \<Longrightarrow> locked_op X c entry p = (a, p') \<Longrightarrow>
    pool_step X (p, ts) (Some i) (p', ts[i := Returned a])"

inductive_cases pool_stepE: "pool_step X (p, ts) l c'"

inductive pool_steps ::
  "ext \<Rightarrow> mempool \<times> pool_thread list \<Rightarrow> nat list \<Rightarrow> mempool \<times> pool_thread list \<Rightarrow> bool" for X s where
  stay: "pool_steps X s [] s"
| silent: "pool_steps X s is c \<Longrightarrow> pool_step X c None c' \<Longrightarrow> pool_steps X s is c'"
| answer: "pool_steps X s is c \<Longrightarrow> pool_step X c (Some i) c' \<Longrightarrow> pool_steps X s (is @ [i]) c'"

fun one_at_a_time :: "ext \<Rightarrow> pool_op list \<Rightarrow> nat list \<Rightarrow> mempool \<Rightarrow> (nat \<times> pool_answer) list \<times> mempool" where
  "one_at_a_time X cs [] p = ([], p)"
| "one_at_a_time X cs (i # is) p = (case whole_op X (cs ! i) p of (a, p') \<Rightarrow>
     case one_at_a_time X cs is p' of (as, p'') \<Rightarrow> ((i, a) # as, p''))"

section \<open>Where a thread can be\<close>

inductive thread_at :: "ext \<Rightarrow> mempool \<Rightarrow> pool_op \<Rightarrow> pool_thread \<Rightarrow> bool" for X p c where
  begins: "thread_at X p c (pool_call X c)"
| write_one: "pool_locks X c = [(Senders, WriteLock), (Hashes, WriteLock)] \<Longrightarrow>
    thread_at X p c (Running c [(Hashes, WriteLock)] [(Senders, WriteLock)] None)"
| write_both: "pool_locks X c = [(Senders, WriteLock), (Hashes, WriteLock)] \<Longrightarrow>
    thread_at X p c (Running c [] [(Hashes, WriteLock), (Senders, WriteLock)] None)"
| read: "pool_locks X c = [(Senders, ReadLock)] \<Longrightarrow> thread_at X p c (Running c [] [(Senders, ReadLock)] None)"
| unknown: "c = GetByHashOp h \<Longrightarrow> mp_by_hash p h = None \<Longrightarrow>
    thread_at X p c (Running c [] [(Hashes, ReadLock)] None)"
| known: "c = GetByHashOp h \<Longrightarrow> mp_by_hash p h = Some e \<Longrightarrow>
    thread_at X p c (Running c [(Senders, ReadLock)] [(Hashes, ReadLock)] (Some e))"
| lookup: "c = GetByHashOp h \<Longrightarrow> mp_by_hash p h = Some e \<Longrightarrow>
    thread_at X p c (Running c [] [(Senders, ReadLock), (Hashes, ReadLock)] (Some e))"
| finished: "thread_at X p c (Returned a)"

text \<open>No two threads hold locks that exclude each other.\<close>

definition guarded :: "pool_thread list \<Rightarrow> bool" where
  "guarded ts \<longleftrightarrow> (\<forall>i < length ts. \<forall>j < length ts. i \<noteq> j \<longrightarrow>
     (\<forall>g \<in> set (held (ts ! i)). \<forall>g' \<in> set (held (ts ! j)). compatible g g'))"

definition threads_ok :: "ext \<Rightarrow> pool_op list \<Rightarrow> mempool \<times> pool_thread list \<Rightarrow> bool" where
  "threads_ok X cs = (\<lambda>(p, ts). length ts = length cs \<and> guarded ts \<and>
     (\<forall>i < length cs. thread_at X p (cs ! i) (ts ! i)))"

lemma compatible_sym: "compatible g g' \<longleftrightarrow> compatible g' g"
  by (auto simp: compatible_def)

lemma pool_locks_cases:
  obtains "pool_locks X c = []" "\<And>entry p. snd (locked_op X c entry p) = p" "\<And>entry p. locked_op X c entry p = whole_op X c p"
  | "pool_locks X c = [(Senders, WriteLock), (Hashes, WriteLock)]" "\<And>entry p. locked_op X c entry p = whole_op X c p"
  | "pool_locks X c = [(Senders, ReadLock)]" "\<And>entry p. snd (locked_op X c entry p) = p"
      "\<And>entry p. locked_op X c entry p = whole_op X c p"
  | h where "c = GetByHashOp h"
proof (cases c)
  case (InsertOp rank tx)
  with that(1,2) show thesis
    by (cases rule: sender_cases [of X tx]) (simp_all add: insert_tx_def)
qed (use that in auto)

lemma take_at:
  assumes "thread_at X p c (Running c' (g # todo) gs entry)"
  shows "thread_at X p c (take_guard p c' g todo gs entry)"
  using assms
proof cases
  case begins
  then show ?thesis
    by (cases rule: pool_locks_cases [of X c]) (cases c; auto simp: pool_call_def intro: thread_at.intros split: option.splits)+
next
  case write_one
  then show ?thesis by (cases c) (auto intro: thread_at.intros)
next
  case known
  then show ?thesis by (auto intro: thread_at.intros)
qed

lemma take_held: "held (take_guard p c g todo gs entry) = g # gs"
  by (induction p c g todo gs entry rule: take_guard.induct) (simp_all split: option.splits)

lemma guarded_step:
  assumes "guarded ts" and "i < length ts"
    and "\<And>j g'. j < length ts \<Longrightarrow> j \<noteq> i \<Longrightarrow> g' \<in> set (held (ts ! j)) \<Longrightarrow> list_all (compatible g') (held t)"
  shows "guarded (ts[i := t])"
  using assms unfolding guarded_def
  by (auto simp: nth_list_update list_all_iff compatible_sym)

text \<open>A thread that is about to return answers as the whole operation does, and changes the pool only
  when it excludes every other thread from both tables.\<close>

lemma return_at:
  assumes "thread_at X p c (Running c' [] gs entry)"
  shows "c' = c \<and> locked_op X c entry p = whole_op X c p \<and>
    (snd (whole_op X c p) = p \<or> (Hashes, WriteLock) \<in> set gs)"
  using assms
proof cases
  case begins
  then show ?thesis by (cases rule: pool_locks_cases [of X c]) (auto simp: pool_call_def)
next
  case write_both
  then show ?thesis by (cases rule: pool_locks_cases [of X c]) auto
next
  case read
  then show ?thesis by (cases rule: pool_locks_cases [of X c]) auto
qed (auto simp: get_by_hash_def split: prod.splits)

lemma thread_at_other:
  assumes "thread_at X p c t" and "\<forall>m. (Hashes, m) \<notin> set (held t)"
  shows "thread_at X p' c t"
  using assms by cases (auto intro: thread_at.intros)

lemma threads_ok_step:
  assumes "threads_ok X cs (p, ts)" and "pool_step X (p, ts) l (p', ts')"
  shows "threads_ok X cs (p', ts')"
  using assms(2)
proof cases
  case (lock i c g todo gs entry)
  have at: "thread_at X p (cs ! i) (ts ! i)" using assms(1) lock(4) by (simp add: threads_ok_def)
  have "guarded ts'"
    unfolding lock(3)
    by (rule guarded_step)
      (use assms(1) lock(4-6) in \<open>auto simp: threads_ok_def take_held grantable_def guarded_def list_all_iff compatible_sym\<close>)
  with assms(1) lock(2-4) take_at [OF at [unfolded lock(5)]] show ?thesis
    by (auto simp: threads_ok_def nth_list_update)
next
  case (return i c gs entry a)
  have at: "thread_at X p (cs ! i) (Running c [] gs entry)"
    using assms(1) return(3) by (simp add: threads_ok_def flip: return(4))
  note ret = return_at [OF at]
  have "thread_at X p' (cs ! j) (ts ! j)" if j: "j < length ts" "j \<noteq> i" for j
  proof (cases "p' = p")
    case True
    with assms(1) j show ?thesis by (simp add: threads_ok_def)
  next
    case False
    with ret return(5) have "(Hashes, WriteLock) \<in> set gs" by auto
    then have "\<forall>m. (Hashes, m) \<notin> set (held (ts ! j))"
      using assms(1) j return(3,4) unfolding threads_ok_def guarded_def
      by (fastforce simp: compatible_def)
    with assms(1) j show ?thesis by (auto simp: threads_ok_def intro: thread_at_other)
  qed
  moreover have "guarded (ts[i := Returned a])"
    by (rule guarded_step) (use assms(1) return(3) in \<open>auto simp: threads_ok_def\<close>)
  ultimately show ?thesis
    using assms(1) return(2,3) by (auto simp: threads_ok_def nth_list_update intro: thread_at.finished)
qed

lemma threads_ok_start: "threads_ok X cs (p, map (pool_call X) cs)"
  by (auto simp: threads_ok_def guarded_def pool_call_def intro: thread_at.begins [unfolded pool_call_def])

lemma threads_ok_steps:
  assumes "pool_steps X s is c" and "threads_ok X cs s"
  shows "threads_ok X cs c"
  using assms by induction (metis prod.collapse threads_ok_step)+

section \<open>Order of return\<close>

lemma one_at_a_time_snoc:
  "one_at_a_time X cs (is @ [i]) p = (case one_at_a_time X cs is p of (as, p') \<Rightarrow>
     case whole_op X (cs ! i) p' of (a, p'') \<Rightarrow> (as @ [(i, a)], p''))"
  by (induction "is" arbitrary: p) (simp_all split: prod.splits)

lemma steps_one_at_a_time:
  assumes "pool_steps X (p, map (pool_call X) cs) is c"
  shows "\<exists>as. one_at_a_time X cs is p = (as, fst c) \<and> map fst as = is \<and> distinct is \<and>
    (\<forall>i < length cs. \<forall>a. snd c ! i = Returned a \<longleftrightarrow> (i, a) \<in> set as)"
  using assms
proof induction
  case stay
  then show ?case by (simp add: pool_call_def)
next
  case (silent "is" c c')
  have ok: "threads_ok X cs c" using threads_ok_steps [OF silent.hyps(1) threads_ok_start] .
  from silent.hyps(2) obtain i ts g todo gs e op p' where c: "c = (p', ts)"
    "c' = (p', ts[i := take_guard p' op g todo gs e])" "ts ! i = Running op (g # todo) gs e" "i < length ts"
    by cases auto
  have t: "take_guard p' op g todo gs e \<noteq> Returned a" for a
    by (induction p' op g todo gs e rule: take_guard.induct) (simp_all split: option.splits)
  from silent.IH c(1) obtain as where as: "one_at_a_time X cs is p = (as, p')" "map fst as = is" "distinct is"
    "\<forall>i < length cs. \<forall>a. ts ! i = Returned a \<longleftrightarrow> (i, a) \<in> set as" by auto
  have "\<forall>j < length cs. \<forall>a. ts[i := take_guard p' op g todo gs e] ! j = Returned a \<longleftrightarrow> (j, a) \<in> set as"
    using as(4) t c(3,4) by (metis nth_list_update pool_thread.distinct(1))
  with as c(2) show ?case by auto
next
  case (answer "is" c i c')
  have ok: "threads_ok X cs c" using threads_ok_steps [OF answer.hyps(1) threads_ok_start] .
  from answer.hyps(2) obtain ts op gs e p' p'' a where
    c: "c = (p', ts)" "c' = (p'', ts[i := Returned a])" "ts ! i = Running op [] gs e" "i < length ts"
      "locked_op X op e p' = (a, p'')"
    by cases auto
  from ok c(1,3,4) have "thread_at X p' (cs ! i) (Running op [] gs e)"
    by (auto simp: threads_ok_def simp flip: c(3))
  from return_at [OF this] c(5) have w: "whole_op X (cs ! i) p' = (a, p'')" by simp
  have len: "length ts = length cs" using ok c(1) by (simp add: threads_ok_def)
  from answer.IH c(1) obtain as where as: "one_at_a_time X cs is p = (as, p')" "map fst as = is" "distinct is"
    "\<forall>i < length cs. \<forall>a. ts ! i = Returned a \<longleftrightarrow> (i, a) \<in> set as" by auto
  have "i \<notin> set is"
  proof
    assume "i \<in> set is"
    then obtain a' where "(i, a') \<in> set as" using as(2) by auto
    then have "ts ! i = Returned a'" using as(4) c(4) len by auto
    with c(3) show False by simp
  qed
  moreover have "(i, b) \<notin> set as" for b using calculation as(2) by force
  ultimately show ?case
    using as c len w by (auto simp: one_at_a_time_snoc nth_list_update)
qed

section \<open>Progress\<close>

text \<open>Locks still to take and answers still to give.\<close>

fun pending :: "pool_thread \<Rightarrow> nat" where
  "pending (Running c todo gs entry) = Suc (length todo)"
| "pending (Returned a) = 0"

lemma take_pending: "pending (take_guard p c g todo gs entry) < pending (Running c (g # todo) gs entry)"
  by (induction p c g todo gs entry rule: take_guard.induct) (simp_all split: option.splits)

lemma sum_list_update_less:
  "i < length xs \<Longrightarrow> f y < f (xs ! i) \<Longrightarrow> sum_list (map f (xs[i := y])) < sum_list (map f xs)"
  for f :: "'a \<Rightarrow> nat"
  by (induction xs arbitrary: i) (auto simp: less_Suc_eq_0_disj split: nat.splits)

lemma step_pending:
  assumes "pool_step X c l c'"
  shows "sum_list (map pending (snd c')) < sum_list (map pending (snd c))"
  using assms
proof cases
  case (lock i ts c g todo gs entry p)
  then show ?thesis
    using sum_list_update_less [of i ts pending "take_guard p c g todo gs entry"] take_pending [of p c g todo gs entry]
    by simp
next
  case (return i ts c gs entry p a p')
  then show ?thesis using sum_list_update_less [of i ts pending "Returned a"] by simp
qed

text \<open>Threads that take the locks in the order of the tables: one of them can always go on.\<close>

lemma ordered_can_step:
  assumes ok: "threads_ok X cs (p, ts)" and ord: "\<forall>h. GetByHashOp h \<notin> set cs"
    and i: "i < length ts" "\<forall>a. ts ! i \<noteq> Returned a"
  shows "\<exists>l c'. pool_step X (p, ts) l c'"
proof (cases "\<exists>j c gs entry. j < length ts \<and> ts ! j = Running c [] gs entry")
  case True
  then obtain j c gs entry where "j < length ts" "ts ! j = Running c [] gs entry" by blast
  from pool_step.return [OF this, of X p] show ?thesis by (metis prod.collapse)
next
  case False
  have at: "thread_at X p (cs ! j) (ts ! j)" "\<forall>h. cs ! j \<noteq> GetByHashOp h" if "j < length ts" for j
    using ok ord that by (auto simp: threads_ok_def) (metis nth_mem)
  have hashes: "(Hashes, m) \<notin> set (held (ts ! j))" if "j < length ts" for j m
    using at [OF that] False that by cases (auto simp: pool_call_def)
  show ?thesis
  proof (cases "\<exists>j < length ts. held (ts ! j) \<noteq> []")
    case True
    then obtain j where j: "j < length ts" "held (ts ! j) \<noteq> []" by blast
    with at [OF j(1)] False obtain c where c: "ts ! j = Running c [(Hashes, WriteLock)] [(Senders, WriteLock)] None"
      by cases (auto simp: pool_call_def)
    have "grantable ts j (Hashes, WriteLock)"
      using hashes by (auto simp: grantable_def list_all_iff compatible_def)
    from pool_step.lock [OF j(1) c this] show ?thesis by blast
  next
    case None: False
    obtain c todo gs entry where r: "ts ! i = Running c todo gs entry" using i(2) by (cases "ts ! i") auto
    with False i(1) have "todo \<noteq> []" by blast
    with r obtain g todo' where "ts ! i = Running c (g # todo') gs entry" by (cases todo) auto
    moreover have "grantable ts i g" using None by (auto simp: grantable_def)
    ultimately show ?thesis using pool_step.lock [OF i(1)] by blast
  qed
qed

lemma pool_steps_trans:
  assumes "pool_steps X c js c'" and "pool_steps X s is c"
  shows "pool_steps X s (is @ js) c'"
  using assms by induction (auto intro: pool_steps.intros simp flip: append_assoc)

lemma ordered_finish:
  assumes "threads_ok X cs c" and "\<forall>h. GetByHashOp h \<notin> set cs"
  shows "\<exists>js c'. pool_steps X c js c' \<and> (\<forall>t \<in> set (snd c'). \<exists>a. t = Returned a)"
  using assms(1)
proof (induction "sum_list (map pending (snd c))" arbitrary: c rule: less_induct)
  case less
  show ?case
  proof (cases "\<forall>t \<in> set (snd c). \<exists>a. t = Returned a")
    case True
    then show ?thesis using pool_steps.stay by blast
  next
    case False
    then obtain i where "i < length (snd c)" "\<forall>a. snd c ! i \<noteq> Returned a" by (metis in_set_conv_nth)
    with ordered_can_step [of X cs "fst c" "snd c", OF _ assms(2)] less.prems
    have "\<exists>l c1. pool_step X c l c1" by simp
    then obtain l c1 where st: "pool_step X c l c1" by blast
    with less.prems have "threads_ok X cs c1" by (metis prod.collapse threads_ok_step)
    from less.hyps [OF step_pending [OF st] this] obtain js c' where
      js: "pool_steps X c1 js c'" "\<forall>t \<in> set (snd c'). \<exists>a. t = Returned a" by blast
    have "\<exists>is. pool_steps X c is c1"
      using st pool_steps.silent [OF pool_steps.stay, of X c c1] pool_steps.answer [OF pool_steps.stay, of X c _ c1]
      by (cases l) blast+
    with js show ?thesis using pool_steps_trans by blast
  qed
qed

section \<open>A blocked pool\<close>

text \<open>An operation that cannot return without the lock of the table of senders.\<close>

definition needs_senders :: "ext \<Rightarrow> mempool \<Rightarrow> pool_op \<Rightarrow> bool" where
  "needs_senders X p c \<longleftrightarrow> (\<exists>m. (Senders, m) \<in> set (pool_locks X c)) \<and> (\<forall>h. c = GetByHashOp h \<longrightarrow> mp_by_hash p h \<noteq> None)"

definition waits :: "pool_thread \<Rightarrow> bool" where
  "waits t \<longleftrightarrow> (\<exists>c todo gs entry m. t = Running c todo gs entry \<and> (Senders, m) \<in> set todo)"

text \<open>A reader of the index that waits for the senders, and an insertion that waits for the index.\<close>

definition blocked :: "ext \<Rightarrow> pool_op list \<Rightarrow> mempool \<Rightarrow> mempool \<times> pool_thread list \<Rightarrow> bool" where
  "blocked X cs p = (\<lambda>(p', ts). p' = p \<and> threads_ok X cs (p', ts) \<and> 2 \<le> length ts \<and>
     (\<exists>c entry. ts ! 0 = Running c [(Senders, ReadLock)] [(Hashes, ReadLock)] entry) \<and>
     (\<exists>c entry. ts ! 1 = Running c [(Hashes, WriteLock)] [(Senders, WriteLock)] entry) \<and>
     (\<forall>i < length ts. 2 \<le> i \<longrightarrow> needs_senders X p (cs ! i) \<longrightarrow> waits (ts ! i)))"

lemma whole_op_keeps:
  assumes "\<not> needs_senders X p c"
  shows "snd (whole_op X c p) = p"
  using assms
proof (cases c)
  case (InsertOp rank tx)
  with assms show ?thesis
    by (cases rule: sender_cases [of X tx]) (auto simp: needs_senders_def insert_tx_def split: prod.splits)
qed (auto simp: needs_senders_def)

lemma take_waits:
  assumes "thread_at X p c (Running c' (g # todo) gs entry)" and "needs_senders X p c" and "fst g \<noteq> Senders"
    and "waits (Running c' (g # todo) gs entry)"
  shows "waits (take_guard p c' g todo gs entry)"
proof -
  have "\<exists>m. (Senders, m) \<in> set todo" using assms(3,4) by (auto simp: waits_def)
  moreover have "c' = c" using assms(1) by cases (simp_all add: pool_call_def)
  ultimately show ?thesis
    using assms(2) by (cases "(p, c', g, todo, gs, entry)" rule: take_guard.cases)
      (auto simp: waits_def needs_senders_def split: option.splits)
qed

lemma blocked_step:
  assumes "blocked X cs p (p1, ts)" and "pool_step X (p1, ts) l (p2, ts')"
  shows "blocked X cs p (p2, ts')"
proof -
  from assms(1) obtain c0 e0 c1 e1 where b: "p1 = p" "threads_ok X cs (p1, ts)" "2 \<le> length ts"
    "ts ! 0 = Running c0 [(Senders, ReadLock)] [(Hashes, ReadLock)] e0"
    "ts ! 1 = Running c1 [(Hashes, WriteLock)] [(Senders, WriteLock)] e1"
    "\<And>i. i < length ts \<Longrightarrow> 2 \<le> i \<Longrightarrow> needs_senders X p (cs ! i) \<Longrightarrow> waits (ts ! i)"
    by (auto simp: blocked_def)
  have at: "thread_at X p (cs ! i) (ts ! i)" if "i < length ts" for i
    using b(1,2) that by (simp add: threads_ok_def)
  have notI: "\<not> grantable ts i g" if "j < length ts" "j \<noteq> i" "\<not> list_all (compatible g) (held (ts ! j))" for i j g
    using that by (auto simp: grantable_def)
  have len: "0 < length ts" "1 < length ts" using b(3) by linarith+
  have excl: "\<not> grantable ts 0 (Senders, ReadLock)" "\<not> grantable ts 1 (Hashes, WriteLock)"
    using notI [OF len(2), of 0 "(Senders, ReadLock)"] notI [OF len(1), of 1 "(Hashes, WriteLock)"] b(4,5)
    by (simp_all add: compatible_def)
  have excl2: "\<not> grantable ts i (Senders, m)" if "2 \<le> i" for i m
    using notI [OF len(2), of i "(Senders, m)"] b(5) that by (simp add: compatible_def)
  from assms(2) show ?thesis
  proof cases
    case (lock i c g todo gs entry)
    have i: "2 \<le> i"
    proof (rule ccontr)
      assume "\<not> 2 \<le> i"
      then have "i = 0 \<or> i = 1" by auto
      with lock(5,6) b(4,5) excl(1,2) show False by auto
    qed
    moreover have "fst g \<noteq> Senders" using excl2 [OF i] lock(6) by (metis prod.collapse)
    ultimately show ?thesis
      using b threads_ok_step [OF b(2) assms(2)] lock(2-5) take_waits [OF at [OF lock(4), unfolded lock(5)]] b(6) [of i]
      by (auto simp: blocked_def nth_list_update)
  next
    case (return i c gs entry a)
    have i: "2 \<le> i"
    proof (rule ccontr)
      assume "\<not> 2 \<le> i"
      then have "i = 0 \<or> i = 1" by auto
      with return(4) b(4,5) show False by auto
    qed
    have "\<not> waits (ts ! i)" using return(4) by (simp add: waits_def)
    with b(6) [OF return(3) i] have n: "\<not> needs_senders X p (cs ! i)" by blast
    have "p2 = p1"
      using return_at [OF at [OF return(3), unfolded return(4)]] return(5) whole_op_keeps [OF n] b(1) by auto
    with b i n threads_ok_step [OF b(2) assms(2)] return(2,3) show ?thesis
      by (auto simp: blocked_def nth_list_update)
  qed
qed

lemma blocked_steps:
  assumes "pool_steps X c is c'" and "blocked X cs p c"
  shows "blocked X cs p c'"
  using assms by induction (metis prod.collapse blocked_step)+

lemma reaches_blocked:
  assumes h: "mp_by_hash p h = Some e" and s: "sender X tx = Ok a"
    and cs_def: "cs = GetByHashOp h # InsertOp rank tx # rest"
  shows "\<exists>ts. pool_steps X (p, map (pool_call X) cs) [] (p, ts) \<and> blocked X cs p (p, ts)"
proof -
  let ?g = "Running (GetByHashOp h) [(Senders, ReadLock)] [(Hashes, ReadLock)] (Some e)"
  let ?i = "Running (InsertOp rank tx) [(Hashes, WriteLock)] [(Senders, WriteLock)] None"
  let ?rest = "map (pool_call X) rest"
  have c: "map (pool_call X) cs = Running (GetByHashOp h) [(Hashes, ReadLock), (Senders, ReadLock)] [] None #
      Running (InsertOp rank tx) [(Senders, WriteLock), (Hashes, WriteLock)] [] None # ?rest"
    by (simp add: cs_def pool_call_def s)
  let ?ready = "Running (InsertOp rank tx) [(Senders, WriteLock), (Hashes, WriteLock)] [] None"
  have free: "grantable (map (pool_call X) cs) 0 (Hashes, ReadLock)" "grantable (?g # ?ready # ?rest) 1 (Senders, WriteLock)"
    by (auto simp: c grantable_def compatible_def nth_Cons pool_call_def split: nat.splits)
  have one: "pool_step X (p, map (pool_call X) cs) None (p, ?g # ?ready # ?rest)"
    using pool_step.lock [OF _ _ free(1), of "GetByHashOp h" "[(Senders, ReadLock)]" "[]" None X p] h c by simp
  have two: "pool_step X (p, ?g # ?ready # ?rest) None (p, ?g # ?i # ?rest)"
    using pool_step.lock [OF _ _ free(2), of "InsertOp rank tx" "[(Hashes, WriteLock)]" "[]" None X p] by simp
  have steps: "pool_steps X (p, map (pool_call X) cs) [] (p, ?g # ?i # ?rest)"
    by (rule pool_steps.silent [OF pool_steps.silent [OF pool_steps.stay one] two])
  moreover have "waits (?rest ! i)" if "i < length rest" "needs_senders X p (rest ! i)" for i
    using that by (auto simp: waits_def needs_senders_def pool_call_def)
  ultimately have "blocked X cs p (p, ?g # ?i # ?rest)"
    using threads_ok_steps [OF steps threads_ok_start]
    by (auto simp: blocked_def cs_def nth_Cons numeral_2_eq_2 split: nat.splits)
  with steps show ?thesis by blast
qed

section \<open>Properties\<close>

text \<open>C8: concurrent use of the pool is as good as one operation after the other: after any
  interleaving of any operations, the answers that were given and the pool are exactly those of
  performing the operations that returned, whole and alone, in the order in which they returned.\<close>

theorem pool_operations_serialize:
  assumes "pool_steps X (p, map (pool_call X) cs) is (p', ts)"
  shows "\<exists>as. one_at_a_time X cs is p = (as, p') \<and> map fst as = is \<and> distinct is \<and>
    (\<forall>i < length cs. \<forall>a. ts ! i = Returned a \<longleftrightarrow> (i, a) \<in> set as)"
  using steps_one_at_a_time [OF assms] by simp

text \<open>C9: threads that insert, remove, count or pick transactions never block one another: after
  any interleaving, either all have returned or some thread can go on, every step brings the end
  nearer, and all of them can be brought to their answers.\<close>

theorem ordered_threads_finish:
  assumes "\<forall>h. GetByHashOp h \<notin> set cs" and "pool_steps X (p, map (pool_call X) cs) is c"
  shows "((\<forall>t \<in> set (snd c). \<exists>a. t = Returned a) \<or> (\<exists>l c'. pool_step X c l c')) \<and>
    (\<forall>l c'. pool_step X c l c' \<longrightarrow> sum_list (map pending (snd c')) < sum_list (map pending (snd c))) \<and>
    (\<exists>js c'. pool_steps X c js c' \<and> (\<forall>t \<in> set (snd c'). \<exists>a. t = Returned a))"
proof -
  have ok: "threads_ok X cs (fst c, snd c)"
    using threads_ok_steps [OF assms(2) threads_ok_start] by simp
  have "\<exists>l c'. pool_step X c l c'" if "\<not> (\<forall>t \<in> set (snd c). \<exists>a. t = Returned a)"
  proof -
    from that obtain i where "i < length (snd c)" "\<forall>a. snd c ! i \<noteq> Returned a" by (metis in_set_conv_nth)
    from ordered_can_step [OF ok assms(1) this] show ?thesis by simp
  qed
  with step_pending ordered_finish [OF ok assms(1)] show ?thesis by auto
qed

text \<open>C10: a lookup by hash can block the pool for good: \<open>get_by_hash\<close> takes the index before the
  senders, every other operation the senders first. When a lookup of a pooled hash and an
  insertion meet, they can end up waiting for each other; from then on the pool never changes again, and
  no operation that needs the table of senders ever returns, so neither the block producer gets
  candidates nor can anything be inserted or removed.\<close>

theorem lookup_can_block_pool:
  assumes "mp_by_hash p h = Some e" and "sender X tx = Ok a"
    and "cs = GetByHashOp h # InsertOp rank tx # rest"
  shows "\<exists>c. pool_steps X (p, map (pool_call X) cs) [] c \<and>
    (\<forall>is p' ts. pool_steps X c is (p', ts) \<longrightarrow> p' = p \<and>
       (\<forall>i < length cs. needs_senders X p (cs ! i) \<longrightarrow> (\<forall>b. ts ! i \<noteq> Returned b)))"
proof -
  from reaches_blocked [OF assms] obtain ts where
    ts: "pool_steps X (p, map (pool_call X) cs) [] (p, ts)" "blocked X cs p (p, ts)" by blast
  have "p' = p \<and> (\<forall>i < length cs. needs_senders X p (cs ! i) \<longrightarrow> (\<forall>b. ts' ! i \<noteq> Returned b))"
    if "pool_steps X (p, ts) is (p', ts')" for "is" p' ts'
  proof -
    have b: "blocked X cs p (p', ts')" by (rule blocked_steps [OF that ts(2)])
    have "ts' ! i \<noteq> Returned d" if "i < length cs" "needs_senders X p (cs ! i)" for i d
    proof (cases "2 \<le> i")
      case True
      with b that show ?thesis by (auto simp: blocked_def threads_ok_def waits_def)
    next
      case False
      then have "i = 0 \<or> i = 1" by auto
      with b show ?thesis by (auto simp: blocked_def)
    qed
    with b show ?thesis by (auto simp: blocked_def)
  qed
  with ts(1) show ?thesis by blast
qed

text \<open>The example pool holds one transaction; a lookup, an insertion and the producer's pick.\<close>

theorem pool_operations_serialize_witness:
  "\<exists>p p' ts. mp_by_hash p 100 \<noteq> None \<and> pool_steps ref_ext (p, map (pool_call ref_ext) [RemoveOp 100, LenOp]) [1] (p', ts) \<and>
     one_at_a_time ref_ext [RemoveOp 100, LenOp] [1] p = ([(1, Counted (Ok 1))], p') \<and> ts ! 1 = Returned (Counted (Ok 1))"
proof -
  let ?cs = "[RemoveOp 100, LenOp]" and ?r = "Running (RemoveOp 100) [(Senders, WriteLock), (Hashes, WriteLock)] [] None"
  obtain p :: mempool where p: "mp_by_sender p = [(3, [(0, hashed_tx 100 0 1)])]" "mp_by_hash p = [100 \<mapsto> (3, 0)]"
    using example_pool by blast
  have start: "map (pool_call ref_ext) ?cs = [?r, Running LenOp [(Senders, ReadLock)] [] None]" by (simp add: pool_call_def)
  have free: "grantable (map (pool_call ref_ext) ?cs) 1 (Senders, ReadLock)"
    by (auto simp: pool_call_def grantable_def nth_Cons split: nat.splits)
  have one: "pool_step ref_ext (p, map (pool_call ref_ext) ?cs) None (p, [?r, Running LenOp [] [(Senders, ReadLock)] None])"
    using pool_step.lock [OF _ _ free, of LenOp "[]" "[]" None ref_ext p] by (simp add: pool_call_def)
  have two: "pool_step ref_ext (p, [?r, Running LenOp [] [(Senders, ReadLock)] None]) (Some 1) (p, [?r, Returned (Counted (Ok 1))])"
    using pool_step.return [of 1 "[?r, Running LenOp [] [(Senders, ReadLock)] None]" LenOp "[(Senders, ReadLock)]" None ref_ext p
        "Counted (Ok 1)" p] p by (simp add: pool_len_def pool_total_def)
  have steps: "pool_steps ref_ext (p, map (pool_call ref_ext) ?cs) [1] (p, [?r, Returned (Counted (Ok 1))])"
    using pool_steps.answer [OF pool_steps.silent [OF pool_steps.stay one] two] by simp
  from pool_operations_serialize [OF steps] p(1)
  have "one_at_a_time ref_ext ?cs [1] p = ([(1, Counted (Ok 1))], p)"
    by (auto simp: pool_len_def pool_total_def)
  with steps p(2) show ?thesis by (intro exI [of _ p] exI conjI) auto
qed

theorem ordered_threads_finish_witness:
  "\<exists>js p ts. pool_steps ref_ext (with_capacity 1, map (pool_call ref_ext) [InsertOp (\<lambda>_ _. 0) (hashed_tx 100 0 1), LenOp]) js (p, ts) \<and>
     (\<forall>t \<in> set ts. \<exists>a. t = Returned a)"
proof -
  have "\<forall>h. GetByHashOp h \<notin> set [InsertOp (\<lambda>_ _. 0) (hashed_tx 100 0 1), LenOp]" by simp
  from ordered_threads_finish [OF this pool_steps.stay, of "with_capacity 1" ref_ext] show ?thesis by auto
qed

theorem lookup_can_block_pool_witness:
  "\<exists>p c. mp_by_hash p 100 \<noteq> None \<and> pool_steps ref_ext (p, map (pool_call ref_ext)
       [GetByHashOp 100, InsertOp (\<lambda>_ _. 0) (hashed_tx 101 1 1), GetBestOp (\<lambda>_ _. 0) 100]) [] c \<and>
     (\<forall>is p' ts b. pool_steps ref_ext c is (p', ts) \<longrightarrow> ts ! 2 \<noteq> Returned b)"
proof -
  obtain p :: mempool where p: "mp_by_hash p 100 = Some (3, 0)" using example_pool by (metis map_upd_eqD1 fun_upd_same)
  have s: "sender ref_ext (hashed_tx 101 1 1) = Ok 3" by simp
  from lookup_can_block_pool [OF p s refl, of "\<lambda>_ _. 0" "[GetBestOp (\<lambda>_ _. 0) 100]"]
  obtain c where c: "pool_steps ref_ext (p, map (pool_call ref_ext)
       [GetByHashOp 100, InsertOp (\<lambda>_ _. 0) (hashed_tx 101 1 1), GetBestOp (\<lambda>_ _. 0) 100]) [] c"
    "\<And>is p' ts. pool_steps ref_ext c is (p', ts) \<Longrightarrow> \<forall>i < 3. needs_senders ref_ext p
       ([GetByHashOp 100, InsertOp (\<lambda>_ _. 0) (hashed_tx 101 1 1), GetBestOp (\<lambda>_ _. 0) 100] ! i) \<longrightarrow> (\<forall>b. ts ! i \<noteq> Returned b)"
    by (auto simp: numeral_3_eq_3)
  have "needs_senders ref_ext p (GetBestOp (\<lambda>_ _. 0) 100)" by (simp add: needs_senders_def)
  with c(2) have "ts ! 2 \<noteq> Returned b" if "pool_steps ref_ext c is (p', ts)" for "is" p' ts b
    using that by (auto dest!: spec [of _ 2])
  with c(1) p show ?thesis by blast
qed

end
