(* ===== verification/Quyn_Devnet.thy ===== *)
theory Quyn_Devnet
  imports Quyn_NodeLaws
begin

text \<open>
  node/src/main.rs, \<open>run_devnet\<close>: the running devnet. The block producer is a task beside the server; both
  share the two databases and the pool. Here a production round is cut into steps, between which
  requests are served: opening the round, one candidate after the other, making the block,
  accepting it, and one receipt after the other. Requests only read the databases, so what
  they can see within a step is the only thing this leaves out. The process may also stop between
  two steps and start again on its databases; a stop within a step, as between the single writes of
  \<open>accept_block\<close>, is left out. Lemmas: without requests the steps are a round of
  \<open>produce_block\<close>; and what holds in every state of every such run of the system.
\<close>

section \<open>The producer in steps\<close>

text \<open>Where the producer is: asleep; at the candidates of a round (with the hash of the parent, the
  number and the time of the round, the candidates left and the ones executed); with a block to
  accept; at the receipts of a stored block; ended by a panic.\<close>

datatype producer =
    Sleeping
  | Screening b256 u64 u64 "signed_transaction list" "(signed_transaction \<times> u64) list"
  | Proposing block u64 "(signed_transaction \<times> u64) list"
  | Indexing block nat "(signed_transaction \<times> u64) list"
  | Gone

definition open_round :: "('d, 'f) node_crates \<Rightarrow> string + u64 \<Rightarrow> ('d, producer) node_act" where
  "open_round E clock1 = (let K = rc_kv E; X = rc_ext E; C = rc_codec E in
     abind (aread (\<lambda>nd. map_err CoreErr (get_head K X (fn_chain nd)))) (\<lambda>head. case head of None \<Rightarrow> aret Sleeping | Some h \<Rightarrow>
     abind (aread (\<lambda>nd. map_err CoreErr (get_block K X C (fn_chain nd) h))) (\<lambda>p. case p of None \<Rightarrow> aret Sleeping | Some parent \<Rightarrow>
     abind (alift (chk_add (h_number (b_header parent)) 1)) (\<lambda>next_number.
     abind (aread (\<lambda>nd. selected_proposer E (fn_chain nd) (block_hash X parent) next_number)) (\<lambda>proposer.
     if (case proposer of Some a \<Rightarrow> a \<noteq> devnet_validator | None \<Rightarrow> False) then aret Sleeping
     else abind (alift (of_sum (\<lambda>e. TextErr (''system time before UNIX_EPOCH: '' @ e)) clock1)) (\<lambda>now.
       abind (aread (\<lambda>nd. map_err CoreErr (get_best (rc_rank E) (fn_mempool nd) 100))) (\<lambda>candidates.
       aret (Screening (block_hash X parent) next_number now candidates []))))))))"

definition screen_next :: "('d, 'f) node_crates \<Rightarrow> b256 \<Rightarrow> u64 \<Rightarrow> u64 \<Rightarrow> signed_transaction \<Rightarrow>
    signed_transaction list \<Rightarrow> (signed_transaction \<times> u64) list \<Rightarrow> ('d, producer) node_act" where
  "screen_next E parent_hash next_number now tx candidates to_apply =
     abind (include_tx E (block_env (rc_ext E) next_number now 30000000 0 devnet_validator) CHAIN_ID_TESTNET next_number tx)
       (\<lambda>gas. aret (Screening parent_hash next_number now candidates
          (case gas of None \<Rightarrow> to_apply | Some gas_used \<Rightarrow> to_apply @ [(tx, gas_used)])))"

definition propose :: "('d, 'f) node_crates \<Rightarrow> b256 \<Rightarrow> u64 \<Rightarrow> u64 \<Rightarrow> string + u64 \<Rightarrow>
    (signed_transaction \<times> u64) list \<Rightarrow> ('d, producer) node_act" where
  "propose E parent_hash next_number now clock2 to_apply = (let K = rc_kv E; X = rc_ext E in
     athen (burn_fees E devnet_validator (fst (split_fees (total_gas_fees to_apply)))) (
     abind (aread (\<lambda>nd. map_err CoreErr (compute_state_root K X (fn_state nd)))) (\<lambda>state_root.
     abind (alift (map_err CoreErr (new_block X clock2 parent_hash next_number state_root 0 (map fst to_apply)
       devnet_validator [] 30000000 0))) (\<lambda>b.
     aret (Proposing b now to_apply)))))"

definition index_next :: "('d, 'f) node_crates \<Rightarrow> block \<Rightarrow> nat \<Rightarrow> signed_transaction \<Rightarrow> u64 \<Rightarrow>
    (signed_transaction \<times> u64) list \<Rightarrow> ('d, producer) node_act" where
  "index_next E b i tx gas_used rest = (let K = rc_kv E; X = rc_ext E in
     athen (in_chain (put_tx_receipt_index K X (tx_hash X tx) (block_hash X b) (h_number (b_header b)) (of_nat i) gas_used)) (
     athen (discard (in_pool (remove_tx (tx_hash X tx))))
       (aret (Indexing b (i + 1) rest))))"

fun producer_act ::
  "('d, 'f) node_crates \<Rightarrow> string + u64 \<Rightarrow> string + u64 \<Rightarrow> producer \<Rightarrow> ('d, producer) node_act" where
  "producer_act E clock1 clock2 Sleeping = open_round E clock1"
| "producer_act E clock1 clock2 (Screening h n now (tx # txs) ta) = screen_next E h n now tx txs ta"
| "producer_act E clock1 clock2 (Screening h n now [] ta) = propose E h n now clock2 ta"
| "producer_act E clock1 clock2 (Proposing b now ta) = athen (accept_sealed E b now) (aret (Indexing b 0 ta))"
| "producer_act E clock1 clock2 (Indexing b i ((tx, gas_used) # ta)) = index_next E b i tx gas_used ta"
| "producer_act E clock1 clock2 (Indexing b i []) = aret Sleeping"
| "producer_act E clock1 clock2 Gone = aret Gone"

text \<open>An error ends the round and is logged; a panic ends the task.\<close>

fun next_place :: "(node_error, producer) outcome \<Rightarrow> producer" where
  "next_place (Ok pr) = pr"
| "next_place (Err e) = Sleeping"
| "next_place Panic = Gone"
| "next_place Diverge = Gone"

definition producer_step :: "('d, 'f) node_crates \<Rightarrow> string + u64 \<Rightarrow> string + u64 \<Rightarrow>
    producer \<times> 'd full_node \<Rightarrow> producer \<times> 'd full_node" where
  "producer_step E clock1 clock2 = (\<lambda>(pr, nd). case producer_act E clock1 clock2 pr nd of (r, nd') \<Rightarrow> (next_place r, nd'))"

section \<open>The system\<close>

definition shared :: "('d, 'f) app_state \<Rightarrow> 'd full_node" where
  "shared app = \<lparr>fn_chain = as_chain app, fn_state = as_state app, fn_mempool = as_mempool app\<rparr>"

definition share :: "'d full_node \<Rightarrow> ('d, 'f) app_state \<Rightarrow> ('d, 'f) app_state" where
  "share nd app = app\<lparr>as_chain := fn_chain nd, as_state := fn_state nd, as_mempool := fn_mempool nd\<rparr>"

text \<open>\<open>run_devnet\<close> up to the server: the genesis if there is none, the task, the server's state.\<close>

definition run_devnet :: "('d, 'f) node_crates \<Rightarrow> ((string \<times> string) list \<Rightarrow> (string \<times> string) list) \<Rightarrow>
    'd \<Rightarrow> 'd \<Rightarrow> (node_error, producer \<times> ('d, 'f) app_state) outcome" where
  "run_devnet E order chain state = (case init_devnet E order (open_node chain state) of (r, nd) \<Rightarrow>
     obind r (\<lambda>_. Ok (Sleeping, serve_state (fn_chain nd) (fn_state nd) (fn_mempool nd) CHAIN_ID_TESTNET (rc_f64 E))))"

text \<open>The runs of the system leave out hash collisions, and bodies bincode reads back as other ones: a
  block that is about to be accepted has a new hash, and it can be read back or the reader refuses it. The
  producer itself checks neither.\<close>

definition sealable :: "('d, 'f) node_crates \<Rightarrow> ('d \<Rightarrow> bytes \<rightharpoonup> bytes) \<Rightarrow> 'd \<Rightarrow> producer \<Rightarrow> bool" where
  "sealable E contents c pr \<longleftrightarrow> (case pr of
       Proposing b _ _ \<Rightarrow> new_hash (rc_ext E) (chain_view_of (rc_ext E) (rc_codec E) (contents c)) b \<and>
         (encodable (b_body b) \<or> (\<exists>bs e. ser_body (rc_codec E) (b_body b) = Inr bs \<and> de_body (rc_codec E) bs = Inl e))
     | _ \<Rightarrow> True)"

inductive devnet_step :: "('d, 'f) node_crates \<Rightarrow> ((string \<times> string) list \<Rightarrow> (string \<times> string) list) \<Rightarrow>
    ('d \<Rightarrow> bytes \<rightharpoonup> bytes) \<Rightarrow> producer \<times> ('d, 'f) app_state \<Rightarrow> producer \<times> ('d, 'f) app_state \<Rightarrow> bool"
  for E order contents where
  request: "jsonrpc_handler (rpc_crates.truncate E) instant secs ip body app = (r, app') \<Longrightarrow>
    devnet_step E order contents (pr, app) (pr, app')"
| produce: "sealable E contents (as_chain app) pr \<Longrightarrow>
    producer_step E clock1 clock2 (pr, shared app) = (pr', nd) \<Longrightarrow>
    devnet_step E order contents (pr, app) (pr', share nd app)"
| restart: "run_devnet E order (as_chain app) (as_state app) = Ok s \<Longrightarrow>
    devnet_step E order contents (pr, app) s"

inductive_cases devnet_stepE: "devnet_step E order contents s s'"

definition devnet_runs :: "('d, 'f) node_crates \<Rightarrow> ((string \<times> string) list \<Rightarrow> (string \<times> string) list) \<Rightarrow>
    ('d \<Rightarrow> bytes \<rightharpoonup> bytes) \<Rightarrow> producer \<times> ('d, 'f) app_state \<Rightarrow> producer \<times> ('d, 'f) app_state \<Rightarrow> bool" where
  "devnet_runs E order contents = (devnet_step E order contents)\<^sup>*\<^sup>*"

section \<open>Steps and rounds\<close>

definition uninterrupted :: "('d, 'f) node_crates \<Rightarrow> string + u64 \<Rightarrow> string + u64 \<Rightarrow>
    producer \<times> 'd full_node \<Rightarrow> producer \<times> 'd full_node \<Rightarrow> bool" where
  "uninterrupted E clock1 clock2 s s' \<longleftrightarrow> (\<exists>k. (producer_step E clock1 clock2 ^^ k) s = s' \<and>
     (\<forall>i < k. fst ((producer_step E clock1 clock2 ^^ i) s) \<noteq> Sleeping))"

lemma uninterrupted_here: "uninterrupted E clock1 clock2 s s"
  unfolding uninterrupted_def by (rule exI [of _ 0]) simp

lemma uninterrupted_next:
  assumes "pr \<noteq> Sleeping" and "uninterrupted E clock1 clock2 (producer_step E clock1 clock2 (pr, nd)) s'"
  shows "uninterrupted E clock1 clock2 (pr, nd) s'"
proof -
  let ?f = "producer_step E clock1 clock2"
  obtain k where k: "(?f ^^ k) (?f (pr, nd)) = s'" "\<forall>i < k. fst ((?f ^^ i) (?f (pr, nd))) \<noteq> Sleeping"
    using assms(2) by (auto simp: uninterrupted_def)
  have "fst ((?f ^^ i) (pr, nd)) \<noteq> Sleeping" if "i < Suc k" for i
    using that assms(1) k(2) by (cases i) (simp_all add: funpow_swap1)
  with k(1) show ?thesis
    unfolding uninterrupted_def by (intro exI [of _ "Suc k"]) (simp add: funpow_swap1)
qed

text \<open>The end of a round that returned \<open>r\<close>.\<close>

definition settled :: "(node_error, unit) outcome \<times> 'd full_node \<Rightarrow> producer \<times> 'd full_node" where
  "settled = (\<lambda>(r, nd). (next_place (obind r (\<lambda>_. Ok Sleeping)), nd))"

lemma settled_simps [simp]:
  "settled (Ok u, nd) = (Sleeping, nd)" "settled (Err e, nd) = (Sleeping, nd)"
  "settled (Panic, nd) = (Gone, nd)" "settled (Diverge, nd) = (Gone, nd)"
  by (simp_all add: settled_def)

lemma indexing_round:
  "uninterrupted E clock1 clock2 (Indexing b i ta, nd) (settled (index_receipts E b i ta nd))"
proof (induction ta arbitrary: i nd)
  case Nil
  show ?case
    by (rule uninterrupted_next) (simp_all add: producer_step_def aret_def uninterrupted_here)
next
  case (Cons t ta)
  obtain tx g where t: "t = (tx, g)" by (cases t)
  let ?put = "in_chain (put_tx_receipt_index (rc_kv E) (rc_ext E) (tx_hash (rc_ext E) tx) (block_hash (rc_ext E) b)
    (h_number (b_header b)) (of_nat i) g)"
  let ?del = "discard (in_pool (remove_tx (tx_hash (rc_ext E) tx))) :: ('a, unit) node_act"
  obtain r1 nd1 where one: "?put nd = (r1, nd1)" by (cases "?put nd")
  obtain r2 nd2 where two: "?del nd1 = (r2, nd2)" by (cases "?del nd1")
  show ?case
    by (rule uninterrupted_next, simp, cases r1; cases r2)
      (use Cons.IH [of "i + 1" nd2] one two in \<open>auto simp: t producer_step_def index_next_def Let_def
        athen_def aret_def uninterrupted_here\<close>)
qed

lemma proposing_round:
  "uninterrupted E clock1 clock2 (Proposing b now ta, nd) (settled (athen (accept_sealed E b now) (index_receipts E b 0 ta) nd))"
proof (cases "accept_sealed E b now nd")
  case one: (Pair r nd1)
  have step: "producer_step E clock1 clock2 (Proposing b now ta, nd) = (next_place (obind r (\<lambda>_. Ok (Indexing b 0 ta))), nd1)"
    using one by (cases r) (simp_all add: producer_step_def athen_def aret_def)
  have rest: "athen (accept_sealed E b now) (index_receipts E b 0 ta) nd =
      (case r of Ok _ \<Rightarrow> index_receipts E b 0 ta nd1 | Err e \<Rightarrow> (Err e, nd1) | Panic \<Rightarrow> (Panic, nd1) | Diverge \<Rightarrow> (Diverge, nd1))"
    using one by (cases r) (simp_all add: athen_def)
  have "uninterrupted E clock1 clock2 (next_place (obind r (\<lambda>_. Ok (Indexing b 0 ta))), nd1)
      (settled (athen (accept_sealed E b now) (index_receipts E b 0 ta) nd))"
    unfolding rest using indexing_round [of E clock1 clock2 b 0 ta nd1] uninterrupted_here
    by (cases r) simp_all
  then show ?thesis unfolding step [symmetric] by (rule uninterrupted_next [rotated]) simp
qed

lemma sealing_round:
  "uninterrupted E clock1 clock2 (Screening h n now [] ta, nd) (settled (seal_block E devnet_validator h n now clock2 ta nd))"
proof -
  let ?burn = "burn_fees E devnet_validator (fst (split_fees (total_gas_fees ta)))"
  obtain r nd1 where one: "?burn nd = (r, nd1)" by (cases "?burn nd")
  show ?thesis
  proof (cases r)
    case (Ok u)
    show ?thesis
    proof (cases "compute_state_root (rc_kv E) (rc_ext E) (fn_state nd1)")
      case root: (Ok sroot)
      show ?thesis
        by (rule uninterrupted_next, simp, cases "new_block (rc_ext E) clock2 h n sroot 0 (map fst ta) devnet_validator [] 30000000 0")
          (use one Ok root proposing_round in \<open>auto simp: producer_step_def propose_def seal_block_def Let_def
            athen_def [of "burn_fees _ _ _"] abind_aread abind_alift aret_def uninterrupted_here\<close>)
    qed (rule uninterrupted_next, simp, use one Ok in \<open>auto simp: producer_step_def propose_def seal_block_def Let_def
          athen_def [of "burn_fees _ _ _"] abind_aread uninterrupted_here\<close>)+
  qed (rule uninterrupted_next, simp, use one in \<open>auto simp: producer_step_def propose_def seal_block_def Let_def
        athen_def [of "burn_fees _ _ _"] uninterrupted_here\<close>)+
qed

lemma screening_round:
  "uninterrupted E clock1 clock2 (Screening h n now txs ta, nd)
     (settled (abind (apply_candidates E (block_env (rc_ext E) n now 30000000 0 devnet_validator) CHAIN_ID_TESTNET n txs)
       (\<lambda>rest. seal_block E devnet_validator h n now clock2 (ta @ rest)) nd))"
proof (induction txs arbitrary: ta nd)
  case Nil
  show ?case using sealing_round by (simp add: abind_def aret_def)
next
  case (Cons tx txs)
  let ?inc = "include_tx E (block_env (rc_ext E) n now 30000000 0 devnet_validator) CHAIN_ID_TESTNET n tx"
  let ?app = "apply_candidates E (block_env (rc_ext E) n now 30000000 0 devnet_validator) CHAIN_ID_TESTNET n txs"
  obtain r nd1 where one: "?inc nd = (r, nd1)" by (cases "?inc nd")
  obtain q nd2 where two: "?app nd1 = (q, nd2)" by (cases "?app nd1")
  show ?case
  proof (cases r)
    case (Ok g)
    let ?ta = "case g of None \<Rightarrow> ta | Some gas \<Rightarrow> ta @ [(tx, gas)]"
    have step: "producer_step E clock1 clock2 (Screening h n now (tx # txs) ta, nd) = (Screening h n now txs ?ta, nd1)"
      using one Ok by (simp add: producer_step_def screen_next_def abind_def aret_def)
    have "abind (apply_candidates E (block_env (rc_ext E) n now 30000000 0 devnet_validator) CHAIN_ID_TESTNET n (tx # txs))
        (\<lambda>rest. seal_block E devnet_validator h n now clock2 (ta @ rest)) nd =
      abind ?app (\<lambda>rest. seal_block E devnet_validator h n now clock2 (?ta @ rest)) nd1"
      using one two Ok by (cases q; cases g) (simp_all add: abind_def aret_def)
    with Cons.IH [of ?ta nd1] step show ?thesis by (intro uninterrupted_next) simp_all
  qed (rule uninterrupted_next, simp, use one in \<open>auto simp: producer_step_def screen_next_def abind_def uninterrupted_here\<close>)+
qed

lemma opening_round:
  "uninterrupted E clock1 clock2 (producer_step E clock1 clock2 (Sleeping, nd))
     (settled (produce_block E devnet_validator CHAIN_ID_TESTNET clock1 clock2 nd))"
proof -
  have stop: "uninterrupted E clock1 clock2 (producer_step E clock1 clock2 (Sleeping, nd)) (settled (r, nd))"
    if "open_round E clock1 nd = (obind r (\<lambda>_. Ok Sleeping), nd)" for r :: "(node_error, unit) outcome"
    by (simp add: that producer_step_def settled_def uninterrupted_here)
  let ?K = "rc_kv E" and ?X = "rc_ext E" and ?c = "fn_chain nd"
  note defs = open_round_def produce_block_def Let_def abind_aread abind_alift aret_def
  show ?thesis
  proof (cases "\<exists>p now candidates. (\<exists>h. get_head ?K ?X ?c = Ok (Some h) \<and> get_block ?K ?X (rc_codec E) ?c h = Ok (Some p)) \<and>
      chk_add (h_number (b_header p)) 1 = (Ok (h_number (b_header p) + 1) :: (node_error, u64) outcome) \<and>
      selected_proposer E ?c (block_hash ?X p) (h_number (b_header p) + 1) \<in> {Ok None, Ok (Some devnet_validator)} \<and>
      clock1 = Inr now \<and> get_best (rc_rank E) (fn_mempool nd) 100 = Ok candidates")
    case True
    then obtain h p now candidates where go: "get_head ?K ?X ?c = Ok (Some h)" "get_block ?K ?X (rc_codec E) ?c h = Ok (Some p)"
      "chk_add (h_number (b_header p)) 1 = (Ok (h_number (b_header p) + 1) :: (node_error, u64) outcome)"
      "selected_proposer E ?c (block_hash ?X p) (h_number (b_header p) + 1) \<in> {Ok None, Ok (Some devnet_validator)}"
      "clock1 = Inr now" "get_best (rc_rank E) (fn_mempool nd) 100 = Ok candidates" by blast
    let ?n = "h_number (b_header p) + 1"
    have "open_round E clock1 nd = (Ok (Screening (block_hash ?X p) ?n now candidates []), nd)"
      using go by (auto simp: defs)
    moreover have "produce_block E devnet_validator CHAIN_ID_TESTNET clock1 clock2 nd =
        abind (apply_candidates E (block_env ?X ?n now 30000000 0 devnet_validator) CHAIN_ID_TESTNET ?n candidates)
          (\<lambda>rest. seal_block E devnet_validator (block_hash ?X p) ?n now clock2 ([] @ rest)) nd"
      using go by (auto simp: produce_block_def Let_def abind_aread abind_alift)
    ultimately show ?thesis
      using screening_round [of E clock1 clock2 "block_hash ?X p" ?n now candidates "[]" nd]
      by (simp add: producer_step_def)
  next
    case False
    have "\<exists>r. produce_block E devnet_validator CHAIN_ID_TESTNET clock1 clock2 nd = (r, nd) \<and>
        open_round E clock1 nd = (obind r (\<lambda>_. Ok Sleeping), nd)"
      using False by (cases clock1) (auto simp: defs get_best_def chk_add_def split: outcome.splits option.splits)
    with stop show ?thesis by auto
  qed
qed

text \<open>C19: without requests in between, the steps of the producer are a round: from sleep they lead to
  the node that a whole round of \<open>produce_block\<close> leaves, and back to sleep, or to the end of the task if the
  round panicked; in between the producer does not sleep, so it is one round and not several.\<close>

theorem steps_make_a_round:
  "\<exists>k. (producer_step E clock1 clock2 ^^ Suc k) (Sleeping, nd) =
     (case producer_round E clock1 clock2 (True, nd) of (alive, nd') \<Rightarrow> (if alive then Sleeping else Gone, nd')) \<and>
    Sleeping \<notin> (\<lambda>i. fst ((producer_step E clock1 clock2 ^^ Suc i) (Sleeping, nd))) ` {..<k}"
proof -
  obtain r nd' where "produce_block E devnet_validator CHAIN_ID_TESTNET clock1 clock2 nd = (r, nd')"
    by (cases "produce_block E devnet_validator CHAIN_ID_TESTNET clock1 clock2 nd")
  with opening_round [of E clock1 clock2 nd] show ?thesis
    by (cases r) (force simp: uninterrupted_def producer_round_def funpow_swap1)+
qed

end
