(* ===== verification/Quyn_DevnetLaws.thy ===== *)
theory Quyn_DevnetLaws
  imports Quyn_Devnet
begin

text \<open>
  What holds in every run of the devnet, with requests served between any two steps of the producer and
  restarts between two of its steps: the readable blocks are a list that only grows, of transactions that
  passed all checks, none of them twice; the head is the last of them, or one unreadable block on
  top of it, and then the chain never changes again.
\<close>

section \<open>The stored chain is a list\<close>

text \<open>The chain of a single producer: one block per height, each on the one before and later than it,
  all of them by the devnet's validator, nothing else stored, the last one the head.\<close>

definition follows :: "ext \<Rightarrow> block \<Rightarrow> block \<Rightarrow> bool" where
  "follows X p b \<longleftrightarrow> h_parent_hash (b_header b) = block_hash X p \<and> h_timestamp (b_header p) < h_timestamp (b_header b)"

definition line :: "ext \<Rightarrow> chain_view \<Rightarrow> block list \<Rightarrow> bool" where
  "line X v bs \<longleftrightarrow> bs \<noteq> [] \<and> cv_head v = Some (block_hash X (last bs)) \<and>
     (\<forall>h b. cv_block v h = Some b \<longleftrightarrow> b \<in> set bs \<and> block_hash X b = h) \<and>
     (\<forall>i < length bs. cv_number v (of_nat i) = Some (block_hash X (bs ! i)) \<and>
        unat (h_number (b_header (bs ! i))) = i \<and> h_validator (b_header (bs ! i)) = devnet_validator) \<and>
     successively (follows X) bs"

lemma line_receipt [simp]: "line X (v\<lparr>cv_receipt := w\<rparr>) bs = line X v bs"
  by (simp add: line_def)

lemma accept_view_line:
  assumes l: "line X v bs" and new: "cv_block v (block_hash X b) = None" and f: "follows X (last bs) b"
    and n: "unat (h_number (b_header b)) = length bs" and a: "h_validator (b_header b) = devnet_validator"
  shows "line X (accept_view X b v) (bs @ [b])"
proof -
  have small: "length bs < 2 ^ 64" using unat_less [of "h_number (b_header b)"] n by simp
  have u: "unat (of_nat i :: u64) = i" if "i \<le> length bs" for i
    using that small by (simp add: unat_of_nat)
  have num: "h_number (b_header b) = of_nat (length bs)" using n u [of "length bs"] by (simp add: word_unat_eq_iff)
  have inj: "(of_nat i :: u64) = of_nat j \<longleftrightarrow> i = j" if "i \<le> length bs" "j \<le> length bs" for i j
    using u [OF that(1)] u [OF that(2)] by metis
  have ne: "block_hash X c \<noteq> block_hash X b" if "c \<in> set bs" for c
    using l new that unfolding line_def by (metis option.distinct(1))
  have "cv_number (accept_view X b v) (of_nat i) = Some (block_hash X ((bs @ [b]) ! i))"
    if "i < length (bs @ [b])" for i
    using that l inj [of i "length bs"] by (auto simp: line_def num nth_append less_Suc_eq)
  moreover have "cv_block (accept_view X b v) h = Some c \<longleftrightarrow> c \<in> set (bs @ [b]) \<and> block_hash X c = h" for h c
    using l ne by (auto simp: line_def)
  moreover have "successively (follows X) (bs @ [b])"
    using l f by (auto simp: line_def successively_append_iff)
  moreover have "unat (h_number (b_header ((bs @ [b]) ! i))) = i \<and> h_validator (b_header ((bs @ [b]) ! i)) = devnet_validator"
    if "i < length (bs @ [b])" for i
    using that l n a by (auto simp: line_def nth_append less_Suc_eq)
  ultimately show ?thesis by (simp add: line_def)
qed

text \<open>The signer of a new block above the tip never signed at its height.\<close>

lemma decision_double_sign:
  assumes "accept_decision X v b now = Err (DoubleSign a n e h)"
  shows "double_sign_view X v b \<noteq> Ok ()"
proof -
  have 1: "validate_block X b \<noteq> Err (DoubleSign a n e h)"
    using check_senders_err [of X "{}" "b_body b"] validate_self_cases [of X b]
    by (auto simp: validate_block_def obind_eq_Err)
  have 2: "check_parent X b q now \<noteq> Err (DoubleSign a n e h)" for q
    by (auto simp: check_parent_def validate_block_header_def Let_def obind_eq_Err chk_add_def split: option.splits if_splits)
  have 3: "finality_view X v b \<noteq> Err (DoubleSign a n e h)"
    by (auto simp: finality_view_def split: option.splits if_splits)
  from assms 1 2 3 show ?thesis by (auto simp: accept_decision_def obind_eq_Err)
qed

section \<open>The invariant of the system\<close>

text \<open>A transaction that was executed in a round for height \<open>n\<close>.\<close>

definition passed :: "('d, 'f) node_crates \<Rightarrow> u64 \<Rightarrow> signed_transaction \<Rightarrow> bool" where
  "passed E n tx \<longleftrightarrow> (\<exists>c. admitted E CHAIN_ID_TESTNET n c tx)"

lemma passedI: "screened E CHAIN_ID_TESTNET n c tx s \<Longrightarrow> passed E n tx"
  by (auto simp: passed_def admitted_def)

section \<open>What can be read\<close>

text \<open>The blocks that can be read form a list from the genesis: one block per height, found under its
  number and its hash, each on the one before and later than it, all by the devnet's validator.\<close>

definition readable :: "('d, 'f) node_crates \<Rightarrow> 'd \<Rightarrow> block list \<Rightarrow> bool" where
  "readable E c bs \<longleftrightarrow> (let K = rc_kv E; X = rc_ext E; C = rc_codec E in
     bs \<noteq> [] \<and>
     (\<forall>i < length bs. get_block_by_number K X C c (of_nat i) = Ok (Some (bs ! i)) \<and>
        get_block K X C c (block_hash X (bs ! i)) = Ok (Some (bs ! i)) \<and>
        unat (h_number (b_header (bs ! i))) = i \<and> h_validator (b_header (bs ! i)) = devnet_validator) \<and>
     successively (follows X) bs \<and>
     (\<forall>h b. get_block K X C c h = Ok (Some b) \<longrightarrow> b \<in> set bs))"

text \<open>Either the last of them is the head, or the head is one more block on top that cannot be read.\<close>

definition stored_chain :: "('d, 'f) node_crates \<Rightarrow> 'd \<Rightarrow> block list \<Rightarrow> bool" where
  "stored_chain E c bs \<longleftrightarrow> readable E c bs \<and>
     get_head (rc_kv E) (rc_ext E) c = Ok (Some (block_hash (rc_ext E) (last bs)))"

definition stuck_chain :: "('d, 'f) node_crates \<Rightarrow> 'd \<Rightarrow> block list \<Rightarrow> block \<Rightarrow> bool" where
  "stuck_chain E c bs t \<longleftrightarrow> readable E c bs \<and>
     get_head (rc_kv E) (rc_ext E) c = Ok (Some (block_hash (rc_ext E) t)) \<and>
     (\<exists>e. get_block (rc_kv E) (rc_ext E) (rc_codec E) c (block_hash (rc_ext E) t) = Err e) \<and>
     follows (rc_ext E) (last bs) t \<and> unat (h_number (b_header t)) = length bs \<and>
     h_validator (b_header t) = devnet_validator"

lemma readable_last:
  assumes "readable E c bs"
  shows "get_block (rc_kv E) (rc_ext E) (rc_codec E) c (block_hash (rc_ext E) (last bs)) = Ok (Some (last bs))"
    and "unat (h_number (b_header (last bs))) = length bs - 1"
proof -
  have b: "bs \<noteq> []" using assms by (simp add: readable_def Let_def)
  then have "length bs - 1 < length bs" by simp
  with assms show "get_block (rc_kv E) (rc_ext E) (rc_codec E) c (block_hash (rc_ext E) (last bs)) = Ok (Some (last bs))"
    "unat (h_number (b_header (last bs))) = length bs - 1"
    by (simp_all add: readable_def Let_def last_conv_nth [OF b])
qed

lemma stored_not_stuck: "stored_chain E c bs \<Longrightarrow> \<not> stuck_chain E c bs' t"
  using readable_last(1) [of E c bs] by (auto simp: stored_chain_def stuck_chain_def)

lemma readable_length:
  assumes "readable E c bs" and "readable E c bs'"
  shows "length bs \<le> length bs'"
proof -
  note l = readable_last [OF assms(1)]
  have "last bs \<in> set bs'" using l(1) assms(2) by (auto simp: readable_def Let_def)
  then obtain j where "j < length bs'" "bs' ! j = last bs" by (metis in_set_conv_nth)
  with l(2) assms(2) have "length bs - 1 < length bs'" by (auto simp: readable_def Let_def)
  then show ?thesis by simp
qed

lemma readable_unique:
  assumes "readable E c bs" and "readable E c bs'"
  shows "bs = bs'"
proof (rule nth_equalityI)
  show len: "length bs = length bs'" using readable_length [OF assms] readable_length [OF assms(2,1)] by simp
  fix j assume "j < length bs"
  then show "bs ! j = bs' ! j"
    using assms len unfolding readable_def Let_def by (metis option.inject outcome.inject(1))
qed

lemma stored_unique: "stored_chain E c bs \<Longrightarrow> stored_chain E c bs' \<Longrightarrow> bs = bs'"
  by (auto simp: stored_chain_def intro: readable_unique)

text \<open>What the producer carries through a round on the tip \<open>p\<close>.\<close>

definition place_ok :: "('d, 'f) node_crates \<Rightarrow> block \<Rightarrow> producer \<Rightarrow> bool" where
  "place_ok E p pr \<longleftrightarrow> (case pr of
       Screening h n now txs ta \<Rightarrow> h = block_hash (rc_ext E) p \<and> n = h_number (b_header p) + 1 \<and>
         unat (h_number (b_header p)) + 1 < 2 ^ 64 \<and> list_all (\<lambda>t. passed E n (fst t)) ta
     | Proposing b now ta \<Rightarrow> (\<exists>ts sroot. b = sealed_block (rc_ext E) (block_hash (rc_ext E) p)
           (h_number (b_header p) + 1) ts sroot (map fst ta) devnet_validator) \<and>
         unat (h_number (b_header p)) + 1 < 2 ^ 64 \<and> list_all (\<lambda>t. passed E (h_number (b_header p) + 1) (fst t)) ta
     | _ \<Rightarrow> True)"

definition live :: "('d, 'f) node_crates \<Rightarrow> ('d \<Rightarrow> bytes \<rightharpoonup> bytes) \<Rightarrow> block list \<Rightarrow> producer \<times> 'd full_node \<Rightarrow> bool" where
  "live E contents bs = (\<lambda>(pr, nd). let v = chain_view_of (rc_ext E) (rc_codec E) (contents (fn_chain nd)) in
     working E contents nd (last bs) \<and> line (rc_ext E) v bs \<and> cv_validators v \<noteq> None \<and>
     (\<forall>b \<in> set bs. \<forall>tx \<in> set (b_body b). passed E (h_number (b_header b)) tx) \<and> place_ok E (last bs) pr)"

text \<open>The producer has stopped at a head that cannot be read, above the blocks \<open>bs\<close>.\<close>

definition halted :: "('d, 'f) node_crates \<Rightarrow> block list \<Rightarrow> producer \<times> 'd full_node \<Rightarrow> bool" where
  "halted E bs = (\<lambda>(pr, nd). pr \<in> {Sleeping, Gone} \<and>
     (\<exists>t. stuck_chain E (fn_chain nd) bs t \<and> (\<forall>tx \<in> set (b_body t). passed E (h_number (b_header t)) tx)) \<and>
     (\<forall>b \<in> set bs. \<forall>tx \<in> set (b_body b). passed E (h_number (b_header b)) tx) \<and>
     (\<exists>vs. get_validator_set_bytes (rc_kv E) (rc_ext E) (fn_chain nd) = Ok (Some vs)))"

lemma live_state:
  assumes "live E contents bs (pr, nd)" and "state_wf (rc_ext E) (contents s)" and "place_ok E (last bs) pr'"
  shows "live E contents bs (pr', nd\<lparr>fn_state := s, fn_mempool := q\<rparr>)"
  using assms by (simp add: live_def working_def Let_def)

lemma place_ok_simps [simp]:
  "place_ok E p Sleeping" "place_ok E p Gone" "place_ok E p (Indexing b i ta)"
  by (simp_all add: place_ok_def)

lemma live_rest:
  "live E contents bs (pr, nd) \<Longrightarrow> place_ok E (last bs) pr' \<Longrightarrow> live E contents bs (pr', nd)"
  by (simp add: live_def Let_def)

context devnet_store
begin

lemma open_round_live:
  assumes "live E contents bs (pr, nd)" and "open_round E clock1 nd = (r, nd')"
  shows "nd' = nd \<and> live E contents bs (next_place r, nd')"
proof -
  have w: "working E contents nd (last bs)" using assms(1) by (simp add: live_def Let_def)
  have "nd' = nd \<and> place_ok E (last bs) (next_place r)"
    using assms(2) working_head [OF w] by (cases clock1)
      (auto simp: open_round_def Let_def abind_aread abind_alift aret_def place_ok_def chk_add_def
        split: outcome.splits if_splits option.splits)
  with live_rest [OF assms(1)] show ?thesis by simp
qed

lemma screen_next_live:
  assumes "live E contents bs (Screening h n now (tx # txs) ta, nd)"
    and "screen_next E h n now tx txs ta nd = (r, nd')"
  shows "pool_removed (fn_mempool nd) (fn_mempool nd') \<and> live E contents bs (next_place r, nd')"
proof -
  let ?inc = "include_tx E (block_env (rc_ext E) n now 30000000 0 devnet_validator) CHAIN_ID_TESTNET n tx nd"
  obtain q nd1 where inc: "?inc = (q, nd1)" by (cases ?inc)
  have st: "state_wf (rc_ext E) (contents (fn_state nd))"
    and place: "place_ok E (last bs) (Screening h n now (tx # txs) ta)"
    using assms(1) by (simp_all add: live_def working_def Let_def)
  note one = include_tx_ok [OF st inc]
  have nd': "nd' = nd1" using assms(2) inc by (cases q) (auto simp: screen_next_def abind_def aret_def)
  have eq: "nd1 = nd\<lparr>fn_state := fn_state nd1, fn_mempool := fn_mempool nd1\<rparr>" using one by simp
  have "place_ok E (last bs) (next_place r)"
    using assms(2) inc place one passedI by (cases q)
      (auto simp: screen_next_def abind_def aret_def place_ok_def split: option.splits)
  then have "live E contents bs (next_place r, nd\<lparr>fn_state := fn_state nd1, fn_mempool := fn_mempool nd1\<rparr>)"
    using live_state [OF assms(1), of "fn_state nd1" "next_place r" "fn_mempool nd1"] one by simp
  then have "live E contents bs (next_place r, nd1)" by (subst eq)
  with one nd' show ?thesis by (auto intro: pool_removed.intros)
qed

lemma propose_live:
  assumes "live E contents bs (Screening h n now [] ta, nd)"
    and "propose E h n now clock2 ta nd = (r, nd')"
  shows "fn_mempool nd' = fn_mempool nd \<and> live E contents bs (next_place r, nd')"
proof -
  have st: "state_wf (rc_ext E) (contents (fn_state nd))"
    and place: "place_ok E (last bs) (Screening h n now [] ta)"
    using assms(1) by (simp_all add: live_def working_def Let_def)
  obtain s' where burn: "burn_fees E devnet_validator (fst (split_fees (total_gas_fees ta))) nd = (Ok (), nd\<lparr>fn_state := s'\<rparr>)"
    and wf: "state_wf (rc_ext E) (contents s')"
    using burn_fees_ok [OF st, of devnet_validator "fst (split_fees (total_gas_fees ta))"] by blast
  obtain sroot where root: "compute_state_root (rc_kv E) (rc_ext E) s' = Ok sroot" using state_root_Ok by blast
  note step = assms(2) burn root
  have "nd' = nd\<lparr>fn_state := s'\<rparr> \<and> place_ok E (last bs) (next_place r)"
  proof (cases clock2)
    case (Inr ts)
    with step place show ?thesis
      by (auto simp: propose_def Let_def athen_def abind_aread abind_alift new_sealed_block aret_def place_ok_def) blast
  next
    case (Inl e)
    with step show ?thesis
      by (cases "new_block (rc_ext E) clock2 h n sroot 0 (map fst ta) devnet_validator [] 30000000 0")
        (auto simp: propose_def Let_def athen_def abind_aread abind_alift aret_def new_block_def)
  qed
  with live_state [OF assms(1) wf, of "next_place r" "fn_mempool nd"] show ?thesis by simp
qed

lemma index_next_live:
  assumes "live E contents bs (Indexing b i ((tx, g) # ta), nd)" and "index_next E b i tx g ta nd = (r, nd')"
  shows "pool_removed (fn_mempool nd) (fn_mempool nd') \<and> live E contents bs (next_place r, nd') \<and>
    fn_state nd' = fn_state nd \<and> next_place r = Indexing b (i + 1) ta"
proof -
  let ?h = "tx_hash (rc_ext E) tx"
  have wf: "chain_wf (rc_ext E) (rc_codec E) (contents (fn_chain nd))"
    using assms(1) by (simp add: live_def working_def Let_def)
  from put_receipt_ok [OF wf, of ?h "block_hash (rc_ext E) b" "h_number (b_header b)" "of_nat i" g] obtain c' w where
    c': "put_tx_receipt_index (rc_kv E) (rc_ext E) ?h (block_hash (rc_ext E) b)
      (h_number (b_header b)) (of_nat i) g (fn_chain nd) = (Ok (), c')"
      "chain_wf (rc_ext E) (rc_codec E) (contents c')"
      "chain_view_of (rc_ext E) (rc_codec E) (contents c') =
        (chain_view_of (rc_ext E) (rc_codec E) (contents (fn_chain nd)))\<lparr>cv_receipt := w\<rparr>"
    by blast
  obtain q p' where p': "remove_tx ?h (fn_mempool nd) = (Ok q, p')" using remove_tx_Ok by blast
  have "discard (in_pool (remove_tx ?h)) (nd\<lparr>fn_chain := c'\<rparr>) =
      (Ok () :: (node_error, unit) outcome, nd\<lparr>fn_chain := c', fn_mempool := p'\<rparr>)"
    by (simp add: discard_def in_pool_def p')
  then have "r = Ok (Indexing b (i + 1) ta) \<and> nd' = nd\<lparr>fn_chain := c', fn_mempool := p'\<rparr>"
    using assms(2) by (simp add: index_next_def Let_def athen_def in_chain_def c'(1) aret_def)
  with assms(1) c'(2,3) pool_removed.remove [OF pool_removed.same p'] show ?thesis
    by (simp add: live_def working_def Let_def)
qed

lemma proposal_on_tip:
  assumes "live E contents bs (Proposing b now ta, nd)"
  shows "h_parent_hash (b_header b) = block_hash (rc_ext E) (last bs)" "unat (h_number (b_header b)) = length bs"
    "h_number (b_header b) = h_number (b_header (last bs)) + 1" "h_validator (b_header b) = devnet_validator"
    "\<forall>tx \<in> set (b_body b). passed E (h_number (b_header b)) tx"
    "h_number (b_header (last bs)) < h_number (b_header b)"
proof -
  have p: "place_ok E (last bs) (Proposing b now ta)"
    and l: "line (rc_ext E) (chain_view_of (rc_ext E) (rc_codec E) (contents (fn_chain nd))) bs"
    using assms by (simp_all add: live_def Let_def)
  show *: "h_parent_hash (b_header b) = block_hash (rc_ext E) (last bs)"
    "h_number (b_header b) = h_number (b_header (last bs)) + 1" "h_validator (b_header b) = devnet_validator"
    using p by (auto simp: place_ok_def sealed_block_def)
  have last: "unat (h_number (b_header (last bs))) = length bs - 1" "bs \<noteq> []"
    using l by (auto simp: line_def last_conv_nth)
  with p *(2) show num: "unat (h_number (b_header b)) = length bs"
    by (simp add: place_ok_def unat_word_ariths)
  with last show "h_number (b_header (last bs)) < h_number (b_header b)" by (simp add: word_less_nat_alt)
  show "\<forall>tx \<in> set (b_body b). passed E (h_number (b_header b)) tx"
    using p by (auto simp: place_ok_def sealed_block_def list_all_iff)
qed

lemma proposal_follows:
  assumes live: "live E contents bs (Proposing b now ta, nd)"
    and v: "v = chain_view_of (rc_ext E) (rc_codec E) (contents (fn_chain nd))"
    and dec: "accept_decision (rc_ext E) v b now = Ok u" and new: "new_hash (rc_ext E) v b"
  shows "follows (rc_ext E) (last bs) b \<and> cv_block v (block_hash (rc_ext E) b) = None \<and> h_number (b_header b) \<noteq> 0"
proof -
  let ?X = "rc_ext E"
  have w: "tip ?X v (last bs)" and l: "line ?X v bs"
    using live v by (simp_all add: live_def working_def Let_def)
  note on = proposal_on_tip [OF live]
  have len: "bs \<noteq> []" using l by (simp add: line_def)
  have nz: "h_number (b_header b) \<noteq> 0" using on(2) len by auto
  have "cv_block v (block_hash ?X b) = None"
  proof (rule ccontr)
    assume "cv_block v (block_hash ?X b) \<noteq> None"
    then obtain c where c: "cv_block v (block_hash ?X b) = Some c" by blast
    then have "c \<in> set bs" using l by (simp add: line_def)
    then obtain i where "i < length bs" "bs ! i = c" by (metis in_set_conv_nth)
    then have "unat (h_number (b_header c)) < length bs" using l by (auto simp: line_def)
    moreover have "b_header c = b_header b" using new c by (simp add: new_hash_def)
    ultimately show False using on(2) by simp
  qed
  moreover have "check_parent ?X b (view_parent v (h_number (b_header b))) now = Ok ()"
    using dec by (auto simp: accept_decision_def obind_eq_Ok)
  moreover have "view_parent v (h_number (b_header b)) = Some (last bs)"
    using w on(3) nz by (simp add: view_parent_def tip_def)
  ultimately show ?thesis
    using on(1) nz by (simp add: follows_def check_parent_def header_ok_iff word_less_nat_alt)
qed

lemma proposal_extends:
  assumes live: "live E contents bs (Proposing b now ta, nd)"
    and v: "v = chain_view_of (rc_ext E) (rc_codec E) (contents (fn_chain nd))"
    and dec: "accept_decision (rc_ext E) v b now = Ok u" and sto: "storable (rc_ext E) v b"
  shows "chain_inv (accept_view (rc_ext E) b v) \<and> tip (rc_ext E) (accept_view (rc_ext E) b v) b \<and>
    line (rc_ext E) (accept_view (rc_ext E) b v) (bs @ [b])"
proof -
  let ?X = "rc_ext E"
  have w: "chain_wf ?X (rc_codec E) (contents (fn_chain nd))" "chain_inv v" "tip ?X v (last bs)" and l: "line ?X v bs"
    using live v by (simp_all add: live_def working_def Let_def)
  note on = proposal_on_tip [OF live]
  have le: "h_number (b_header (last bs)) \<le> h_number (b_header b)" using on(6) by simp
  have "new_hash ?X v b" using sto by (simp add: storable_iff)
  from proposal_follows [OF live v dec this] have f: "follows ?X (last bs) b" "cv_block v (block_hash ?X b) = None"
    "h_number (b_header b) \<noteq> 0" by simp_all
  from accept_view_line [OF l f(2,1) on(2,4)] chain_inv_accept [OF w(2) wf_hashed [OF w(1) v] sto dec [simplified] f(3)]
    accept_view_tip [OF w(3) le] show ?thesis by simp
qed

text \<open>The blocks of a line are what can be read; a block on top that bincode cannot read back leaves them.\<close>

lemma line_readable:
  assumes wf: "chain_wf (rc_ext E) (rc_codec E) (contents c)"
    and l: "line (rc_ext E) (chain_view_of (rc_ext E) (rc_codec E) (contents c)) bs"
  shows "readable E c bs"
proof -
  let ?v = "chain_view_of (rc_ext E) (rc_codec E) (contents c)"
  have "cv_block ?v (block_hash (rc_ext E) (bs ! i)) = Some (bs ! i)" if "i < length bs" for i
    using l that by (simp add: line_def)
  with l show ?thesis
    by (auto simp: readable_def Let_def get_block_view [OF wf] get_block_by_number_view [OF wf] line_def)
qed

lemma hidden_readable:
  assumes old: "readable E c bs" and h: "get_block (rc_kv E) (rc_ext E) (rc_codec E) c (block_hash (rc_ext E) b) = Ok None"
    and v: "v = chain_view_of (rc_ext E) (rc_codec E) (contents c)" and n: "unat (h_number (b_header b)) = length bs"
    and e: "get_block (rc_kv E) (rc_ext E) (rc_codec E) c' (block_hash (rc_ext E) b) = Err e"
    and other: "\<forall>h. h \<noteq> block_hash (rc_ext E) b \<longrightarrow>
      get_block (rc_kv E) (rc_ext E) (rc_codec E) c' h = get_block (rc_kv E) (rc_ext E) (rc_codec E) c h"
    and num: "cv_number (chain_view_of (rc_ext E) (rc_codec E) (contents c')) = (cv_number v)(h_number (b_header b) \<mapsto> x)"
  shows "readable E c' bs"
proof -
  let ?K = "rc_kv E" and ?X = "rc_ext E" and ?C = "rc_codec E"
  have keep: "get_block ?K ?X ?C c' h = Ok (Some p)" if "get_block ?K ?X ?C c h = Ok (Some p)" for h p
    using that h other by (cases "h = block_hash ?X b") auto
  have small: "length bs < 2 ^ 64" using n unat_less [of "h_number (b_header b)"] by simp
  have "get_block_by_number ?K ?X ?C c' (of_nat i) = Ok (Some (bs ! i))" if i: "i < length bs" for i
  proof -
    have "unat (of_nat i :: u64) = i" using i small by (simp add: unat_of_nat)
    then have ne: "(of_nat i :: u64) \<noteq> h_number (b_header b)" using i n by auto
    have "get_block_by_number ?K ?X ?C c (of_nat i) = Ok (Some (bs ! i))"
      using old i by (simp add: readable_def Let_def)
    then obtain p where "cv_number v (of_nat i) = Some p" "get_block ?K ?X ?C c p = Ok (Some (bs ! i))"
      by (auto simp: get_block_by_number_def v view_simps split: option.splits)
    with ne num keep show ?thesis
      by (auto simp: get_block_by_number_def view_simps [symmetric] split: option.splits)
  qed
  moreover have "p \<in> set bs" if "get_block ?K ?X ?C c' h = Ok (Some p)" for h p
    using that e other old by (cases "h = block_hash ?X b") (auto simp: readable_def Let_def)
  ultimately show ?thesis using old keep by (simp add: readable_def Let_def)
qed

lemma accept_view_validators [simp]: "cv_validators (accept_view X b v) = cv_validators v"
  by (simp add: accept_view_def finalize_view_def view_put_block_def Let_def split: option.splits)

lemma proposing_extends:
  assumes live: "live E contents bs (Proposing b now ta, nd)"
    and dec: "accept_decision (rc_ext E) (chain_view_of (rc_ext E) (rc_codec E) (contents (fn_chain nd))) b now = Ok u"
    and sto: "storable (rc_ext E) (chain_view_of (rc_ext E) (rc_codec E) (contents (fn_chain nd))) b"
  shows "\<exists>nd'. athen (accept_sealed E b now) (aret (Indexing b 0 ta)) nd = (Ok (Indexing b 0 ta), nd') \<and>
    fn_mempool nd' = fn_mempool nd \<and> live E contents (bs @ [b]) (Indexing b 0 ta, nd') \<and>
    view_of (rc_ext E) (contents (fn_state nd')) = view_of (rc_ext E) (contents (fn_state nd))"
proof -
  let ?X = "rc_ext E"
  let ?v = "chain_view_of ?X (rc_codec E) (contents (fn_chain nd))"
  have w: "chain_wf ?X (rc_codec E) (contents (fn_chain nd))" "chain_inv ?v"
      "state_wf ?X (contents (fn_state nd))" and vs: "cv_validators ?v \<noteq> None"
    using live by (simp_all add: live_def working_def Let_def)
  from accept_block_refines [OF w(1) refl w(2), of b now "fn_state nd"] dec sto obtain c' s' where
    acc: "accept_block (rc_kv E) ?X (rc_codec E) b now (fn_chain nd, fn_state nd) = (Ok (), (c', s'))"
    "chain_wf ?X (rc_codec E) (contents c')" "chain_view_of ?X (rc_codec E) (contents c') = accept_view ?X b ?v"
    "contents s' = (contents (fn_state nd))(state_root_key (block_hash ?X b) \<mapsto> b256_bytes (h_state_root (b_header b)))"
    by auto
  let ?nd = "nd\<lparr>fn_chain := c', fn_state := s'\<rparr>"
  have "athen (accept_sealed E b now) (aret (Indexing b 0 ta)) nd = (Ok (Indexing b 0 ta), ?nd)"
    using acc(1) by (simp add: accept_sealed_def athen_def aret_def)
  moreover have "\<forall>c \<in> set (bs @ [b]). \<forall>tx \<in> set (b_body c). passed E (h_number (b_header c)) tx"
    using live proposal_on_tip(5) [OF live] by (simp add: live_def Let_def)
  then have "live E contents (bs @ [b]) (Indexing b 0 ta, ?nd)"
    using proposal_extends [OF live refl dec sto] acc vs save_root_wf [OF w(3) acc(4)] by (simp add: live_def working_def)
  moreover have "view_of ?X (contents s') = view_of ?X (contents (fn_state nd))"
    using save_state_root_view acc(4) by (simp add: save_state_root_contents)
  ultimately show ?thesis by auto
qed

lemma proposing_live:
  assumes live: "live E contents bs (Proposing b now ta, nd)" and seal: "sealable E contents (fn_chain nd) (Proposing b now ta)"
    and step: "athen (accept_sealed E b now) (aret (Indexing b 0 ta)) nd = (r, nd')"
  shows "fn_mempool nd' = fn_mempool nd \<and> (live E contents bs (next_place r, nd') \<or>
    live E contents (bs @ [b]) (next_place r, nd') \<or> halted E bs (next_place r, nd')) \<and>
    view_of (rc_ext E) (contents (fn_state nd')) = view_of (rc_ext E) (contents (fn_state nd)) \<and>
    next_place r \<in> {Sleeping, Gone, Indexing b 0 ta}"
proof -
  let ?X = "rc_ext E"
  let ?v = "chain_view_of ?X (rc_codec E) (contents (fn_chain nd))"
  have w: "chain_wf ?X (rc_codec E) (contents (fn_chain nd))" "chain_inv ?v" "tip ?X ?v (last bs)"
      "state_wf ?X (contents (fn_state nd))" and l: "line ?X ?v bs" and vs: "cv_validators ?v \<noteq> None"
    using live by (simp_all add: live_def working_def Let_def)
  note ref = accept_block_refines [OF w(1) refl w(2), of b now "fn_state nd"]
  show ?thesis
  proof (cases "accept_decision ?X ?v b now")
    case dec: (Ok u)
    show ?thesis
    proof (cases "storable ?X ?v b")
      case True
      with proposing_extends [OF live dec True] step show ?thesis by auto
    next
      case False
      with seal obtain code e where code: "ser_body (rc_codec E) (b_body b) = Inr code" "de_body (rc_codec E) code = Inl e"
        and new: "new_hash ?X ?v b"
        by (auto simp: sealable_def storable_iff)
      then have "de_body (rc_codec E) (body_code (b_body b)) = Inl e"
        using codec_simps(3) [of "b_body b"] by simp
      from accept_undecodable [OF w(1) refl w(2) dec [simplified] this, of "fn_state nd"] obtain c' where
        acc: "accept_block (rc_kv E) ?X (rc_codec E) b now (fn_chain nd, fn_state nd) = (Err (Serialization e), (c', fn_state nd))"
        and hd: "get_head (rc_kv E) ?X c' = Ok (Some (block_hash ?X b))"
          "get_block (rc_kv E) ?X (rc_codec E) c' (block_hash ?X b) = Err (Serialization e)"
        and other: "\<forall>h. h \<noteq> block_hash ?X b \<longrightarrow> get_block (rc_kv E) ?X (rc_codec E) c' h = Ok (cv_block ?v h)"
        and view: "chain_view_of ?X (rc_codec E) (contents c') =
          (view_put_block ?X b ?v)\<lparr>cv_block := (cv_block ?v)(block_hash ?X b := None), cv_head := Some (block_hash ?X b)\<rparr>"
        by blast
      have eqs: "r = Err (CoreErr (Serialization e))" "nd' = nd\<lparr>fn_chain := c'\<rparr>"
        using step acc by (simp_all add: accept_sealed_def athen_def)
      note f = proposal_follows [OF live refl dec new] and on = proposal_on_tip [OF live]
      have "readable E c' bs"
        by (rule hidden_readable [OF line_readable [OF w(1) l] _ refl on(2) hd(2)])
          (use f other view in \<open>simp_all add: get_block_view [OF w(1)]\<close>)
      then have "stuck_chain E c' bs b" using hd f on by (simp add: stuck_chain_def)
      moreover have "get_validator_set_bytes (rc_kv E) ?X c' = Ok (cv_validators ?v)"
        using view by (simp add: reads_view view_put_block_def Let_def)
      ultimately have "halted E bs (next_place r, nd')"
        using eqs on(5) vs live by (auto simp: halted_def live_def Let_def)
      then show ?thesis using eqs by simp
    qed
  next
    case (Err e)
    have "cv_signed ?v (h_validator (b_header b)) (h_number (b_header b)) = None"
      using w(3) proposal_on_tip(6) [OF live] unfolding tip_def by (meson leD not_Some_eq)
    then have "double_sign_view ?X ?v b = Ok ()" by (simp add: double_sign_view_Ok)
    with Err decision_double_sign have "\<nexists>x y z q. e = DoubleSign x y z q" by metis
    from accept_sealed_refused [OF w(1) refl w(2) Err this, of "aret (Indexing b 0 ta)"] step
    have "r = Err (CoreErr e)" "nd' = nd" by simp_all
    with live_rest [OF live] show ?thesis by simp
  next
    case Panic
    with ref step have "r = Panic" "nd' = nd" by (simp_all add: accept_sealed_def athen_def)
    with live_rest [OF live] show ?thesis by simp
  next
    case Diverge
    with ref step have "r = Diverge" "nd' = nd" by (simp_all add: accept_sealed_def athen_def)
    with live_rest [OF live] show ?thesis by simp
  qed
qed

lemma producer_live:
  assumes live: "live E contents bs (pr, nd)" and seal: "sealable E contents (fn_chain nd) pr"
    and step: "producer_step E clock1 clock2 (pr, nd) = (pr', nd')"
  shows "pool_removed (fn_mempool nd) (fn_mempool nd') \<and>
    (\<exists>bs'. prefix bs bs' \<and> (live E contents bs' (pr', nd') \<or> halted E bs' (pr', nd')))"
proof -
  obtain r where act: "producer_act E clock1 clock2 pr nd = (r, nd')" and pr': "pr' = next_place r"
    using step by (auto simp: producer_step_def split: prod.splits)
  have keep: ?thesis if "pool_removed (fn_mempool nd) (fn_mempool nd')" "live E contents bs (pr', nd')"
    using that by blast
  show ?thesis
  proof (cases "(E, clock1, clock2, pr)" rule: producer_act.cases)
    case 1
    with act open_round_live [OF live] pr' show ?thesis by (intro keep) (auto intro: pool_removed.same)
  next
    case (2 _ _ _ h n now tx txs ta)
    with act screen_next_live [of bs h n now tx txs ta nd r nd'] live pr' show ?thesis by (intro keep) auto
  next
    case (3 _ _ _ h n now ta)
    with act propose_live [of bs h n now ta nd clock2 r nd'] live pr' show ?thesis
      by (intro keep) (auto intro: pool_removed.same)
  next
    case (4 _ _ _ b now ta)
    with act proposing_live [of bs b now ta nd r nd'] live seal pr'
    have "fn_mempool nd' = fn_mempool nd \<and> (live E contents bs (pr', nd') \<or>
        live E contents (bs @ [b]) (pr', nd') \<or> halted E bs (pr', nd'))" by auto
    moreover have "prefix bs (bs @ [b])" by simp
    ultimately show ?thesis using pool_removed.same by (metis prefix_order.refl)
  next
    case (5 _ _ _ b i tx g ta)
    with act index_next_live [of bs b i tx g ta nd r nd'] live pr' show ?thesis by (intro keep) auto
  next
    case (6 _ _ _ b i)
    with act live_rest [OF live, of Sleeping] pr' show ?thesis by (intro keep) (auto simp: aret_def intro: pool_removed.same)
  next
    case (7 _ _ _)
    with act live pr' show ?thesis by (intro keep) (auto simp: aret_def intro: pool_removed.same)
  qed
qed

lemma producer_halted:
  assumes "halted E bs (pr, nd)" and "producer_step E clock1 clock2 (pr, nd) = (pr', nd')"
  shows "nd' = nd \<and> halted E bs (pr', nd')"
proof -
  from assms(1) obtain h e where h: "get_head (rc_kv E) (rc_ext E) (fn_chain nd) = Ok (Some h)"
    "get_block (rc_kv E) (rc_ext E) (rc_codec E) (fn_chain nd) h = Err e" and pr: "pr = Sleeping \<or> pr = Gone"
    by (auto simp: halted_def stuck_chain_def)
  have "open_round E clock1 nd = (Err (CoreErr e), nd)"
    using h by (simp add: open_round_def Let_def abind_aread)
  with assms pr show ?thesis by (auto simp: producer_step_def halted_def aret_def)
qed

end

section \<open>Runs of the system\<close>

text \<open>What the first start relies on: the faucet's key and the addresses of the genesis, an order of
  walking the allocations, a writer of validator sets, and a genesis that is not hashed to zero.\<close>

definition genesis_ready ::
  "('d, 'f) node_crates \<Rightarrow> ((string \<times> string) list \<Rightarrow> (string \<times> string) list) \<Rightarrow> bool" where
  "genesis_ready E order \<longleftrightarrow> (\<exists>kp bs. devnet_faucet_keypair (nc_wallet E) = (Ok kp :: (node_error, key_pair) outcome) \<and>
     kp_address (rc_ext E) kp \<notin> {devnet_validator, founder} \<and> parse_address (rc_ext E) FOUNDER_ADDR = Ok founder \<and>
     nc_ser_vs E devnet_set = Inr bs \<and> (\<forall>r. block_hash (rc_ext E) (devnet_genesis r) \<noteq> 0) \<and>
     (\<forall>alloc. mset (order alloc) = mset alloc))"

definition system_ok :: "('d, 'f) node_crates \<Rightarrow> ('d \<Rightarrow> bytes \<rightharpoonup> bytes) \<Rightarrow> producer \<times> ('d, 'f) app_state \<Rightarrow> bool" where
  "system_ok E contents = (\<lambda>(pr, app). pool_run (rc_ext E) (as_mempool app) \<and> as_chain_id app = CHAIN_ID_TESTNET \<and>
     (\<exists>bs. live E contents bs (pr, shared app) \<or> halted E bs (pr, shared app)))"

lemma shared_simps [simp]:
  "fn_chain (shared app) = as_chain app" "fn_state (shared app) = as_state app" "fn_mempool (shared app) = as_mempool app"
  "shared (share nd app) = nd" "as_chain_id (share nd app) = as_chain_id app"
  by (simp_all add: shared_def share_def)

lemma served_simps [simp]:
  "shared (serve_state c s p cid F) = \<lparr>fn_chain = c, fn_state = s, fn_mempool = p\<rparr>"
  "as_mempool (serve_state c s p cid F) = p" "as_chain_id (serve_state c s p cid F) = cid"
  "as_chain (serve_state c s p cid F) = c" "as_state (serve_state c s p cid F) = s"
  by (simp_all add: shared_def serve_state_def)

lemma live_shared:
  "live E contents bs (pr, nd) \<Longrightarrow> fn_chain nd' = fn_chain nd \<Longrightarrow> fn_state nd' = fn_state nd \<Longrightarrow> live E contents bs (pr, nd')"
  by (simp add: live_def working_def)

lemma halted_shared:
  "halted E bs (pr, nd) \<Longrightarrow> fn_chain nd' = fn_chain nd \<Longrightarrow> halted E bs (pr, nd')"
  by (simp add: halted_def)

lemma halted_sleeping: "halted E bs (pr, nd) \<Longrightarrow> halted E bs (Sleeping, nd)"
  by (simp add: halted_def)

lemma request_keeps:
  assumes "jsonrpc_handler (rpc_crates.truncate E) instant secs ip body app = (r, app')"
  shows "as_chain app' = as_chain app \<and> as_state app' = as_state app \<and> as_chain_id app' = as_chain_id app \<and>
    (pool_run (rc_ext E) (as_mempool app) \<longrightarrow> pool_run (rc_ext E) (as_mempool app'))"
  using handler_step [OF assms] by (auto simp: request_step_def rpc_crates.truncate_def intro: pool_run.insert)

context devnet_genesis_store
begin

lemma restart_same:
  assumes "live E contents bs (pr, \<lparr>fn_chain = c, fn_state = s, fn_mempool = p\<rparr>) \<or>
      halted E bs (pr, \<lparr>fn_chain = c, fn_state = s, fn_mempool = p\<rparr>)"
  shows "run_devnet E order c s = Ok (Sleeping, serve_state c s new_mempool CHAIN_ID_TESTNET (rc_f64 E))"
proof -
  let ?v = "chain_view_of (rc_ext E) (rc_codec E) (contents c)"
  obtain h vs where "cv_head ?v = Some h" "cv_validators ?v = Some vs"
    using assms by (auto simp: live_def halted_def stuck_chain_def line_def Let_def reads_view)
  then have "init_devnet E order (open_node c s) = (Ok (), open_node c s)"
    by (intro init_devnet_again) (simp_all add: open_node_def)
  then show ?thesis by (simp add: run_devnet_def open_node_def)
qed

lemma system_step:
  assumes ok: "system_ok E contents s" and step: "devnet_step E order contents s s'"
  shows "system_ok E contents s' \<and>
    (\<forall>bs. live E contents bs (fst s, shared (snd s)) \<longrightarrow>
       (\<exists>bs'. prefix bs bs' \<and> (live E contents bs' (fst s', shared (snd s')) \<or> halted E bs' (fst s', shared (snd s'))))) \<and>
    (\<forall>bs. halted E bs (fst s, shared (snd s)) \<longrightarrow>
       halted E bs (fst s', shared (snd s')) \<and> as_chain (snd s') = as_chain (snd s))"
  using step
proof cases
  case (request instant secs ip body app r app' pr)
  note k = request_keeps [OF request(3)]
  have "live E contents bs (pr, shared app')" if "live E contents bs (pr, shared app)" for bs
    using live_shared [OF that, of "shared app'"] k by simp
  moreover have "halted E bs (pr, shared app')" if "halted E bs (pr, shared app)" for bs
    using halted_shared [OF that, of "shared app'"] k by simp
  moreover have "prefix bs bs" for bs :: "block list" by simp
  ultimately show ?thesis using ok k request(1,2) unfolding system_ok_def by auto
next
  case (produce app pr clock1 clock2 pr' nd)
  have seal: "sealable E contents (fn_chain (shared app)) pr" using produce(3) by simp
  have l: "pool_removed (as_mempool app) (fn_mempool nd) \<and>
      (\<exists>bs'. prefix bs bs' \<and> (live E contents bs' (pr', nd) \<or> halted E bs' (pr', nd)))"
    if "live E contents bs (pr, shared app)" for bs
    using producer_live [OF that seal produce(4)] by simp
  have h: "nd = shared app \<and> halted E bs (pr', nd)" if "halted E bs (pr, shared app)" for bs
    using producer_halted [OF that produce(4)] .
  have run: "pool_run (rc_ext E) (as_mempool app)" using ok produce(1) by (simp add: system_ok_def)
  have pool: "as_mempool (share nd app) = fn_mempool nd" "as_chain (share nd app) = fn_chain nd" by (simp_all add: share_def)
  obtain bs where now: "live E contents bs (pr, shared app) \<or> halted E bs (pr, shared app)"
    using ok produce(1) by (auto simp: system_ok_def)
  have "pool_run (rc_ext E) (fn_mempool nd)"
    using now l h pool_removed_run run by fastforce
  moreover have "\<exists>bs. live E contents bs (pr', nd) \<or> halted E bs (pr', nd)" using now l h by blast
  ultimately show ?thesis using ok l h produce(1,2) pool by (auto simp: system_ok_def)
next
  case (restart app pr)
  obtain bs where now: "live E contents bs (pr, shared app) \<or> halted E bs (pr, shared app)"
    using ok restart(1) by (auto simp: system_ok_def)
  have "run_devnet E order (as_chain app) (as_state app) =
      Ok (Sleeping, serve_state (as_chain app) (as_state app) new_mempool CHAIN_ID_TESTNET (rc_f64 E))"
    by (rule restart_same [where pr = pr and p = "as_mempool app" and bs = bs]) (use now in \<open>simp add: shared_def\<close>)
  with restart(2) have s': "s' = (Sleeping, serve_state (as_chain app) (as_state app) new_mempool CHAIN_ID_TESTNET (rc_f64 E))"
    by simp
  have l: "live E contents bs' (Sleeping, shared (snd s'))" if "live E contents bs' (pr, shared app)" for bs'
    using live_shared [OF live_rest [OF that, of Sleeping], of "shared (snd s')"] s' by simp
  have h: "halted E bs' (Sleeping, shared (snd s'))" if "halted E bs' (pr, shared app)" for bs'
    using halted_shared [OF halted_sleeping [OF that], of "shared (snd s')"] s' by simp
  have "pool_run (rc_ext E) new_mempool" by (simp add: new_mempool_def pool_run.new)
  with now l h have "system_ok E contents s'" using s' by (auto simp: system_ok_def)
  moreover have "prefix bs bs" for bs :: "block list" by simp
  ultimately show ?thesis using l h restart(1) s' by auto
qed

lemma system_runs:
  assumes "devnet_runs E order contents s s'" and "system_ok E contents s"
  shows "system_ok E contents s' \<and>
    (\<forall>bs. live E contents bs (fst s, shared (snd s)) \<longrightarrow>
       (\<exists>bs'. prefix bs bs' \<and> (live E contents bs' (fst s', shared (snd s')) \<or> halted E bs' (fst s', shared (snd s'))))) \<and>
    (\<forall>bs. halted E bs (fst s, shared (snd s)) \<longrightarrow>
       halted E bs (fst s', shared (snd s')) \<and> as_chain (snd s') = as_chain (snd s))"
  using assms(1) unfolding devnet_runs_def
proof (induction rule: rtranclp_induct)
  case base
  then show ?case using assms(2) by auto
next
  case (step s1 s2)
  have ok: "system_ok E contents s1" using step.IH by simp
  note one = system_step [OF ok step.hyps(2)]
  have "\<exists>bs''. prefix bs bs'' \<and> (live E contents bs'' (fst s2, shared (snd s2)) \<or> halted E bs'' (fst s2, shared (snd s2)))"
    if "live E contents bs (fst s, shared (snd s))" for bs
  proof -
    from step.IH that obtain bs' where p: "prefix bs bs'"
      and "live E contents bs' (fst s1, shared (snd s1)) \<or> halted E bs' (fst s1, shared (snd s1))" by blast
    with one obtain bs'' where "prefix bs' bs''"
      "live E contents bs'' (fst s2, shared (snd s2)) \<or> halted E bs'' (fst s2, shared (snd s2))"
      by (metis prefix_order.refl)
    with p show ?thesis using prefix_order.trans by blast
  qed
  moreover have "halted E bs (fst s2, shared (snd s2)) \<and> as_chain (snd s2) = as_chain (snd s)"
    if "halted E bs (fst s, shared (snd s))" for bs
  proof -
    from step.IH that have "halted E bs (fst s1, shared (snd s1))" "as_chain (snd s1) = as_chain (snd s)" by blast+
    with one show ?thesis by metis
  qed
  ultimately show ?case using one by blast
qed

lemma first_start:
  assumes ready: "genesis_ready E order" and empty: "contents c = Map.empty" "contents s = Map.empty"
  shows "\<exists>app r. run_devnet E order c s = Ok (Sleeping, app) \<and> live E contents [devnet_genesis r] (Sleeping, shared app) \<and>
    system_ok E contents (Sleeping, app) \<and>
    total_balance (sv_balance (view_of (rc_ext E) (contents (as_state app)))) = TOTAL_SUPPLY * 13 div 10 \<and>
    as_mempool app = new_mempool"
proof -
  from ready obtain kp bs where r: "devnet_faucet_keypair (nc_wallet E) = (Ok kp :: (node_error, key_pair) outcome)"
    "kp_address (rc_ext E) kp \<noteq> devnet_validator" "kp_address (rc_ext E) kp \<noteq> founder"
    "parse_address (rc_ext E) FOUNDER_ADDR = Ok founder" "\<And>alloc. mset (order alloc) = mset alloc"
    "nc_ser_vs E devnet_set = Inr bs" "\<And>r. block_hash (rc_ext E) (devnet_genesis r) \<noteq> 0"
    by (auto simp: genesis_ready_def)
  have "contents (fn_chain (open_node c s)) = Map.empty" "contents (fn_state (open_node c s)) = Map.empty"
    using empty by (simp_all add: open_node_def)
  from write_genesis_ok [OF this r] obtain nd' r where w: "write_genesis E order (open_node c s) = (Ok (), nd')"
    "fn_mempool nd' = new_mempool" "working E contents nd' (devnet_genesis r)"
    and v: "cv_validators (chain_view_of (rc_ext E) (rc_codec E) (contents (fn_chain nd'))) = Some bs"
      "cv_block (chain_view_of (rc_ext E) (rc_codec E) (contents (fn_chain nd'))) =
         [block_hash (rc_ext E) (devnet_genesis r) \<mapsto> devnet_genesis r]"
      "cv_number (chain_view_of (rc_ext E) (rc_codec E) (contents (fn_chain nd'))) = [0 \<mapsto> block_hash (rc_ext E) (devnet_genesis r)]"
    and bal: "sv_balance (view_of (rc_ext E) (contents (fn_state nd'))) = (\<lambda>_. 0)(devnet_validator := 1000000000 * 10 ^ 18,
      kp_address (rc_ext E) kp := 100000000 * 10 ^ 18, founder := 200000000 * 10 ^ 18)"
    by (auto simp: open_node_def)
  have total: "total_balance (sv_balance (view_of (rc_ext E) (contents (fn_state nd')))) = TOTAL_SUPPLY * 13 div 10"
    using r(2,3) by (simp add: bal total_balance_new TOTAL_SUPPLY_def devnet_validator_def founder_def)
  have "cv_head (chain_view_of (rc_ext E) (rc_codec E) (contents c)) = None"
    using empty(1) by simp (simp add: empty_view_def)
  then have "init_devnet E order (open_node c s) = (Ok (), nd')"
    using w(1) v(1) by (simp add: init_devnet_def Let_def abind_aread reads_view athen_def aret_def open_node_def)
  then have run: "run_devnet E order c s =
      Ok (Sleeping, serve_state (fn_chain nd') (fn_state nd') new_mempool CHAIN_ID_TESTNET (rc_f64 E))"
    using w(2) by (simp add: run_devnet_def)
  have "line (rc_ext E) (chain_view_of (rc_ext E) (rc_codec E) (contents (fn_chain nd'))) [devnet_genesis r]"
    using v w(3) by (auto simp: line_def working_def tip_def devnet_genesis_def)
  then have "live E contents [devnet_genesis r] (Sleeping, nd')"
    using w(3) v(1) by (simp add: live_def) (simp add: devnet_genesis_def)
  then have live: "live E contents [devnet_genesis r] (Sleeping,
      shared (serve_state (fn_chain nd') (fn_state nd') new_mempool CHAIN_ID_TESTNET (rc_f64 E)))"
    by (rule live_shared) simp_all
  have "pool_run (rc_ext E) new_mempool" by (simp add: new_mempool_def pool_run.new)
  with live have "system_ok E contents (Sleeping, serve_state (fn_chain nd') (fn_state nd') new_mempool CHAIN_ID_TESTNET (rc_f64 E))"
    unfolding system_ok_def by fastforce
  with run live total show ?thesis by auto
qed

text \<open>What the interpreter reads of an account.\<close>

lemma adapter_basic:
  assumes "state_wf (rc_ext E) (contents s)"
  shows "\<exists>info. (\<forall>c. fst (op_basic (adapter_ops (rc_kv E) (rc_ext E) s) a c) = Ok (Some info)) \<and>
    ai_nonce info = sv_nonce (view_of (rc_ext E) (contents s)) a \<and>
    ai_balance info = sv_balance (view_of (rc_ext E) (contents s)) a"
proof -
  let ?v = "view_of (rc_ext E) (contents s)"
  let ?info = "\<lparr>ai_balance = sv_balance ?v a, ai_nonce = sv_nonce ?v a,
    ai_code_hash = (if sv_code ?v a = [] then KECCAK_EMPTY (rc_ext E) else keccak256 (rc_ext E) (sv_code ?v a)),
    ai_code = (if sv_code ?v a = [] then None else Some (sv_code ?v a))\<rparr>"
  have "fst (op_basic (adapter_ops (rc_kv E) (rc_ext E) s) a c) = Ok (Some ?info)" for c
    using assms by (simp add: adapter_ops_def basic_def abind_alift get_balance_view get_nonce_view get_code_view aret_def)
  then show ?thesis by (intro exI [of _ ?info]) simp
qed

end

section \<open>Nonces\<close>

text \<open>revm never lowers a nonce, and counts the caller's nonce up (it stays at the largest \<open>u64\<close>).\<close>

locale devnet_nonces = devnet_genesis_store E contents
  for E :: "('d, 'f) node_crates" and contents :: "'d \<Rightarrow> bytes \<rightharpoonup> bytes" +
  assumes nonces_kept: "rv_transact (nc_revm E) ops env cache = (Inr (res, chs), cache') \<Longrightarrow> (a, acc) \<in> set chs \<Longrightarrow>
      (\<And>c. fst (op_basic ops a c) = Ok (Some info)) \<Longrightarrow> ai_nonce info \<le> ai_nonce (ac_info acc)"
    and caller_counted: "rv_transact (nc_revm E) ops env cache = (Inr (res, chs), cache') \<Longrightarrow>
      (\<And>c. fst (op_basic ops (te_caller (ve_tx env)) c) = Ok (Some info)) \<Longrightarrow>
      \<exists>acc. (te_caller (ve_tx env), acc) \<in> set chs \<and> ai_nonce (ac_info acc) = sat_add (ai_nonce info) 1"

definition nonces :: "('d, 'f) node_crates \<Rightarrow> ('d \<Rightarrow> bytes \<rightharpoonup> bytes) \<Rightarrow> 'd full_node \<Rightarrow> address \<Rightarrow> u64" where
  "nonces E contents nd = sv_nonce (view_of (rc_ext E) (contents (fn_state nd)))"

context devnet_nonces
begin

lemma execute_tx_nonces:
  assumes wf: "state_wf (rc_ext E) (contents s)" and a: "sender (rc_ext E) tx = Ok a"
    and ex: "execute_tx (nc_revm E) (rc_kv E) (rc_ext E) tx blk cid (s, cache) = (r, (s', cache'))"
  shows "sv_nonce (view_of (rc_ext E) (contents s)) b \<le> sv_nonce (view_of (rc_ext E) (contents s')) b \<and>
    (\<forall>x. r = Ok x \<longrightarrow> sv_nonce (view_of (rc_ext E) (contents s')) a = sat_add (sv_nonce (view_of (rc_ext E) (contents s)) a) 1)"
proof -
  let ?ops = "adapter_ops (rc_kv E) (rc_ext E) s" and ?v = "view_of (rc_ext E) (contents s)"
  obtain q cache1 where t: "rv_transact (nc_revm E) ?ops (exec_env tx a blk cid) cache = (q, cache1)"
    by (cases "rv_transact (nc_revm E) ?ops (exec_env tx a blk cid) cache")
  show ?thesis
  proof (cases q)
    case (Inl e)
    with ex t a show ?thesis by (auto simp: execute_tx_def)
  next
    case (Inr y)
    obtain res chs where y: "y = (res, chs)" by (cases y)
    note tr = t [unfolded Inr y]
    have d: "distinct (map fst chs)" using transact_changes [OF tr] by (simp add: changes_ok_def)
    from commit_refines [OF wf transact_changes [OF tr], of cache1] ex t a Inr y
    have v: "view_of (rc_ext E) (contents s') = committed (map_of chs) ?v"
      by (auto simp: execute_tx_def aret_def)
    have "sv_nonce ?v b \<le> sv_nonce (committed (map_of chs) ?v) b"
    proof (cases "map_of chs b")
      case (Some acc)
      obtain info where "\<And>c. fst (op_basic ?ops b c) = Ok (Some info)" "ai_nonce info = sv_nonce ?v b"
        using adapter_basic [OF wf, of b] by blast
      with nonces_kept [OF tr, of b acc info] Some show ?thesis by (auto simp: committed_def dest: map_of_SomeD)
    qed (simp add: committed_def)
    moreover have "sv_nonce (committed (map_of chs) ?v) a = sat_add (sv_nonce ?v a) 1"
    proof -
      obtain info where i: "\<And>c. fst (op_basic ?ops a c) = Ok (Some info)" "ai_nonce info = sv_nonce ?v a"
        using adapter_basic [OF wf, of a] by blast
      with caller_counted [OF tr, of info] obtain acc where "(a, acc) \<in> set chs" "ai_nonce (ac_info acc) = sat_add (ai_nonce info) 1"
        by (auto simp: exec_env_def tx_env_def)
      with d i(2) show ?thesis by (simp add: committed_def)
    qed
    ultimately show ?thesis using v by simp
  qed
qed

lemma screened_nonce:
  assumes "screened E cid n c tx s" and "state_wf (rc_ext E) (contents s)" and "sender (rc_ext E) tx = Ok a"
  shows "nonce tx = sv_nonce (view_of (rc_ext E) (contents s)) a"
  using assms by (auto simp: screened_def validate_tx_against_state_def get_nonce_view get_balance_view Let_def
      split: if_splits)

lemma include_tx_nonces:
  assumes wf: "state_wf (rc_ext E) (contents (fn_state nd))" and inc: "include_tx E blk cid n tx nd = (r, nd')"
  shows "nonces E contents nd b \<le> nonces E contents nd' b \<and>
    (\<forall>g a. r = Ok (Some g) \<longrightarrow> sender (rc_ext E) tx = Ok a \<longrightarrow>
       nonce tx = nonces E contents nd a \<and> nonces E contents nd' a = sat_add (nonce tx) 1)"
proof (cases "screen_tx E cid n tx nd")
  case (Ok d)
  have exec: ?thesis if "d = Some k" "k \<in> {Include, IncludeWithLog}" "execute_candidate E blk cid tx nd = (r, nd')" for k
  proof -
    have s: "screened E cid n (fn_chain nd) tx (fn_state nd)"
      using screen_tx_Ok Ok that(1,2) by blast
    obtain a where a: "sender (rc_ext E) tx = Ok a"
      using s unfolding screened_def by (blast dest: validate_basic_sender)
    obtain q s' cache where ex: "execute_tx (nc_revm E) (rc_kv E) (rc_ext E) tx blk cid (fn_state nd, Map.empty) = (q, (s', cache))"
      by (metis prod.collapse)
    have "nd' = nd\<lparr>fn_state := s'\<rparr>" "r = obind (ok_opt q) (\<lambda>res. Ok (map_option er_gas_used res))"
      using that(3) ex by (simp_all add: execute_candidate_def)
    with execute_tx_nonces [OF wf a ex] screened_nonce [OF s wf a] a show ?thesis
      by (auto simp: nonces_def obind_eq_Ok ok_opt_Ok)
  qed
  obtain x p' where rm: "remove_tx (tx_hash (rc_ext E) tx) (fn_mempool nd) = (Ok x, p')" using remove_tx_Ok by blast
  have "discard (in_pool (remove_tx (tx_hash (rc_ext E) tx))) nd = (Ok () :: (node_error, unit) outcome, nd\<lparr>fn_mempool := p'\<rparr>)"
    by (simp add: discard_def in_pool_def rm)
  then have reject: "nd' = nd\<lparr>fn_mempool := p'\<rparr> \<and> r = Ok None" if "d = Some Reject"
    using inc Ok that by (simp add: include_tx_def abind_aread aret_def athen_def)
  have none: "nd' = nd \<and> r = Ok None" if "d = None \<or> d = Some Delay"
    using inc Ok that by (auto simp: include_tx_def abind_aread aret_def)
  have run: "execute_candidate E blk cid tx nd = (r, nd')" if "d = Some Include \<or> d = Some IncludeWithLog"
    using inc Ok that by (auto simp: include_tx_def abind_aread)
  consider "d = None \<or> d = Some Delay" | "d = Some Reject" | k where "d = Some k" "k \<in> {Include, IncludeWithLog}"
    by (metis fraud_recommendation.exhaust insertI1 insertI2 option.exhaust)
  then show ?thesis
  proof cases
    case 1
    with none show ?thesis by simp
  next
    case 2
    with reject show ?thesis by (simp add: nonces_def)
  next
    case 3
    with exec run show ?thesis by blast
  qed
qed (use inc in \<open>auto simp: include_tx_def abind_aread nonces_def\<close>)

end

text \<open>Transactions whose nonces are used up: each is below the nonce of its sender, and no sender has
  two with the same nonce. (An account whose nonce is the largest \<open>u64\<close> is not protected.)\<close>

definition used_up :: "ext \<Rightarrow> (address \<Rightarrow> u64) \<Rightarrow> signed_transaction list \<Rightarrow> bool" where
  "used_up X non txs \<longleftrightarrow>
     (\<forall>tx \<in> set txs. \<forall>a. sender X tx = Ok a \<longrightarrow> nonce tx \<noteq> - 1 \<longrightarrow> nonce tx < non a) \<and>
     distinct (map (\<lambda>tx. (sender X tx, nonce tx)) (filter (\<lambda>tx. nonce tx \<noteq> - 1) txs))"

lemma used_up_mono: "used_up X non txs \<Longrightarrow> (\<And>a. non a \<le> non' a) \<Longrightarrow> used_up X non' txs"
  unfolding used_up_def by (meson less_le_trans)

lemma used_up_part: "used_up X non (txs @ txs') \<Longrightarrow> used_up X non txs"
  by (auto simp: used_up_def)

lemma used_up_snoc:
  assumes "used_up X non txs" and a: "sender X tx = Ok a" "nonce tx = non a" "non' a = sat_add (nonce tx) 1"
    and "\<And>b. non b \<le> non' b"
  shows "used_up X non' (txs @ [tx])"
proof -
  have "nonce tx < non' a" if "nonce tx \<noteq> - 1"
  proof -
    have "unat (nonce tx) + 1 < 2 ^ 64"
      using that unat_less [of "nonce tx"] by (auto simp: word_unat_eq_iff unat_max)
    then show ?thesis by (simp add: a(3) word_less_nat_alt unat_sat_add)
  qed
  moreover have "(sender X tx, nonce tx) \<notin> (\<lambda>tx. (sender X tx, nonce tx)) ` set (filter (\<lambda>tx. nonce tx \<noteq> - 1) txs)"
    using assms(1) a by (force simp: used_up_def)
  ultimately show ?thesis
    using used_up_mono [OF assms(1,5)] a(1) by (auto simp: used_up_def)
qed

text \<open>The transactions of the stored blocks and of the round that is under way.\<close>

definition spent :: "block list \<Rightarrow> producer \<Rightarrow> signed_transaction list" where
  "spent bs pr = concat (map b_body bs) @ (case pr of
       Screening _ _ _ _ ta \<Rightarrow> map fst ta
     | Proposing _ _ ta \<Rightarrow> map fst ta
     | _ \<Rightarrow> [])"

lemma spent_simps [simp]:
  "spent bs Sleeping = concat (map b_body bs)" "spent bs Gone = concat (map b_body bs)"
  "spent bs (Indexing b i ta) = concat (map b_body bs)"
  "spent bs (Screening h n now txs ta) = concat (map b_body bs) @ map fst ta"
  "spent bs (Proposing b now ta) = concat (map b_body bs) @ map fst ta"
  by (simp_all add: spent_def)

context devnet_nonces
begin

lemma screen_next_used:
  assumes "live E contents bs (Screening h n now (tx # txs) ta, nd)"
    and "used_up (rc_ext E) (nonces E contents nd) (spent bs (Screening h n now (tx # txs) ta))"
    and "screen_next E h n now tx txs ta nd = (r, nd')"
  shows "used_up (rc_ext E) (nonces E contents nd') (spent bs (next_place r))"
proof -
  let ?inc = "include_tx E (block_env (rc_ext E) n now 30000000 0 devnet_validator) CHAIN_ID_TESTNET n tx nd"
  obtain q nd1 where inc: "?inc = (q, nd1)" by (cases ?inc)
  have st: "state_wf (rc_ext E) (contents (fn_state nd))" using assms(1) by (simp add: live_def working_def Let_def)
  have nd': "nd' = nd1" using assms(3) inc by (cases q) (auto simp: screen_next_def abind_def aret_def)
  note non = include_tx_nonces [OF st inc]
  have keep: "used_up (rc_ext E) (nonces E contents nd1) (concat (map b_body bs) @ map fst ta)"
    by (rule used_up_mono [OF assms(2) [unfolded spent_simps]]) (use non in blast)
  show ?thesis
  proof (cases "\<exists>g. q = Ok (Some g)")
    case True
    then obtain g where g: "q = Ok (Some g)" by blast
    then have "screened E CHAIN_ID_TESTNET n (fn_chain nd) tx (fn_state nd)" using include_tx_ok [OF st inc] by blast
    then obtain a where a: "sender (rc_ext E) tx = Ok a" unfolding screened_def by (blast dest: validate_basic_sender)
    have "used_up (rc_ext E) (nonces E contents nd1) ((concat (map b_body bs) @ map fst ta) @ [tx])"
      by (rule used_up_snoc [OF assms(2) [unfolded spent_simps] a]) (use non g a in blast)+
    with g inc assms(3) nd' show ?thesis by (auto simp: screen_next_def abind_def aret_def)
  next
    case False
    with keep inc assms(3) nd' used_up_part [OF keep] show ?thesis
      by (cases q) (auto simp: screen_next_def abind_def aret_def split: option.splits)
  qed
qed

lemma propose_used:
  assumes "live E contents bs (Screening h n now [] ta, nd)"
    and "used_up (rc_ext E) (nonces E contents nd) (spent bs (Screening h n now [] ta))"
    and "propose E h n now clock2 ta nd = (r, nd')"
  shows "used_up (rc_ext E) (nonces E contents nd') (spent bs (next_place r))"
proof -
  have st: "state_wf (rc_ext E) (contents (fn_state nd))" using assms(1) by (simp add: live_def working_def Let_def)
  obtain s' where burn: "burn_fees E devnet_validator (fst (split_fees (total_gas_fees ta))) nd = (Ok (), nd\<lparr>fn_state := s'\<rparr>)"
    and v: "sv_nonce (view_of (rc_ext E) (contents s')) = nonces E contents nd"
    using burn_fees_ok [OF st, of devnet_validator "fst (split_fees (total_gas_fees ta))"] by (auto simp: nonces_def)
  obtain sroot where root: "compute_state_root (rc_kv E) (rc_ext E) s' = Ok sroot" using state_root_Ok by blast
  have "nd' = nd\<lparr>fn_state := s'\<rparr> \<and> (next_place r = Sleeping \<or> next_place r = Gone \<or> (\<exists>b. next_place r = Proposing b now ta))"
    using assms(3) burn root
    by (cases "new_block (rc_ext E) clock2 h n sroot 0 (map fst ta) devnet_validator [] 30000000 0")
      (auto simp: propose_def Let_def athen_def abind_aread abind_alift aret_def)
  with assms(2) used_up_part [of "rc_ext E" "nonces E contents nd" "concat (map b_body bs)" "map fst ta"] v
  show ?thesis by (auto simp: nonces_def)
qed

lemma producer_used:
  assumes live: "live E contents bs (pr, nd)" and seal: "sealable E contents (fn_chain nd) pr"
    and used: "used_up (rc_ext E) (nonces E contents nd) (spent bs pr)"
    and step: "producer_step E clock1 clock2 (pr, nd) = (pr', nd')"
  shows "(\<exists>bs'. live E contents bs' (pr', nd') \<and> used_up (rc_ext E) (nonces E contents nd') (spent bs' pr')) \<or>
    (\<exists>bs'. halted E bs' (pr', nd'))"
proof -
  obtain r where act: "producer_act E clock1 clock2 pr nd = (r, nd')" and pr': "pr' = next_place r"
    using step by (auto simp: producer_step_def split: prod.splits)
  have keep: ?thesis if "live E contents bs (pr', nd')" "used_up (rc_ext E) (nonces E contents nd') (spent bs pr')"
    using that by blast
  show ?thesis
  proof (cases "(E, clock1, clock2, pr)" rule: producer_act.cases)
    case 1
    have "nd' = nd" "live E contents bs (pr', nd')" using open_round_live [OF live] act 1 pr' by auto
    moreover have "spent bs pr' = spent bs pr"
      using act 1 pr' by (auto simp: open_round_def Let_def abind_aread abind_alift aret_def chk_add_def
          split: outcome.splits if_splits option.splits)
    ultimately show ?thesis using used by (intro keep) auto
  next
    case (2 _ _ _ h n now tx txs ta)
    with act screen_next_live [of bs h n now tx txs ta nd r nd'] screen_next_used [of bs h n now tx txs ta nd r nd']
      live used pr' show ?thesis by (intro keep) auto
  next
    case (3 _ _ _ h n now ta)
    with act propose_live [of bs h n now ta nd clock2 r nd'] propose_used [of bs h n now ta nd clock2 r nd']
      live used pr' show ?thesis by (intro keep) auto
  next
    case (4 _ _ _ b now ta)
    then have "b_body b = map fst ta" using live by (auto simp: live_def Let_def place_ok_def sealed_block_def)
    moreover have p: "live E contents bs (pr', nd') \<or> live E contents (bs @ [b]) (pr', nd') \<or> halted E bs (pr', nd')"
      "nonces E contents nd' = nonces E contents nd" "pr' \<in> {Sleeping, Gone, Indexing b 0 ta}"
      using proposing_live [of bs b now ta nd r nd'] live seal act pr' 4 by (auto simp: nonces_def)
    ultimately have "used_up (rc_ext E) (nonces E contents nd') (spent (bs @ [b]) pr')"
        "used_up (rc_ext E) (nonces E contents nd') (spent bs pr')"
      using used 4 used_up_part by auto
    with p(1) show ?thesis by blast
  next
    case (5 _ _ _ b i tx g ta)
    with act index_next_live [of bs b i tx g ta nd r nd'] live pr'
    have l: "live E contents bs (pr', nd')" "fn_state nd' = fn_state nd" "spent bs pr' = spent bs pr" by auto
    with l used show ?thesis by (intro keep) (auto simp: nonces_def)
  next
    case (6 _ _ _ b i)
    with act live_rest [OF live, of Sleeping] pr' used show ?thesis by (intro keep) (auto simp: aret_def)
  next
    case (7 _ _ _)
    with act live pr' used show ?thesis by (intro keep) (auto simp: aret_def)
  qed
qed

end

definition ledger_ok :: "('d, 'f) node_crates \<Rightarrow> ('d \<Rightarrow> bytes \<rightharpoonup> bytes) \<Rightarrow> producer \<times> ('d, 'f) app_state \<Rightarrow> bool" where
  "ledger_ok E contents = (\<lambda>(pr, app).
     (\<exists>bs. live E contents bs (pr, shared app) \<and> used_up (rc_ext E) (nonces E contents (shared app)) (spent bs pr)) \<or>
     (\<exists>bs. halted E bs (pr, shared app)))"

lemma spent_sleeping: "used_up X non (spent bs pr) \<Longrightarrow> used_up X non (concat (map b_body bs))"
  unfolding spent_def by (rule used_up_part)

context devnet_nonces
begin

lemma ledger_step:
  assumes "ledger_ok E contents s" and step: "devnet_step E order contents s s'"
  shows "ledger_ok E contents s'"
  using step
proof cases
  case (request instant secs ip body app r app' pr)
  note k = request_keeps [OF request(3)]
  have n: "nonces E contents (shared app') = nonces E contents (shared app)" using k by (simp add: nonces_def)
  have "live E contents bs (pr, shared app')" if "live E contents bs (pr, shared app)" for bs
    using live_shared [OF that, of "shared app'"] k by simp
  moreover have "halted E bs (pr, shared app')" if "halted E bs (pr, shared app)" for bs
    using halted_shared [OF that, of "shared app'"] k by simp
  ultimately show ?thesis using assms(1) request(1,2) n by (auto simp: ledger_ok_def)
next
  case (produce app pr clock1 clock2 pr' nd)
  have seal: "sealable E contents (fn_chain (shared app)) pr" using produce(3) by simp
  from assms(1) produce(1) consider bs where "live E contents bs (pr, shared app)"
      "used_up (rc_ext E) (nonces E contents (shared app)) (spent bs pr)"
    | bs where "halted E bs (pr, shared app)" by (auto simp: ledger_ok_def)
  then show ?thesis
  proof cases
    case (1 bs)
    from producer_used [OF 1(1) seal 1(2) produce(4)] produce(2) show ?thesis by (simp add: ledger_ok_def)
  next
    case 2
    from producer_halted [OF 2 produce(4)] produce(2) show ?thesis by (auto simp: ledger_ok_def)
  qed
next
  case (restart app pr)
  from assms(1) restart(1) obtain bs where now: "live E contents bs (pr, shared app) \<and>
      used_up (rc_ext E) (nonces E contents (shared app)) (spent bs pr) \<or> halted E bs (pr, shared app)"
    by (auto simp: ledger_ok_def)
  have "run_devnet E order (as_chain app) (as_state app) =
      Ok (Sleeping, serve_state (as_chain app) (as_state app) new_mempool CHAIN_ID_TESTNET (rc_f64 E))"
    by (rule restart_same [where pr = pr and p = "as_mempool app" and bs = bs]) (use now in \<open>auto simp: shared_def\<close>)
  with restart(2) have s': "s' = (Sleeping, serve_state (as_chain app) (as_state app) new_mempool CHAIN_ID_TESTNET (rc_f64 E))"
    by simp
  have l: "live E contents bs (Sleeping, shared (snd s'))" if "live E contents bs (pr, shared app)"
    using live_shared [OF live_rest [OF that, of Sleeping], of "shared (snd s')"] s' by simp
  have h: "halted E bs (Sleeping, shared (snd s'))" if "halted E bs (pr, shared app)"
    using halted_shared [OF halted_sleeping [OF that], of "shared (snd s')"] s' by simp
  have "nonces E contents (shared (snd s')) = nonces E contents (shared app)" using s' by (simp add: nonces_def)
  with now l h spent_sleeping s' show ?thesis by (fastforce simp: ledger_ok_def)
qed

lemma ledger_runs:
  "devnet_runs E order contents s s' \<Longrightarrow> ledger_ok E contents s \<Longrightarrow> ledger_ok E contents s'"
  unfolding devnet_runs_def by (induction rule: rtranclp_induct) (auto intro: ledger_step)

end

context devnet_store
begin

lemma live_stored:
  assumes "live E contents bs (pr, nd)"
  shows "stored_chain E (fn_chain nd) bs"
proof -
  let ?v = "chain_view_of (rc_ext E) (rc_codec E) (contents (fn_chain nd))"
  have wf: "chain_wf (rc_ext E) (rc_codec E) (contents (fn_chain nd))" and l: "line (rc_ext E) ?v bs"
    using assms by (simp_all add: live_def working_def Let_def)
  from line_readable [OF this] l show ?thesis by (simp add: stored_chain_def reads_view line_def)
qed

end

section \<open>An example run\<close>

text \<open>The reference interpreter counts nonces as revm does.\<close>

lemma ref_transact_nonces:
  assumes "ref_transact ops env cache = (Inr (res, chs), cache')"
  shows "(a, acc) \<in> set chs \<Longrightarrow> (\<And>c. fst (op_basic ops a c) = Ok (Some info)) \<Longrightarrow> ai_nonce info \<le> ai_nonce (ac_info acc)"
    and "(\<And>c. fst (op_basic ops (te_caller (ve_tx env)) c) = Ok (Some info)) \<Longrightarrow>
      \<exists>acc. (te_caller (ve_tx env), acc) \<in> set chs \<and> ai_nonce (ac_info acc) = sat_add (ai_nonce info) 1"
proof -
  have le: "n \<le> sat_add n 1" for n :: u64 by (simp add: word_le_nat_alt unat_sat_add) (use unat_less [of n] in simp)
  obtain to_a i j where t: "te_transact_to (ve_tx env) = Call to_a"
    "fst (op_basic ops (te_caller (ve_tx env)) cache) = Ok (Some i)" "fst (op_basic ops to_a cache) = Ok (Some j)"
    and chs: "chs = [(te_caller (ve_tx env), \<lparr>ac_info = i\<lparr>ai_balance := ai_balance i - te_value (ve_tx env),
        ai_nonce := sat_add (ai_nonce i) 1\<rparr>, ac_storage = [], ac_selfdestructed = False\<rparr>),
      (to_a, \<lparr>ac_info = j\<lparr>ai_balance := ai_balance j + te_value (ve_tx env)\<rparr>, ac_storage = [], ac_selfdestructed = False\<rparr>)]"
    using assms by (auto simp: ref_transact_def Let_def split: transact_to.splits outcome.splits option.splits if_splits)
  show "ai_nonce info \<le> ai_nonce (ac_info acc)"
    if "(a, acc) \<in> set chs" "\<And>c. fst (op_basic ops a c) = Ok (Some info)"
    using that(1) that(2) [of cache] t le [of "ai_nonce i"] by (auto simp: chs)
  show "\<exists>acc. (te_caller (ve_tx env), acc) \<in> set chs \<and> ai_nonce (ac_info acc) = sat_add (ai_nonce info) 1"
    if "\<And>c. fst (op_basic ops (te_caller (ve_tx env)) c) = Ok (Some info)"
  proof -
    have "(te_caller (ve_tx env), snd (hd chs)) \<in> set chs" by (simp add: chs)
    moreover have "ai_nonce (ac_info (snd (hd chs))) = sat_add (ai_nonce info) 1"
      using that [of cache] t by (simp add: chs)
    ultimately show ?thesis by blast
  qed
qed

interpretation ref_nonces: devnet_nonces ref_node map_of
proof -
  have "devnet_nonces_axioms ref_node"
    unfolding devnet_nonces_axioms_def ref_node_simps revm.simps using ref_transact_nonces by blast
  then show "devnet_nonces ref_node map_of"
    by (simp add: devnet_nonces_def ref_devnet_genesis.devnet_genesis_store_axioms)
qed

lemma ref_genesis_ready: "genesis_ready ref_node rev"
proof -
  obtain kp where kp: "devnet_faucet_keypair (nc_wallet ref_node) = (Ok kp :: (node_error, key_pair) outcome)" "kp_address ref_ext kp = 1682"
    by (rule ref_node_faucet)
  have "block_hash ref_ext (devnet_genesis r) \<noteq> 0" for r
    by (simp add: block_hash_def header_hash_def length_header_preimage ref_ext_def devnet_genesis_def)
  moreover have "nc_ser_vs ref_node devnet_set = Inr [1]" by (simp add: ref_node_def)
  ultimately show ?thesis
    using kp by (auto simp: genesis_ready_def devnet_validator_def founder_def ref_founder)
qed

text \<open>The devnet is started on empty databases; a request is answered and a round is opened.\<close>

lemma example_run:
  "\<exists>start pr app r. run_devnet ref_node rev [] [] = Ok start \<and> devnet_runs ref_node rev map_of start (pr, app) \<and>
     stored_chain ref_node (as_chain (snd start)) [devnet_genesis r] \<and> stored_chain ref_node (as_chain app) [devnet_genesis r] \<and>
     pr \<noteq> Sleeping"
proof -
  obtain app r where start: "run_devnet ref_node rev [] [] = Ok (Sleeping, app)"
    and live: "live ref_node map_of [devnet_genesis r] (Sleeping, shared app)"
    using ref_devnet_genesis.first_start [OF ref_genesis_ready, of "[]" "[]"] by auto
  obtain q app1 where req: "jsonrpc_handler (rpc_crates.truncate ref_node) 0 0 ''127.0.0.1''
      (JObject [(''method'', JString ''eth_chainId'')]) app = (q, app1)" by (metis prod.collapse)
  note k = request_keeps [OF req]
  have live1: "live ref_node map_of [devnet_genesis r] (Sleeping, shared app1)"
    using live_shared [OF live, of "shared app1"] k by simp
  have "working ref_node map_of (shared app1) (devnet_genesis r)" using live1 by (simp add: live_def Let_def)
  note head = ref_devnet.working_head [OF this]
  have "get_validator_set_bytes mem_kv ref_ext (as_chain app1) = Ok (Some bs) \<Longrightarrow>
      selected_proposer ref_node (as_chain app1) h n \<in> {Ok None, Ok (Some devnet_validator)}" for bs h n
    using devnet_proposer by (simp add: selected_proposer_def ref_node_def)
  moreover obtain bs where "get_validator_set_bytes mem_kv ref_ext (as_chain app1) = Ok (Some bs)"
    using live1 by (auto simp: live_def Let_def mem_chain.reads_view)
  ultimately have sel: "selected_proposer ref_node (as_chain app1) h n \<in> {Ok None, Ok (Some devnet_validator)}" for h n
    by blast
  obtain pr nd where step: "producer_step ref_node (Inr 20) (Inr 20) (Sleeping, shared app1) = (pr, nd)"
    by (metis prod.collapse)
  have "chk_add (0 :: u64) 1 = (Ok 1 :: (node_error, u64) outcome)" by (simp add: chk_add_def)
  then have "pr \<noteq> Sleeping" "nd = shared app1"
    using step head sel [of "block_hash ref_ext (devnet_genesis r)" 1]
    by (auto simp: producer_step_def open_round_def Let_def abind_aread abind_alift aret_def get_best_def devnet_genesis_def)
  moreover have "devnet_step ref_node rev map_of (Sleeping, app) (Sleeping, app1)" by (rule devnet_step.request [OF req])
  moreover have "devnet_step ref_node rev map_of (Sleeping, app1) (pr, share nd app1)"
    by (rule devnet_step.produce [OF _ step]) (simp add: sealable_def)
  ultimately have "devnet_runs ref_node rev map_of (Sleeping, app) (pr, share nd app1)"
    unfolding devnet_runs_def by auto
  moreover have "as_chain (share nd app1) = as_chain app1" using \<open>nd = shared app1\<close> by (simp add: share_def)
  ultimately show ?thesis
    using start ref_devnet.live_stored [OF live] ref_devnet.live_stored [OF live1] \<open>pr \<noteq> Sleeping\<close> by force
qed

text \<open>A second reference node, whose block hash also depends on the number of the block, makes a block.\<close>

definition numbered_ext :: ext where
  "numbered_ext = ref_ext\<lparr>sha256 := (\<lambda>b. of_nat (length b + unat (b ! 143)))\<rparr>"

definition numbered_node :: "(mem_db, rat) node_crates" where
  "numbered_node = ref_node\<lparr>rc_ext := numbered_ext\<rparr>"

lemma numbered_simps [simp]:
  "rc_kv numbered_node = mem_kv" "rc_ext numbered_node = numbered_ext" "rc_codec numbered_node = ref_codec"
  "rc_rank numbered_node = (\<lambda>_ _. 0)" "nc_revm numbered_node = \<lparr>rv_transact = ref_transact\<rparr>"
  "nc_ser_vs numbered_node = nc_ser_vs ref_node" "rc_de_vs numbered_node = rc_de_vs ref_node"
  "nc_wallet numbered_node = nc_wallet ref_node"
  "hex_encode numbered_ext = hex_encode ref_ext" "hex_decode numbered_ext = hex_decode ref_ext"
  "keccak256 numbered_ext = keccak256 ref_ext"
  by (simp_all add: numbered_node_def numbered_ext_def)

lemma numbered_hash:
  "block_hash numbered_ext b = of_nat (204 + length (h_signature (b_header b)) + length (h_extra_data (b_header b)) +
     unat (of_nat (unat (h_number (b_header b))) :: 8 word))"
proof -
  have last: "u64_be n ! 7 = of_nat (unat n)" for n
  proof -
    have "be_nat 8 x ! 7 = of_nat x" for x
      using be_nat.simps(2) [of 7 x] by (simp add: nth_append word_unat_eq_iff unat_of_nat)
    then show ?thesis by (simp add: u64_be_def)
  qed
  have "header_preimage h ! 143 = of_nat (unat (h_number h))" for h
  proof -
    define front rest where "front = b256_bytes (h_parent_hash h) @ b256_bytes (h_state_root h) @
        b256_bytes (h_transactions_root h) @ b256_bytes (h_receipts_root h) @ u64_be (h_timestamp h)"
      and "rest = drop 144 (header_preimage h)"
    have f: "length front = 136" by (simp add: front_def)
    have "take 144 (header_preimage h) = front @ u64_be (h_number h)" by (simp add: header_preimage_def front_def)
    then have "header_preimage h = front @ u64_be (h_number h) @ rest"
      by (metis append_assoc append_take_drop_id rest_def)
    then have "header_preimage h ! 143 = (u64_be (h_number h) @ rest) ! 7" using f by (simp add: nth_append)
    then show ?thesis using last by (simp add: nth_append)
  qed
  then show ?thesis
    by (simp add: block_hash_def header_hash_def numbered_ext_def length_header_preimage)
qed

interpretation numbered_devnet: devnet_store numbered_node map_of
proof -
  have "hex_crate numbered_ext"
    using ref_hex.hex_roundtrip ref_hex.hex_encode_digits by (simp add: hex_crate_def)
  then have "state_store mem_kv map_of numbered_ext"
    using mem_state.state_store_axioms by (simp add: state_store_def)
  then have "chain_store mem_kv map_of numbered_ext ref_codec"
    using mem_chain.chain_store_axioms by (simp add: chain_store_def)
  then show "devnet_store numbered_node map_of"
    using ref_transact_changes by (simp add: devnet_store_def devnet_store_axioms_def)
qed

interpretation numbered_genesis: devnet_genesis_store numbered_node map_of
proof -
  have "radix_crate numbered_ext"
    using ref_radix.from_lower_hex by (simp add: radix_crate_def numbered_ext_def)
  then have "genesis_store mem_kv map_of numbered_ext"
    using numbered_devnet.state_store_axioms by (simp add: genesis_store_def)
  then show "devnet_genesis_store numbered_node map_of"
    by (simp add: devnet_genesis_store_def numbered_devnet.devnet_store_axioms)
qed

lemma numbered_ready: "genesis_ready numbered_node rev"
proof -
  have "parse_address numbered_ext FOUNDER_ADDR = parse_address ref_ext FOUNDER_ADDR" "kp_address numbered_ext kp = kp_address ref_ext kp" for kp
    by (simp_all add: parse_address_def kp_address_def numbered_ext_def)
  moreover have "block_hash numbered_ext (devnet_genesis r) \<noteq> 0" for r
    by (simp add: numbered_hash devnet_genesis_def)
  ultimately show ?thesis using ref_genesis_ready by (auto simp: genesis_ready_def)
qed

text \<open>A round without candidates.\<close>

lemma two_blocks:
  "\<exists>start pr app r b. run_devnet numbered_node rev [] [] = Ok start \<and> devnet_runs numbered_node rev map_of start (pr, app) \<and>
     stored_chain numbered_node (as_chain (snd start)) [devnet_genesis r] \<and>
     stored_chain numbered_node (as_chain app) [devnet_genesis r, b] \<and> h_number (b_header b) = 1"
proof -
  let ?E = "numbered_node" and ?X = "numbered_ext"
  obtain app r where start: "run_devnet ?E rev [] [] = Ok (Sleeping, app)"
    and live: "live ?E map_of [devnet_genesis r] (Sleeping, shared app)" and pool: "as_mempool app = new_mempool"
    using numbered_genesis.first_start [OF numbered_ready, of "[]" "[]"] by auto
  let ?g = "devnet_genesis r" and ?nd = "shared app"
  have work: "working ?E map_of ?nd ?g" using live by (simp add: live_def Let_def)
  note head = numbered_devnet.working_head [OF work, simplified]
  obtain vs where "get_validator_set_bytes mem_kv ?X (as_chain app) = Ok (Some vs)"
    using live by (auto simp: live_def Let_def numbered_devnet.reads_view [simplified])
  then have sel: "selected_proposer ?E (as_chain app) h n \<in> {Ok None, Ok (Some devnet_validator)}" for h n
    using devnet_proposer by (simp add: selected_proposer_def ref_node_def)
  have "chk_add (0 :: u64) 1 = (Ok 1 :: (node_error, u64) outcome)" by (simp add: chk_add_def)
  moreover have "get_best (\<lambda>_ _. 0) new_mempool 100 = Ok []"
    by (simp add: get_best_def all_txs_def iter_order_def new_mempool_def with_capacity_def)
  ultimately have s1: "producer_step ?E (Inr 20) (Inr 20) (Sleeping, ?nd) = (Screening (block_hash ?X ?g) 1 20 [] [], ?nd)"
    using head sel [of "block_hash ?X ?g" 1] pool
    by (auto simp: producer_step_def open_round_def Let_def abind_aread abind_alift aret_def devnet_genesis_def)
  obtain sroot where root: "compute_state_root mem_kv ?X (as_state app) = Ok sroot"
    using numbered_devnet.state_root_Ok by auto
  let ?b = "sealed_block ?X (block_hash ?X ?g) 1 20 sroot [] devnet_validator"
  have burn: "burn_fees ?E devnet_validator (fst (split_fees (total_gas_fees []))) ?nd = (Ok (), ?nd)"
    by (simp add: burn_fees_def split_fees_def total_gas_fees_def aret_def)
  have s2: "producer_step ?E (Inr 20) (Inr 20) (Screening (block_hash ?X ?g) 1 20 [] [], ?nd) = (Proposing ?b 20 [], ?nd)"
    using burn root new_sealed_block [of ?X 20 "block_hash ?X ?g" 1 sroot "[]" devnet_validator]
    by (simp add: producer_step_def propose_def Let_def athen_def abind_aread abind_alift aret_def)
  have "place_ok ?E ?g (Proposing ?b 20 [])"
    by (auto simp: place_ok_def devnet_genesis_def intro!: exI [of _ 20] exI [of _ sroot])
  then have live2: "live ?E map_of [?g] (Proposing ?b 20 [], ?nd)"
    using live_rest [OF live] by simp
  let ?v = "chain_view_of ?X ref_codec (map_of (fn_chain ?nd))"
  have "tip ?X ?v ?g" "chain_inv ?v" using work by (simp_all add: working_def)
  from sealed_decision [OF this, of 20 20 "[]" sroot devnet_validator]
  have dec: "accept_decision ?X ?v ?b 20 = Ok ()" by (simp add: devnet_genesis_def)
  have l: "line ?X ?v [?g]" using live by (simp add: live_def Let_def)
  have "block_hash ?X ?b = 205" "block_hash ?X ?g = 204"
    by (simp_all add: numbered_hash sealed_block_def devnet_genesis_def)
  then have new: "new_hash ?X ?v ?b" "encodable (b_body ?b)"
    using l by (auto simp: new_hash_def line_def encodable_def sealed_block_def)
  then have "storable ?X ?v ?b" by (simp add: storable_iff)
  with numbered_devnet.proposing_extends [OF live2, of "()"] dec obtain nd' where
    s3: "athen (accept_sealed ?E ?b 20) (aret (Indexing ?b 0 [])) ?nd = (Ok (Indexing ?b 0 []), nd')"
    and live3: "live ?E map_of [?g, ?b] (Indexing ?b 0 [], nd')"
    by auto
  have "producer_step ?E (Inr 20) (Inr 20) (Proposing ?b 20 [], ?nd) = (Indexing ?b 0 [], nd')"
    using s3 by (simp add: producer_step_def)
  have shared: "share ?nd app = app" by (simp add: share_def shared_def)
  have d1: "devnet_step ?E rev map_of (Sleeping, app) (Screening (block_hash ?X ?g) 1 20 [] [], app)"
    using devnet_step.produce [OF _ s1, where order = rev and contents = map_of] shared by (simp add: sealable_def)
  have d2: "devnet_step ?E rev map_of (Screening (block_hash ?X ?g) 1 20 [] [], app) (Proposing ?b 20 [], app)"
    using devnet_step.produce [OF _ s2, where order = rev and contents = map_of] shared by (simp add: sealable_def)
  have d3: "devnet_step ?E rev map_of (Proposing ?b 20 [], app) (Indexing ?b 0 [], share nd' app)"
    by (rule devnet_step.produce) (use new s3 in \<open>simp_all add: sealable_def producer_step_def\<close>)
  have "devnet_runs ?E rev map_of (Sleeping, app) (Indexing ?b 0 [], share nd' app)"
    unfolding devnet_runs_def using d1 d2 d3 by (meson rtranclp.rtrancl_into_rtrancl rtranclp.rtrancl_refl)
  moreover have "stored_chain ?E (as_chain app) [?g]" using numbered_devnet.live_stored [OF live] by simp
  moreover have "stored_chain ?E (as_chain (share nd' app)) [?g, ?b]"
    using numbered_devnet.live_stored [OF live3] by (simp add: share_def)
  moreover have "h_number (b_header ?b) = 1" by (simp add: sealed_block_def)
  ultimately show ?thesis using start by fastforce
qed

section \<open>Properties\<close>

text \<open>C13: the chain of a devnet is a list: in every state of every run from empty databases, with requests
  between any two steps of the producer and restarts between two of its steps, the pool is one reached by
  insertions and removals, and the blocks that can be read are one block per height, each on the one
  before and later than it, with transactions that all passed the checks and the
  fraud analysis when they were executed. Either the last of them is the head, or the head is one
  more such block on top of it that bincode could not read back. (Runs leave out blocks whose hash is
  that of a stored block, and bodies that bincode reads back as others.)\<close>

theorem devnet_chain_is_list:
  assumes "devnet_genesis_store E contents" and "genesis_ready E order"
    and "contents c = Map.empty" and "contents s = Map.empty" and "run_devnet E order c s = Ok start"
    and "devnet_runs E order contents start (pr, app)"
  shows "pool_run (rc_ext E) (as_mempool app) \<and>
    (\<exists>bs. (\<forall>b \<in> set bs. \<forall>tx \<in> set (b_body b). passed E (h_number (b_header b)) tx) \<and>
       (stored_chain E (as_chain app) bs \<or>
        (\<exists>t. stuck_chain E (as_chain app) bs t \<and> (\<forall>tx \<in> set (b_body t). passed E (h_number (b_header t)) tx))))"
proof -
  have dev: "devnet_store E contents" using assms(1) by (simp add: devnet_genesis_store_def)
  from devnet_genesis_store.first_start [OF assms(1-4)] assms(5) have "system_ok E contents start" by auto
  from devnet_genesis_store.system_runs [OF assms(1,6) this] have ok: "system_ok E contents (pr, app)" by simp
  then obtain bs where "live E contents bs (pr, shared app) \<or> halted E bs (pr, shared app)"
    by (auto simp: system_ok_def)
  then show ?thesis
  proof
    assume l: "live E contents bs (pr, shared app)"
    from devnet_store.live_stored [OF dev l] l ok show ?thesis
      by (auto simp: system_ok_def live_def Let_def)
  next
    assume "halted E bs (pr, shared app)"
    with ok show ?thesis by (auto simp: system_ok_def halted_def)
  qed
qed

text \<open>C14: the history of a devnet is final: whatever happens after a state of a run, requests, failed
  rounds and restarts between steps included, the blocks that could be read then can be read later, under the
  same numbers and hashes, as the first blocks of a longer list; and once the head cannot be read, the chain
  database never changes again.\<close>

theorem devnet_history_is_final:
  assumes "devnet_genesis_store E contents" and "genesis_ready E order"
    and "contents c = Map.empty" and "contents s = Map.empty" and "run_devnet E order c s = Ok start"
    and "devnet_runs E order contents start (pr, app)" and "devnet_runs E order contents (pr, app) (pr', app')"
  shows "(readable E (as_chain app) bs \<longrightarrow> (\<exists>bs'. prefix bs bs' \<and> readable E (as_chain app') bs')) \<and>
    (stuck_chain E (as_chain app) bs t \<longrightarrow> as_chain app' = as_chain app)"
proof -
  have dev: "devnet_store E contents" using assms(1) by (simp add: devnet_genesis_store_def)
  from devnet_genesis_store.first_start [OF assms(1-4)] assms(5) have "system_ok E contents start" by auto
  from devnet_genesis_store.system_runs [OF assms(1,6) this] have ok: "system_ok E contents (pr, app)" by simp
  note later = devnet_genesis_store.system_runs [OF assms(1,7) ok]
  have r: "readable E (as_chain a) cs" if "live E contents cs (q, shared a) \<or> halted E cs (q, shared a)" for cs q a
    using that devnet_store.live_stored [OF dev] by (fastforce simp: halted_def stuck_chain_def stored_chain_def)
  from ok obtain cs where cs: "live E contents cs (pr, shared app) \<or> halted E cs (pr, shared app)"
    by (auto simp: system_ok_def)
  then obtain bs' where "prefix cs bs'" "live E contents bs' (pr', shared app') \<or> halted E bs' (pr', shared app')"
    using later by (metis fst_conv prefix_order.refl snd_conv)
  then have "\<exists>bs'. prefix cs bs' \<and> readable E (as_chain app') bs'" using r by blast
  moreover have "bs = cs" if "readable E (as_chain app) bs" using readable_unique [OF that r [OF cs]] .
  moreover have "as_chain app' = as_chain app" if "stuck_chain E (as_chain app) bs t"
  proof -
    have "\<not> live E contents cs (pr, shared app)"
      using that stored_not_stuck devnet_store.live_stored [OF dev] by fastforce
    with cs later show ?thesis by auto
  qed
  ultimately show ?thesis by blast
qed

text \<open>C15: no transaction is on the chain of a devnet twice: with an interpreter that counts the nonces
  of senders, in every state of every run whose head can be read no two transactions of the stored blocks have the same sender
  and nonce (other than the largest nonce, which is never counted up).\<close>

theorem devnet_no_replay:
  assumes "devnet_nonces E contents" and "genesis_ready E order"
    and "contents c = Map.empty" and "contents s = Map.empty" and "run_devnet E order c s = Ok start"
    and "devnet_runs E order contents start (pr, app)" and "stored_chain E (as_chain app) bs"
  shows "distinct (map (\<lambda>tx. (sender (rc_ext E) tx, nonce tx))
    (filter (\<lambda>tx. nonce tx \<noteq> - 1) (concat (map b_body bs))))"
proof -
  have gen: "devnet_genesis_store E contents" and dev: "devnet_store E contents"
    using assms(1) by (simp_all add: devnet_nonces_def devnet_genesis_store_def)
  from devnet_genesis_store.first_start [OF gen assms(2-4)] assms(5) obtain app0 r where
    s0: "start = (Sleeping, app0)" "live E contents [devnet_genesis r] (Sleeping, shared app0)" by auto
  have "used_up (rc_ext E) (nonces E contents (shared app0)) (spent [devnet_genesis r] Sleeping)"
    by (simp add: used_up_def devnet_genesis_def)
  then have "ledger_ok E contents start" using s0 by (auto simp: ledger_ok_def)
  from devnet_nonces.ledger_runs [OF assms(1,6) this] stored_not_stuck [OF assms(7)]
  obtain cs where cs: "live E contents cs (pr, shared app)"
    "used_up (rc_ext E) (nonces E contents (shared app)) (spent cs pr)"
    by (auto simp: ledger_ok_def halted_def)
  have "cs = bs" using stored_unique [OF _ assms(7)] devnet_store.live_stored [OF dev cs(1)] by simp
  with spent_sleeping [OF cs(2)] show ?thesis by (simp add: used_up_def)
qed

theorem devnet_chain_is_list_witness:
  "\<exists>start pr app b. run_devnet numbered_node rev [] [] = Ok start \<and> devnet_runs numbered_node rev map_of start (pr, app) \<and>
     pool_run numbered_ext (as_mempool app) \<and> h_number (b_header b) = 1 \<and>
     (\<exists>bs. length bs = 2 \<and> last bs = b \<and> stored_chain numbered_node (as_chain app) bs)"
proof -
  obtain start pr app r b where e: "run_devnet numbered_node rev [] [] = Ok start"
    "devnet_runs numbered_node rev map_of start (pr, app)" "stored_chain numbered_node (as_chain app) [devnet_genesis r, b]"
    "h_number (b_header b) = 1"
    using two_blocks by blast
  from devnet_chain_is_list [OF numbered_genesis.devnet_genesis_store_axioms numbered_ready _ _ e(1,2)]
  obtain bs where bs: "pool_run numbered_ext (as_mempool app)" "stored_chain numbered_node (as_chain app) bs"
    using stored_not_stuck [OF e(3)] by auto
  then have "bs = [devnet_genesis r, b]" using stored_unique [OF _ e(3)] by blast
  then have "length bs = 2" "last bs = b" by simp_all
  with bs e(1,2,4) show ?thesis by blast
qed

theorem devnet_history_is_final_witness:
  "\<exists>start pr app r bs. run_devnet numbered_node rev [] [] = Ok start \<and> devnet_runs numbered_node rev map_of start (pr, app) \<and>
     readable numbered_node (as_chain (snd start)) [devnet_genesis r] \<and> readable numbered_node (as_chain app) bs \<and>
     strict_prefix [devnet_genesis r] bs"
proof -
  obtain start pr app r b where e: "run_devnet numbered_node rev [] [] = Ok start"
    "devnet_runs numbered_node rev map_of start (pr, app)" "stored_chain numbered_node (as_chain (snd start)) [devnet_genesis r]"
    "stored_chain numbered_node (as_chain app) [devnet_genesis r, b]"
    using two_blocks by blast
  have run: "devnet_runs numbered_node rev map_of start (fst start, snd start)" by (simp add: devnet_runs_def)
  have run2: "devnet_runs numbered_node rev map_of (fst start, snd start) (pr, app)" using e(2) by simp
  have g: "readable numbered_node (as_chain (snd start)) [devnet_genesis r]" "readable numbered_node (as_chain app) [devnet_genesis r, b]"
    using e(3,4) by (simp_all add: stored_chain_def)
  from devnet_history_is_final [OF numbered_genesis.devnet_genesis_store_axioms numbered_ready _ _ e(1) run run2,
      of "[devnet_genesis r]" b] g(1)
  have "\<exists>bs. prefix [devnet_genesis r] bs \<and> readable numbered_node (as_chain app) bs" by simp
  then obtain bs where bs: "prefix [devnet_genesis r] bs" "readable numbered_node (as_chain app) bs" by blast
  have "bs = [devnet_genesis r, b]" by (rule readable_unique [OF bs(2) g(2)])
  then have "strict_prefix [devnet_genesis r] bs" by (simp add: strict_prefix_def)
  with bs(2) e(1,2) g(1) show ?thesis
    by (intro exI [of _ start] exI [of _ pr] exI [of _ app] exI [of _ r] exI [of _ bs]) simp
qed

theorem devnet_no_replay_witness:
  "\<exists>(app :: (mem_db, rat) app_state) bs. stored_chain ref_node (as_chain app) bs \<and> distinct (map (\<lambda>tx. (sender ref_ext tx, nonce tx))
     (filter (\<lambda>tx. nonce tx \<noteq> - 1) (concat (map b_body bs))))"
proof -
  obtain start pr app r where e: "run_devnet ref_node rev [] [] = Ok start"
    "devnet_runs ref_node rev map_of start (pr, app)" "stored_chain ref_node (as_chain app) [devnet_genesis r]"
    using example_run by blast
  have "distinct (map (\<lambda>tx. (sender ref_ext tx, nonce tx))
     (filter (\<lambda>tx. nonce tx \<noteq> - 1) (concat (map b_body [devnet_genesis r]))))"
    using devnet_no_replay [OF ref_nonces.devnet_nonces_axioms ref_genesis_ready _ _ e] by simp
  with e(3) show ?thesis by blast
qed

end
