(* ===== verification/Quyn_Supply.thy ===== *)
theory Quyn_Supply
  imports Quyn_DevnetLaws
begin

text \<open>
  The money of the devnet (node/src/main.rs, vm/src/adapter.rs, core/src/state.rs): an execution writes the
  balances the interpreter reports and a round burns a part of its fees; the slashing of a double sign,
  the only other place after the genesis that writes a balance, is never reached by a single producer. So
  with an interpreter that makes no money the sum of all balances never grows from what the genesis
  gave out, through requests, rounds that fail and restarts between steps.
\<close>

section \<open>Executions and the supply\<close>

text \<open>What the accounts the interpreter reports held before is at least what they hold after; code that destroys
  its own contract may leave less.\<close>

locale devnet_supply = devnet_genesis_store E contents
  for E :: "('d, 'f) node_crates" and contents :: "'d \<Rightarrow> bytes \<rightharpoonup> bytes" +
  assumes no_money_made: "rv_transact (nc_revm E) ops env cache = (Inr (res, chs), cache') \<Longrightarrow>
      (\<And>a c. fst (op_basic ops a c) = Ok (Some (info a))) \<Longrightarrow>
      (\<Sum>(a, acc) \<leftarrow> chs. unat (ai_balance (ac_info acc))) \<le> (\<Sum>(a, acc) \<leftarrow> chs. unat (ai_balance (info a)))"

definition money :: "('d, 'f) node_crates \<Rightarrow> ('d \<Rightarrow> bytes \<rightharpoonup> bytes) \<Rightarrow> 'd \<Rightarrow> nat" where
  "money E contents s = total_balance (sv_balance (view_of (rc_ext E) (contents s)))"

lemma committed_supply:
  assumes "distinct (map fst chs)"
  shows "total_balance (sv_balance (committed (map_of chs) v)) + (\<Sum>(a, acc) \<leftarrow> chs. unat (sv_balance v a)) =
    total_balance (sv_balance v) + (\<Sum>(a, acc) \<leftarrow> chs. unat (ai_balance (ac_info acc)))"
  using assms
proof (induction chs)
  case Nil
  then show ?case by simp
next
  case (Cons x chs)
  obtain a acc where x: "x = (a, acc)" by (cases x)
  have new: "map_of chs a = None" "distinct (map fst chs)"
    using Cons.prems by (simp_all add: x map_of_eq_None_iff)
  let ?bal = "sv_balance (committed (map_of chs) v)"
  have "sv_balance (committed (map_of (x # chs)) v) = ?bal(a := ai_balance (ac_info acc))"
    by (rule ext) (simp add: x committed_def)
  moreover have "?bal a = sv_balance v a" using new(1) by (simp add: committed_def)
  ultimately show ?case
    using Cons.IH [OF new(2)] total_balance_upd [of ?bal a "ai_balance (ac_info acc)"]
    by (simp add: x del: fun_upd_apply)
qed

lemma burnt_supply: "total_balance (bal(a := sat_sub (bal a) x)) \<le> total_balance bal"
proof -
  have "unat (sat_sub (bal a) x) \<le> unat (bal a)" by (simp add: unat_sat_sub)
  with total_balance_upd [of bal a "sat_sub (bal a) x"] show ?thesis by linarith
qed

context devnet_supply
begin

lemma execute_tx_supply:
  assumes wf: "state_wf (rc_ext E) (contents s)"
    and ex: "execute_tx (nc_revm E) (rc_kv E) (rc_ext E) tx blk cid (s, cache) = (r, (s', cache'))"
  shows "money E contents s' \<le> money E contents s"
proof (cases "sender (rc_ext E) tx")
  case (Ok a)
  let ?ops = "adapter_ops (rc_kv E) (rc_ext E) s" and ?v = "view_of (rc_ext E) (contents s)"
  obtain q cache1 where t: "rv_transact (nc_revm E) ?ops (exec_env tx a blk cid) cache = (q, cache1)"
    by (cases "rv_transact (nc_revm E) ?ops (exec_env tx a blk cid) cache")
  show ?thesis
  proof (cases q)
    case (Inl e)
    with ex t Ok show ?thesis by (auto simp: execute_tx_def)
  next
    case (Inr y)
    obtain res chs where y: "y = (res, chs)" by (cases y)
    note tr = t [unfolded Inr y]
    have d: "distinct (map fst chs)" using transact_changes [OF tr] by (simp add: changes_ok_def)
    from commit_refines [OF wf transact_changes [OF tr], of cache1] ex t Ok Inr y
    have v: "view_of (rc_ext E) (contents s') = committed (map_of chs) ?v"
      by (auto simp: execute_tx_def aret_def)
    obtain info where i: "\<And>b c. fst (op_basic ?ops b c) = Ok (Some (info b))"
        "\<And>b. ai_balance (info b) = sv_balance ?v b"
      using adapter_basic [OF wf] by metis
    from no_money_made [OF tr i(1)] committed_supply [OF d, of ?v] show ?thesis
      by (simp add: money_def v i(2))
  qed
qed (use ex in \<open>auto simp: execute_tx_def\<close>)

lemma include_tx_supply:
  assumes wf: "state_wf (rc_ext E) (contents (fn_state nd))" and inc: "include_tx E blk cid n tx nd = (r, nd')"
  shows "money E contents (fn_state nd') \<le> money E contents (fn_state nd)"
proof -
  obtain q s' cache where ex: "execute_tx (nc_revm E) (rc_kv E) (rc_ext E) tx blk cid (fn_state nd, Map.empty) = (q, (s', cache))"
    by (metis prod.collapse)
  obtain x p' where rm: "remove_tx (tx_hash (rc_ext E) tx) (fn_mempool nd) = (Ok x, p')" using remove_tx_Ok by blast
  have "discard (in_pool (remove_tx (tx_hash (rc_ext E) tx))) nd = (Ok () :: (node_error, unit) outcome, nd\<lparr>fn_mempool := p'\<rparr>)"
    by (simp add: discard_def in_pool_def rm)
  then have "fn_state nd' = fn_state nd \<or> fn_state nd' = s'"
    using inc ex by (auto simp: include_tx_def execute_candidate_def abind_aread aret_def athen_def abind_def aread_def
        split: outcome.splits option.splits fraud_recommendation.splits)
  with execute_tx_supply [OF wf ex] show ?thesis by auto
qed

text \<open>A step of the producer.\<close>

lemma producer_supply:
  assumes live: "live E contents bs (pr, nd)" and seal: "sealable E contents (fn_chain nd) pr"
    and step: "producer_step E clock1 clock2 (pr, nd) = (pr', nd')"
  shows "money E contents (fn_state nd') \<le> money E contents (fn_state nd)"
proof -
  obtain r where act: "producer_act E clock1 clock2 pr nd = (r, nd')"
    using step by (auto simp: producer_step_def split: prod.splits)
  have st: "state_wf (rc_ext E) (contents (fn_state nd))" using live by (simp add: live_def working_def Let_def)
  show ?thesis
  proof (cases "(E, clock1, clock2, pr)" rule: producer_act.cases)
    case 1
    with open_round_live [OF live] act show ?thesis by auto
  next
    case (2 _ _ _ h n now tx txs ta)
    obtain q nd1 where inc: "include_tx E (block_env (rc_ext E) n now 30000000 0 devnet_validator) CHAIN_ID_TESTNET n tx nd = (q, nd1)"
      by (metis prod.collapse)
    have "nd' = nd1" using act 2 inc by (cases q) (auto simp: screen_next_def abind_def aret_def)
    with include_tx_supply [OF st inc] show ?thesis by simp
  next
    case (3 _ _ _ h n now ta)
    let ?fee = "fst (split_fees (total_gas_fees ta))"
    obtain s' where burn: "burn_fees E devnet_validator ?fee nd = (Ok (), nd\<lparr>fn_state := s'\<rparr>)"
      and le: "money E contents s' \<le> money E contents (fn_state nd)"
      using burn_fees_ok [OF st, of devnet_validator ?fee] burnt_supply by (auto simp: money_def)
    obtain sroot where "compute_state_root (rc_kv E) (rc_ext E) s' = Ok sroot" using state_root_Ok by blast
    then have "nd' = nd\<lparr>fn_state := s'\<rparr>" using act 3 burn
      by (cases "new_block (rc_ext E) clock2 h n sroot 0 (map fst ta) devnet_validator [] 30000000 0")
        (auto simp: propose_def Let_def athen_def abind_aread abind_alift aret_def)
    with le show ?thesis by simp
  next
    case (4 _ _ _ b now ta)
    with proposing_live [of bs b now ta nd r nd'] live seal act show ?thesis by (auto simp: money_def)
  next
    case (5 _ _ _ b i tx g ta)
    with act index_next_live [of bs b i tx g ta nd r nd'] live show ?thesis by auto
  qed (use act in \<open>auto simp: aret_def\<close>)
qed

lemma supply_step:
  assumes ok: "system_ok E contents s" and step: "devnet_step E order contents s s'"
  shows "money E contents (as_state (snd s')) \<le> money E contents (as_state (snd s))"
  using step
proof cases
  case (request instant secs ip body app r app' pr)
  with request_keeps [OF request(3)] show ?thesis by simp
next
  case (produce app pr clock1 clock2 pr' nd)
  have seal: "sealable E contents (fn_chain (shared app)) pr" using produce(3) by simp
  from ok produce(1) consider bs where "live E contents bs (pr, shared app)" | bs where "halted E bs (pr, shared app)"
    by (auto simp: system_ok_def)
  then show ?thesis
  proof cases
    case 1
    from producer_supply [OF 1 seal produce(4)] produce(1,2) show ?thesis by (simp add: share_def)
  next
    case 2
    from producer_halted [OF 2 produce(4)] produce(1,2) show ?thesis by (simp add: share_def)
  qed
next
  case (restart app pr)
  obtain bs where "live E contents bs (pr, shared app) \<or> halted E bs (pr, shared app)"
    using ok restart(1) by (auto simp: system_ok_def)
  then have "run_devnet E order (as_chain app) (as_state app) =
      Ok (Sleeping, serve_state (as_chain app) (as_state app) new_mempool CHAIN_ID_TESTNET (rc_f64 E))"
    by (intro restart_same [where pr = pr and p = "as_mempool app" and bs = bs]) (simp add: shared_def)
  with restart(1,2) show ?thesis by auto
qed

lemma supply_runs:
  assumes "devnet_runs E order contents s s'" and "system_ok E contents s"
  shows "money E contents (as_state (snd s')) \<le> money E contents (as_state (snd s))"
  using assms(1) unfolding devnet_runs_def
proof (induction rule: rtranclp_induct)
  case base
  then show ?case by simp
next
  case (step s1 s2)
  have "system_ok E contents s1" using system_runs [OF _ assms(2)] step.hyps(1) by (auto simp: devnet_runs_def)
  with supply_step step.hyps(2) step.IH show ?case using le_trans by blast
qed

end

section \<open>The reference interpreter\<close>

text \<open>It takes the value from the caller and gives it to the recipient.\<close>

lemma ref_transact_supply:
  assumes "ref_transact ops env cache = (Inr (res, chs), cache')" and info: "\<And>a c. fst (op_basic ops a c) = Ok (Some (info a))"
  shows "(\<Sum>(a, acc) \<leftarrow> chs. unat (ai_balance (ac_info acc))) \<le> (\<Sum>(a, acc) \<leftarrow> chs. unat (ai_balance (info a)))"
proof -
  let ?c = "te_caller (ve_tx env)" and ?x = "te_value (ve_tx env)"
  obtain to_a where t: "te_transact_to (ve_tx env) = Call to_a"
    using assms(1) by (auto simp: ref_transact_def Let_def split: transact_to.splits)
  with assms have covered: "?x \<le> ai_balance (info ?c)"
    and chs: "chs = [(?c, \<lparr>ac_info = (info ?c)\<lparr>ai_balance := ai_balance (info ?c) - ?x, ai_nonce := sat_add (ai_nonce (info ?c)) 1\<rparr>,
        ac_storage = [], ac_selfdestructed = False\<rparr>),
      (to_a, \<lparr>ac_info = (info to_a)\<lparr>ai_balance := ai_balance (info to_a) + ?x\<rparr>, ac_storage = [], ac_selfdestructed = False\<rparr>)]"
    by (auto simp: ref_transact_def Let_def split: if_splits)
  have "unat (ai_balance (info ?c) - ?x) + unat ?x = unat (ai_balance (info ?c))"
    using covered by (simp add: unat_sub word_le_nat_alt)
  moreover have "unat (ai_balance (info to_a) + ?x) \<le> unat (ai_balance (info to_a)) + unat ?x"
    by (simp add: unat_word_ariths)
  ultimately show ?thesis by (simp add: chs)
qed

interpretation ref_supply: devnet_supply ref_node map_of
proof -
  have "devnet_supply_axioms ref_node"
    unfolding devnet_supply_axioms_def ref_node_simps revm.simps using ref_transact_supply by blast
  then show "devnet_supply ref_node map_of"
    by (simp add: devnet_supply_def ref_devnet_genesis.devnet_genesis_store_axioms)
qed

section \<open>Properties\<close>

text \<open>C16: the money of a devnet never grows: with an interpreter that makes no money, in every state of
  every run from empty databases the balances add up to at most the 1.3 times \<open>TOTAL_SUPPLY\<close> of the
  genesis, and whatever follows, requests, executions, burns, failed rounds and restarts, they never
  add up to more than before. So no account ever holds more than that.\<close>

theorem devnet_supply_never_grows:
  assumes "devnet_supply E contents" and "genesis_ready E order"
    and "contents c = Map.empty" and "contents s = Map.empty" and "run_devnet E order c s = Ok start"
    and "devnet_runs E order contents start (pr, app)" and "devnet_runs E order contents (pr, app) (pr', app')"
  shows "money E contents (as_state app') \<le> money E contents (as_state app) \<and>
    money E contents (as_state app) \<le> TOTAL_SUPPLY * 13 div 10 \<and>
    unat (sv_balance (view_of (rc_ext E) (contents (as_state app))) a) \<le> TOTAL_SUPPLY * 13 div 10"
proof -
  have gen: "devnet_genesis_store E contents" using assms(1) by (simp add: devnet_supply_def)
  from devnet_genesis_store.first_start [OF gen assms(2-4)] assms(5)
  have ok: "system_ok E contents start" and sup: "money E contents (as_state (snd start)) = TOTAL_SUPPLY * 13 div 10"
    by (auto simp: money_def)
  from devnet_genesis_store.system_runs [OF gen assms(6) ok] have ok': "system_ok E contents (pr, app)" by simp
  note first = devnet_supply.supply_runs [OF assms(1,6) ok] and later = devnet_supply.supply_runs [OF assms(1,7) ok']
  moreover have "unat (sv_balance (view_of (rc_ext E) (contents (as_state app))) a) \<le> money E contents (as_state app)"
    unfolding money_def total_balance_def by (rule member_le_sum) simp_all
  ultimately show ?thesis using sup by auto
qed

theorem devnet_supply_never_grows_witness:
  "\<exists>start pr app. run_devnet ref_node rev [] [] = Ok start \<and> devnet_runs ref_node rev map_of start (pr, app) \<and>
     pr \<noteq> Sleeping \<and> money ref_node map_of (as_state app) \<le> 13 * 10 ^ 26"
proof -
  obtain start pr app r where e: "run_devnet ref_node rev [] [] = Ok start"
    "devnet_runs ref_node rev map_of start (pr, app)" "pr \<noteq> Sleeping"
    using example_run by blast
  have "devnet_runs ref_node rev map_of (pr, app) (pr, app)" by (simp add: devnet_runs_def)
  from devnet_supply_never_grows [OF ref_supply.devnet_supply_axioms ref_genesis_ready _ _ e(1,2) this]
  have "money ref_node map_of (as_state app) \<le> 13 * 10 ^ 26" by (simp add: TOTAL_SUPPLY_def)
  with e show ?thesis by blast
qed

end
