(* ===== verification/Quyn_Requests.thy ===== *)
theory Quyn_Requests
  imports Quyn_DevnetLaws
begin

text \<open>
  node/src/main.rs and rpc/src/server.rs: requests that are served while the producer is in a round. The
  candidates of a round are taken from the pool when it is opened; from then on the producer only
  removes from the pool, and requests only add to it. Lemmas: every action of a round after its
  opening is blind to what is in the pool, so the blocks and the state a round leaves are the same
  whatever requests are served meanwhile.
\<close>

section \<open>Actions that do not look into the pool\<close>

named_theorems blind \<open>actions of the producer that are blind to the pool\<close>

definition pool_blind :: "('d, 'a) node_act \<Rightarrow> bool" where
  "pool_blind m \<longleftrightarrow> (\<forall>nd q. \<exists>q'. pool_removed q q' \<and>
     m (nd\<lparr>fn_mempool := q\<rparr>) = (fst (m nd), (snd (m nd))\<lparr>fn_mempool := q'\<rparr>))"

lemma pool_blindE:
  assumes "pool_blind m"
  obtains q' where "pool_removed q q'" and "m (nd\<lparr>fn_mempool := q\<rparr>) = (fst (m nd), (snd (m nd))\<lparr>fn_mempool := q'\<rparr>)"
  using assms unfolding pool_blind_def by blast

lemma pool_blindI:
  "(\<And>nd q. m (nd\<lparr>fn_mempool := q\<rparr>) = (fst (m nd), (snd (m nd))\<lparr>fn_mempool := q\<rparr>)) \<Longrightarrow> pool_blind m"
  unfolding pool_blind_def using pool_removed.same by metis

lemma blind_ret [blind]: "pool_blind (aret x)"
  by (rule pool_blindI) (simp add: aret_def)

lemma blind_fail [blind]: "pool_blind (afail e)"
  by (rule pool_blindI) (simp add: afail_def)

lemma blind_lift [blind]: "pool_blind (alift r)"
  by (rule pool_blindI) (simp add: alift_def)

lemma blind_read: "(\<And>nd q. f (nd\<lparr>fn_mempool := q\<rparr>) = f nd) \<Longrightarrow> pool_blind (aread f)"
  by (rule pool_blindI) (simp add: aread_def)

lemma blind_read_chain [blind]: "pool_blind (aread (\<lambda>nd. g (fn_chain nd)))"
  by (rule blind_read) simp

lemma blind_read_state [blind]: "pool_blind (aread (\<lambda>nd. g (fn_state nd)))"
  by (rule blind_read) simp

lemma blind_chain [blind]: "pool_blind (in_chain m)"
  by (rule pool_blindI) (simp add: in_chain_def split: prod.splits)

lemma blind_state [blind]: "pool_blind (in_state m)"
  by (rule pool_blindI) (simp add: in_state_def split: prod.splits)

lemma blind_bind [blind]:
  assumes "pool_blind m" and "\<And>x. pool_blind (f x)"
  shows "pool_blind (abind m f)"
  unfolding pool_blind_def
proof (intro allI)
  fix nd :: "'a full_node" and q
  obtain q1 where m: "pool_removed q q1" "m (nd\<lparr>fn_mempool := q\<rparr>) = (fst (m nd), (snd (m nd))\<lparr>fn_mempool := q1\<rparr>)"
    by (rule pool_blindE [OF assms(1)])
  obtain r nd1 where r: "m nd = (r, nd1)" by (cases "m nd")
  show "\<exists>q'. pool_removed q q' \<and> abind m f (nd\<lparr>fn_mempool := q\<rparr>) = (fst (abind m f nd), (snd (abind m f nd))\<lparr>fn_mempool := q'\<rparr>)"
  proof (cases r)
    case (Ok x)
    obtain q2 where "pool_removed q1 q2" "f x (nd1\<lparr>fn_mempool := q1\<rparr>) = (fst (f x nd1), (snd (f x nd1))\<lparr>fn_mempool := q2\<rparr>)"
      by (rule pool_blindE [OF assms(2)])
    with m r Ok pool_removed_trans show ?thesis by (auto simp: abind_def)
  qed (use m r in \<open>auto simp: abind_def\<close>)
qed

lemma blind_then [blind]: "pool_blind m \<Longrightarrow> pool_blind n \<Longrightarrow> pool_blind (athen m n)"
  unfolding athen_def by (rule blind_bind)

lemma blind_remove [blind]: "pool_blind (discard (in_pool (remove_tx h)))"
  unfolding pool_blind_def
proof (intro allI)
  fix nd :: "'a full_node" and q
  obtain b q1 where q1: "remove_tx h q = (Ok b, q1)" using remove_tx_Ok by blast
  obtain b' q2 where q2: "remove_tx h (fn_mempool nd) = (Ok b', q2)" using remove_tx_Ok by blast
  show "\<exists>q'. pool_removed q q' \<and> discard (in_pool (remove_tx h)) (nd\<lparr>fn_mempool := q\<rparr>) =
      (fst (discard (in_pool (remove_tx h)) nd), (snd (discard (in_pool (remove_tx h)) nd))\<lparr>fn_mempool := q'\<rparr>)"
    using pool_removed.remove [OF pool_removed.same q1] q1 q2
    by (intro exI [of _ q1]) (simp add: discard_def in_pool_def)
qed

lemma blind_discard_chain [blind]: "pool_blind (discard (in_chain m))"
  by (rule pool_blindI) (simp add: discard_def in_chain_def split: prod.splits outcome.splits)

lemma blind_discard_state [blind]: "pool_blind (discard (in_state m))"
  by (rule pool_blindI) (simp add: discard_def in_state_def split: prod.splits outcome.splits)

section \<open>The round after its opening\<close>

lemma blind_screen: "pool_blind (aread (screen_tx E cid n tx))"
  by (rule blind_read) (simp add: screen_tx_def)

lemma blind_execute: "pool_blind (execute_candidate E blk cid tx)"
  by (rule pool_blindI) (simp add: execute_candidate_def split: prod.splits)

lemma blind_include [blind]: "pool_blind (include_tx E blk cid n tx)"
  unfolding include_tx_def
  by (rule blind_bind [OF blind_screen])
    (auto intro!: blind blind_execute split: option.splits fraud_recommendation.splits)

lemma blind_burn [blind]: "pool_blind (burn_fees E a x)"
  unfolding burn_fees_def by (simp add: blind_ret) (intro impI blind_bind blind_read_state blind_state)

lemma blind_slash [blind]: "pool_blind (slash_double_sign E v h b)"
  unfolding slash_double_sign_def Let_def
  by (intro blind_then blind_bind blind_read_state) (auto intro: blind split: option.splits)

lemma blind_accept [blind]: "pool_blind (accept_sealed E b now)"
  unfolding pool_blind_def
proof (intro allI)
  fix nd :: "'a full_node" and q
  obtain r c s where acc: "accept_block (rc_kv E) (rc_ext E) (rc_codec E) b now (fn_chain nd, fn_state nd) = (r, (c, s))"
    by (metis prod.collapse)
  let ?nd = "nd\<lparr>fn_chain := c, fn_state := s\<rparr>"
  show "\<exists>q'. pool_removed q q' \<and> accept_sealed E b now (nd\<lparr>fn_mempool := q\<rparr>) =
      (fst (accept_sealed E b now nd), (snd (accept_sealed E b now nd))\<lparr>fn_mempool := q'\<rparr>)"
  proof (cases "\<exists>v h f k. r = Err (DoubleSign v h f k)")
    case True
    then obtain v h f k where e: "r = Err (DoubleSign v h f k)" by blast
    let ?m = "athen (slash_double_sign E v h k) (afail (CoreErr (DoubleSign v h f k))) :: ('a, unit) node_act"
    have "pool_blind ?m" by (intro blind)
    then obtain q' where "pool_removed q q'" "?m (?nd\<lparr>fn_mempool := q\<rparr>) = (fst (?m ?nd), (snd (?m ?nd))\<lparr>fn_mempool := q'\<rparr>)"
      by (rule pool_blindE)
    moreover have "accept_sealed E b now nd = ?m ?nd" using acc e by (simp add: accept_sealed_def)
    moreover have swap: "nd\<lparr>fn_mempool := q, fn_chain := c, fn_state := s\<rparr> = ?nd\<lparr>fn_mempool := q\<rparr>" by (cases nd) simp
    have "accept_sealed E b now (nd\<lparr>fn_mempool := q\<rparr>) = ?m (?nd\<lparr>fn_mempool := q\<rparr>)"
      using acc e by (simp add: accept_sealed_def) (simp only: swap)
    ultimately show ?thesis by (intro exI [of _ q']) (simp only:)
  next
    case False
    with acc show ?thesis
      by (intro exI [of _ q]) (auto simp: accept_sealed_def Let_def pool_removed.same split: outcome.splits core_error.splits)
  qed
qed

lemma blind_propose [blind]: "pool_blind (propose E h n now clock2 ta)"
  unfolding propose_def Let_def by (intro blind)

lemma blind_index [blind]: "pool_blind (index_next E b i tx g rest)"
  unfolding index_next_def Let_def by (intro blind)

lemma blind_producer:
  "pr \<noteq> Sleeping \<Longrightarrow> pool_blind (producer_act E clock1 clock2 pr)"
  by (cases "(E, clock1, clock2, pr)" rule: producer_act.cases) (auto simp: screen_next_def intro!: blind)

section \<open>Requests between the steps\<close>

text \<open>A step of the producer in the whole system.\<close>

definition system_step :: "('d, 'f) node_crates \<Rightarrow> string + u64 \<Rightarrow> string + u64 \<Rightarrow>
    producer \<times> ('d, 'f) app_state \<Rightarrow> producer \<times> ('d, 'f) app_state" where
  "system_step E clock1 clock2 = (\<lambda>(pr, app).
     case producer_step E clock1 clock2 (pr, shared app) of (pr', nd) \<Rightarrow> (pr', share nd app))"

text \<open>\<open>k\<close> steps of the producer with the clocks of one round, and any requests before, between and after them.\<close>

inductive served_steps :: "('d, 'f) node_crates \<Rightarrow> string + u64 \<Rightarrow> string + u64 \<Rightarrow> producer \<times> ('d, 'f) app_state \<Rightarrow>
    nat \<Rightarrow> producer \<times> ('d, 'f) app_state \<Rightarrow> bool"
  for E clock1 clock2 s where
  at_start: "served_steps E clock1 clock2 s 0 s"
| one_request: "served_steps E clock1 clock2 s k (pr, app) \<Longrightarrow>
    jsonrpc_handler (rpc_crates.truncate E) instant secs ip body app = (r, app') \<Longrightarrow>
    served_steps E clock1 clock2 s k (pr, app')"
| one_step: "served_steps E clock1 clock2 s k (pr, app) \<Longrightarrow>
    producer_step E clock1 clock2 (pr, shared app) = (pr', nd) \<Longrightarrow>
    served_steps E clock1 clock2 s (Suc k) (pr', share nd app)"

lemma step_blind:
  assumes "pr \<noteq> Sleeping" and "producer_step E clock1 clock2 (pr, nd) = (pr1, nd1)"
  shows "\<exists>q'. pool_removed q q' \<and> producer_step E clock1 clock2 (pr, nd\<lparr>fn_mempool := q\<rparr>) = (pr1, nd1\<lparr>fn_mempool := q'\<rparr>)"
proof -
  obtain r where act: "producer_act E clock1 clock2 pr nd = (r, nd1)" "pr1 = next_place r"
    using assms(2) by (auto simp: producer_step_def split: prod.splits)
  obtain q' where "pool_removed q q'" "producer_act E clock1 clock2 pr (nd\<lparr>fn_mempool := q\<rparr>) =
      (fst (producer_act E clock1 clock2 pr nd), (snd (producer_act E clock1 clock2 pr nd))\<lparr>fn_mempool := q'\<rparr>)"
    by (rule pool_blindE [OF blind_producer [OF assms(1)]])
  with act show ?thesis by (intro exI [of _ q']) (simp add: producer_step_def)
qed

lemma shared_beside:
  "shared app = nd\<lparr>fn_mempool := q\<rparr> \<Longrightarrow> as_chain app = fn_chain nd \<and> as_state app = fn_state nd"
  "as_chain app = fn_chain nd \<Longrightarrow> as_state app = fn_state nd \<Longrightarrow> shared app = nd\<lparr>fn_mempool := as_mempool app\<rparr>"
  by (cases nd; simp add: shared_def)+

lemma served_like_alone:
  assumes "served_steps E clock1 clock2 (pr, app) k s"
    and "\<forall>i < k. fst ((producer_step E clock1 clock2 ^^ i) (pr, shared app)) \<noteq> Sleeping"
  shows "\<exists>q. (fst s, shared (snd s)) = (case (producer_step E clock1 clock2 ^^ k) (pr, shared app) of
    (pr', nd) \<Rightarrow> (pr', nd\<lparr>fn_mempool := q\<rparr>))"
  using assms
proof (induction rule: served_steps.induct)
  case at_start
  show ?case by (intro exI [of _ "as_mempool app"]) (simp add: shared_def)
next
  case (one_request k pr1 app1 instant secs ip body r app2)
  obtain pr' nd where at: "(producer_step E clock1 clock2 ^^ k) (pr, shared app) = (pr', nd)" by (metis prod.collapse)
  with one_request obtain q where "pr1 = pr'" "shared app1 = nd\<lparr>fn_mempool := q\<rparr>" by auto
  with request_keeps [OF one_request.hyps(2)] at show ?case
    by (intro exI [of _ "as_mempool app2"]) (use shared_beside(2) [of app2 nd] shared_beside(1) [where app = app1 and nd = nd and q = q] in auto)
next
  case (one_step k pr1 app1 pr2 nd2)
  obtain pr' nd where at: "(producer_step E clock1 clock2 ^^ k) (pr, shared app) = (pr', nd)" by (metis prod.collapse)
  with one_step obtain q where eq: "pr1 = pr'" "shared app1 = nd\<lparr>fn_mempool := q\<rparr>" by auto
  have "pr' \<noteq> Sleeping" using one_step.prems at by (metis fst_conv lessI)
  obtain pr3 nd3 where next_step: "producer_step E clock1 clock2 (pr', nd) = (pr3, nd3)" by (metis prod.collapse)
  from step_blind [OF \<open>pr' \<noteq> Sleeping\<close> next_step, of q] one_step.hyps(2) eq
  obtain q' where "pr2 = pr3" "nd2 = nd3\<lparr>fn_mempool := q'\<rparr>" by auto
  with at next_step show ?case by (intro exI [of _ q']) simp
qed

lemma served_databases:
  assumes "served_steps E clock1 clock2 (pr, app) k (pr', app')"
    and "\<forall>i < k. fst ((producer_step E clock1 clock2 ^^ i) (pr, shared app)) \<noteq> Sleeping"
    and "(producer_step E clock1 clock2 ^^ k) (pr, shared app) = (alone, nd)"
  shows "pr' = alone \<and> as_chain app' = fn_chain nd \<and> as_state app' = fn_state nd"
proof -
  obtain q where "(pr', shared app') = (alone, nd\<lparr>fn_mempool := q\<rparr>)"
    using served_like_alone [OF assms(1,2)] assms(3) by auto
  then show ?thesis using shared_beside(1) [where app = app' and nd = nd and q = q] by simp
qed

text \<open>C20: requests do not disturb a round: once a round is open, serving any requests between any of its steps
  changes nothing of what the round does: after as many steps, as long as the round alone would not
  be over, the producer is at the same place with the same block, and both databases are the
  same, as when no request was served.\<close>

theorem requests_do_not_disturb_round:
  assumes "served_steps E clock1 clock2 (pr, app) k (pr', app')"
    and "\<forall>i < k. fst ((producer_step E clock1 clock2 ^^ i) (pr, shared app)) \<noteq> Sleeping"
    and "(producer_step E clock1 clock2 ^^ k) (pr, shared app) = (alone, nd)"
  shows "pr' = alone \<and> as_chain app' = fn_chain nd \<and> as_state app' = fn_state nd"
  by (rule served_databases [OF assms])

theorem requests_do_not_disturb_round_witness:
  "\<exists>pr app. served_steps ref_node (Inr 20) (Inr 20) (Screening 211 1 20 [] [], serve_state [] funded_db new_mempool 7779 ref_f64) 1 (pr, app) \<and>
     (pr, as_chain app, as_state app) = (case producer_step ref_node (Inr 20) (Inr 20)
       (Screening 211 1 20 [] [], \<lparr>fn_chain = [], fn_state = funded_db, fn_mempool = new_mempool\<rparr>) of
       (q, nd) \<Rightarrow> (q, fn_chain nd, fn_state nd)) \<and> (\<exists>b. pr = Proposing b 20 [])"
proof -
  let ?s = "(Screening 211 1 20 [] [], serve_state [] funded_db new_mempool 7779 ref_f64)" and ?f = "producer_step ref_node (Inr 20) (Inr 20)"
  obtain r app1 where req: "jsonrpc_handler (rpc_crates.truncate ref_node) 0 0 ''127.0.0.1''
      (JObject [(''method'', JString ''eth_chainId'')]) (snd ?s) = (r, app1)" by (metis prod.collapse)
  have one: "served_steps ref_node (Inr 20) (Inr 20) ?s 0 (Screening 211 1 20 [] [], app1)"
    using served_steps.one_request [OF served_steps.at_start, of ref_node 0 0 "''127.0.0.1''"] req by simp
  obtain pr nd where step: "?f (Screening 211 1 20 [] [], shared app1) = (pr, nd)" by (metis prod.collapse)
  have run: "served_steps ref_node (Inr 20) (Inr 20) ?s 1 (pr, share nd app1)"
    using served_steps.one_step [OF one step] by simp
  obtain sroot where root: "compute_state_root mem_kv ref_ext funded_db = Ok sroot"
    using ref_devnet.state_root_Ok by auto
  let ?nd = "\<lparr>fn_chain = [], fn_state = funded_db, fn_mempool = new_mempool\<rparr>"
  have alone: "\<exists>b. ?f (Screening 211 1 20 [] [], ?nd) = (Proposing b 20 [], ?nd)"
    by (simp add: producer_step_def propose_def Let_def burn_fees_def split_fees_def total_gas_fees_def athen_def
        abind_aread abind_alift root new_sealed_block aret_def)
  then obtain b where b: "?f (Screening 211 1 20 [] [], ?nd) = (Proposing b 20 [], ?nd)" by blast
  have "pr = Proposing b 20 [] \<and> as_chain (share nd app1) = fn_chain ?nd \<and> as_state (share nd app1) = fn_state ?nd"
    by (rule requests_do_not_disturb_round [OF run]) (simp_all add: b)
  with run b show ?thesis by (intro exI [of _ pr] exI [of _ "share nd app1"]) simp
qed

end
