(* ===== verification/Quyn_Journey.thy ===== *)
theory Quyn_Journey
  imports Quyn_Requests
begin

text \<open>
  The way of a transaction through the whole program: sent to the server (rpc/src/server.rs), kept in the pool
  (core/src/mempool.rs), taken up, screened and executed by the producer and put in a block
  (node/src/main.rs, vm, quyn-intelligence, core/src/chain.rs), and found again by a receipt request.
\<close>

section \<open>A pool with one transaction\<close>

lemma insert_first:
  assumes "sender X tx = Ok a" and "0 < k"
  shows "insert_tx X rank tx (with_capacity k) = (Ok None, \<lparr>mp_by_sender = [(a, [(nonce tx, tx)])],
    mp_by_hash = [tx_hash X tx \<mapsto> (a, nonce tx)], mp_max_size = k\<rparr>)"
  using assms by (simp add: insert_tx_def with_capacity_def Let_def max_key_def pool_total_def)

lemma best_of_one:
  "0 < limit \<Longrightarrow> get_best rank \<lparr>mp_by_sender = [(a, [(n, tx)])], mp_by_hash = bh, mp_max_size = k\<rparr> limit = Ok [tx]"
  by (simp add: get_best_def all_txs_def iter_order_def)

section \<open>The receipt\<close>

lemma param_hash_hex: "hex_crate X \<Longrightarrow> param_hash X (JArray [JString (hex_data X (b256_bytes h))] :: 'f json) = Ok h"
  by (simp add: param_hash_def param_str_def unwrap_str_def parse_tx_hash_def trim_hex_encoded hex_crate.hex_roundtrip)

lemma receipt_answer:
  assumes "hex_crate X" and "get_tx_receipt_index K X c h = Ok (Some (bh, n, 0, g))"
    and "get_block K X C c bh = Ok (Some b)" and "b_body b = [tx]" and "sender X tx = Ok a"
  shows "eth_get_transaction_receipt K X C c (JArray [JString (hex_data X (b256_bytes h))] :: 'f json) =
    Ok (receipt_json X h bh n 0 g (hex_data X (address_bytes a))
      (case to_addr tx of None \<Rightarrow> JNull | Some d \<Rightarrow> JString (hex_data X (address_bytes d))))"
  using assms by (simp add: eth_get_transaction_receipt_def param_hash_hex tx_in_block_def receipt_parties_def
      sender_or_zero_def require_param_string_def require_param_count_def require_params_array_def param_str_def)

section \<open>A round with one candidate\<close>

lemma screened_screen:
  assumes "screened E cid n (fn_chain nd) tx (fn_state nd)"
  shows "\<exists>r \<in> {Include, IncludeWithLog}. screen_tx E cid n tx nd = Ok (Some r)"
  using assms by (auto simp: screened_def screen_tx_def Let_def)

lemma screened_included:
  assumes "screened E cid n (fn_chain nd) tx (fn_state nd)"
    and "execute_tx (nc_revm E) (rc_kv E) (rc_ext E) tx blk cid (fn_state nd, Map.empty) = (Ok res, (s1, cache))"
  shows "include_tx E blk cid n tx nd = (Ok (Some (er_gas_used res)), nd\<lparr>fn_state := s1\<rparr>)"
  using screened_screen [OF assms(1)] assms(2) by (auto simp: include_tx_def abind_aread execute_candidate_def)

text \<open>The state root of a round: after the executions and the burn.\<close>

definition round_root :: "('d, 'f) node_crates \<Rightarrow> address \<Rightarrow> (signed_transaction \<times> u64) list \<Rightarrow> 'd full_node \<Rightarrow> b256" where
  "round_root E a ta nd = (case burn_fees E a (fst (split_fees (total_gas_fees ta))) nd of
     (_, nd2) \<Rightarrow> (case compute_state_root (rc_kv E) (rc_ext E) (fn_state nd2) of Ok r \<Rightarrow> r | _ \<Rightarrow> 0))"

lemma burn_fees_pool:
  "fn_state (snd (burn_fees E a x (nd\<lparr>fn_mempool := q\<rparr>))) = fn_state (snd (burn_fees E a x nd))"
  by (cases "get_balance (rc_kv E) (rc_ext E) (fn_state nd) a")
    (simp_all add: burn_fees_def abind_aread in_state_def aret_def split_beta)

lemma round_root_pool:
  "round_root E a ta ((nd\<lparr>fn_mempool := q\<rparr>)\<lparr>fn_state := s\<rparr>) = round_root E a ta (nd\<lparr>fn_state := s\<rparr>)"
proof -
  have "(nd\<lparr>fn_mempool := q\<rparr>)\<lparr>fn_state := s\<rparr> = (nd\<lparr>fn_state := s\<rparr>)\<lparr>fn_mempool := q\<rparr>" by simp
  then show ?thesis by (simp only: round_root_def split_beta burn_fees_pool)
qed

context devnet_store
begin

lemma one_candidate_round:
  assumes w: "working E contents nd p" and n: "n = h_number (b_header p) + 1" "unat (h_number (b_header p)) + 1 < 2 ^ 64"
    and sel: "selected_proposer E (fn_chain nd) (block_hash (rc_ext E) p) n \<in> {Ok None, Ok (Some a)}"
    and clocks: "h_timestamp (b_header p) < ts" "unat ts \<le> unat now + 3" "unat now + 3 < 2 ^ 64"
    and best: "get_best (rc_rank E) (fn_mempool nd) 100 = Ok [tx]"
    and scr: "screened E cid n (fn_chain nd) tx (fn_state nd)"
    and ex: "execute_tx (nc_revm E) (rc_kv E) (rc_ext E) tx (block_env (rc_ext E) n now 30000000 0 a) cid
      (fn_state nd, Map.empty) = (Ok res, (s1, cache))"
    and b: "b = sealed_block (rc_ext E) (block_hash (rc_ext E) p) n ts
      (round_root E a [(tx, er_gas_used res)] (nd\<lparr>fn_state := s1\<rparr>)) [tx] a"
    and sto: "storable (rc_ext E) (chain_view_of (rc_ext E) (rc_codec E) (contents (fn_chain nd))) b"
  shows "\<exists>nd'. produce_block E a cid (Inr now) (Inr ts) nd = (Ok (), nd') \<and> working E contents nd' b \<and>
    get_tx_receipt_index (rc_kv E) (rc_ext E) (fn_chain nd') (tx_hash (rc_ext E) tx) =
      Ok (Some (block_hash (rc_ext E) b, n, 0, er_gas_used res)) \<and>
    mp_by_hash (fn_mempool nd') (tx_hash (rc_ext E) tx) = None"
proof -
  let ?X = "rc_ext E" and ?ta = "[(tx, er_gas_used res)]" and ?nd1 = "nd\<lparr>fn_state := s1\<rparr>"
  have app: "apply_candidates E (block_env ?X n now 30000000 0 a) cid n [tx] nd = (Ok ?ta, ?nd1)"
    using screened_included [OF scr ex] by (simp add: aret_def)
  have st: "state_wf ?X (contents (fn_state nd))" using w by (simp add: working_def)
  obtain nd2 where burn: "burn_fees E a (fst (split_fees (total_gas_fees ?ta))) ?nd1 = (Ok (), nd2)"
    using burn_fees_ok [of ?nd1 a] apply_candidates_ok [OF st app] by auto
  obtain sroot where root: "compute_state_root (rc_kv E) ?X (fn_state nd2) = Ok sroot"
    using state_root_Ok by blast
  have sb: "b = sealed_block ?X (block_hash ?X p) n ts sroot (map fst ?ta) a"
    using burn root by (simp add: b round_root_def)
  note v = w [unfolded working_def, THEN conjunct1] refl w [unfolded working_def, THEN conjunct2, THEN conjunct1]
    w [unfolded working_def, THEN conjunct2, THEN conjunct2, THEN conjunct1] st
  have "\<exists>nd'. produce_block E a cid (Inr now) (Inr ts) nd = (Ok (), nd') \<and>
    chain_wf ?X (rc_codec E) (contents (fn_chain nd')) \<and>
    chain_inv (chain_view_of ?X (rc_codec E) (contents (fn_chain nd'))) \<and>
    tip ?X (chain_view_of ?X (rc_codec E) (contents (fn_chain nd'))) b \<and>
    contents (fn_state nd') = (contents (fn_state nd2))(state_root_key (block_hash ?X b) \<mapsto> b256_bytes sroot) \<and>
    (distinct (map (\<lambda>t. tx_hash ?X (fst t)) ?ta) \<longrightarrow> (\<forall>j < length ?ta.
       get_tx_receipt_index (rc_kv E) ?X (fn_chain nd') (tx_hash ?X (fst (?ta ! j))) =
         Ok (Some (block_hash ?X b, h_number (b_header p) + 1, of_nat j, snd (?ta ! j))))) \<and>
    pool_removed (fn_mempool nd) (fn_mempool nd') \<and>
    (\<forall>t \<in> set ?ta. mp_by_hash (fn_mempool nd') (tx_hash ?X (fst t)) = None) \<and>
    subseq (map fst ?ta) [tx] \<and>
    list_all (\<lambda>(tx, _). admitted E cid (h_number (b_header p) + 1) (fn_chain nd) tx) ?ta"
    by (rule produce_block_ok [OF v n(2) sel [unfolded n(1)] clocks best app [unfolded n(1)] _ burn root sb [unfolded n(1)] sto]) simp
  then obtain nd' where nd': "produce_block E a cid (Inr now) (Inr ts) nd = (Ok (), nd')"
    "chain_wf ?X (rc_codec E) (contents (fn_chain nd'))"
    "chain_inv (chain_view_of ?X (rc_codec E) (contents (fn_chain nd')))"
    "tip ?X (chain_view_of ?X (rc_codec E) (contents (fn_chain nd'))) b"
    "contents (fn_state nd') = (contents (fn_state nd2))(state_root_key (block_hash ?X b) \<mapsto> b256_bytes sroot)"
    "get_tx_receipt_index (rc_kv E) ?X (fn_chain nd') (tx_hash ?X tx) =
      Ok (Some (block_hash ?X b, n, 0, er_gas_used res))"
    "mp_by_hash (fn_mempool nd') (tx_hash ?X tx) = None"
    by (auto simp: n(1))
  have "working E contents nd' b"
    using nd'(2-5) save_root_wf [OF nodes_wf [OF st app burn]] by (simp add: working_def)
  with nd' show ?thesis by (intro exI [of _ nd']) simp
qed

end

section \<open>From the request to the receipt\<close>

text \<open>C17: a sent transaction gets its receipt: on a working devnet with a fresh pool, a signed transaction that
  passes the checks and the fraud analysis and executes is sent to the server in its legacy encoding; the
  server answers with its hash; one round of the producer, in steps, puts it into a block on the head;
  and the server then answers a request for its receipt with this block, its position, the gas that was
  used and the parties. The receipt has status \<open>0x1\<close> whether or not the execution succeeded. The
  transaction has left the pool and the node is ready for the next round. Once the round is open, any
  other requests may be served between its steps: the databases it leaves, and so the receipt, are the same.\<close>

theorem sent_transaction_gets_receipt:
  fixes E :: "('d, 'f) node_crates"
  assumes "devnet_store E contents" and "rlp_crate X" and "X = rc_ext E"
    and "working E contents (shared app) p" and "as_mempool app = with_capacity k" and "0 < k"
    and "as_chain_id app = CHAIN_ID_TESTNET"
    and "st_v st \<in> {0, 1, 27, 28}" and "to_legacy_rlp X st = (Ok raw :: bytes parse_result)" and "sender X st = Ok a"
    and "h = keccak256 X raw" and "tx = received X st raw"
    and "n = h_number (b_header p) + 1" and "unat (h_number (b_header p)) + 1 < 2 ^ 64"
    and "selected_proposer E (as_chain app) (block_hash X p) n \<in> {Ok None, Ok (Some devnet_validator)}"
    and "h_timestamp (b_header p) < ts" and "unat ts \<le> unat now + 3" and "unat now + 3 < 2 ^ 64"
    and "screened E CHAIN_ID_TESTNET n (as_chain app) tx (as_state app)"
    and "execute_tx (nc_revm E) (rc_kv E) X tx (block_env X n now 30000000 0 devnet_validator) CHAIN_ID_TESTNET
      (as_state app, Map.empty) = (Ok res, (s1, cache))"
    and "b = sealed_block X (block_hash X p) n ts
      (round_root E devnet_validator [(tx, er_gas_used res)] ((shared app)\<lparr>fn_state := s1\<rparr>)) [tx] devnet_validator"
    and "storable X (chain_view_of X (rc_codec E) (contents (as_chain app))) b"
  shows "\<exists>app1 j nd'.
    eth_send_raw_transaction (rc_kv E) X (rc_de_tx E) (rc_rank E) (JArray [JString (hex_data X raw)] :: 'f json) app =
      (Ok (JString (hex_data X (b256_bytes h))), app1) \<and>
    (producer_step E (Inr now) (Inr ts) ^^ Suc j) (Sleeping, shared app1) = (Sleeping, nd') \<and>
    get_head (rc_kv E) X (fn_chain nd') = Ok (Some (block_hash X b)) \<and>
    eth_get_transaction_receipt (rc_kv E) X (rc_codec E) (fn_chain nd') (JArray [JString (hex_data X (b256_bytes h))] :: 'f json) =
      Ok (receipt_json X h (block_hash X b) n 0 (er_gas_used res) (hex_data X (address_bytes a))
        (case t_to (st_tx st) of None \<Rightarrow> JNull | Some d \<Rightarrow> JString (hex_data X (address_bytes d)))) \<and>
    get_by_hash (fn_mempool nd') h = Ok None \<and> working E contents nd' b \<and>
    (\<forall>pr app2. served_steps E (Inr now) (Inr ts) (system_step E (Inr now) (Inr ts) (Sleeping, app1)) j (pr, app2) \<longrightarrow>
       pr = Sleeping \<and> as_chain app2 = fn_chain nd' \<and> as_state app2 = fn_state nd')"
proof -
  let ?q = "\<lparr>mp_by_sender = [(a, [(nonce tx, tx)])], mp_by_hash = [tx_hash X tx \<mapsto> (a, nonce tx)], mp_max_size = k\<rparr>"
  let ?app = "app\<lparr>as_mempool := ?q\<rparr>" and ?par = "\<lambda>b. JArray [JString (hex_data X b)] :: 'f json"
  have nd: "shared ?app = (shared app)\<lparr>fn_mempool := ?q\<rparr>" by (simp add: shared_def)
  have block: "b = sealed_block X (block_hash X p) n ts
      (round_root E devnet_validator [(tx, er_gas_used res)] ((shared ?app)\<lparr>fn_state := s1\<rparr>)) [tx] devnet_validator"
    unfolding nd round_root_pool by (rule assms(21))
  have hex: "hex_crate X"
    using assms(1) by (simp add: devnet_store_def chain_store_def state_store_def assms(3))
  have chk: "validate_tx_basic X tx CHAIN_ID_TESTNET = Ok ()" "validate_tx_against_state (rc_kv E) X tx (as_state app) = Ok ()"
    using assms(19) by (simp_all add: screened_def assms(3))
  have cid: "unat (chain_id st) < 2 ^ 62"
    using chk(1) by (simp add: validate_tx_basic_iff assms(12) received_def chain_id_def CHAIN_ID_TESTNET_def)
  note t = legacy_raw_decoded [OF assms(2) hex cid assms(8,9), folded assms(12)]
  have sent: "eth_send_raw_transaction (rc_kv E) X (rc_de_tx E) (rc_rank E) (?par raw) app =
      (Ok (JString (hex_data X (b256_bytes h))), ?app)"
    using send_raw_Ok [OF t(1), of "rc_kv E" app "rc_rank E" None ?q] insert_first [of X tx a k "rc_rank E"] t(3,4) assms(5-7,10,11) chk
    by (simp add: check_raw_def)
  have best: "get_best (rc_rank E) (fn_mempool (shared ?app)) 100 = Ok [tx]" by (simp add: best_of_one)
  have w: "working E contents (shared ?app) p" using assms(4) by (simp add: working_def)
  have chain: "fn_chain (shared ?app) = as_chain app" "fn_state (shared ?app) = as_state app" by simp_all
  obtain nd' where nd': "produce_block E devnet_validator CHAIN_ID_TESTNET (Inr now) (Inr ts) (shared ?app) = (Ok (), nd')"
    "working E contents nd' b" "get_tx_receipt_index (rc_kv E) X (fn_chain nd') h = Ok (Some (block_hash X b, n, 0, er_gas_used res))"
    "mp_by_hash (fn_mempool nd') h = None"
    using devnet_store.one_candidate_round [OF assms(1) w, folded assms(3), unfolded chain,
      OF assms(13,14,15,16-18) best assms(19,20) block assms(22)] t(4) assms(11) by auto
  obtain pr0 nd0 where open': "producer_step E (Inr now) (Inr ts) (Sleeping, shared ?app) = (pr0, nd0)" by (metis prod.collapse)
  then obtain j where j: "(producer_step E (Inr now) (Inr ts) ^^ j) (pr0, nd0) = (Sleeping, nd')"
    "\<forall>i < j. fst ((producer_step E (Inr now) (Inr ts) ^^ i) (pr0, nd0)) \<noteq> Sleeping"
    using opening_round [of E "Inr now" "Inr ts" "shared ?app"] nd'(1) by (auto simp: uninterrupted_def)
  have round: "(producer_step E (Inr now) (Inr ts) ^^ Suc j) (Sleeping, shared ?app) = (Sleeping, nd')"
    using j(1) open' by (simp add: funpow_swap1)
  have beside: "pr = Sleeping \<and> as_chain app2 = fn_chain nd' \<and> as_state app2 = fn_state nd'"
    if "served_steps E (Inr now) (Inr ts) (system_step E (Inr now) (Inr ts) (Sleeping, ?app)) j (pr, app2)" for pr app2
    by (rule served_databases [of E "Inr now" "Inr ts" pr0 "share nd0 ?app"])
      (use that j open' in \<open>simp_all add: system_step_def\<close>)
  note head = devnet_store.working_head [OF assms(1) nd'(2), folded assms(3)]
  have "eth_get_transaction_receipt (rc_kv E) X (rc_codec E) (fn_chain nd') (?par (b256_bytes h)) =
      Ok (receipt_json X h (block_hash X b) n 0 (er_gas_used res) (hex_data X (address_bytes a))
        (case t_to (st_tx st) of None \<Rightarrow> JNull | Some d \<Rightarrow> JString (hex_data X (address_bytes d))))"
    using receipt_answer [OF hex nd'(3) head(2), of tx a] t(2,3) assms(10) by (simp add: assms(21) sealed_block_def to_addr_def)
  moreover have "get_by_hash (fn_mempool nd') h = Ok None" using nd'(4) by (simp add: get_by_hash_def)
  ultimately show ?thesis
    using sent round head(1) nd'(2) beside by (intro exI [of _ ?app] exI [of _ j] exI [of _ nd'] conjI allI impI) blast+
qed

text \<open>The example transaction is screened and executes on the funded state.\<close>

lemma small_tx_ready:
  "screened ref_node CHAIN_ID_TESTNET 1 c (small_tx 0 h) funded_db"
  "\<exists>res s1 cache. execute_tx (nc_revm ref_node) mem_kv ref_ext (small_tx 0 h) blk CHAIN_ID_TESTNET (funded_db, Map.empty) =
    (Ok res, (s1, cache)) \<and> er_gas_used res = 21000"
proof -
  have id: "CHAIN_ID_TESTNET = 7779" by (simp add: CHAIN_ID_TESTNET_def)
  have "unat (5 :: u256) \<le> 9000" by simp
  note ok = example_tx_checks [OF this, of h, folded small_tx_def]
  obtain an where "analyse_transaction mem_kv ref_ext ref_codec ref_f64 (new_detector default_fraud_config)
      (small_tx 0 h) c funded_db 1 = Ok (an, None)" "fa_recommendation an = Include"
    using small_tx_analysis [OF funded_db(1) refl, of 0 h c] by (auto simp: funded_db)
  with ok show "screened ref_node CHAIN_ID_TESTNET 1 c (small_tx 0 h) funded_db"
    by (simp add: screened_def id)
  let ?nd = "\<lparr>fn_chain = c, fn_state = funded_db, fn_mempool = with_capacity 10\<rparr>"
  obtain s' where "execute_candidate ref_node blk 7779 (small_tx 0 h) ?nd = (Ok (Some 21000), ?nd\<lparr>fn_state := s'\<rparr>)"
    using small_tx_executes [OF funded_db(1), of 0 blk h ?nd] by (auto simp: funded_db)
  then show "\<exists>res s1 cache. execute_tx (nc_revm ref_node) mem_kv ref_ext (small_tx 0 h) blk CHAIN_ID_TESTNET (funded_db, Map.empty) =
      (Ok res, (s1, cache)) \<and> er_gas_used res = 21000"
    by (auto simp: execute_candidate_def id obind_eq_Ok ok_opt_Ok split: prod.splits)
qed

theorem sent_transaction_gets_receipt_witness:
  "\<exists>c raw app1 j nd'. eth_send_raw_transaction mem_kv ref_ext (rc_de_tx ref_node) (\<lambda>_ _. 0)
       (JArray [JString (hex_data ref_ext raw)]) (serve_state c funded_db (with_capacity 10) 7779 ref_f64) =
     (Ok (JString (hex_data ref_ext (b256_bytes (keccak256 ref_ext raw)))), app1) \<and>
     (producer_step ref_node (Inr 20) (Inr 20) ^^ j) (Sleeping, shared app1) = (Sleeping, nd') \<and>
     eth_get_transaction_receipt mem_kv ref_ext ref_codec (fn_chain nd')
       (JArray [JString (hex_data ref_ext (b256_bytes (keccak256 ref_ext raw)))] :: rat json) =
     Ok (receipt_json ref_ext (keccak256 ref_ext raw) 204 1 0 21000 (hex_data ref_ext (address_bytes 3))
       (JString (hex_data ref_ext (address_bytes 5))))"
proof -
  let ?st = "example_tx 0 1 5"
  obtain c where c: "\<forall>p. working ref_node map_of \<lparr>fn_chain = c, fn_state = funded_db, fn_mempool = p\<rparr> node_genesis"
    "selected_proposer ref_node c 211 1 = Ok None"
    "cv_block (chain_view_of ref_ext ref_codec (map_of c)) = [211 \<mapsto> node_genesis]"
    using example_node by blast
  let ?app = "serve_state c funded_db (with_capacity 10) 7779 ref_f64"
  have st: "unat (chain_id ?st) < 2 ^ 62" "st_v ?st \<in> {0, 1, 27, 28}"
    by (simp_all add: chain_id_def example_tx_def)
  obtain raw where raw: "to_legacy_rlp ref_ext ?st = (Ok raw :: bytes parse_result)"
    using parse_to_legacy_rlp [OF ref_rlp.rlp_crate_axioms st] by blast
  have tx: "small_tx 0 (Some (keccak256 ref_ext raw)) = received ref_ext ?st raw"
    by (simp add: small_tx_def received_def example_tx_def)
  let ?tx = "small_tx 0 (Some (keccak256 ref_ext raw))"
  obtain res s1 cache where ex: "execute_tx (nc_revm ref_node) mem_kv ref_ext ?tx (block_env ref_ext 1 20 30000000 0 devnet_validator)
      CHAIN_ID_TESTNET (funded_db, Map.empty) = (Ok res, (s1, cache))" "er_gas_used res = 21000"
    using small_tx_ready(2) by blast
  let ?b = "\<lambda>r. sealed_block ref_ext 211 1 20 r [?tx] devnet_validator"
  have sto: "storable ref_ext (chain_view_of ref_ext ref_codec (map_of c)) (?b r)" for r
    using sealed_hash by (auto simp: storable_def c(3) encodable_def small_tx_def) (simp add: sealed_block_def)
  have id: "CHAIN_ID_TESTNET = 7779" by (simp add: CHAIN_ID_TESTNET_def)
  have w: "working ref_node map_of (shared ?app) node_genesis" using c(1) by simp
  have E: "ref_ext = rc_ext ref_node" "as_mempool ?app = with_capacity 10" "(0 :: nat) < 10" "as_chain_id ?app = CHAIN_ID_TESTNET"
    by (simp_all add: id)
  have n: "1 = h_number (b_header node_genesis) + 1" "unat (h_number (b_header node_genesis)) + 1 < 2 ^ 64"
    "h_timestamp (b_header node_genesis) < 20" "unat (20 :: u64) \<le> unat (20 :: u64) + 3" "unat (20 :: u64) + 3 < 2 ^ 64"
    by simp_all
  have sel: "selected_proposer ref_node (as_chain ?app) (block_hash ref_ext node_genesis) 1 \<in> {Ok None, Ok (Some devnet_validator)}"
    using c(2) by simp
  have scr: "screened ref_node CHAIN_ID_TESTNET 1 (as_chain ?app) ?tx (as_state ?app)"
    using small_tx_ready(1) by simp
  have ex': "execute_tx (nc_revm ref_node) (rc_kv ref_node) ref_ext ?tx (block_env ref_ext 1 20 30000000 0 devnet_validator)
      CHAIN_ID_TESTNET (as_state ?app, Map.empty) = (Ok res, (s1, cache))"
    using ex(1) by (simp add: ref_node_simps(1))
  have sto': "storable ref_ext (chain_view_of ref_ext (rc_codec ref_node) (map_of (as_chain ?app)))
      (sealed_block ref_ext (block_hash ref_ext node_genesis) 1 20
        (round_root ref_node devnet_validator [(?tx, er_gas_used res)] ((shared ?app)\<lparr>fn_state := s1\<rparr>)) [?tx] devnet_validator)"
    using sto by simp
  obtain app1 j nd' where
    "eth_send_raw_transaction (rc_kv ref_node) ref_ext (rc_de_tx ref_node) (rc_rank ref_node) (JArray [JString (hex_data ref_ext raw)]) ?app =
      (Ok (JString (hex_data ref_ext (b256_bytes (keccak256 ref_ext raw)))), app1)"
    "(producer_step ref_node (Inr 20) (Inr 20) ^^ j) (Sleeping, shared app1) = (Sleeping, nd')"
    "eth_get_transaction_receipt (rc_kv ref_node) ref_ext (rc_codec ref_node) (fn_chain nd')
       (JArray [JString (hex_data ref_ext (b256_bytes (keccak256 ref_ext raw)))] :: rat json) =
     Ok (receipt_json ref_ext (keccak256 ref_ext raw) 204 1 0 (er_gas_used res) (hex_data ref_ext (address_bytes 3))
       (case t_to (st_tx ?st) of None \<Rightarrow> JNull | Some d \<Rightarrow> JString (hex_data ref_ext (address_bytes d))))"
    using sent_transaction_gets_receipt [OF ref_devnet.devnet_store_axioms ref_rlp.rlp_crate_axioms E(1) w E(2-4) st(2) raw
      example_tx_sender refl tx n(1,2) sel n(3-5) scr ex' refl sto'] unfolding sealed_hash by blast
  moreover have "t_to (st_tx ?st) = Some 5" by (simp add: example_tx_def)
  ultimately show ?thesis unfolding ref_node_simps ex(2)
    by (intro exI [of _ c] exI [of _ raw] exI [of _ app1] exI [of _ j] exI [of _ nd']) simp
qed

end
