(* ===== verification/Quyn_Main.thy ===== *)
theory Quyn_Main
  imports Quyn_DevnetLaws Quyn_ClientLaws
begin

text \<open>
  node/src/main.rs, \<open>main\<close>: the commands of the node binary. Parsing the command line is clap's; the
  databases in a directory are an argument, and so are the HTTP client and the environment. A
  command either serves a node until the process ends or prints a text. The result of a serving
  command is the state the server starts with and the producer beside it, if there is one.
\<close>

datatype command =
    Full string string
  | Light
  | Validator
  | Devnet string string
  | Wallet wallet_sub
  | Faucet string string

datatype ('d, 'f) outcome_of_main = Serving "producer option" "('d, 'f) app_state" | Printed string

definition as_main :: "('e \<Rightarrow> 'g) \<Rightarrow> ('w, 'e, string) act \<Rightarrow> ('w, 'g, ('d, 'f) outcome_of_main) act" where
  "as_main g m w = (case m w of (r, w') \<Rightarrow> (obind (map_err g r) (\<lambda>s. Ok (Printed s)), w'))"

definition node_main :: "('d, 'f) node_crates \<Rightarrow> ((string \<times> string) list \<Rightarrow> (string \<times> string) list) \<Rightarrow>
    ('w, 'f) post \<Rightarrow> string option \<Rightarrow> bytes \<Rightarrow> (string \<Rightarrow> 'd \<times> 'd) \<Rightarrow> command \<Rightarrow>
    ('w, node_error + client_error, ('d, 'f) outcome_of_main) act" where
  "node_main E order post env entropy disk cmd = (case cmd of
       Full data_dir rpc_addr \<Rightarrow>
         let node = open_node (fst (disk data_dir)) (snd (disk data_dir))
         in aret (Serving None (serve_state (fn_chain node) (fn_state node) (fn_mempool node) CHAIN_ID_MAINNET (rc_f64 E)))
     | Light \<Rightarrow> aret (Printed (''Light node not yet implemented.'' @ newline))
     | Validator \<Rightarrow> aret (Printed (''Validator node not yet implemented.'' @ newline))
     | Devnet data_dir rpc_addr \<Rightarrow>
         alift (map_err Inl (obind (run_devnet E order (fst (disk data_dir)) (snd (disk data_dir)))
           (\<lambda>(pr, app). Ok (Serving (Some pr) app))))
     | Wallet sub \<Rightarrow> as_main Inr (run_wallet post (nc_wallet E) (rc_ext E) env entropy sub)
     | Faucet to_s amount \<Rightarrow> as_main Inr (run_faucet post (nc_wallet E) (rc_ext E) env to_s amount))"

text \<open>The full node has no producer and no genesis and never gets a block: it always serves exactly the
  databases it was opened on, and takes transactions of the main chain into a pool nobody empties.\<close>

lemma requests_keep:
  "rpc_run (rpc_crates.truncate E) app app' \<Longrightarrow>
    as_chain app' = as_chain app \<and> as_state app' = as_state app \<and> as_chain_id app' = as_chain_id app \<and>
    (pool_run (rc_ext E) (as_mempool app) \<longrightarrow> pool_run (rc_ext E) (as_mempool app'))"
proof (induction rule: rpc_run.induct)
  case (request app1 instant secs ip body r app2)
  then show ?case using request_keeps [OF request.hyps(2)] by simp
qed simp

lemma full_node_never_advances:
  assumes "node_main E order post env entropy disk (Full dir addr) w = (Ok (Serving pr app), w')"
    and "rpc_run (rpc_crates.truncate E) app app'"
  shows "pr = None \<and> as_chain app' = fst (disk dir) \<and> as_state app' = snd (disk dir) \<and>
    (check_raw K X app' tx = Ok () \<longrightarrow> chain_id tx = CHAIN_ID_MAINNET)"
proof -
  have "pr = None" and app: "as_chain app = fst (disk dir)" "as_state app = snd (disk dir)" "as_chain_id app = CHAIN_ID_MAINNET"
    using assms(1) by (auto simp: node_main_def open_node_def Let_def aret_def)
  moreover have "check_raw K X app' tx = Ok () \<Longrightarrow> validate_tx_basic X tx (as_chain_id app') = Ok ()"
    by (auto simp: check_raw_def obind_eq_Ok)
  ultimately show ?thesis
    using requests_keep [OF assms(2)] by (simp add: validate_tx_basic_iff)
qed

end
