(* ===== verification/Quyn_Http.thy ===== *)
theory Quyn_Http
  imports Quyn_RpcServer
begin

text \<open>
  rpc/src/server.rs, \<open>serve\<close>, and rpc/src/error.rs: what the server gives to axum. The routes, the CORS policy and the
  limits are data; binding the listener and running axum are parameters that may fail with a text. An
  endpoint answers a request with a status and a JSON value. Which requests axum passes to which
  endpoint of the table is axum's.
\<close>

datatype rpc_error = InvalidRequest string | MethodNotFound string | Internal string

definition rpc_error_string :: "rpc_error \<Rightarrow> string" where
  "rpc_error_string e = (case e of
       InvalidRequest s \<Rightarrow> ''Invalid request: '' @ s
     | MethodNotFound s \<Rightarrow> ''Method not found: '' @ s
     | Internal s \<Rightarrow> ''Internal error: '' @ s)"

definition MAX_BODY_BYTES :: nat where "MAX_BODY_BYTES = 1024 * 1024"
definition REQUEST_TIMEOUT_SECS :: u64 where "REQUEST_TIMEOUT_SECS = 30"

section \<open>The application\<close>

datatype http_method = GET | POST
datatype endpoint = Health | ChainIdGet | JsonRpc

text \<open>Anything may call from anywhere, or only the listed methods from the listed origins.\<close>

datatype cors = Permissive | AllowOnly "string list" "http_method list"

definition cors_layer :: "string option \<Rightarrow> cors" where
  "cors_layer QYN_PRODUCTION =
     (if (case QYN_PRODUCTION of None \<Rightarrow> False | Some v \<Rightarrow> v = ''1'')
      then AllowOnly [''https://getquyn.com'', ''https://testnet.getquyn.com''] [GET, POST]
      else Permissive)"

definition routes :: "(string \<times> (http_method \<times> endpoint) list) list" where
  "routes = [(''/'', [(GET, Health), (POST, JsonRpc)]),
     (''/rpc'', [(GET, ChainIdGet), (POST, JsonRpc)]),
     (''/health'', [(GET, Health)])]"

definition endpoint_of :: "http_method \<Rightarrow> string \<Rightarrow> endpoint option" where
  "endpoint_of m path = (case map_of routes path of None \<Rightarrow> None | Some es \<Rightarrow> map_of es m)"

definition answer :: "('d, 'f) rpc_crates \<Rightarrow> nat \<Rightarrow> u64 \<Rightarrow> string \<Rightarrow> endpoint \<Rightarrow> 'f json \<Rightarrow>
    (('d, 'f) app_state, unit, nat \<times> 'f json) act" where
  "answer E instant secs ip ep body = (case ep of
       Health \<Rightarrow> aret (200, health)
     | ChainIdGet \<Rightarrow> aread (\<lambda>app. Ok (200, rpc_chain_id_get app))
     | JsonRpc \<Rightarrow> jsonrpc_handler E instant secs ip body)"

record ('d, 'f) http_app =
  ha_routes :: "(string \<times> (http_method \<times> endpoint) list) list"
  ha_timeout :: u64
  ha_body_limit :: nat
  ha_cors :: cors
  ha_state :: "('d, 'f) app_state"

text \<open>\<open>bind\<close> is the listener of the system, \<open>run\<close> is \<open>axum::serve\<close>, which ends when it fails or is shut down.\<close>

definition serve :: "(string \<Rightarrow> string + 'l) \<Rightarrow> ('l \<Rightarrow> ('d, 'f) http_app \<Rightarrow> string + unit) \<Rightarrow> string option \<Rightarrow>
    'd \<Rightarrow> 'd \<Rightarrow> mempool \<Rightarrow> u64 \<Rightarrow> string \<Rightarrow> 'f f64_ops \<Rightarrow> (rpc_error, unit) outcome" where
  "serve bind run QYN_PRODUCTION chain state pool cid addr F =
     (let app = \<lparr>ha_routes = routes, ha_timeout = REQUEST_TIMEOUT_SECS, ha_body_limit = MAX_BODY_BYTES,
        ha_cors = cors_layer QYN_PRODUCTION, ha_state = serve_state chain state pool cid F\<rparr>
      in obind (of_sum Internal (bind addr)) (\<lambda>listener. of_sum Internal (run listener app)))"

section \<open>Only one endpoint changes the server\<close>

lemma endpoint_of_iff:
  "endpoint_of m path = Some ep \<longleftrightarrow>
     (m = GET \<and> ep = Health \<and> path \<in> {''/'', ''/health''}) \<or> (m = GET \<and> ep = ChainIdGet \<and> path = ''/rpc'') \<or>
     (m = POST \<and> ep = JsonRpc \<and> path \<in> {''/'', ''/rpc''})"
  by (cases m; cases ep) (auto simp: endpoint_of_def routes_def)

text \<open>A request changes the server only as a POST to one of the two paths, and then as a JSON-RPC request does.\<close>

lemma get_changes_nothing:
  assumes "endpoint_of m path = Some ep" and "answer E instant secs ip ep body app = (r, app')" and "app' \<noteq> app"
  shows "m = POST \<and> path \<in> {''/'', ''/rpc''} \<and> jsonrpc_handler E instant secs ip body app = (r, app')"
  using assms by (auto simp: endpoint_of_iff answer_def aret_def aread_def)

text \<open>The liveness probe and the chain id are answered whatever the state and the rate limit.\<close>

lemma get_always_answered:
  assumes "endpoint_of GET path = Some ep"
  shows "\<exists>j. answer E instant secs ip ep body app = (Ok (200, j), app)"
  using assms by (auto simp: endpoint_of_iff answer_def aret_def aread_def)

text \<open>\<open>serve\<close> fails only with an internal error.\<close>

lemma serve_errors: "serve bind run env chain state pool cid addr F = Err e \<Longrightarrow> \<exists>m. e = Internal m"
  by (cases "bind addr") (auto simp: serve_def Let_def elim: of_sum.elims)

end
