(* ===== verification/Quyn_Network.thy ===== *)
theory Quyn_Network
  imports Quyn_Prelude
begin

text \<open>
  network/src: the error type, the constants and messages of the protocol, and the set-up of the libp2p
  swarm. libp2p is a parameter: the constructors of its behaviours and transports, which may fail with a
  text. Nothing else of the program calls this crate, and the crate itself uses neither its limits nor its
  messages.
\<close>

section \<open>Errors and protocol\<close>

datatype network_error = Connection string | Sync string | Protocol string | Io string

definition network_error_string :: "network_error \<Rightarrow> string" where
  "network_error_string e = (case e of
       Connection s \<Rightarrow> ''Connection failed: '' @ s
     | Sync s \<Rightarrow> ''Sync error: '' @ s
     | Protocol s \<Rightarrow> ''Protocol error: '' @ s
     | Io s \<Rightarrow> ''IO: '' @ s)"

definition PROTOCOL_BLOCKS :: string where "PROTOCOL_BLOCKS = ''/quyn/block/1''"
definition PROTOCOL_TX :: string where "PROTOCOL_TX = ''/quyn/tx/1''"
definition MAX_BLOCK_SIZE :: nat where "MAX_BLOCK_SIZE = 2 * 1024 * 1024"
definition MAX_TX_SIZE :: nat where "MAX_TX_SIZE = 128 * 1024"
definition MAX_PEER_MESSAGE_SIZE :: nat where "MAX_PEER_MESSAGE_SIZE = 4 * 1024 * 1024"
definition MAX_MESSAGES_PER_PEER_PER_SEC :: u32 where "MAX_MESSAGES_PER_PEER_PER_SEC = 100"
definition PEER_BAN_DURATION_SECS :: u64 where "PEER_BAN_DURATION_SECS = 3600"
definition INITIAL_PEER_REPUTATION :: "32 word" where "INITIAL_PEER_REPUTATION = 100"
definition MAX_CONNECTIONS_PER_IP :: nat where "MAX_CONNECTIONS_PER_IP = 3"

record block_request =
  br_from :: u64
  br_count :: u64

record block_response =
  br_blocks :: "bytes list"

record tx_message =
  tm_raw :: bytes

section \<open>The swarm\<close>

text \<open>What the crate uses of libp2p: peer identities \<open>'p\<close>, keys \<open>'k\<close>, addresses \<open>'a\<close>, the three behaviours \<open>'i\<close>,
  \<open>'d\<close>, \<open>'m\<close>, a swarm builder \<open>'t\<close> with its transport and a swarm \<open>'s\<close>. The configuration of identify is
  its protocol version, the key, the interval in seconds and whether address changes are pushed.\<close>

record ('i, 'd, 'm) quyn_behaviour =
  qb_identify :: 'i
  qb_kademlia :: 'd
  qb_mdns :: 'm

record ('p, 'k, 'a, 'i, 'd, 'm, 't, 's) libp2p =
  lp_peer_id :: "'k \<Rightarrow> 'p"
  lp_identify :: "string \<Rightarrow> 'k \<Rightarrow> nat \<Rightarrow> bool \<Rightarrow> 'i"
  lp_kademlia :: "'p \<Rightarrow> 'd"
  lp_add_address :: "'p \<Rightarrow> 'a \<Rightarrow> 'd \<Rightarrow> 'd"
  lp_mdns :: "'p \<Rightarrow> string + 'm"
  lp_with_tcp :: "'k \<Rightarrow> string + 't"
  lp_with_behaviour :: "('i, 'd, 'm) quyn_behaviour \<Rightarrow> 't \<Rightarrow> string + 's"

definition new_sync :: "('p, 'k, 'a, 'i, 'd, 'm, 't, 's) libp2p \<Rightarrow> 'p \<Rightarrow> 'k \<Rightarrow>
    (network_error, ('i, 'd, 'm) quyn_behaviour) outcome" where
  "new_sync L local_peer_id public_key =
     obind (of_sum Protocol (lp_mdns L local_peer_id)) (\<lambda>mdns.
     Ok \<lparr>qb_identify = lp_identify L ''/quyn/1.0'' public_key 30 True,
       qb_kademlia = lp_kademlia L local_peer_id, qb_mdns = mdns\<rparr>)"

definition add_known_peer :: "('p, 'k, 'a, 'i, 'd, 'm, 't, 's) libp2p \<Rightarrow> 'p \<Rightarrow> 'a \<Rightarrow>
    ('i, 'd, 'm) quyn_behaviour \<Rightarrow> ('i, 'd, 'm) quyn_behaviour" where
  "add_known_peer L peer_id addr b = b\<lparr>qb_kademlia := lp_add_address L peer_id addr (qb_kademlia b)\<rparr>"

definition build_swarm :: "('p, 'k, 'a, 'i, 'd, 'm, 't, 's) libp2p \<Rightarrow> 'k \<Rightarrow> (network_error, 's) outcome" where
  "build_swarm L keypair =
     obind (new_sync L (lp_peer_id L keypair) keypair) (\<lambda>behaviour.
     obind (of_sum Protocol (lp_with_tcp L keypair)) (\<lambda>transport.
     of_sum Protocol (lp_with_behaviour L behaviour transport)))"

text \<open>The set-up fails with a protocol error or not at all, and mDNS is started before the transport is
  tried.\<close>

lemma of_sum_eq_Err: "of_sum g r = Err e \<longleftrightarrow> (\<exists>x. r = Inl x \<and> e = g x)"
  by (cases r) auto

lemma of_sum_returns [simp]: "of_sum g r \<noteq> Panic" "of_sum g r \<noteq> Diverge"
  by (cases r; simp)+

lemma build_swarm_errors:
  assumes "build_swarm L keypair = Err e"
  shows "\<exists>m. e = Protocol m \<and>
    (lp_mdns L (lp_peer_id L keypair) = Inl m \<or>
     (\<exists>d. lp_mdns L (lp_peer_id L keypair) = Inr d \<and> (lp_with_tcp L keypair = Inl m \<or>
       (\<exists>t b. lp_with_tcp L keypair = Inr t \<and> qb_mdns b = d \<and> lp_with_behaviour L b t = Inl m))))"
proof (cases "lp_mdns L (lp_peer_id L keypair)")
  case (Inr d)
  note mdns = Inr
  show ?thesis
  proof (cases "lp_with_tcp L keypair")
    case (Inr t)
    with assms mdns show ?thesis
      by (auto simp: build_swarm_def new_sync_def of_sum_eq_Err) (metis quyn_behaviour.select_convs(3))
  qed (use assms mdns in \<open>auto simp: build_swarm_def new_sync_def\<close>)
qed (use assms in \<open>auto simp: build_swarm_def new_sync_def\<close>)

lemma build_swarm_returns: "build_swarm L keypair \<noteq> Panic \<and> build_swarm L keypair \<noteq> Diverge"
  by (cases "lp_mdns L (lp_peer_id L keypair)"; cases "lp_with_tcp L keypair")
    (simp_all add: build_swarm_def new_sync_def)

end
