(* ===== verification/Spec2Isabelle.thy ===== *)
theory Spec2Isabelle
  imports Quyn_Accept Quyn_Mempool Quyn_Consensus Quyn_Fraud Quyn_VmLaws Quyn_Wallet Quyn_RpcLaws Quyn_ClientLaws Quyn_Selection Quyn_Locks Quyn_Supply Quyn_Journey Quyn_Main Quyn_Http Quyn_Network
begin

text \<open>
  Verification of quyn-core, a blockchain node in Rust.

  The program. A node keeps two RocksDB databases, the chain and the state, and a pool of pending
  transactions. A block is checked against its parent, finality and double signing and then stored
  as the new head (core); validators stake and take turns (consensus); transactions run in the
  interpreter revm on top of the state database (vm); transactions are analysed for fraud and
  contracts and tokens for risk (quyn-intelligence). The JSON-RPC server reads chain and state and
  fills the pool (rpc); the node binary writes a genesis and makes a block every three seconds, and has
  a faucet and a wallet as clients of the server (node, wallet).

  How code is modelled. Integers of a width are words; native arithmetic that overflows is
  \<open>Panic\<close> (the debug profile), arithmetic of \<open>U256\<close> wraps as ruint's does. A fallible function
  gives an \<open>outcome\<close>: \<open>Ok\<close>, \<open>Err\<close> with the error, \<open>Panic\<close>, or \<open>Diverge\<close> for a loop that does not end.
  A function that changes state is an action: it takes the state and gives an outcome and the new
  state, also after an error or a panic, so what a failed call leaves behind is part of the model.
  Handles to one database (\<open>Arc<DB>\<close>) are one store value that is passed along. A \<open>HashMap\<close> that
  is only looked up is a map; one that is walked is a list of entries with the order of the walk an
  argument. A \<open>BTreeMap\<close> is a sorted list. Text is ASCII. Clocks are arguments.

  Code outside the repository is a parameter: RocksDB (\<open>kv\<close>), hashes, hex, RLP and secp256k1 (\<open>ext\<close>),
  bincode (\<open>codec\<close> for bodies, \<open>bincode\<close> for the fields of a transaction), revm, bip32/bip39 and the signing half of secp256k1 (\<open>wallet_ext\<close>),
  \<open>f64\<close> (\<open>f64_ops\<close>). What proofs rely on is stated as the assumptions of locales: a store returns what
  was last written and walks from a key on in the order of the keys (\<open>kv_store\<close>), hex and RLP are decoded to what was encoded
  (\<open>hex_crate\<close>, \<open>radix_crate\<close>, \<open>rlp_crate\<close>), bincode reads back headers and those bodies whose
  transactions all carry their hash (\<open>bincode_crate\<close>), and reads each field of a transaction from what it wrote
  (\<open>bincode_format\<close>), an RLP list starts with a byte from \<open>0xc0\<close> on (\<open>rlp_first_byte\<close>), a signature recovers to its key
  (\<open>ecdsa_crate\<close>), revm reports each account once (\<open>devnet_store\<close>) and
  counts up the nonce of the sender and lowers no nonce (\<open>devnet_nonces\<close>), and percentages and ratios in \<open>f64\<close>
  give a score between 0 and 200 (\<open>f64_scores\<close>). No hash is assumed injective; theorems name the
  collisions they exclude. Every locale is interpreted on executable reference instances
  (\<open>mem_kv\<close>, \<open>ref_ext\<close>, \<open>ref_codec\<close>, \<open>ref_bincode\<close>, \<open>ref_wallet\<close>, \<open>ref_f64\<close>, \<open>ref_node\<close>, \<open>numbered_node\<close>), and the
  witnesses evaluate the model on them.

  Theories, bottom up.

  \<^item> \<open>Quyn_Prelude\<close>, \<open>Quyn_Extern\<close>: outcomes, actions, arithmetic, bytes, strings, sorted maps; the
    parameters, their laws and instances.
  \<^item> \<open>Quyn_Transaction\<close>, \<open>Quyn_Block\<close> (core/src/transaction.rs, block.rs, error.rs): data, hashes, sender
    recovery; lemmas say what each hashed byte string commits to. \<open>Quyn_Bincode\<close>: the derived serde form of a
    transaction, which comes back with a recorded hash and cannot be read without one.
  \<^item> \<open>Quyn_State\<close>, \<open>Quyn_StateLaws\<close> (core/src/state.rs): the state database and its refinement of the abstract
    \<open>state_view\<close> (locale \<open>state_store\<close>); transfers conserve the supply; the state root.
  \<^item> \<open>Quyn_Validation\<close>, \<open>Quyn_Genesis\<close> (core/src/types.rs, validation.rs, genesis.rs): the checks with their exact
    conditions of acceptance; genesis allocations (\<open>genesis_store\<close>) and the fee split.
  \<^item> \<open>Quyn_Chain\<close>, \<open>Quyn_ChainLaws\<close> (core/src/chain.rs, storage): the chain database and its refinement
    of \<open>chain_view\<close> (\<open>chain_store\<close>, well-formed databases \<open>chain_wf\<close>).
  \<^item> \<open>Quyn_Fork\<close>, \<open>Quyn_ForkLaws\<close> (core/src/fork.rs): fork choice. The loops over stored hashes are
    \<open>partial_function (option)\<close>, so not returning is a value; on a forest they are proved to return, and
    to return nearest common ancestors, split paths and the end of the heaviest walk.
  \<^item> \<open>Quyn_Accept\<close> (core/src/chain.rs, \<open>accept_block\<close>): acceptance refines a decision and an update of the
    abstract chain, and a block whose body cannot be read back becomes the head with an error; runs \<open>chain_run\<close> keep the invariant \<open>chain_inv\<close>.
  \<^item> \<open>Quyn_Mempool\<close> (core/src/mempool.rs): the pool, its invariant and its runs. \<open>Quyn_Locks\<close>: its two locks,
    with the operations as threads in any interleaving: which of them serialize, which finish, and the
    one that can deadlock.
  \<^item> \<open>Quyn_Consensus\<close> (consensus/src): validator set, proposer selection, rewards and slashing.
  \<^item> \<open>Quyn_Vm\<close>, \<open>Quyn_VmLaws\<close> (vm/src): the environment, the database adapter, the commit of changes
    and its independence of their order.
  \<^item> \<open>Quyn_RugPull\<close>, \<open>Quyn_Fraud\<close>, \<open>Quyn_Concentration\<close>, \<open>Quyn_Gas\<close>, \<open>Quyn_Reputation\<close>, \<open>Quyn_Selection\<close>
    (quyn-intelligence/src): detectors, scanner, monitors, gas prices, reputation and the selection by
    reputation, which is proved equal to a draw from the list with one ticket per unit of weight.
  \<^item> \<open>Quyn_Json\<close>, \<open>Quyn_RpcTx\<close>, \<open>Quyn_Rpc\<close>, \<open>Quyn_RpcIntel\<close>, \<open>Quyn_RpcServer\<close>, \<open>Quyn_RpcLaws\<close> (rpc/src/server.rs):
    JSON values, transaction formats, one definition per request, the table of methods,
    the rate limiter and the envelope; runs of requests \<open>rpc_run\<close>.
  \<^item> \<open>Quyn_Http\<close> (rpc/src/server.rs, \<open>serve\<close>, and error.rs): the routes, limits and CORS policy given to axum.
  \<^item> \<open>Quyn_Network\<close> (network/src): the set-up of the libp2p swarm, which nothing calls.
  \<^item> \<open>Quyn_Wallet\<close>, \<open>Quyn_Client\<close>, \<open>Quyn_ClientLaws\<close> (wallet/src, node/src/main.rs): keys, signing and the clients, run
    against the modelled server.
  \<^item> \<open>Quyn_Node\<close>, \<open>Quyn_NodeLaws\<close> (node/src): genesis of the devnet and a round of the block producer.
  \<^item> \<open>Quyn_Devnet\<close>, \<open>Quyn_DevnetLaws\<close> (node/src/main.rs, \<open>run_devnet\<close>): the running system, an \<open>inductive\<close> step
    relation with requests between the steps of a round and, between two steps, restarts on the same databases; the
    steps make up the round, and what holds in every state: one list of readable blocks with the head at its end
    or one unreadable block on top, a final history, no transaction twice.
  \<^item> \<open>Quyn_Supply\<close>: with an interpreter that makes no money (locale \<open>devnet_supply\<close>) the sum of all balances never
    grows in a run.
  \<^item> \<open>Quyn_Requests\<close>: the actions of an open round are blind to the pool, so requests served meanwhile do not
    disturb it.
  \<^item> \<open>Quyn_Journey\<close>: one transaction from the request that sends it to the request for its receipt.
  \<^item> \<open>Quyn_Main\<close> (node/src/main.rs, \<open>main\<close>): the commands of the binary.

  Termination. Every definition is total: structural recursion, \<open>function\<close> with a measure, or an
  explicit \<open>Diverge\<close> for the loops of fork choice. No fuel is used.

  Not modelled. Opening databases, parsing the command line, reading environment variables, log output and
  sleeping have no logic of their own. Each action of a component is one step: a process that stops between two
  writes of one action (\<open>accept_block\<close> makes several) is not modelled. What axum and libp2p do with their configuration is theirs. The
  \<open>tools\<close> crate prints that it is not implemented. The contracts (Solidity), the SDK and the tests are not
  part of the Rust implementation.
\<close>

end
